(* ===== verification/Prelude.thy ===== *)
theory Prelude
  imports Main "HOL-Library.Word"
begin

text \<open>
  The shared layer of the development: machine integers and bytes as the C sources use
  them, byte-string slices, decimal numbers, the collections of facts that the component theories fill and
  consume, and the generic list and option lemmas that carry their proofs.

  \<^item> \<open>u8\<close>, \<open>u16\<close>, \<open>u32\<close> are the \<open>uint8_t\<close>, \<open>uint16_t\<close>, \<open>uint32_t\<close> of the sources; arithmetic on
    them wraps. A byte written as a character literal in C is \<open>ch\<close> of that literal.
  \<^item> A C pointer that may be \<open>NULL\<close> is an \<open>option\<close>; an operation that would dereference \<open>NULL\<close>
    or leave the bounds of an object returns \<open>None\<close>.
\<close>

unbundle bit_operations_syntax

named_theorems op_defs \<open>definitions of the operations of a component\<close>
named_theorems inv_defs \<open>definitions of the invariants of a component\<close>
named_theorems frame_simps \<open>what an operation leaves unchanged\<close>

type_synonym u8 = "8 word"
type_synonym u16 = "16 word"
type_synonym u32 = "32 word"

abbreviation ch :: "char \<Rightarrow> u8" where
  "ch c \<equiv> of_char c"

definition bytes :: "string \<Rightarrow> u8 list" where
  "bytes s = map of_char s"

lemma bytes_simps [simp]:
  "bytes [] = []"
  "bytes (c # s) = of_char c # bytes s"
  by (simp_all add: bytes_def)

section \<open>Slices of a buffer\<close>

text \<open>The \<open>len\<close> bytes of \<open>buf\<close> from offset \<open>off\<close> on.\<close>

definition slice :: "'a list \<Rightarrow> nat \<Rightarrow> nat \<Rightarrow> 'a list" where
  "slice buf off len = take len (drop off buf)"

lemma slice_0 [simp]: "slice buf off 0 = []"
  by (simp add: slice_def)

lemma length_slice: "off + len \<le> length buf \<Longrightarrow> length (slice buf off len) = len"
  by (simp add: slice_def)

lemma slice_Suc: "off + len < length buf \<Longrightarrow> slice buf off (Suc len) = slice buf off len @ [buf ! (off + len)]"
  by (simp add: slice_def take_Suc_conv_app_nth)

lemma slice_append_mid: "length xs = off \<Longrightarrow> length ys = len \<Longrightarrow> slice (xs @ ys @ zs) off len = ys"
  by (simp add: slice_def)

lemma set_slice: "x \<in> set (slice buf off len) \<Longrightarrow> x \<in> set buf"
  by (auto simp: slice_def dest: in_set_takeD in_set_dropD)

lemma nth_slice: "i < len \<Longrightarrow> off + len \<le> length buf \<Longrightarrow> slice buf off len ! i = buf ! (off + i)"
  by (simp add: slice_def)

section \<open>Lists\<close>

lemma in_set_tlD: "x \<in> set (tl xs) \<Longrightarrow> x \<in> set xs"
  by (cases xs) auto

lemma snoc_cases: obtains y ys where "xs @ [x] = y # ys"
  by (cases xs) auto

lemma cons_cases: obtains y ys where "x # xs = ys @ [y]"
  by (metis append_butlast_last_id list.distinct(1))

section \<open>Options as computations that may fail\<close>

lemma bind_Some_iff [simp]:
  "Option.bind m f = Some y \<longleftrightarrow> (\<exists>x. m = Some x \<and> f x = Some y)"
  by (cases m) auto

section \<open>Words and naturals\<close>

lemma unat_of_nat_u16: "n < 65536 \<Longrightarrow> unat (of_nat n :: u16) = n"
  by (simp add: unat_of_nat take_bit_eq_mod)

lemma unat_Suc_u16: "unat (w :: u16) + 1 < 65536 \<Longrightarrow> unat (w + 1) = Suc (unat w)"
  by (simp add: unat_word_ariths)

lemma unat_u8_less [simp]: "unat (w :: u8) < 256"
  using unsigned_less [where w = w and 'a = nat] by simp

lemma u8_xor_cancel [simp]: "(a XOR b) XOR b = (a :: u8)"
  by (simp add: xor.assoc)

section \<open>Decimal numbers\<close>

text \<open>The text that \<open>printf\<close> writes for \<open>%u\<close>.\<close>

function dec_digits :: "nat \<Rightarrow> u8 list" where
  "dec_digits n = (if n < 10 then [of_nat (48 + n)] else dec_digits (n div 10) @ [of_nat (48 + n mod 10)])"
  by pat_completeness auto
termination by (relation "measure id") auto

declare dec_digits.simps [simp del]

lemma length_dec_digits: "n < 10 ^ k \<Longrightarrow> 0 < k \<Longrightarrow> length (dec_digits n) \<le> k"
proof (induction n arbitrary: k rule: dec_digits.induct)
  case (1 n)
  show ?case
  proof (cases "n < 10")
    case False
    then obtain j where k: "k = Suc j" "0 < j" using "1.prems" by (cases k; cases "k - 1") auto
    have "n div 10 < 10 ^ j" using "1.prems" k by (simp add: div_less_iff_less_mult mult.commute)
    from "1.IH" [OF False this k(2)] False k show ?thesis by (simp add: dec_digits.simps [of n])
  qed (use "1.prems" in \<open>simp add: dec_digits.simps\<close>)
qed

end
