(* ===== verification/Build_Examples.thy ===== *)
theory Build_Examples
  imports Prelude Complex_Main
begin

text \<open>
  The C files of the examples that show how to build and call C: the adder called from Python (\<open>Python/C+Python/add.c\<close>), the compression step called from Go
  (\<open>go_test/cgo/cgo2.c\<close>), the programs of \<open>cmakefile\<close>, and \<open>gohello/main.c\<close>.
\<close>

section \<open>The adder\<close>

text \<open>Signed overflow is undefined, \<open>None\<close>. A \<open>float\<close> is a real number with the rounding \<open>rnd\<close> of the machine.\<close>

definition add_int :: "32 word \<Rightarrow> 32 word \<Rightarrow> 32 word option" where
  "add_int num1 num2 = (let r = sint num1 + sint num2 in if - (2 ^ 31) \<le> r \<and> r < 2 ^ 31 then Some (word_of_int r) else None)"

definition add_float :: "(real \<Rightarrow> real) \<Rightarrow> real \<Rightarrow> real \<Rightarrow> real" where
  "add_float rnd num1 num2 = rnd (num1 + num2)"

lemma add_int_exact: "add_int a b = Some c \<Longrightarrow> sint c = sint a + sint b"
  by (auto simp: add_int_def Let_def sint_word_ariths signed_take_bit_int_eq_self split: if_splits)

text \<open>The sum that the machine computes is the exact one whenever that is defined; opposite signs never overflow.\<close>

lemma add_int_machine: "add_int a b = Some c \<Longrightarrow> c = a + b"
  by (auto simp: add_int_def Let_def split: if_splits)

lemma add_int_opposite: "sint a < 0 \<Longrightarrow> 0 \<le> sint b \<Longrightarrow> add_int a b = Some (a + b)"
  using sint_ge [of a] sint_lt [of b] by (simp add: add_int_def Let_def)

section \<open>The compression step\<close>

text \<open>
  The fields of \<open>bz_stream\<close> that the step uses, pointers as addresses; the rest of the stream is \<open>internal\<close>. \<open>BZ2_bzCompress\<close> is a parameter. \<open>bz_laws\<close> is what
  the manual of libbzip2 says of it: it moves the pointers by as much as it lowers the counters.
\<close>

record 'z bz_stream =
  next_in :: nat
  avail_in :: u32
  next_out :: nat
  avail_out :: u32
  internal :: 'z

type_synonym 'z bz_compress = "'z bz_stream \<Rightarrow> int \<Rightarrow> int \<times> 'z bz_stream"

definition bz_laws :: "'z bz_compress \<Rightarrow> bool" where
  "bz_laws BZ2_bzCompress \<longleftrightarrow> (\<forall>s action r s'. BZ2_bzCompress s action = (r, s') \<longrightarrow>
    avail_in s' \<le> avail_in s \<and> avail_out s' \<le> avail_out s \<and>
    next_in s' = next_in s + (unat (avail_in s) - unat (avail_in s')) \<and> next_out s' = next_out s + (unat (avail_out s) - unat (avail_out s')))"

text \<open>The result, the new values of \<open>*inlen\<close> and \<open>*outlen\<close>, and the stream.\<close>

definition bz2compress :: "'z bz_compress \<Rightarrow> 'z bz_stream \<Rightarrow> int \<Rightarrow> nat \<Rightarrow> u32 \<Rightarrow> nat \<Rightarrow> u32 \<Rightarrow> int \<times> u32 \<times> u32 \<times> 'z bz_stream" where
  "bz2compress BZ2_bzCompress s action inp inlen out outlen =
    (case BZ2_bzCompress (s\<lparr>next_in := inp, avail_in := inlen, next_out := out, avail_out := outlen\<rparr>) action of
       (r, s') \<Rightarrow> (r, inlen - avail_in s', outlen - avail_out s', s'))"

text \<open>
  Afterwards the two lengths are the numbers of bytes consumed and produced, never more than were given, and input and output go on behind them: a caller that drops
  \<open>inlen\<close> bytes of its input and writes \<open>outlen\<close> bytes of its buffer loses and repeats nothing.
\<close>

lemma bz2compress_counts:
  assumes "bz_laws bz" "bz2compress bz s action inp inlen out outlen = (r, inlen', outlen', s')"
  shows "inp + unat inlen' = next_in s'" "out + unat outlen' = next_out s'" "inlen' \<le> inlen" "outlen' \<le> outlen"
    "unat inlen' + unat (avail_in s') = unat inlen" "unat outlen' + unat (avail_out s') = unat outlen"
proof -
  let ?s = "s\<lparr>next_in := inp, avail_in := inlen, next_out := out, avail_out := outlen\<rparr>"
  obtain s1 where c: "bz ?s action = (r, s1)" "s' = s1" "inlen' = inlen - avail_in s1" "outlen' = outlen - avail_out s1"
    using assms(2) by (auto simp: bz2compress_def split: prod.splits)
  have l: "avail_in s1 \<le> inlen" "avail_out s1 \<le> outlen" "next_in s1 = inp + (unat inlen - unat (avail_in s1))"
    "next_out s1 = out + (unat outlen - unat (avail_out s1))"
    using assms(1) c(1) unfolding bz_laws_def by fastforce+
  have u: "unat inlen' = unat inlen - unat (avail_in s1)" "unat outlen' = unat outlen - unat (avail_out s1)"
    using c l(1,2) by (simp_all add: unat_sub)
  show "inp + unat inlen' = next_in s'" "out + unat outlen' = next_out s'" using u l c(2) by simp_all
  show "inlen' \<le> inlen" "outlen' \<le> outlen" using u by (simp_all add: word_le_nat_alt)
  show "unat inlen' + unat (avail_in s') = unat inlen" "unat outlen' + unat (avail_out s') = unat outlen"
    using u l(1,2) c(2) by (simp_all add: word_le_nat_alt)
qed

text \<open>The laws can hold: a compressor that copies as much as fits.\<close>

definition copying :: "unit bz_compress" where
  "copying s action = (let n = min (avail_in s) (avail_out s) in
    (1, s\<lparr>next_in := next_in s + unat n, avail_in := avail_in s - n, next_out := next_out s + unat n, avail_out := avail_out s - n\<rparr>))"

lemma copying_laws: "bz_laws copying"
proof -
  have "b - min a b \<le> b \<and> a - min a b \<le> a \<and> unat a - unat (a - min a b) = unat (min a b) \<and> unat b - unat (b - min a b) = unat (min a b)"
    for a b :: u32
    by (auto simp: min_def unat_sub word_le_nat_alt)
  then show ?thesis by (auto simp: bz_laws_def copying_def Let_def)
qed

section \<open>Programs\<close>

text \<open>What the programs of \<open>cmakefile\<close> print; the two addresses are parameters, and the first line of pointers takes the number 1 for one.\<close>

datatype printed = Line string | Pointers nat nat

definition print_c :: "printed list" where
  "print_c = [Line ''print other file message'']"

definition share_print :: "printed list" where
  "share_print = [Line ''print share message'']"

definition exe_main :: "nat \<Rightarrow> printed list" where
  "exe_main addr_b = [Line ''run function''] @ print_c @ [Pointers 0 1, Pointers addr_b addr_b]"

definition share_test_main :: "printed list" where
  "share_test_main = [Line ''run share function''] @ share_print"

text \<open>A store through a pointer; the program of \<open>gohello\<close> stores through \<open>NULL\<close> and cannot succeed.\<close>

definition store :: "nat \<Rightarrow> u8 \<Rightarrow> (nat \<rightharpoonup> u8) \<Rightarrow> (nat \<rightharpoonup> u8) option" where
  "store a v mem = (if a \<noteq> 0 \<and> a \<in> dom mem then Some (mem(a \<mapsto> v)) else None)"

definition gohello_main :: "(nat \<rightharpoonup> u8) \<Rightarrow> (nat \<rightharpoonup> u8) option" where
  "gohello_main mem = store 0 (ch CHR ''1'') mem"

lemma gohello_main_faults: "gohello_main mem = None"
  by (simp add: gohello_main_def store_def)

end
