(* ===== verification/Page_Align.thy ===== *)
theory Page_Align
  imports Prelude
begin

text \<open>
  The page macros of \<open>C/malloc_test/page.h\<close>. An address is a word of any length; \<open>size\<close> is a power of two of the same type. With a
  32-bit address the constant \<open>PAGE_SIZE\<close> still is an \<open>unsigned long\<close>, so that the sum is taken at 64 bits and only the
  inner cast at 32: that case is a definition of its own.
  The lemmas say that the results are the multiples of the size next to the address, and what happens where the sum wraps.
\<close>

section \<open>The macros\<close>

definition PAGE_SHIFT :: nat where
  "PAGE_SHIFT = 12"

definition PAGE_SIZE :: "64 word" where
  "PAGE_SIZE = push_bit PAGE_SHIFT 1"

definition PAGE_MASK :: "64 word" where
  "PAGE_MASK = NOT (PAGE_SIZE - 1)"

definition ALIGN_UP :: "'a::len word \<Rightarrow> 'a word \<Rightarrow> 'a word" where
  "ALIGN_UP addr sz = (addr + (sz - 1)) AND NOT (sz - 1)"

definition ALIGN_DOWN :: "'a::len word \<Rightarrow> 'a word \<Rightarrow> 'a word" where
  "ALIGN_DOWN addr sz = addr AND NOT (sz - 1)"

definition ALIGN :: "'a::len word \<Rightarrow> 'a word \<Rightarrow> 'a word" where
  "ALIGN addr sz = ALIGN_UP addr sz"

definition PAGE_ALIGN :: "64 word \<Rightarrow> 64 word" where
  "PAGE_ALIGN addr = ALIGN addr PAGE_SIZE"

definition PAGE_ALIGN_uint :: "32 word \<Rightarrow> 64 word" where
  "PAGE_ALIGN_uint addr = (ucast addr + (PAGE_SIZE - 1)) AND ucast (NOT ((ucast PAGE_SIZE :: 32 word) - 1))"

section \<open>Clearing the low bits\<close>

lemma and_not_mask: "(x :: 'a::len word) AND NOT (mask k) = x - take_bit k x"
proof -
  have "x AND NOT (mask k) = push_bit k (drop_bit k x)"
    by (rule bit_eqI) (auto simp: bit_simps)
  then show ?thesis using bits_ident [of k x] by (metis add_diff_cancel_right')
qed

lemma take_bit_le_self: "take_bit k (x :: 'a::len word) \<le> x"
  by (simp add: word_le_nat_alt unsigned_take_bit_eq)

lemma unat_and_not_mask: "unat ((x :: 'a::len word) AND NOT (mask k)) = unat x div 2 ^ k * 2 ^ k"
proof -
  have "unat (x AND NOT (mask k)) = unat x - unat x mod 2 ^ k"
    by (simp only: and_not_mask unat_sub [OF take_bit_le_self] unsigned_take_bit_eq) (simp add: take_bit_eq_mod)
  then show ?thesis by (simp add: minus_mod_eq_div_mult)
qed

lemma unat_ALIGN_DOWN: "unat (ALIGN_DOWN (a :: 'a::len word) (2 ^ k)) = unat a div 2 ^ k * 2 ^ k"
  unfolding ALIGN_DOWN_def mask_eq_exp_minus_1 [symmetric] by (rule unat_and_not_mask)

lemma unat_mask_word: "k < LENGTH('a) \<Longrightarrow> unat (mask k :: 'a::len word) = 2 ^ k - 1"
  by (simp only: unsigned_take_bit_eq unsigned_minus_1_eq_mask take_bit_of_mask min_def flip: take_bit_minus_one_eq_mask)
    (simp add: mask_eq_exp_minus_1)

lemma mod_one_wrap: "n \<le> x \<Longrightarrow> x < n + k \<Longrightarrow> k \<le> n \<Longrightarrow> x mod n < (k :: nat)"
  by (simp add: le_mod_geq)

lemma unat_ALIGN_UP:
  assumes "k < LENGTH('a)"
  shows "unat (ALIGN_UP (a :: 'a::len word) (2 ^ k)) =
    (if unat a + (2 ^ k - 1) < 2 ^ LENGTH('a) then (unat a + (2 ^ k - 1)) div 2 ^ k * 2 ^ k else 0)"
proof -
  let ?x = "unat a + (2 ^ k - 1)"
  have "unat (ALIGN_UP a (2 ^ k)) = unat (a + mask k) div 2 ^ k * 2 ^ k"
    unfolding ALIGN_UP_def mask_eq_exp_minus_1 [symmetric] by (rule unat_and_not_mask)
  also have "unat (a + mask k) = ?x mod 2 ^ LENGTH('a)"
    by (simp add: unat_word_ariths unat_mask_word [OF assms])
  also have "\<dots> div 2 ^ k * 2 ^ k = (if ?x < 2 ^ LENGTH('a) then ?x div 2 ^ k * 2 ^ k else 0)"
  proof (cases "?x < 2 ^ LENGTH('a)")
    case False
    have "?x < 2 ^ LENGTH('a) + 2 ^ k" using unsigned_less [where w = a and 'a = nat] by (simp add: less_imp_diff_less)
    then have "?x mod 2 ^ LENGTH('a) < 2 ^ k"
      using False assms by (intro mod_one_wrap) auto
    with False show ?thesis by simp
  qed simp
  finally show ?thesis .
qed

section \<open>Multiples next to an address\<close>

text \<open>\<open>up k n\<close> is the multiple of \<open>2^k\<close> at or after \<open>n\<close>, in unbounded numbers.\<close>

definition up :: "nat \<Rightarrow> nat \<Rightarrow> nat" where
  "up k n = (n + (2 ^ k - 1)) div 2 ^ k * 2 ^ k"

lemma up_ge: "n \<le> up k n"
proof -
  have "x < x div d * d + d" if "0 < d" for x d :: nat
    using mod_less_divisor [OF that, of x] div_mult_mod_eq [of x d] by linarith
  from this [of "2 ^ k" "n + (2 ^ k - 1)"] show ?thesis by (simp add: up_def)
qed

lemma up_least:
  assumes "n \<le> m" "2 ^ k dvd m"
  shows "up k n \<le> m"
proof -
  from assms obtain q where q: "m = q * 2 ^ k" by (auto elim!: dvdE simp: mult.commute)
  have "0 < (2 :: nat) ^ k" by simp
  then have "n + (2 ^ k - 1) < 2 ^ k + q * 2 ^ k" using assms(1) unfolding q by linarith
  then have "(n + (2 ^ k - 1)) div 2 ^ k < Suc q" by (simp add: div_less_iff_less_mult)
  then show ?thesis by (simp add: up_def q)
qed

lemma PAGE_SIZE_exp: "PAGE_SIZE = 2 ^ 12"
  by (simp add: PAGE_SIZE_def PAGE_SHIFT_def push_bit_eq_mult)

lemma PAGE_MASK_val: "PAGE_MASK = 2 ^ 64 - 2 ^ 12"
  by (simp add: PAGE_MASK_def PAGE_SIZE_exp)

lemma unat_PAGE_ALIGN: "unat (PAGE_ALIGN a) = (if a \<le> PAGE_MASK then up 12 (unat a) else 0)"
proof -
  have "a \<le> PAGE_MASK \<longleftrightarrow> unat a + (2 ^ 12 - 1) < 2 ^ 64" by (simp add: PAGE_MASK_val word_le_nat_alt) presburger
  then show ?thesis
    by (simp add: PAGE_ALIGN_def ALIGN_def PAGE_SIZE_exp unat_ALIGN_UP [of 12 a, simplified] up_def)
qed

lemma and_ucast: "(y :: 64 word) AND ucast (m :: 32 word) = ucast (ucast y AND m)"
  by (rule bit_word_eqI) (auto simp: bit_simps dest: bit_imp_le_length)

lemma ucast_add_32: "ucast (ucast (a :: 32 word) + b :: 64 word) = a + ucast b"
  by (simp add: word_unat_eq_iff unsigned_ucast_eq unat_word_ariths take_bit_eq_mod mod_mod_cancel mod_simps)

lemma PAGE_ALIGN_uint_ucast: "PAGE_ALIGN_uint a = ucast (ALIGN a (2 ^ 12))"
proof -
  have s: "PAGE_SIZE - 1 = mask 12" "(ucast PAGE_SIZE :: 32 word) - 1 = mask 12"
    by (simp_all add: PAGE_SIZE_exp mask_eq_exp_minus_1)
  have "PAGE_ALIGN_uint a = ucast ((a + mask 12) AND NOT (mask 12))"
    unfolding PAGE_ALIGN_uint_def s and_ucast ucast_add_32 by (simp add: ucast_mask_eq)
  then show ?thesis by (simp add: ALIGN_def ALIGN_UP_def mask_eq_exp_minus_1)
qed

lemma dvd_up: "2 ^ k dvd up k n"
  by (simp add: up_def)

lemma up_multiple: "2 ^ k dvd n \<Longrightarrow> up k n = n"
  by (rule antisym) (simp_all add: up_ge up_least)

text \<open>
  C40. Rounding an address up to a page: the result is a multiple of the page size and rounding it again changes nothing; for an
  address up to the last page boundary it is the least page boundary at or after the address; for an address behind it the sum
  wraps and the result is 0. Rounding down gives the last boundary at or before the address. For a 32-bit address the macro gives the
  value that rounding at 32 bits gives, although it adds at 64.
\<close>

theorem page_align_boundaries:
  "4096 dvd unat (PAGE_ALIGN a) \<and> PAGE_ALIGN (PAGE_ALIGN a) = PAGE_ALIGN a \<and>
   (if a \<le> PAGE_MASK then a \<le> PAGE_ALIGN a \<and> (\<forall>b. a \<le> b \<and> 4096 dvd unat b \<longrightarrow> PAGE_ALIGN a \<le> b) else PAGE_ALIGN a = 0) \<and>
   4096 dvd unat (ALIGN_DOWN a PAGE_SIZE) \<and> ALIGN_DOWN a PAGE_SIZE \<le> a \<and> unat a < unat (ALIGN_DOWN a PAGE_SIZE) + 4096 \<and>
   PAGE_ALIGN_uint c = ucast (ALIGN c 4096)"
proof -
  have d: "4096 dvd unat (PAGE_ALIGN a)" using dvd_up [of 12] by (simp add: unat_PAGE_ALIGN)
  moreover have "PAGE_ALIGN (PAGE_ALIGN a) = PAGE_ALIGN a"
  proof (cases "PAGE_ALIGN a \<le> PAGE_MASK")
    case True
    with d show ?thesis using up_multiple [of 12] by (simp add: word_unat_eq_iff unat_PAGE_ALIGN [of "PAGE_ALIGN a"])
  next
    case False
    then have "2 ^ 64 - 4096 < unat (PAGE_ALIGN a)" by (simp add: PAGE_MASK_val word_le_nat_alt)
    moreover have "unat (PAGE_ALIGN a) < 2 ^ 64" using unsigned_less [where w = "PAGE_ALIGN a" and 'a = nat] by simp
    ultimately show ?thesis using d by (auto elim!: dvdE)
  qed
  moreover have "if a \<le> PAGE_MASK then a \<le> PAGE_ALIGN a \<and> (\<forall>b. a \<le> b \<and> 4096 dvd unat b \<longrightarrow> PAGE_ALIGN a \<le> b) else PAGE_ALIGN a = 0"
    using up_ge [of "unat a" 12] up_least [of "unat a" _ 12] by (auto simp: word_le_nat_alt word_unat_eq_iff unat_PAGE_ALIGN)
  moreover have "unat (ALIGN_DOWN a PAGE_SIZE) = unat a div 4096 * 4096"
    using unat_ALIGN_DOWN [of a 12] by (simp add: PAGE_SIZE_exp)
  moreover have "PAGE_ALIGN_uint c = ucast (ALIGN c 4096)"
    using PAGE_ALIGN_uint_ucast [of c] by simp
  ultimately show ?thesis
    using div_mult_mod_eq [of "unat a" 4096] by (auto simp: word_le_nat_alt)
qed

theorem page_align_boundaries_witness:
  "PAGE_ALIGN 5000 = 8192 \<and> PAGE_ALIGN 5000 \<le> 12288 \<and> PAGE_ALIGN 18446744073709551615 = 0 \<and> PAGE_ALIGN_uint 4294967295 = 0"
  using page_align_boundaries [of 5000 0] page_align_boundaries [of 18446744073709551615 4294967295]
  by (simp add: PAGE_MASK_val PAGE_ALIGN_def ALIGN_def ALIGN_UP_def PAGE_SIZE_exp)

end
