(* ===== verification/Malloc_Test.thy ===== *)
theory Malloc_Test
  imports Prelude "HOL-Library.Multiset" "HOL-Library.Monad_Syntax"
begin

text \<open>
  The experiments with the system allocator in \<open>C/malloc_test/main.c\<close>. The state has the blocks that are allocated, with their sizes, and
  everything the program has done so far: calls of the allocator and what it prints. Which address an allocation gets, or that it fails,
  may depend on all of this and is a parameter, with the law that a new block lies outside the allocated ones. Releasing an address that is
  not allocated, or writing through \<open>NULL\<close> or past a block, is \<open>None\<close>.

  All experiments but one release exactly what they allocate, in whatever order they do it and whichever allocations fail; the exception
  is the one that \<open>main\<close> runs.
\<close>

section \<open>The allocator\<close>

type_synonym addr = nat

datatype ev =
  Malloc nat "addr option" | Free "addr option" | Malloc_trim int | Mallopt int int | Malloc_info | Strcpy addr string
| System_CMD | Fflush | Getchar | Pause
| Out_failed | Out_ok "addr option" | Out_freed | Out_start | Out_grow | Out_free_second | Out_free_first | Out_heap_ok "addr option"
| Out_nth_ok nat "addr option" | Out_rule | Out_nth_freed nat "addr option" | Out_nth_freed_trim nat "addr option" int
| Out_all_freed | Out_trim int | Out_threshold | Out_pid int

record mstate =
  blocks :: "addr \<rightharpoonup> nat"
  hist :: "ev list"

record allocator =
  pick :: "mstate \<Rightarrow> nat \<Rightarrow> addr option"
  trim :: "mstate \<Rightarrow> int"
  pid :: int

text \<open>A new block is not at \<open>NULL\<close> and shares no byte with an allocated one.\<close>

definition allocator_laws :: "allocator \<Rightarrow> bool" where
  "allocator_laws A \<longleftrightarrow> (\<forall>h n a. pick A h n = Some a \<longrightarrow> 0 < a \<and> a \<notin> dom (blocks h) \<and>
    (\<forall>b m. blocks h b = Some m \<longrightarrow> a + n \<le> b \<or> b + m \<le> a))"

definition say :: "ev \<Rightarrow> mstate \<Rightarrow> mstate" where
  "say e h = h\<lparr>hist := hist h @ [e]\<rparr>"

definition malloc :: "allocator \<Rightarrow> nat \<Rightarrow> mstate \<Rightarrow> addr option \<times> mstate" where
  "malloc A n h = (let p = pick A h n in
    (p, say (Malloc n p) (case p of None \<Rightarrow> h | Some a \<Rightarrow> h\<lparr>blocks := (blocks h)(a \<mapsto> n)\<rparr>)))"

definition free :: "addr option \<Rightarrow> mstate \<Rightarrow> mstate option" where
  "free p h = (case p of None \<Rightarrow> Some (say (Free p) h)
    | Some a \<Rightarrow> if a \<in> dom (blocks h) then Some (say (Free p) (h\<lparr>blocks := (blocks h)(a := None)\<rparr>)) else None)"

definition malloc_trim :: "allocator \<Rightarrow> mstate \<Rightarrow> int \<times> mstate" where
  "malloc_trim A h = (trim A h, say (Malloc_trim (trim A h)) h)"

definition strcpy_to :: "addr option \<Rightarrow> string \<Rightarrow> mstate \<Rightarrow> mstate option" where
  "strcpy_to p s h = do { a \<leftarrow> p; n \<leftarrow> blocks h a; if length s + 1 \<le> n then Some (say (Strcpy a s) h) else None }"

text \<open>The allocation with its check, as it stands in most experiments: a failure is printed and the program goes on.\<close>

definition malloc_checked :: "allocator \<Rightarrow> nat \<Rightarrow> mstate \<Rightarrow> addr option \<times> mstate" where
  "malloc_checked A n h = (let (p, h1) = malloc A n h in (p, if p = None then say Out_failed h1 else h1))"

section \<open>The experiments\<close>

definition MAX_N :: nat where
  "MAX_N = 10"

definition MMAP_DATA_SIZE :: nat where
  "MMAP_DATA_SIZE = 128 * 1024"

definition HEAP_DATA_SIZE :: nat where
  "HEAP_DATA_SIZE = 64 * 1024"

definition malloc2heapOrMmap :: "allocator \<Rightarrow> mstate \<Rightarrow> mstate option" where
  "malloc2heapOrMmap A h = (let (arr, h1) = malloc_checked A (12 * 1024) h in do {
    h2 \<leftarrow> free arr (say Getchar (say (Out_ok arr) h1));
    Some (say Out_freed h2) })"

definition heapGrow :: "allocator \<Rightarrow> mstate \<Rightarrow> mstate option" where
  "heapGrow A h = (let (aa, h1) = malloc A (127 * 1024) (say Out_start h);
     (bb, h2) = malloc A (127 * 1024) (say Out_grow (say Getchar (say (Out_ok aa) h1))) in do {
    h3 \<leftarrow> free bb (say Out_free_second (say Getchar (say (Out_ok bb) h2)));
    free aa (say Out_free_first (say Getchar h3)) })"

definition malloc1 :: "allocator \<Rightarrow> mstate \<Rightarrow> mstate option" where
  "malloc1 A h = (let (arr, h1) = malloc_checked A 1 h in do {
    h2 \<leftarrow> free arr (say Getchar (say (Out_ok arr) h1));
    Some (say Out_freed h2) })"

text \<open>Printing the map of the process: the output is flushed before and after the command.\<close>

definition show_map :: "mstate \<Rightarrow> mstate" where
  "show_map h = say Fflush (say System_CMD (say Fflush h))"

text \<open>The loop that fills \<open>arr\<close>, with the size of each element.\<close>

fun fill_arr :: "allocator \<Rightarrow> (nat \<Rightarrow> nat) \<Rightarrow> nat list \<Rightarrow> mstate \<Rightarrow> addr option list \<times> mstate" where
  "fill_arr A sz [] h = ([], h)"
| "fill_arr A sz (i # is) h = (let (p, h1) = malloc_checked A (sz i) h;
     (ps, h2) = fill_arr A sz is (show_map (say (Out_nth_ok i p) h1)) in (p # ps, h2))"

definition report :: "mstate \<Rightarrow> mstate" where
  "report h = say Fflush (say Out_rule (say Getchar (say Malloc_info (say Out_rule h))))"

text \<open>The loops that release \<open>arr\<close>: over the pairs of index and pointer, in the order in which they are visited.\<close>

fun free_arr :: "(nat \<times> addr option) list \<Rightarrow> mstate \<Rightarrow> mstate option" where
  "free_arr [] h = Some h"
| "free_arr ((i, p) # ps) h = do { h1 \<leftarrow> free p h; free_arr ps (show_map (say (Out_nth_freed i p) h1)) }"

fun free_arr_trim :: "allocator \<Rightarrow> (nat \<times> addr option) list \<Rightarrow> mstate \<Rightarrow> mstate option" where
  "free_arr_trim A [] h = Some h"
| "free_arr_trim A ((i, p) # ps) h = do { h1 \<leftarrow> free p h; let (ret, h2) = malloc_trim A h1;
     free_arr_trim A ps (show_map (say (Out_nth_freed_trim i p ret) h2)) }"

text \<open>In \<open>mmap_heap\<close> the call of \<open>malloc_trim\<close> is commented out and \<open>ret\<close> stays -1.\<close>

fun free_arr_ret :: "(nat \<times> addr option) list \<Rightarrow> mstate \<Rightarrow> mstate option" where
  "free_arr_ret [] h = Some h"
| "free_arr_ret ((i, p) # ps) h = do { h1 \<leftarrow> free p h; free_arr_ret ps (show_map (say (Out_nth_freed_trim i p (-1)) h1)) }"

definition first_block :: "allocator \<Rightarrow> mstate \<Rightarrow> addr option \<times> mstate" where
  "first_block A h = (let (p, h1) = malloc_checked A HEAP_DATA_SIZE h in (p, say Getchar (show_map (say (Out_heap_ok p) h1))))"

definition last_free :: "addr option \<Rightarrow> mstate \<Rightarrow> mstate option" where
  "last_free p h = do { h1 \<leftarrow> free p h; Some (say Out_freed (say System_CMD h1)) }"

definition malloc_free :: "allocator \<Rightarrow> mstate \<Rightarrow> mstate option" where
  "malloc_free A h0 = (let (h, h1) = first_block A h0; (arr, h2) = fill_arr A (\<lambda>_. HEAP_DATA_SIZE) [0..<MAX_N] h1 in do {
    h3 \<leftarrow> free_arr (rev (zip [0..<MAX_N] arr)) (report h2);
    last_free h h3 })"

definition mtrim :: "allocator \<Rightarrow> mstate \<Rightarrow> mstate option" where
  "mtrim A h0 = (let (h, h1) = first_block A h0; (arr, h2) = fill_arr A (\<lambda>_. HEAP_DATA_SIZE) [0..<MAX_N] h1 in do {
    h3 \<leftarrow> free_arr_trim A (zip [0..<MAX_N] arr) (report h2);
    last_free h h3 })"

definition mmap_size :: "nat \<Rightarrow> nat" where
  "mmap_size i = (if i < MAX_N div 2 then HEAP_DATA_SIZE else MMAP_DATA_SIZE)"

definition mmap_heap :: "allocator \<Rightarrow> mstate \<Rightarrow> mstate option" where
  "mmap_heap A h0 = (let (h, h1) = first_block A h0; (arr, h2) = fill_arr A mmap_size [0..<MAX_N] h1 in do {
    h3 \<leftarrow> free_arr_ret (rev (zip [0..<MAX_N] arr)) (report h2);
    last_free h h3 })"

fun mf_loop :: "allocator \<Rightarrow> nat \<Rightarrow> mstate \<Rightarrow> mstate option" where
  "mf_loop A 0 h = Some h"
| "mf_loop A (Suc n) h = (let (arr, h1) = malloc_checked A (132 * 1024) h in do { h2 \<leftarrow> free arr h1; mf_loop A n h2 })"

definition mmap_range_mf :: "allocator \<Rightarrow> mstate \<Rightarrow> mstate option" where
  "mmap_range_mf A h = do {
    h1 \<leftarrow> mf_loop A 1000 (say Getchar (say Out_start h));
    let (ret, h2) = malloc_trim A (say Getchar (say Out_all_freed h1));
    Some (say (Out_trim ret) h2) }"

fun alloc_quiet :: "allocator \<Rightarrow> (nat \<Rightarrow> nat) \<Rightarrow> nat list \<Rightarrow> mstate \<Rightarrow> addr option list \<times> mstate" where
  "alloc_quiet A sz [] h = ([], h)"
| "alloc_quiet A sz (i # is) h = (let (p, h1) = malloc_checked A (sz i) h; (ps, h2) = alloc_quiet A sz is h1 in (p # ps, h2))"

fun free_quiet :: "addr option list \<Rightarrow> mstate \<Rightarrow> mstate option" where
  "free_quiet [] h = Some h"
| "free_quiet (p # ps) h = do { h1 \<leftarrow> free p h; free_quiet ps h1 }"

definition mallocHeapRandom :: "allocator \<Rightarrow> mstate \<Rightarrow> mstate option" where
  "mallocHeapRandom A h = (let (arr, h1) = alloc_quiet A (\<lambda>i. (i + 1) * 1024) [0..<MAX_N] h in free_quiet (rev arr) h1)"

definition mallocHeapBins :: "allocator \<Rightarrow> mstate \<Rightarrow> mstate option" where
  "mallocHeapBins A h = (let (arr0, h1) = malloc A (10 * 1024) h; (arr1, h2) = malloc A (1 * 1024) h1;
     (arr2, h3) = malloc A 124 h2; (arr3, h4) = malloc A 17 h3 in do {
    h5 \<leftarrow> free arr2 h4; h6 \<leftarrow> free arr1 h5; h7 \<leftarrow> free arr0 h6;
    let (arr2', h8) = malloc A 100 h7;
    h9 \<leftarrow> free arr3 h8; free arr2' h9 })"

fun alloc_strcpy :: "allocator \<Rightarrow> nat \<Rightarrow> mstate \<Rightarrow> (addr option list \<times> mstate) option" where
  "alloc_strcpy A 0 h = Some ([], h)"
| "alloc_strcpy A (Suc n) h = (let (p, h1) = malloc A (1024 * 2) h in do {
    h2 \<leftarrow> strcpy_to p ''123'' h1; (ps, h3) \<leftarrow> alloc_strcpy A n h2; Some (p # ps, h3) })"

text \<open>\<open>M_TRIM_THRESHOLD\<close> is -1 and \<open>M_TOP_PAD\<close> -2.\<close>

definition mallocTirmHeap :: "allocator \<Rightarrow> mstate \<Rightarrow> mstate option" where
  "mallocTirmHeap A h = do {
    (p, h1) \<leftarrow> alloc_strcpy A 11 (say (Mallopt (-2) 0) (say Out_threshold (say (Mallopt (-1) 1024) h)));
    h2 \<leftarrow> free_quiet (take 10 p) h1;
    let (_, h3) = malloc_trim A (say Getchar (say (Out_pid (pid A)) h2));
    Some (say Pause h3) }"

definition malloc_main :: "allocator \<Rightarrow> mstate \<Rightarrow> (int \<times> mstate) option" where
  "malloc_main A h = do { h1 \<leftarrow> mallocTirmHeap A h; Some (0, say Getchar h1) }"

section \<open>Ownership of blocks\<close>

text \<open>
  \<open>owns b ps h\<close>: the allocated blocks are those of \<open>b\<close> and, disjoint from them and from each other, the ones that the pointers of
  \<open>ps\<close> refer to, where \<open>NULL\<close> refers to none. The order of the pointers does not matter.
\<close>

definition refs :: "addr option list \<Rightarrow> addr multiset" where
  "refs ps = mset (map the (filter (\<lambda>p. p \<noteq> None) ps))"

definition owns :: "(addr \<rightharpoonup> nat) \<Rightarrow> addr option list \<Rightarrow> mstate \<Rightarrow> bool" where
  "owns b ps h \<longleftrightarrow> b \<subseteq>\<^sub>m blocks h \<and> (\<forall>a. count (refs ps) a = (if a \<in> dom (blocks h) - dom b then 1 else 0))"

lemma refs_simps [simp]:
  "refs [] = {#}" "refs (None # ps) = refs ps" "refs (Some a # ps) = add_mset a (refs ps)" "refs (ps @ qs) = refs ps + refs qs"
  "refs (rev ps) = refs ps"
  by (simp_all add: refs_def rev_map rev_filter flip: rev_map rev_filter)

lemma owns_refs: "refs ps = refs qs \<Longrightarrow> owns b ps h \<Longrightarrow> owns b qs h"
  by (simp add: owns_def)

lemma owns_say [simp]: "owns b ps (say e h) = owns b ps h"
  by (simp add: owns_def say_def)

lemma owns_hist [simp]: "owns b ps (h\<lparr>hist := e\<rparr>) = owns b ps h"
  by (simp add: owns_def)

lemma owns_show [simp]: "owns b ps (show_map h) = owns b ps h" "owns b ps (report h) = owns b ps h"
  by (simp_all add: show_map_def report_def)

lemma owns_Nil: "owns b [] h \<longleftrightarrow> blocks h = b"
proof
  assume o: "owns b [] h"
  then have "dom (blocks h) \<subseteq> dom b" by (auto simp: owns_def split: if_splits)
  with o show "blocks h = b" by (metis owns_def map_le_antisym map_le_def subsetD domIff)
qed (simp add: owns_def)

lemma owns_refl [simp]: "owns (blocks h) [] h"
  by (simp add: owns_Nil)

lemma owns_NULL [simp]: "owns b (None # ps) h = owns b ps h"
  by (simp add: owns_def)

lemma owns_Some: "owns b (Some a # ps) h \<longleftrightarrow> a \<in> dom (blocks h) \<and> owns b ps (h\<lparr>blocks := (blocks h)(a := None)\<rparr>)"
proof (cases "a \<in> dom (blocks h)")
  case True
  have "(\<forall>x. count (add_mset a (refs ps)) x = (if x \<in> dom (blocks h) - dom b then 1 else 0)) \<longleftrightarrow>
    a \<notin> dom b \<and> (\<forall>x. count (refs ps) x = (if x \<in> dom (blocks h) - {a} - dom b then 1 else 0))" (is "(\<forall>x. ?l x) = (_ \<and> (\<forall>x. ?r x))")
  proof -
    have "?l x = (if x = a then a \<notin> dom b \<and> count (refs ps) a = 0 else ?r x)" for x using True by auto
    then show ?thesis by (metis (lifting) DiffD1 DiffD2 insertI1)
  qed
  then show ?thesis using True by (auto simp: owns_def map_le_def)
next
  case False
  then show ?thesis by (auto simp: owns_def)
qed

lemma owns_malloc:
  assumes "allocator_laws A" "owns b ps h" "malloc A n h = (p, h')"
  shows "owns b (p # ps) h'"
proof -
  have "p = Some a \<Longrightarrow> (blocks h)(a := None) = blocks h" for a
    using assms by (auto simp: malloc_def Let_def allocator_laws_def)
  then show ?thesis using assms by (cases p) (auto simp: malloc_def Let_def owns_Some say_def)
qed

lemma owns_malloc_checked:
  "allocator_laws A \<Longrightarrow> owns b ps h \<Longrightarrow> malloc_checked A n h = (p, h') \<Longrightarrow> owns b (p # ps) h'"
  by (auto simp: malloc_checked_def split: prod.splits if_splits dest: owns_malloc)

lemma free_owns: "owns b (p # ps) h \<Longrightarrow> \<exists>h'. free p h = Some h' \<and> owns b ps h'"
  by (cases p) (auto simp: free_def owns_Some)

lemma owns_rotate: "owns b (xs @ p # ys) h = owns b (p # xs @ ys) h"
  by (rule iffI; erule owns_refs [rotated]) (cases p; simp)+

lemma owns_rev: "owns b (rev xs @ ys) h = owns b (xs @ ys) h"
  by (simp add: owns_def)

section \<open>The loops\<close>

lemma fill_arr_owns:
  "allocator_laws A \<Longrightarrow> owns b qs h \<Longrightarrow> fill_arr A sz is h = (ps, h') \<Longrightarrow> owns b (ps @ qs) h' \<and> length ps = length is"
proof (induction "is" arbitrary: ps qs h)
  case (Cons i "is")
  obtain p h1 where m: "malloc_checked A (sz i) h = (p, h1)" by force
  moreover obtain ps' where r: "fill_arr A sz is (show_map (say (Out_nth_ok i p) h1)) = (ps', h')" "ps = p # ps'"
    using Cons.prems(3) m by (auto split: prod.splits)
  ultimately have "owns b (ps' @ p # qs) h' \<and> length ps' = length is"
    using Cons.IH [OF Cons.prems(1) _ r(1)] owns_malloc_checked [OF Cons.prems(1,2) m] by simp
  then show ?case using r(2) owns_rotate by auto
qed simp

lemma alloc_quiet_owns:
  "allocator_laws A \<Longrightarrow> owns b qs h \<Longrightarrow> alloc_quiet A sz is h = (ps, h') \<Longrightarrow> owns b (ps @ qs) h'"
proof (induction "is" arbitrary: ps qs h)
  case (Cons i "is")
  obtain p h1 where m: "malloc_checked A (sz i) h = (p, h1)" by force
  moreover obtain ps' where r: "alloc_quiet A sz is h1 = (ps', h')" "ps = p # ps'"
    using Cons.prems(3) m by (auto split: prod.splits)
  ultimately have "owns b (ps' @ p # qs) h'"
    using Cons.IH [OF Cons.prems(1) _ r(1)] owns_malloc_checked [OF Cons.prems(1,2) m] by simp
  then show ?case using r(2) owns_rotate by auto
qed simp

lemma free_arr_owns: "owns b (map snd ips @ qs) h \<Longrightarrow> \<exists>h'. free_arr ips h = Some h' \<and> owns b qs h'"
  by (induction ips arbitrary: h) (auto dest!: free_owns simp del: owns_NULL)

lemma free_arr_ret_owns: "owns b (map snd ips @ qs) h \<Longrightarrow> \<exists>h'. free_arr_ret ips h = Some h' \<and> owns b qs h'"
  by (induction ips arbitrary: h) (auto dest!: free_owns)

lemma free_arr_trim_owns: "owns b (map snd ips @ qs) h \<Longrightarrow> \<exists>h'. free_arr_trim A ips h = Some h' \<and> owns b qs h'"
  by (induction ips arbitrary: h) (auto dest!: free_owns simp: malloc_trim_def)

lemma free_quiet_owns: "owns b (ps @ qs) h \<Longrightarrow> \<exists>h'. free_quiet ps h = Some h' \<and> owns b qs h'"
  by (induction ps arbitrary: h) (auto dest!: free_owns)

lemma mf_loop_owns: "allocator_laws A \<Longrightarrow> owns b [] h \<Longrightarrow> \<exists>h'. mf_loop A n h = Some h' \<and> owns b [] h'"
proof (induction n arbitrary: h)
  case (Suc n)
  obtain p h1 where m: "malloc_checked A (132 * 1024) h = (p, h1)" by force
  from free_owns [OF owns_malloc_checked [OF Suc.prems m]] obtain h2 where "free p h1 = Some h2" "owns b [] h2" by auto
  with Suc m show ?case by auto
qed simp

lemma first_block_owns: "allocator_laws A \<Longrightarrow> owns b ps h \<Longrightarrow> first_block A h = (p, h') \<Longrightarrow> owns b (p # ps) h'"
  by (auto simp: first_block_def split: prod.splits dest: owns_malloc_checked)

lemma last_free_owns: "owns b [p] h \<Longrightarrow> \<exists>h'. last_free p h = Some h' \<and> owns b [] h'"
  using free_owns [of b p "[]" h] by (auto simp: last_free_def)

section \<open>The experiments release what they allocate\<close>

lemma single_block:
  assumes "allocator_laws A" "owns b [] h" "malloc_checked A n h = (p, h1)"
  shows "\<exists>h'. free p (say e (say e' h1)) = Some h' \<and> owns b [] h'"
  using free_owns [of b p "[]" "say e (say e' h1)"] owns_malloc_checked [OF assms] by simp

lemma malloc2heapOrMmap_owns:
  "allocator_laws A \<Longrightarrow> owns b [] h \<Longrightarrow> \<exists>h'. malloc2heapOrMmap A h = Some h' \<and> owns b [] h'"
  by (force simp: malloc2heapOrMmap_def split: prod.splits dest: single_block)

lemma malloc1_owns: "allocator_laws A \<Longrightarrow> owns b [] h \<Longrightarrow> \<exists>h'. malloc1 A h = Some h' \<and> owns b [] h'"
  by (force simp: malloc1_def split: prod.splits dest: single_block)

lemma heapGrow_owns:
  assumes A: "allocator_laws A" and o: "owns b [] h"
  shows "\<exists>h'. heapGrow A h = Some h' \<and> owns b [] h'"
proof -
  obtain aa h1 where 1: "malloc A (127 * 1024) (say Out_start h) = (aa, h1)" by force
  obtain bb h2 where 2: "malloc A (127 * 1024) (say Out_grow (say Getchar (say (Out_ok aa) h1))) = (bb, h2)" by force
  have "owns b [aa] h1" using owns_malloc [OF A _ 1] o by simp
  then have "owns b [bb, aa] h2" using owns_malloc [OF A _ 2] by simp
  then obtain h3 where 3: "free bb (say Out_free_second (say Getchar (say (Out_ok bb) h2))) = Some h3" "owns b [aa] h3"
    using free_owns [of b bb "[aa]" "say Out_free_second (say Getchar (say (Out_ok bb) h2))"] by auto
  then obtain h4 where "free aa (say Out_free_first (say Getchar h3)) = Some h4" "owns b [] h4"
    using free_owns [of b aa "[]" "say Out_free_first (say Getchar h3)"] by auto
  with 1 2 3 show ?thesis by (simp add: heapGrow_def)
qed

text \<open>The three experiments with an array differ in the sizes and in the loop that releases it.\<close>

lemma array_experiment:
  assumes A: "allocator_laws A" and o: "owns b [] h0" and f: "first_block A h0 = (h, h1)" and l: "fill_arr A sz [0..<MAX_N] h1 = (arr, h2)"
  shows "owns b (arr @ [h]) (report h2) \<and> map snd (zip [0..<MAX_N] arr) = arr"
  using fill_arr_owns [OF A first_block_owns [OF A o f] l] by simp

lemma malloc_free_owns:
  assumes A: "allocator_laws A" and o: "owns b [] h0"
  shows "\<exists>h'. malloc_free A h0 = Some h' \<and> owns b [] h'"
proof -
  obtain h h1 arr h2 where s: "first_block A h0 = (h, h1)" "fill_arr A (\<lambda>_. HEAP_DATA_SIZE) [0..<MAX_N] h1 = (arr, h2)" by (metis surj_pair)
  from array_experiment [OF A o this] obtain h3 where "free_arr (rev (zip [0..<MAX_N] arr)) (report h2) = Some h3" "owns b [h] h3"
    using free_arr_owns [of b "rev (zip [0..<MAX_N] arr)" "[h]" "report h2"] by (auto simp: owns_rev rev_map [symmetric])
  with s last_free_owns show ?thesis by (fastforce simp: malloc_free_def)
qed

lemma mmap_heap_owns:
  assumes A: "allocator_laws A" and o: "owns b [] h0"
  shows "\<exists>h'. mmap_heap A h0 = Some h' \<and> owns b [] h'"
proof -
  obtain h h1 arr h2 where s: "first_block A h0 = (h, h1)" "fill_arr A mmap_size [0..<MAX_N] h1 = (arr, h2)" by (metis surj_pair)
  from array_experiment [OF A o this] obtain h3 where "free_arr_ret (rev (zip [0..<MAX_N] arr)) (report h2) = Some h3" "owns b [h] h3"
    using free_arr_ret_owns [of b "rev (zip [0..<MAX_N] arr)" "[h]" "report h2"] by (auto simp: owns_rev rev_map [symmetric])
  with s last_free_owns show ?thesis by (fastforce simp: mmap_heap_def)
qed

lemma mtrim_owns:
  assumes A: "allocator_laws A" and o: "owns b [] h0"
  shows "\<exists>h'. mtrim A h0 = Some h' \<and> owns b [] h'"
proof -
  obtain h h1 arr h2 where s: "first_block A h0 = (h, h1)" "fill_arr A (\<lambda>_. HEAP_DATA_SIZE) [0..<MAX_N] h1 = (arr, h2)" by (metis surj_pair)
  from array_experiment [OF A o this] obtain h3 where "free_arr_trim A (zip [0..<MAX_N] arr) (report h2) = Some h3" "owns b [h] h3"
    using free_arr_trim_owns [of b "zip [0..<MAX_N] arr" "[h]" "report h2"] by auto
  with s last_free_owns show ?thesis by (fastforce simp: mtrim_def)
qed

lemma mmap_range_mf_owns: "allocator_laws A \<Longrightarrow> owns b [] h \<Longrightarrow> \<exists>h'. mmap_range_mf A h = Some h' \<and> owns b [] h'"
  using mf_loop_owns [of A b "say Getchar (say Out_start h)" 1000] by (auto simp: mmap_range_mf_def malloc_trim_def)

lemma mallocHeapRandom_owns:
  assumes A: "allocator_laws A" and o: "owns b [] h"
  shows "\<exists>h'. mallocHeapRandom A h = Some h' \<and> owns b [] h'"
proof -
  obtain arr h1 where s: "alloc_quiet A (\<lambda>i. (i + 1) * 1024) [0..<MAX_N] h = (arr, h1)" by force
  then have "owns b (rev arr @ []) h1" using alloc_quiet_owns [OF A o s] by (subst owns_rev) simp
  from free_quiet_owns [OF this] show ?thesis unfolding mallocHeapRandom_def s by simp
qed

lemma mallocHeapBins_owns:
  assumes A: "allocator_laws A" and o: "owns b [] h"
  shows "\<exists>h'. mallocHeapBins A h = Some h' \<and> owns b [] h'"
proof -
  obtain p0 h1 where 1: "malloc A (10 * 1024) h = (p0, h1)" by force
  obtain p1 h2 where 2: "malloc A (1 * 1024) h1 = (p1, h2)" by force
  obtain p2 h3 where 3: "malloc A 124 h2 = (p2, h3)" by force
  obtain p3 h4 where 4: "malloc A 17 h3 = (p3, h4)" by force
  have "owns b [p3, p2, p1, p0] h4" using owns_malloc [OF A _ 4] owns_malloc [OF A _ 3] owns_malloc [OF A _ 2] owns_malloc [OF A o 1] by simp
  then have "owns b [p2, p1, p0, p3] h4" by (metis append_Cons append_Nil owns_rotate)
  then obtain h5 h6 h7 where f: "free p2 h4 = Some h5" "free p1 h5 = Some h6" "free p0 h6 = Some h7" "owns b [p3] h7"
    by (metis free_owns)
  obtain p2' h8 where m: "malloc A 100 h7 = (p2', h8)" by force
  have "owns b [p3, p2'] h8" using owns_malloc [OF A f(4) m] owns_rotate [of b "[p2']" p3 "[]"] by simp
  then obtain h9 h10 where "free p3 h8 = Some h9" "free p2' h9 = Some h10" "owns b [] h10" by (metis free_owns)
  with 1 2 3 4 f m show ?thesis by (simp add: mallocHeapBins_def)
qed

lemmas experiments_own = malloc2heapOrMmap_owns heapGrow_owns malloc1_owns malloc_free_owns mtrim_owns mmap_heap_owns
  mmap_range_mf_owns mallocHeapRandom_owns mallocHeapBins_owns

definition experiments :: "(allocator \<Rightarrow> mstate \<Rightarrow> mstate option) list" where
  "experiments = [malloc2heapOrMmap, heapGrow, malloc1, malloc_free, mtrim, mmap_heap, mmap_range_mf, mallocHeapRandom, mallocHeapBins]"

text \<open>Any of the experiments, one after the other.\<close>

fun run_experiments :: "(allocator \<Rightarrow> mstate \<Rightarrow> mstate option) list \<Rightarrow> allocator \<Rightarrow> mstate \<Rightarrow> mstate option" where
  "run_experiments [] A h = Some h"
| "run_experiments (f # fs) A h = do { h1 \<leftarrow> f A h; run_experiments fs A h1 }"


text \<open>An allocator that puts every block behind all others and fails for sizes above a limit.\<close>

definition behind :: "nat \<Rightarrow> allocator" where
  "behind lim = \<lparr>pick = \<lambda>h n. if finite (dom (blocks h)) \<and> n \<le> lim
      then Some (Suc (Max (insert 0 ((\<lambda>b. b + the (blocks h b)) ` dom (blocks h))))) else None,
    trim = \<lambda>_. 0, pid = 1\<rparr>"

lemma behind_laws: "allocator_laws (behind lim)"
proof -
  have "b + m \<le> Max (insert 0 ((\<lambda>b. b + the (blocks h b)) ` dom (blocks h)))" if "finite (dom (blocks h))" "blocks h b = Some m" for h :: mstate and b m
    using that by (intro Max_ge) (auto simp: image_iff intro!: bexI [of _ b])
  then show ?thesis by (fastforce simp: allocator_laws_def behind_def split: if_splits)
qed


section \<open>The experiment that \<open>main\<close> runs\<close>

text \<open>Every block the pointers of \<open>ps\<close> refer to has \<open>n\<close> bytes.\<close>

definition sized :: "nat \<Rightarrow> addr option list \<Rightarrow> mstate \<Rightarrow> bool" where
  "sized n ps h \<longleftrightarrow> (\<forall>a. Some a \<in> set ps \<longrightarrow> blocks h a = Some n)"

lemma sized_say [simp]: "sized n ps (say e h) = sized n ps h"
  by (simp add: sized_def say_def)

lemma malloc_strcpy:
  assumes A: "allocator_laws A" and o: "owns b qs h" "sized (1024 * 2) qs h" and p: "pick A h (1024 * 2) = Some a"
  shows "\<exists>h1 h2. malloc A (1024 * 2) h = (Some a, h1) \<and> strcpy_to (Some a) ''123'' h1 = Some h2 \<and> owns b (Some a # qs) h2 \<and> sized (1024 * 2) (Some a # qs) h2"
proof -
  obtain h1 where m: "malloc A (1024 * 2) h = (Some a, h1)" "blocks h1 = (blocks h)(a \<mapsto> 1024 * 2)"
    using p by (auto simp: malloc_def say_def Let_def)
  have "a \<notin> dom (blocks h)" using A p by (auto simp: allocator_laws_def)
  then have "sized (1024 * 2) (Some a # qs) h1" using o(2) m(2) by (auto simp: sized_def)
  with m owns_malloc [OF A o(1) m(1)] show ?thesis by (auto simp: strcpy_to_def)
qed

lemma owns_finite: "owns b ps h \<Longrightarrow> finite (dom b) \<Longrightarrow> finite (dom (blocks h))"
proof -
  assume o: "owns b ps h" "finite (dom b)"
  have "dom (blocks h) \<subseteq> dom b \<union> set_mset (refs ps)"
  proof
    fix a assume a: "a \<in> dom (blocks h)"
    have "count (refs ps) a = (if a \<in> dom (blocks h) - dom b then 1 else 0)" using o(1) by (simp add: owns_def)
    with a show "a \<in> dom b \<union> set_mset (refs ps)" by (cases "a \<in> dom b") (auto simp flip: count_greater_zero_iff)
  qed
  with o(2) show ?thesis by (meson finite_UnI finite_set_mset finite_subset)
qed

lemma alloc_strcpy_owns:
  assumes A: "allocator_laws A" and s: "\<forall>h. finite (dom (blocks h)) \<longrightarrow> pick A h (1024 * 2) \<noteq> None" and f: "finite (dom b)"
  shows "owns b qs h \<Longrightarrow> sized (1024 * 2) qs h \<Longrightarrow> \<exists>ps h'. alloc_strcpy A n h = Some (ps, h') \<and> owns b (ps @ qs) h' \<and>
    sized (1024 * 2) (ps @ qs) h' \<and> length ps = n \<and> None \<notin> set ps"
proof (induction n arbitrary: qs h)
  case (Suc n)
  obtain a where a: "pick A h (1024 * 2) = Some a" using s owns_finite [OF Suc.prems(1) f] by auto
  from malloc_strcpy [OF A Suc.prems a] obtain h1 h2 where m: "malloc A (1024 * 2) h = (Some a, h1)" "strcpy_to (Some a) ''123'' h1 = Some h2"
    "owns b (Some a # qs) h2" "sized (1024 * 2) (Some a # qs) h2" by blast
  from Suc.IH [OF m(3,4)] obtain ps h' where "alloc_strcpy A n h2 = Some (ps, h')" "owns b (ps @ Some a # qs) h'"
    "sized (1024 * 2) (ps @ Some a # qs) h'" "length ps = n" "None \<notin> set ps" by blast
  with m show ?case using owns_rotate [of b ps "Some a" qs h'] by (auto simp: sized_def)
qed simp

lemma free_quiet_le: "free_quiet ps h = Some h' \<Longrightarrow> blocks h' \<subseteq>\<^sub>m blocks h"
proof (induction ps arbitrary: h)
  case (Cons p ps)
  then obtain h1 where "free p h = Some h1" "blocks h' \<subseteq>\<^sub>m blocks h1" by auto
  then show ?case by (auto simp: free_def say_def map_le_def split: option.splits if_splits)
qed simp

text \<open>
  What \<open>main\<close> runs: when all allocations succeed the program ends normally with one block of 2048 bytes more than at the start,
  the last of the eleven; when memory is exhausted it copies a string through \<open>NULL\<close>, since the results of \<open>malloc\<close> are not checked.
\<close>

theorem main_leaks_or_crashes:
  assumes A: "allocator_laws A" and f: "finite (dom (blocks h))"
  shows "((\<forall>h. finite (dom (blocks h)) \<longrightarrow> pick A h 2048 \<noteq> None) \<longrightarrow>
      (\<exists>h' a. malloc_main A h = Some (0, h') \<and> a \<notin> dom (blocks h) \<and> blocks h' = (blocks h)(a \<mapsto> 2048))) \<and>
    ((\<forall>h. pick A h 2048 = None) \<longrightarrow> malloc_main A h = None)"
proof (intro conjI impI)
  assume "\<forall>h. finite (dom (blocks h)) \<longrightarrow> pick A h 2048 \<noteq> None"
  then have s: "\<forall>h. finite (dom (blocks h)) \<longrightarrow> pick A h (1024 * 2) \<noteq> None" by simp
  let ?h = "say (Mallopt (-2) 0) (say Out_threshold (say (Mallopt (-1) 1024) h))"
  obtain ps h1 where 1: "alloc_strcpy A 11 ?h = Some (ps, h1)" "owns (blocks h) ps h1" "sized (1024 * 2) ps h1" "length ps = 11" "None \<notin> set ps"
    using alloc_strcpy_owns [OF A s f, of "[]" ?h 11] by (auto simp: sized_def)
  have ps: "ps = take 10 ps @ [ps ! 10]" using 1(4) by (simp add: take_Suc_conv_app_nth [symmetric])
  moreover have "ps ! 10 \<in> set ps" using 1(4) by simp
  with 1(5) obtain a where a: "ps ! 10 = Some a" "Some a \<in> set ps" by (metis not_None_eq)
  ultimately obtain h2 where 2: "free_quiet (take 10 ps) h1 = Some h2" "owns (blocks h) [Some a] h2"
    using free_quiet_owns [of "blocks h" "take 10 ps" "[Some a]" h1] 1(2) by auto
  have "blocks h2 a = Some 2048" "(blocks h2)(a := None) = blocks h"
    using free_quiet_le [OF 2(1)] 2(2) 1(3) a(2) by (auto simp: owns_Some owns_Nil sized_def map_le_def dom_def)
  then have "a \<notin> dom (blocks h)" "blocks h2 = (blocks h)(a \<mapsto> 2048)" by (metis domIff fun_upd_same) (metis \<open>blocks h2 a = _\<close> \<open>_ = blocks h\<close> fun_upd_triv fun_upd_upd)
  with 1(1) 2(1) show "\<exists>h' a. malloc_main A h = Some (0, h') \<and> a \<notin> dom (blocks h) \<and> blocks h' = (blocks h)(a \<mapsto> 2048)"
    by (auto simp: malloc_main_def mallocTirmHeap_def malloc_trim_def say_def)
next
  assume n: "\<forall>h. pick A h 2048 = None"
  have "alloc_strcpy A (Suc k) g = None" for k g
    using n by (simp add: malloc_def Let_def strcpy_to_def)
  from this [of 10] show "malloc_main A h = None" by (simp add: malloc_main_def mallocTirmHeap_def)
qed

theorem main_leaks_or_crashes_witness:
  "(\<exists>h' a. malloc_main (behind 5000) \<lparr>blocks = [7 \<mapsto> 5], hist = []\<rparr> = Some (0, h') \<and> a \<noteq> 7 \<and> blocks h' = [7 \<mapsto> 5, a \<mapsto> 2048]) \<and>
   malloc_main (behind 5) \<lparr>blocks = [7 \<mapsto> 5], hist = []\<rparr> = None"
  using main_leaks_or_crashes [OF behind_laws, of "\<lparr>blocks = [7 \<mapsto> 5], hist = []\<rparr>" 5000]
    main_leaks_or_crashes [OF behind_laws, of "\<lparr>blocks = [7 \<mapsto> 5], hist = []\<rparr>" 5] by (simp add: behind_def)

end
