(* ===== verification/Gtp_Header.thy ===== *)
theory Gtp_Header
  imports Prelude
begin

text \<open>
  The header of a GTP message as a C structure with bit fields, \<open>C/endian_bitfield/main.c\<close>. The fields have the widths the source gives
  them, as words of that length, so that an assignment truncates as in C. How the structure lies in memory depends on the machine: with a
  little-endian byte order bit fields are allocated from the least significant bit on and integers with their low byte first, with a
  big-endian one the other way round. The order is an argument of the layout.
\<close>

section \<open>The structure and its layout\<close>

datatype byte_order = Little_endian | Big_endian

record gtpc_msg_header =
  version :: "3 word"
  piggyback_flg :: "1 word"
  teid_flg :: "1 word"
  spare :: "3 word"
  msg_type :: u8
  msg_len :: u16
  seq_only :: u32

text \<open>The byte of four bit fields of 3, 1, 1 and 3 bits, in the order of their declaration.\<close>

definition pack_flags :: "byte_order \<Rightarrow> 3 word \<Rightarrow> 1 word \<Rightarrow> 1 word \<Rightarrow> 3 word \<Rightarrow> u8" where
  "pack_flags e a b c d = (case e of
     Little_endian \<Rightarrow> ucast a OR push_bit 3 (ucast b) OR push_bit 4 (ucast c) OR push_bit 5 (ucast d)
   | Big_endian \<Rightarrow> push_bit 5 (ucast a) OR push_bit 4 (ucast b) OR push_bit 3 (ucast c) OR ucast d)"

definition int_bytes2 :: "byte_order \<Rightarrow> u16 \<Rightarrow> u8 list" where
  "int_bytes2 e x = (case e of Little_endian \<Rightarrow> [ucast x, ucast (drop_bit 8 x)] | Big_endian \<Rightarrow> [ucast (drop_bit 8 x), ucast x])"

definition int_bytes4 :: "byte_order \<Rightarrow> u32 \<Rightarrow> u8 list" where
  "int_bytes4 e x = (let bs = map (\<lambda>i. ucast (drop_bit (8 * i) x)) [0, 1, 2, 3] in case e of Little_endian \<Rightarrow> bs | Big_endian \<Rightarrow> rev bs)"

text \<open>The memory of the packed structure, which \<open>main\<close> prints and sends.\<close>

definition header_bytes :: "byte_order \<Rightarrow> gtpc_msg_header \<Rightarrow> u8 list" where
  "header_bytes e h = [pack_flags e (version h) (piggyback_flg h) (teid_flg h) (spare h), msg_type h]
     @ int_bytes2 e (msg_len h) @ int_bytes4 e (seq_only h)"

text \<open>Reading the structure back from memory of the same machine.\<close>

definition header_of_bytes :: "byte_order \<Rightarrow> u8 list \<Rightarrow> gtpc_msg_header" where
  "header_of_bytes e m = (let f = m ! 0; lo = (case e of Little_endian \<Rightarrow> id | Big_endian \<Rightarrow> rev); l = lo (slice m 2 2); s = lo (slice m 4 4) in
    \<lparr>version = (case e of Little_endian \<Rightarrow> ucast f | Big_endian \<Rightarrow> ucast (drop_bit 5 f)),
     piggyback_flg = (case e of Little_endian \<Rightarrow> ucast (drop_bit 3 f) | Big_endian \<Rightarrow> ucast (drop_bit 4 f)),
     teid_flg = (case e of Little_endian \<Rightarrow> ucast (drop_bit 4 f) | Big_endian \<Rightarrow> ucast (drop_bit 3 f)),
     spare = (case e of Little_endian \<Rightarrow> ucast (drop_bit 5 f) | Big_endian \<Rightarrow> ucast f),
     msg_type = m ! 1,
     msg_len = ucast (l ! 0) OR push_bit 8 (ucast (l ! 1)),
     seq_only = ucast (s ! 0) OR push_bit 8 (ucast (s ! 1)) OR push_bit 16 (ucast (s ! 2)) OR push_bit 24 (ucast (s ! 3))\<rparr>)"

section \<open>The program\<close>

definition hex_digit :: "nat \<Rightarrow> u8" where
  "hex_digit n = (if n < 10 then of_nat (48 + n) else of_nat (87 + n))"

definition hex2 :: "u8 \<Rightarrow> u8 list" where
  "hex2 b = [hex_digit (unat b div 16), hex_digit (unat b mod 16)]"

definition printX :: "u8 list \<Rightarrow> u8 list" where
  "printX a = bytes ''Len:'' @ dec_digits (length a) @ bytes ''\<newline>printX: '' @
     concat (map (\<lambda>b. [92, ch CHR ''x''] @ hex2 b) a) @ bytes ''\<newline>''"

text \<open>The union that finds out the byte order.\<close>

definition my_bytes :: "byte_order \<Rightarrow> u32 \<Rightarrow> u8 list" where
  "my_bytes e my_int = int_bytes4 e my_int"

definition is_big_endian :: "byte_order \<Rightarrow> bool" where
  "is_big_endian e \<longleftrightarrow> my_bytes e 0x0a0b0c0d ! 0 = 0x0a"

datatype udp_call = Socket int | Connect string nat int | Send int "u8 list" | Close int

datatype exit_or = Exit int | Returned

text \<open>\<open>sk\<close> and \<open>cn\<close> are the results of \<open>socket\<close> and \<open>connect\<close>.\<close>

definition send_udp :: "int \<Rightarrow> int \<Rightarrow> u8 list \<Rightarrow> exit_or \<times> udp_call list \<times> u8 list" where
  "send_udp sk cn buf =
    (if sk = -1 then (Exit 1, [Socket sk], bytes ''socket() error\<newline>'')
     else if cn = -1 then (Exit 1, [Socket sk, Connect ''127.0.0.1'' 2123 cn], bytes ''connect() error.\<newline>'')
     else (Returned, [Socket sk, Connect ''127.0.0.1'' 2123 cn, Send sk buf, Close sk], []))"

definition main_header :: gtpc_msg_header where
  "main_header = \<lparr>version = 3, piggyback_flg = 0, teid_flg = 1, spare = 2, msg_type = 9, msg_len = 10, seq_only = 6365\<rparr>"

definition gtp_main :: "byte_order \<Rightarrow> int \<Rightarrow> int \<Rightarrow> int \<times> udp_call list \<times> u8 list" where
  "gtp_main e sk cn =
    (let greet = (if is_big_endian e then bytes ''I'' @ [39] @ bytes ''m on a big-endian system\<newline>'' else bytes ''I'' @ [39] @ bytes ''m on a little-endian system\<newline>'');
         m = header_bytes e main_header; (r, cs, out) = send_udp sk cn m in
     (case r of Exit n \<Rightarrow> n | Returned \<Rightarrow> 0, cs, greet @ printX m @ out))"

section \<open>Round trip\<close>

lemma pack_flags_fields:
  "ucast (pack_flags Little_endian a b c d) = a"
  "ucast (drop_bit 3 (pack_flags Little_endian a b c d)) = b"
  "ucast (drop_bit 4 (pack_flags Little_endian a b c d)) = c"
  "ucast (drop_bit 5 (pack_flags Little_endian a b c d)) = d"
  by (rule bit_word_eqI; auto simp: pack_flags_def bit_simps dest: bit_imp_le_length)+

lemma pack_flags_swap: "pack_flags Big_endian a b c d = pack_flags Little_endian d c b a"
  by (simp add: pack_flags_def or.assoc or.commute or.left_commute)

lemma pack_flags_of_byte:
  "pack_flags Little_endian (ucast f) (ucast (drop_bit 3 f)) (ucast (drop_bit 4 f)) (ucast (drop_bit 5 f)) = f"
proof (rule bit_word_eqI)
  fix n assume "n < LENGTH(8)"
  then have "n \<in> {0, 1, 2, 3, 4, 5, 6, 7}" by auto
  then show "bit (pack_flags Little_endian (ucast f) (ucast (drop_bit 3 f)) (ucast (drop_bit 4 f)) (ucast (drop_bit 5 f))) n = bit f n"
    by (elim insertE; simp add: pack_flags_def bit_simps)
qed

lemma int2_roundtrip: "(ucast (ucast x :: u8) :: u16) OR push_bit 8 (ucast (ucast (drop_bit 8 x) :: u8)) = x"
  by (rule bit_word_eqI) (auto simp: bit_simps)

lemma int4_roundtrip: "(ucast (ucast x :: u8) :: u32) OR push_bit 8 (ucast (ucast (drop_bit 8 x) :: u8)) OR
    push_bit 16 (ucast (ucast (drop_bit 16 x) :: u8)) OR push_bit 24 (ucast (ucast (drop_bit 24 x) :: u8)) = x"
  by (rule bit_word_eqI, auto simp: bit_simps) (rule ccontr, simp)

lemma header_roundtrip: "header_of_bytes e (header_bytes e h) = h"
  by (cases e; cases h)
    (simp_all add: header_bytes_def header_of_bytes_def Let_def slice_def int_bytes2_def int_bytes4_def
      pack_flags_swap pack_flags_fields int2_roundtrip int4_roundtrip)

lemma int2_bytes:
  "ucast ((ucast (a :: u8) :: u16) OR push_bit 8 (ucast b)) = a"
  "ucast (drop_bit 8 ((ucast (a :: u8) :: u16) OR push_bit 8 (ucast (b :: u8)))) = b"
  by (rule bit_word_eqI; auto simp: bit_simps dest: bit_imp_le_length)+

lemma int4_bytes:
  fixes a b c d :: u8
  defines "x \<equiv> (ucast a :: u32) OR push_bit 8 (ucast b) OR push_bit 16 (ucast c) OR push_bit 24 (ucast d)"
  shows "ucast x = a" "ucast (drop_bit 8 x) = b" "ucast (drop_bit 16 x) = c" "ucast (drop_bit 24 x) = d"
  unfolding x_def by (rule bit_word_eqI; auto simp: bit_simps dest: bit_imp_le_length)+

lemma length_8_cases:
  assumes "length m = 8"
  obtains a b c d e f g h where "m = [a, b, c, d, e, f, g, h]"
  using assms by (auto simp: length_Suc_conv numeral_eq_Suc)

lemma bytes_roundtrip:
  assumes "length m = 8"
  shows "header_bytes e (header_of_bytes e m) = m"
  using assms by (cases m rule: length_8_cases; cases e)
    (simp_all add: header_bytes_def header_of_bytes_def Let_def slice_def int_bytes2_def int_bytes4_def
      pack_flags_swap pack_flags_of_byte int2_bytes int4_bytes del: drop_bit_or)

lemma pack_flags_fields_swapped:
  "ucast (pack_flags Big_endian a b c d) = d"
  "ucast (drop_bit 3 (pack_flags Big_endian a b c d)) = c"
  "ucast (drop_bit 4 (pack_flags Big_endian a b c d)) = b"
  "ucast (drop_bit 5 (pack_flags Big_endian a b c d)) = a"
  by (simp_all add: pack_flags_swap pack_flags_fields)

text \<open>The bytes of an integer in the other order.\<close>

definition swap2 :: "u16 \<Rightarrow> u16" where
  "swap2 x = drop_bit 8 x OR push_bit 8 (take_bit 8 x)"

definition swap4 :: "u32 \<Rightarrow> u32" where
  "swap4 x = drop_bit 24 x OR push_bit 8 (take_bit 8 (drop_bit 16 x)) OR push_bit 16 (take_bit 8 (drop_bit 8 x)) OR push_bit 24 (take_bit 8 x)"

lemma ucast_byte: "ucast (ucast (x :: u16) :: u8) = take_bit 8 x" "ucast (ucast (y :: u32) :: u8) = take_bit 8 y"
  by (rule bit_word_eqI; auto simp: bit_simps)+

lemma top_byte: "take_bit 8 (drop_bit 8 (x :: u16)) = drop_bit 8 x" "take_bit 8 (drop_bit 24 (y :: u32)) = drop_bit 24 y"
  by (rule bit_word_eqI; auto simp: bit_simps dest: bit_imp_le_length)+

lemma other_order: "header_of_bytes Big_endian (header_bytes Little_endian h) =
  h\<lparr>version := spare h, piggyback_flg := teid_flg h, teid_flg := piggyback_flg h, spare := version h,
    msg_len := swap2 (msg_len h), seq_only := swap4 (seq_only h)\<rparr>"
  by (cases h)
    (simp add: header_bytes_def header_of_bytes_def Let_def slice_def int_bytes2_def int_bytes4_def
      pack_flags_fields ucast_byte top_byte swap2_def swap4_def)

lemma main_header_bytes: "header_bytes Little_endian main_header = [0x53, 9, 10, 0, 0xdd, 0x18, 0, 0]"
  by (simp add: header_bytes_def main_header_def pack_flags_def int_bytes2_def int_bytes4_def Let_def)



text \<open>What \<open>main\<close> sends, prints and returns when the socket can be opened.\<close>

lemma gtp_main_little:
  "sk \<noteq> -1 \<Longrightarrow> cn \<noteq> -1 \<Longrightarrow> gtp_main Little_endian sk cn =
    (0, [Socket sk, Connect ''127.0.0.1'' 2123 cn, Send sk [0x53, 9, 10, 0, 0xdd, 0x18, 0, 0], Close sk],
     bytes ''I'' @ [39] @ bytes ''m on a little-endian system\<newline>Len:8\<newline>printX: '' @
       concat (map (\<lambda>s. 92 # bytes s) [''x53'', ''x09'', ''x0a'', ''x00'', ''xdd'', ''x18'', ''x00'', ''x00'']) @ bytes ''\<newline>'')"
  by (simp add: gtp_main_def is_big_endian_def my_bytes_def int_bytes4_def Let_def send_udp_def printX_def hex2_def hex_digit_def
      dec_digits.simps main_header_bytes)

end
