(* ===== verification/Echo.thy ===== *)
theory Echo
  imports Prelude "HOL-Library.Monad_Syntax"
begin

text \<open>
  The echo programs \<open>C/c_client_server/client.c\<close> and \<open>server.c\<close>. The calls of both are recorded in order. The uninitialised variables of the C code,
  the two buffers and the socket of the client in the server (the call of \<open>accept\<close> is commented out), are arguments, and so are the results of \<open>socket\<close>,
  \<open>recv\<close> and \<open>read\<close>: the bytes received, or \<open>None\<close> for an error. Printing a buffer without a terminating zero reads past it: \<open>None\<close>.
\<close>

definition BUF_SIZE :: nat where "BUF_SIZE = 2048"

datatype call = Socket int | Bind int | Listen int | Connect int | Recv int | Write int "u8 list" | Close int | Print "u8 list"

text \<open>What \<open>recv\<close> and \<open>read\<close> leave in the buffer, and the text that \<open>printf\<close> finds in it.\<close>

definition received :: "u8 list option \<Rightarrow> u8 list \<Rightarrow> u8 list" where
  "received r buf = (case r of None \<Rightarrow> buf | Some bs \<Rightarrow> bs @ drop (length bs) buf)"

definition text_in :: "u8 list \<Rightarrow> u8 list option" where
  "text_in buf = (if 0 \<in> set buf then Some (takeWhile (\<lambda>b. b \<noteq> 0) buf) else None)"

definition server_main :: "int \<Rightarrow> int \<Rightarrow> u8 list \<Rightarrow> (int \<Rightarrow> u8 list option) \<Rightarrow> call list option" where
  "server_main server_socket client_socket buffer0 recv =
    (let buffer = received (recv client_socket) buffer0 in do {
       msg \<leftarrow> text_in buffer;
       Some [Socket server_socket, Bind server_socket, Listen server_socket, Recv client_socket, Print msg,
             Write client_socket buffer, Print msg, Close client_socket, Close server_socket] })"

definition greeting :: "nat \<Rightarrow> u8 list" where
  "greeting pid = bytes ''This is client '' @ dec_digits pid @ bytes ''.''"

definition client_main :: "int \<Rightarrow> nat \<Rightarrow> u8 list \<Rightarrow> u8 list option \<Rightarrow> call list option" where
  "client_main server_socket pid buf0 answer =
    (let buf = received (Some (greeting pid @ [0])) buf0 in do {
       msg \<leftarrow> text_in buf;
       msg' \<leftarrow> text_in (received answer buf);
       Some [Socket server_socket, Connect server_socket, Print msg, Write server_socket buf, Recv server_socket, Print msg', Close server_socket] })"

text \<open>What a sequence of calls sends, and the descriptors it obtains.\<close>

definition sent_on :: "int \<Rightarrow> call list \<Rightarrow> u8 list" where
  "sent_on fd cs = concat (map (\<lambda>c. case c of Write f bs \<Rightarrow> if f = fd then bs else [] | _ \<Rightarrow> []) cs)"

definition obtained :: "call list \<Rightarrow> int set" where
  "obtained cs = {fd. Socket fd \<in> set cs}"

section \<open>The greeting\<close>

lemma dec_digits_nonzero: "0 \<notin> set (dec_digits n)"
proof (induction n rule: dec_digits.induct)
  case (1 n)
  have d: "of_nat (48 + k) \<noteq> (0 :: u8)" if "k < 10" for k
  proof
    assume "of_nat (48 + k) = (0 :: u8)"
    then have "unat (of_nat (48 + k) :: u8) = 0" by (simp only: unat_0)
    moreover have "unat (of_nat (48 + k) :: u8) = 48 + k" using that by (simp only: unat_of_nat take_bit_eq_mod) simp
    ultimately show False by simp
  qed
  show ?case
  proof (cases "n < 10")
    case True
    then have "dec_digits n = [of_nat (48 + n)]" by (subst dec_digits.simps) simp
    with d [OF True] show ?thesis by (metis empty_iff empty_set set_ConsD)
  next
    case False
    then have "dec_digits n = dec_digits (n div 10) @ [of_nat (48 + n mod 10)]" by (subst dec_digits.simps) simp
    with d [of "n mod 10"] "1.IH" [OF False] show ?thesis by (metis Un_iff empty_iff empty_set mod_less_divisor set_ConsD set_append zero_less_numeral)
  qed
qed

lemma greeting_nonzero: "0 \<notin> set (greeting pid)"
  by (simp add: greeting_def dec_digits_nonzero)

lemma text_in_terminated:
  assumes "0 \<notin> set t"
  shows "text_in (t @ 0 # rest) = Some t"
proof -
  have "takeWhile (\<lambda>b. b \<noteq> 0) (t @ 0 # rest) = t" using assms by (induction t) auto
  then show ?thesis by (simp add: text_in_def)
qed

lemma text_in_received:
  assumes "0 \<notin> set t" "length t < k" "bs = take k (t @ 0 # rest)"
  shows "text_in (received (Some bs) buf) = Some t"
proof -
  obtain n where n: "k = length t + Suc n" using assms(2) by (metis less_iff_Suc_add add_Suc_right)
  have "bs = t @ 0 # take n rest" by (simp add: assms(3) n)
  then show ?thesis using text_in_terminated [OF assms(1)] by (simp add: received_def)
qed

text \<open>
  When buffers are long enough and each segment holds at least the greeting and its zero: the client sends its whole buffer, the greeting with its zero and whatever was behind it. If the uninitialised socket of the server happened
  to be the connection, and the first segment holds the greeting, both programs print it: the exchange works as it is meant to. In any case the server
  never obtains a descriptor but its own socket, so the one that it reads, writes and closes is none that it opened.
\<close>

theorem echo_exchange:
  assumes "length buf0 = BUF_SIZE" "length (greeting pid) < BUF_SIZE" "length (greeting pid) < n" "length (greeting pid) < m"
  shows "\<exists>ccalls scalls. client_main cs pid buf0 (Some (take m (sent_on conn scalls))) = Some ccalls \<and>
    server_main ss conn buffer0 (\<lambda>_. Some (take n (sent_on cs ccalls))) = Some scalls \<and>
    Print (greeting pid) \<in> set scalls \<and> filter (\<lambda>c. case c of Print _ \<Rightarrow> True | _ \<Rightarrow> False) ccalls = [Print (greeting pid), Print (greeting pid)] \<and>
    length (sent_on cs ccalls) = BUF_SIZE \<and> obtained scalls = {ss}"
proof -
  let ?g = "greeting pid"
  define buf where "buf = ?g @ 0 # drop (Suc (length ?g)) buf0"
  define buffer where "buffer = received (Some (take n buf)) buffer0"
  define ccalls where "ccalls = [Socket cs, Connect cs, Print ?g, Write cs buf, Recv cs, Print ?g, Close cs]"
  define scalls where "scalls = [Socket ss, Bind ss, Listen ss, Recv conn, Print ?g, Write conn buffer, Print ?g, Close conn, Close ss]"
  have rb: "received (Some (?g @ [0])) buf0 = buf" by (simp add: received_def buf_def)
  have msg: "text_in buf = Some ?g" unfolding buf_def by (rule text_in_terminated [OF greeting_nonzero])
  have sent: "sent_on cs ccalls = buf" "sent_on conn scalls = buffer" by (simp_all add: ccalls_def scalls_def sent_on_def)
  have sb: "text_in buffer = Some ?g"
    unfolding buffer_def by (rule text_in_received [OF greeting_nonzero assms(3)]) (simp add: buf_def)
  have "take n buf = ?g @ 0 # take (n - Suc (length ?g)) (drop (Suc (length ?g)) buf0)"
    using assms(3) by (simp add: buf_def take_Cons')
  then have "buffer = ?g @ 0 # (take (n - Suc (length ?g)) (drop (Suc (length ?g)) buf0) @ drop (length (take n buf)) buffer0)"
    by (simp add: buffer_def received_def)
  then have "text_in (received (Some (take m buffer)) buf) = Some ?g" using text_in_received [OF greeting_nonzero assms(4)] by metis
  then have "client_main cs pid buf0 (Some (take m (sent_on conn scalls))) = Some ccalls"
    by (simp add: client_main_def rb msg sent Let_def) (simp add: ccalls_def)
  moreover have "server_main ss conn buffer0 (\<lambda>_. Some (take n (sent_on cs ccalls))) = Some scalls"
    using sb by (simp add: server_main_def sent buffer_def [symmetric] Let_def) (simp add: scalls_def)
  moreover have "length buf = BUF_SIZE" using assms(1,2) by (simp add: buf_def)
  ultimately show ?thesis using sent by (intro exI [of _ ccalls] exI [of _ scalls]) (auto simp: ccalls_def scalls_def obtained_def)
qed

end
