(* ===== verification/Plugin.thy ===== *)
theory Plugin
  imports Prelude
begin

text \<open>
  The example of a program that loads a library at run time: \<open>C/plugin_module/main.c\<close> and the plugin itself. The dynamic loader is a parameter: what
  \<open>dlopen\<close> gives for a file and \<open>dlsym\<close> for a name. A handle that is not closed is counted.
\<close>

record PluginInterface =
  get_name :: "u8 list"
  get_version :: int

definition plugin_interface :: PluginInterface where
  "plugin_interface = \<lparr>get_name = bytes ''Example Plugin'', get_version = 1\<rparr>"

record loader =
  dlopen :: "string \<Rightarrow> nat option"
  dlsym :: "nat \<Rightarrow> string \<Rightarrow> PluginInterface option"

datatype line = Error_loading_plugin | Error_loading_interface | Plugin_name "u8 list" | Plugin_version int

text \<open>The result of \<open>main\<close>, its output and the handles that stay open.\<close>

definition plugin_main :: "loader \<Rightarrow> int \<times> line list \<times> nat list" where
  "plugin_main ld =
    (case dlopen ld ''./libplugin_example.so'' of
       None \<Rightarrow> (1, [Error_loading_plugin], [])
     | Some h \<Rightarrow>
         (case dlsym ld h ''plugin_interface'' of
            None \<Rightarrow> (1, [Error_loading_interface], [h])
          | Some p \<Rightarrow> (0, [Plugin_name (get_name p), Plugin_version (get_version p)], [])))"

text \<open>
  The program succeeds exactly when library and symbol are found, and then prints name and version that the plugin gives and closes
  the library; with the plugin of the repository that is the example plugin, version 1. It ends with status 1 otherwise, and leaves the library open when the symbol is missing.
\<close>

theorem plugin_main_outcome:
  "(fst (plugin_main ld) = 0 \<longleftrightarrow> (\<exists>h p. dlopen ld ''./libplugin_example.so'' = Some h \<and> dlsym ld h ''plugin_interface'' = Some p)) \<and>
   (dlopen ld ''./libplugin_example.so'' = Some h \<and> dlsym ld h ''plugin_interface'' = Some plugin_interface \<longrightarrow>
      plugin_main ld = (0, [Plugin_name (bytes ''Example Plugin''), Plugin_version 1], [])) \<and>
   (snd (snd (plugin_main ld)) \<noteq> [] \<longleftrightarrow> (\<exists>h. dlopen ld ''./libplugin_example.so'' = Some h \<and> dlsym ld h ''plugin_interface'' = None))"
  by (auto simp: plugin_main_def plugin_interface_def split: option.splits)

end
