(* ===== verification/Signal_Trace.thy ===== *)
theory Signal_Trace
  imports Prelude
begin

text \<open>
  Two small programs: \<open>C/segment_fault_handle_test/signal.c\<close>, which installs a handler for \<open>SIGSEGV\<close> that prints the stack and raises the signal again,
  and \<open>C/trace_test/main.c\<close>, whose nested loops are there to be profiled.

  A fault runs the handler and repeats the instruction; when the signal is ignored or has its default action, the kernel ends the process.
  What \<open>backtrace\<close> and \<open>backtrace_symbols\<close> return is an argument.
\<close>

section \<open>The signal handler\<close>

datatype disposition = SIG_DFL | SIG_IGN | Dump

datatype out = Header | Frame nat "u8 list" | Cannot_catch | After_fault

record proc =
  sigsegv :: disposition
  printed :: "out list"
  killed :: bool

definition frames :: "u8 list list \<Rightarrow> out list" where
  "frames ss = map (\<lambda>(i, s). Frame (i + 1) s) (enumerate 0 ss)"

text \<open>\<open>raise\<close> in the handler, where the signal is ignored by then; a signal with its default action ends the process.\<close>

definition raise_sig :: "proc \<Rightarrow> proc" where
  "raise_sig p = (case sigsegv p of SIG_DFL \<Rightarrow> p\<lparr>killed := True\<rparr> | _ \<Rightarrow> p)"

definition dump :: "u8 list list option \<Rightarrow> proc \<Rightarrow> proc" where
  "dump strings p =
    (let p1 = p\<lparr>sigsegv := SIG_IGN\<rparr>;
         p2 = p1\<lparr>printed := printed p1 @ [Header] @ (case strings of None \<Rightarrow> [] | Some ss \<Rightarrow> frames ss)\<rparr>
     in raise_sig p2)"

text \<open>The faulting instruction: at most \<open>n\<close> attempts, \<open>None\<close> when it is repeated more often.\<close>

fun fault :: "u8 list list option \<Rightarrow> nat \<Rightarrow> proc \<Rightarrow> proc option" where
  "fault strings 0 p = None"
| "fault strings (Suc n) p =
    (if killed p then Some p
     else (case sigsegv p of Dump \<Rightarrow> fault strings n (dump strings p) | _ \<Rightarrow> Some (p\<lparr>killed := True\<rparr>)))"

definition signal_main :: "bool \<Rightarrow> u8 list list option \<Rightarrow> nat \<Rightarrow> proc option" where
  "signal_main installed strings n =
    (let p = (if installed then \<lparr>sigsegv = Dump, printed = [], killed = False\<rparr>
              else \<lparr>sigsegv = SIG_DFL, printed = [Cannot_catch], killed = False\<rparr>)
     in fault strings n p)"

text \<open>The stack is printed exactly once, and two attempts of the faulting instruction are enough: the process does not loop but is killed.\<close>

theorem signal_prints_once:
  "2 \<le> n \<Longrightarrow> \<exists>p. signal_main True strings n = Some p \<and> killed p \<and> printed p = Header # (case strings of None \<Rightarrow> [] | Some ss \<Rightarrow> frames ss)"
  "1 \<le> n \<Longrightarrow> \<exists>p. signal_main False strings n = Some p \<and> killed p \<and> printed p = [Cannot_catch]"
  by (cases n; cases "n - 1"; auto simp: signal_main_def dump_def raise_sig_def)+

section \<open>The loops\<close>

text \<open>A loop from 0 while the counter is below a bound; the state counts the calls of \<open>usleep\<close>.\<close>

function for_loop :: "(nat \<Rightarrow> nat) \<Rightarrow> nat \<Rightarrow> nat \<Rightarrow> nat \<Rightarrow> nat" where
  "for_loop body i bound s = (if i < bound then for_loop body (i + 1) bound (body s) else s)"
  by pat_completeness auto
termination by (relation "measure (\<lambda>(body, i, bound, s). bound - i)") auto

declare for_loop.simps [simp del]

definition foo :: "nat \<Rightarrow> nat" where
  "foo s = for_loop (\<lambda>s. s + 1) 0 10 s"

definition bar :: "nat \<Rightarrow> nat" where
  "bar s = for_loop foo 0 500000 s"

definition trace_main :: nat where
  "trace_main = bar (foo 0)"

lemma for_loop_add:
  "(\<And>s. body s = s + k) \<Longrightarrow> for_loop body i bound s = s + (bound - i) * k"
proof (induction body i bound s rule: for_loop.induct)
  case (1 body i bound s)
  show ?case
  proof (cases "i < bound")
    case True
    then have "bound - i = Suc (bound - (i + 1))" by simp
    moreover have "for_loop body (i + 1) bound (body s) = s + k + (bound - (i + 1)) * k"
      using "1.IH" [OF True "1.prems"] "1.prems" by metis
    ultimately show ?thesis using True by (subst for_loop.simps) simp
  qed (subst for_loop.simps, simp)
qed

text \<open>Each call of \<open>foo\<close> sleeps ten times, and the program 5000010 times in all.\<close>

theorem trace_sleeps: "foo s = s + 10 \<and> trace_main = 5000010"
proof -
  have f: "foo s = s + 10" for s by (simp add: foo_def for_loop_add [where k = 1])
  moreover have "bar s = s + 500000 * 10" for s by (simp add: bar_def for_loop_add [where k = 10, OF f])
  ultimately show ?thesis by (simp add: trace_main_def)
qed

end
