(* ===== verification/Cipset.thy ===== *)
theory Cipset
  imports Prelude "HOL-Library.Monad_Syntax"
begin

text \<open>
  The binding to libipset, \<open>go_test/ipset_test/cipset.c\<close>: two sets of addresses are created in the kernel, one per family, and addresses are
  added to them. The library is a record of functions on an abstract world; a call on a session that is not open, and
  a \<open>NULL\<close> pointer that is followed, is \<open>None\<close>. What the documentation of the library promises is the predicate \<open>ipset_laws\<close>, over two
  views of the world: the options stored in the session and the sets in the kernel.
\<close>

section \<open>The library\<close>

datatype ipset_opt = IPSET_SETNAME | IPSET_OPT_TYPENAME | IPSET_OPT_TIMEOUT | IPSET_OPT_TYPE | IPSET_OPT_FAMILY | IPSET_OPT_IP

datatype ipset_cmd = IPSET_CMD_CREATE | IPSET_CMD_ADD

datatype opt_val = Str string | Num int | Addr "u8 list" | Type_handle nat

text \<open>\<open>None\<close> as the result of \<open>lib_session_fini\<close> means that the library aborts the program.\<close>

record 'w ipset_lib =
  lib_malloc :: "'w \<Rightarrow> bool \<times> 'w"
  lib_load_types :: "'w \<Rightarrow> 'w"
  lib_session_init :: "'w \<Rightarrow> nat option \<times> 'w"
  lib_session_fini :: "nat option \<Rightarrow> 'w \<Rightarrow> 'w option"
  lib_envopt_exist :: "nat \<Rightarrow> 'w \<Rightarrow> 'w"
  lib_data_set :: "nat \<Rightarrow> ipset_opt \<Rightarrow> opt_val \<Rightarrow> 'w \<Rightarrow> 'w"
  lib_type_get :: "nat \<Rightarrow> ipset_cmd \<Rightarrow> 'w \<Rightarrow> nat option \<times> 'w"
  lib_cmd :: "nat \<Rightarrow> ipset_cmd \<Rightarrow> 'w \<Rightarrow> int \<times> 'w"
  lib_report_reset :: "nat \<Rightarrow> 'w \<Rightarrow> 'w"

text \<open>
  The program: the allocated \<open>ipset_state\<close> structures, each with its pointer to a session, the address of the next one, the open sessions,
  and the messages written to \<open>stderr\<close>, without the text that the library adds.
\<close>

datatype message =
  Cannot_find_ipset string | Failed_to_add string | Cannot_find_type string | Failed_to_create string | Cannot_initialize
| Unrecognized_family int

record 'w prog =
  world :: 'w
  heap :: "nat \<rightharpoonup> nat option"
  brk :: nat
  sessions :: "nat set"
  stderr :: "message list"

definition err :: "message \<Rightarrow> 'w prog \<Rightarrow> 'w prog" where
  "err m s = s\<lparr>stderr := stderr s @ [m]\<rparr>"

definition ipset_session_data_set :: "'w ipset_lib \<Rightarrow> nat \<Rightarrow> ipset_opt \<Rightarrow> opt_val \<Rightarrow> 'w prog \<Rightarrow> 'w prog option" where
  "ipset_session_data_set L ss opt v s = (if ss \<in> sessions s then Some (s\<lparr>world := lib_data_set L ss opt v (world s)\<rparr>) else None)"

definition ipset_type_get :: "'w ipset_lib \<Rightarrow> nat \<Rightarrow> ipset_cmd \<Rightarrow> 'w prog \<Rightarrow> (nat option \<times> 'w prog) option" where
  "ipset_type_get L ss c s = (if ss \<in> sessions s then let (t, w) = lib_type_get L ss c (world s) in Some (t, s\<lparr>world := w\<rparr>) else None)"

definition run_cmd :: "'w ipset_lib \<Rightarrow> nat \<Rightarrow> ipset_cmd \<Rightarrow> 'w prog \<Rightarrow> (int \<times> 'w prog) option" where
  "run_cmd L ss c s = (if ss \<in> sessions s then let (r, w) = lib_cmd L ss c (world s) in Some (r, s\<lparr>world := w\<rparr>) else None)"

definition ipset_session_fini :: "'w ipset_lib \<Rightarrow> nat option \<Rightarrow> 'w prog \<Rightarrow> 'w prog option" where
  "ipset_session_fini L p s = (case p of
     None \<Rightarrow> map_option (\<lambda>w. s\<lparr>world := w\<rparr>) (lib_session_fini L None (world s))
   | Some ss \<Rightarrow> if ss \<in> sessions s then map_option (\<lambda>w. s\<lparr>world := w, sessions := sessions s - {ss}\<rparr>) (lib_session_fini L p (world s)) else None)"

definition free_state :: "nat \<Rightarrow> 'w prog \<Rightarrow> 'w prog option" where
  "free_state p s = (if p \<in> dom (heap s) then Some (s\<lparr>heap := (heap s)(p := None)\<rparr>) else None)"

section \<open>The functions of the binding\<close>

definition SETNAME_IPV4 :: string where
  "SETNAME_IPV4 = ''ipset-ipv4''"

definition SETNAME_IPV6 :: string where
  "SETNAME_IPV6 = ''ipset-ipv6''"

abbreviation NFPROTO_IPV4 :: int where
  "NFPROTO_IPV4 \<equiv> 2"

abbreviation NFPROTO_IPV6 :: int where
  "NFPROTO_IPV6 \<equiv> 10"

abbreviation AF_INET :: int where
  "AF_INET \<equiv> 2"

abbreviation AF_INET6 :: int where
  "AF_INET6 \<equiv> 10"

text \<open>The union has 16 bytes, of which an IPv4 address takes the first four.\<close>

record address =
  family :: int
  addr_union :: "u8 list"

definition ip4_addr :: "address \<Rightarrow> u8 list" where
  "ip4_addr a = take 4 (addr_union a)"

definition ip6_addr :: "address \<Rightarrow> u8 list" where
  "ip6_addr a = take 16 (addr_union a)"

definition try_ipset_cmd :: "'w ipset_lib \<Rightarrow> nat \<Rightarrow> ipset_cmd \<Rightarrow> string \<Rightarrow> int \<Rightarrow> u8 list \<Rightarrow> 'w prog \<Rightarrow> (bool \<times> 'w prog) option" where
  "try_ipset_cmd L session cmd setname fam addr s = do {
    s1 \<leftarrow> ipset_session_data_set L session IPSET_SETNAME (Str setname) s;
    (ty, s2) \<leftarrow> ipset_type_get L session cmd s1;
    if ty = None then Some (False, err (Cannot_find_ipset setname) s2)
    else do {
      s3 \<leftarrow> ipset_session_data_set L session IPSET_OPT_FAMILY (Num fam) s2;
      s4 \<leftarrow> ipset_session_data_set L session IPSET_OPT_IP (Addr addr) s3;
      (r, s5) \<leftarrow> run_cmd L session cmd s4;
      if r \<noteq> 0 then Some (False, err (Failed_to_add setname) s5) else Some (True, s5) } }"

definition try_ipset_create :: "'w ipset_lib \<Rightarrow> nat \<Rightarrow> string \<Rightarrow> string \<Rightarrow> int \<Rightarrow> 'w prog \<Rightarrow> (bool \<times> 'w prog) option" where
  "try_ipset_create L session setname typename fam s = do {
    s1 \<leftarrow> ipset_session_data_set L session IPSET_SETNAME (Str setname) s;
    s2 \<leftarrow> ipset_session_data_set L session IPSET_OPT_TYPENAME (Str typename) s1;
    (ty, s3) \<leftarrow> ipset_type_get L session IPSET_CMD_CREATE s2;
    case ty of None \<Rightarrow> Some (False, err (Cannot_find_type typename) s3)
    | Some t \<Rightarrow> do {
      s4 \<leftarrow> ipset_session_data_set L session IPSET_OPT_TIMEOUT (Num 0) s3;
      s5 \<leftarrow> ipset_session_data_set L session IPSET_OPT_TYPE (Type_handle t) s4;
      s6 \<leftarrow> ipset_session_data_set L session IPSET_OPT_FAMILY (Num fam) s5;
      (r, s7) \<leftarrow> run_cmd L session IPSET_CMD_CREATE s6;
      if r \<noteq> 0 then Some (False, err (Failed_to_create setname) s7) else Some (True, s7) } }"

definition err_session :: "'w ipset_lib \<Rightarrow> nat \<Rightarrow> 'w prog \<Rightarrow> (nat option \<times> 'w prog) option" where
  "err_session L p s = do { ss \<leftarrow> heap s p; s1 \<leftarrow> ipset_session_fini L ss s; s2 \<leftarrow> free_state p s1; Some (None, s2) }"

definition ipset_init :: "'w ipset_lib \<Rightarrow> 'w prog \<Rightarrow> (nat option \<times> 'w prog) option" where
  "ipset_init L s = (let (ok, w) = lib_malloc L (world s); s1 = s\<lparr>world := w\<rparr> in
    if \<not> ok then Some (None, s1)
    else let p = brk s1; (ss, w1) = lib_session_init L (lib_load_types L (world s1));
        s2 = s1\<lparr>world := w1, heap := (heap s1)(p \<mapsto> ss), brk := p + 1\<rparr> in
      case ss of None \<Rightarrow> err_session L p (err Cannot_initialize s2)
      | Some session \<Rightarrow> do {
          let s3 = s2\<lparr>world := lib_envopt_exist L session (world s2), sessions := insert session (sessions s2)\<rparr>;
          (ok4, s4) \<leftarrow> try_ipset_create L session SETNAME_IPV4 ''hash:ip'' NFPROTO_IPV4 s3;
          if \<not> ok4 then err_session L p s4 else do {
            (ok6, s5) \<leftarrow> try_ipset_create L session SETNAME_IPV6 ''hash:ip'' NFPROTO_IPV6 s4;
            if \<not> ok6 then err_session L p s5 else Some (Some p, s5) } })"

text \<open>A pointer to an \<open>ipset_state\<close> is followed by \<open>deref\<close>; \<open>NULL\<close> and freed structures fail.\<close>

definition deref :: "nat option \<Rightarrow> 'w prog \<Rightarrow> nat option option" where
  "deref p s = do { a \<leftarrow> p; heap s a }"

definition ipset_add_ip :: "'w ipset_lib \<Rightarrow> nat option \<Rightarrow> address \<Rightarrow> 'w prog \<Rightarrow> 'w prog option" where
  "ipset_add_ip L state addr s = do {
    sp \<leftarrow> deref state s;
    if family addr = AF_INET then do {
      session \<leftarrow> sp;
      (_, s1) \<leftarrow> try_ipset_cmd L session IPSET_CMD_ADD SETNAME_IPV4 NFPROTO_IPV4 (ip4_addr addr) s;
      Some (s1\<lparr>world := lib_report_reset L session (world s1)\<rparr>) }
    else if family addr = AF_INET6 then do {
      session \<leftarrow> sp;
      (_, s1) \<leftarrow> try_ipset_cmd L session IPSET_CMD_ADD SETNAME_IPV6 NFPROTO_IPV6 (ip6_addr addr) s;
      Some (s1\<lparr>world := lib_report_reset L session (world s1)\<rparr>) }
    else Some (err (Unrecognized_family (family addr)) s) }"

definition ipset_fini :: "'w ipset_lib \<Rightarrow> nat option \<Rightarrow> 'w prog \<Rightarrow> 'w prog option" where
  "ipset_fini L state s = do { sp \<leftarrow> deref state s; s1 \<leftarrow> ipset_session_fini L sp s; a \<leftarrow> state; free_state a s1 }"

text \<open>\<open>aton\<close> stands for \<open>inet_aton\<close>, whose result the code ignores; when the text is no address the union keeps what it held.\<close>

definition ip2addr :: "(string \<Rightarrow> u8 list option) \<Rightarrow> string \<Rightarrow> address \<Rightarrow> address" where
  "ip2addr aton ip addr = (let a = addr\<lparr>family := AF_INET\<rparr> in
    case aton ip of None \<Rightarrow> a | Some b \<Rightarrow> a\<lparr>addr_union := b @ drop 4 (addr_union addr)\<rparr>)"

definition ipset_main :: "'w ipset_lib \<Rightarrow> (string \<Rightarrow> u8 list option) \<Rightarrow> address \<Rightarrow> 'w prog \<Rightarrow> (int \<times> 'w prog) option" where
  "ipset_main L aton addr0 s = do {
    let addr = ip2addr aton ''1.1.1.1'' addr0;
    (state, s1) \<leftarrow> ipset_init L s;
    s2 \<leftarrow> ipset_add_ip L state addr s1;
    s3 \<leftarrow> ipset_fini L state s2;
    Some (0, s3) }"

section \<open>What the library promises\<close>

record iset =
  itype :: string
  ifamily :: int
  imembers :: "u8 list set"

text \<open>The set that a successful creation leaves: with \<open>IPSET_ENV_EXIST\<close> an existing set of the same type and family keeps its members.\<close>

definition created :: "string \<Rightarrow> int \<Rightarrow> iset option \<Rightarrow> iset" where
  "created ty fam old = \<lparr>itype = ty, ifamily = fam, imembers = (case old of None \<Rightarrow> {} | Some i \<Rightarrow> imembers i)\<rparr>"

definition ipset_laws :: "'w ipset_lib \<Rightarrow> ('w \<Rightarrow> string \<rightharpoonup> iset) \<Rightarrow> ('w \<Rightarrow> nat \<Rightarrow> ipset_opt \<rightharpoonup> opt_val) \<Rightarrow> (nat \<Rightarrow> string) \<Rightarrow> bool" where
  "ipset_laws L sets opts tname \<longleftrightarrow>
    (\<forall>w. sets (snd (lib_malloc L w)) = sets w \<and> sets (lib_load_types L w) = sets w \<and> sets (snd (lib_session_init L w)) = sets w) \<and>
    (\<forall>w ss. \<exists>w'. lib_session_fini L (Some ss) w = Some w' \<and> sets w' = sets w) \<and>
    (\<forall>w ss. sets (lib_envopt_exist L ss w) = sets w \<and> sets (lib_report_reset L ss w) = sets w) \<and>
    (\<forall>w ss o' v. sets (lib_data_set L ss o' v w) = sets w \<and> opts (lib_data_set L ss o' v w) ss = (opts w ss)(o' \<mapsto> v)) \<and>
    (\<forall>w ss c. sets (snd (lib_type_get L ss c w)) = sets w \<and> opts (snd (lib_type_get L ss c w)) ss = opts w ss) \<and>
    (\<forall>w ss t ty. fst (lib_type_get L ss IPSET_CMD_CREATE w) = Some t \<and> opts w ss IPSET_OPT_TYPENAME = Some (Str ty) \<longrightarrow> tname t = ty) \<and>
    (\<forall>w ss c. fst (lib_cmd L ss c w) \<noteq> 0 \<longrightarrow> sets (snd (lib_cmd L ss c w)) = sets w) \<and>
    (\<forall>w ss n t fam. fst (lib_cmd L ss IPSET_CMD_CREATE w) = 0 \<and> opts w ss IPSET_SETNAME = Some (Str n) \<and>
       opts w ss IPSET_OPT_TYPE = Some (Type_handle t) \<and> opts w ss IPSET_OPT_FAMILY = Some (Num fam) \<longrightarrow>
       sets (snd (lib_cmd L ss IPSET_CMD_CREATE w)) = (sets w)(n \<mapsto> created (tname t) fam (sets w n))) \<and>
    (\<forall>w ss n a. fst (lib_cmd L ss IPSET_CMD_ADD w) = 0 \<and> opts w ss IPSET_SETNAME = Some (Str n) \<and> opts w ss IPSET_OPT_IP = Some (Addr a) \<longrightarrow>
       (\<exists>i. sets w n = Some i \<and> sets (snd (lib_cmd L ss IPSET_CMD_ADD w)) = (sets w)(n \<mapsto> i\<lparr>imembers := insert a (imembers i)\<rparr>)))"

text \<open>The resources of the program, which the commands leave alone.\<close>

definition same_res :: "'w prog \<Rightarrow> 'w prog \<Rightarrow> bool" where
  "same_res s s' \<longleftrightarrow> heap s' = heap s \<and> brk s' = brk s \<and> sessions s' = sessions s"

lemma same_res_trans: "same_res a b \<Longrightarrow> same_res b c \<Longrightarrow> same_res a c"
  by (simp add: same_res_def)

lemma err_simps [simp]: "world (err m s) = world s" "heap (err m s) = heap s" "brk (err m s) = brk s" "sessions (err m s) = sessions s"
  "stderr (err m s) = stderr s @ [m]"
  by (simp_all add: err_def)

lemma try_ipset_create_outcome:
  assumes L: "ipset_laws L sets opts tname" and ss: "ss \<in> sessions s"
  shows "\<exists>ok s'. try_ipset_create L ss n ty fam s = Some (ok, s') \<and> same_res s s' \<and>
    (if ok then sets (world s') = (sets (world s))(n \<mapsto> created ty fam (sets (world s) n)) \<and> stderr s' = stderr s
     else sets (world s') = sets (world s) \<and> length (stderr s') = length (stderr s) + 1)"
proof -
  let ?w2 = "lib_data_set L ss IPSET_OPT_TYPENAME (Str ty) (lib_data_set L ss IPSET_SETNAME (Str n) (world s))"
  obtain tt w3 where g: "lib_type_get L ss IPSET_CMD_CREATE ?w2 = (tt, w3)" by force
  have d: "sets (lib_data_set L ss o' v w) = sets w" "opts (lib_data_set L ss o' v w) ss = (opts w ss)(o' \<mapsto> v)" for o' v w
    using L by (auto simp: ipset_laws_def)
  have w3: "sets w3 = sets (world s)" "opts w3 ss = (opts (world s) ss)(IPSET_SETNAME \<mapsto> Str n, IPSET_OPT_TYPENAME \<mapsto> Str ty)"
    using L g d unfolding ipset_laws_def by (metis snd_conv)+
  show ?thesis
  proof (cases tt)
    case None
    with ss g w3 show ?thesis by (auto simp: try_ipset_create_def ipset_session_data_set_def ipset_type_get_def same_res_def)
  next
    case (Some t)
    let ?w6 = "lib_data_set L ss IPSET_OPT_FAMILY (Num fam) (lib_data_set L ss IPSET_OPT_TYPE (Type_handle t)
      (lib_data_set L ss IPSET_OPT_TIMEOUT (Num 0) w3))"
    obtain r w7 where c: "lib_cmd L ss IPSET_CMD_CREATE ?w6 = (r, w7)" by force
    have "tname t = ty" using L g Some d unfolding ipset_laws_def by (metis fst_conv fun_upd_same)
    moreover have "r \<noteq> 0 \<Longrightarrow> sets w7 = sets ?w6" using L c unfolding ipset_laws_def by (metis fst_conv snd_conv)
    moreover have "r = 0 \<Longrightarrow> sets w7 = (sets ?w6)(n \<mapsto> created (tname t) fam (sets ?w6 n))"
    proof -
      have "opts ?w6 ss IPSET_SETNAME = Some (Str n)" "opts ?w6 ss IPSET_OPT_TYPE = Some (Type_handle t)"
        "opts ?w6 ss IPSET_OPT_FAMILY = Some (Num fam)" using w3 by (simp_all add: d)
      then show "r = 0 \<Longrightarrow> ?thesis" using L c unfolding ipset_laws_def by (metis fst_conv snd_conv)
    qed
    ultimately show ?thesis using ss g c w3 Some
      by (auto simp: try_ipset_create_def ipset_session_data_set_def ipset_type_get_def run_cmd_def same_res_def d)
  qed
qed

lemma try_ipset_add_outcome:
  assumes L: "ipset_laws L sets opts tname" and ss: "ss \<in> sessions s"
  shows "\<exists>ok s'. try_ipset_cmd L ss IPSET_CMD_ADD n fam a s = Some (ok, s') \<and> same_res s s' \<and>
    (if ok then (\<exists>i. sets (world s) n = Some i \<and> sets (world s') = (sets (world s))(n \<mapsto> i\<lparr>imembers := insert a (imembers i)\<rparr>)) \<and> stderr s' = stderr s
     else sets (world s') = sets (world s) \<and> length (stderr s') = length (stderr s) + 1)"
proof -
  let ?w1 = "lib_data_set L ss IPSET_SETNAME (Str n) (world s)"
  obtain tt w2 where g: "lib_type_get L ss IPSET_CMD_ADD ?w1 = (tt, w2)" by force
  have d: "sets (lib_data_set L ss o' v w) = sets w" "opts (lib_data_set L ss o' v w) ss = (opts w ss)(o' \<mapsto> v)" for o' v w
    using L by (auto simp: ipset_laws_def)
  have w2: "sets w2 = sets (world s)" "opts w2 ss = (opts (world s) ss)(IPSET_SETNAME \<mapsto> Str n)"
    using L g d unfolding ipset_laws_def by (metis snd_conv)+
  show ?thesis
  proof (cases tt)
    case None
    with ss g w2 show ?thesis by (auto simp: try_ipset_cmd_def ipset_session_data_set_def ipset_type_get_def same_res_def)
  next
    case (Some t)
    let ?w4 = "lib_data_set L ss IPSET_OPT_IP (Addr a) (lib_data_set L ss IPSET_OPT_FAMILY (Num fam) w2)"
    obtain r w5 where c: "lib_cmd L ss IPSET_CMD_ADD ?w4 = (r, w5)" by force
    have "r \<noteq> 0 \<Longrightarrow> sets w5 = sets ?w4" using L c unfolding ipset_laws_def by (metis fst_conv snd_conv)
    moreover have "r = 0 \<Longrightarrow> \<exists>i. sets ?w4 n = Some i \<and> sets w5 = (sets ?w4)(n \<mapsto> i\<lparr>imembers := insert a (imembers i)\<rparr>)"
    proof -
      have "opts ?w4 ss IPSET_SETNAME = Some (Str n)" "opts ?w4 ss IPSET_OPT_IP = Some (Addr a)" using w2 by (simp_all add: d)
      then show "r = 0 \<Longrightarrow> ?thesis" using L c unfolding ipset_laws_def by (metis fst_conv snd_conv)
    qed
    ultimately show ?thesis using ss g c w2 Some
      by (auto simp: try_ipset_cmd_def ipset_session_data_set_def ipset_type_get_def run_cmd_def same_res_def d)
  qed
qed

section \<open>Initialisation\<close>

lemma session_fini_Some:
  assumes "ipset_laws L sets opts tname" "ss \<in> sessions s"
  shows "\<exists>w'. ipset_session_fini L (Some ss) s = Some (s\<lparr>world := w', sessions := sessions s - {ss}\<rparr>) \<and> sets w' = sets (world s)"
  using assms by (auto simp: ipset_session_fini_def ipset_laws_def) metis

text \<open>Leaving \<open>ipset_init\<close> after a failed creation closes the session and releases the structure.\<close>

lemma err_session_cleans:
  assumes L: "ipset_laws L sets opts tname" and s: "heap s p = Some (Some ss)" "ss \<in> sessions s"
  shows "\<exists>w'. err_session L p s = Some (None, s\<lparr>world := w', sessions := sessions s - {ss}, heap := (heap s)(p := None)\<rparr>) \<and> sets w' = sets (world s)"
proof -
  obtain w' where "ipset_session_fini L (Some ss) s = Some (s\<lparr>world := w', sessions := sessions s - {ss}\<rparr>)" "sets w' = sets (world s)"
    using session_fini_Some [OF L s(2)] by blast
  then show ?thesis using s(1) by (intro exI [of _ w']) (simp add: err_session_def free_state_def domIff)
qed

lemma ipset_init_cases:
  assumes L: "ipset_laws L sets opts tname" and fr: "heap s (brk s) = None" "\<forall>w ss. fst (lib_session_init L w) = Some ss \<longrightarrow> ss \<notin> sessions s"
  shows "case ipset_init L s of None \<Rightarrow> \<exists>w. fst (lib_session_init L w) = None
    | Some (None, s') \<Rightarrow> heap s' = heap s \<and> sessions s' = sessions s
    | Some (Some p, s') \<Rightarrow> \<exists>ss. p = brk s \<and> heap s' = (heap s)(p \<mapsto> Some ss) \<and> sessions s' = insert ss (sessions s) \<and> ss \<notin> sessions s \<and>
        stderr s' = stderr s \<and>
        sets (world s') = (sets (world s))(SETNAME_IPV4 \<mapsto> created ''hash:ip'' NFPROTO_IPV4 (sets (world s) SETNAME_IPV4),
          SETNAME_IPV6 \<mapsto> created ''hash:ip'' NFPROTO_IPV6 (sets (world s) SETNAME_IPV6))"
proof -
  obtain ok w where m: "lib_malloc L (world s) = (ok, w)" by force
  obtain ss w1 where i: "lib_session_init L (lib_load_types L w) = (ss, w1)" by force
  have w1: "sets w1 = sets (world s)" using L m i unfolding ipset_laws_def by (metis snd_conv)
  consider (no_memory) "\<not> ok" | (no_session) "ok" "ss = None" | (session) x where "ok" "ss = Some x" by blast
  then show ?thesis
  proof cases
    case no_memory
    then show ?thesis by (simp add: ipset_init_def m)
  next
    case no_session
    with fr m i show ?thesis
      by (cases "lib_session_fini L None w1")
        (auto simp: ipset_init_def Let_def err_session_def ipset_session_fini_def free_state_def fun_upd_idem intro!: exI [of _ "lib_load_types L w"])
  next
    case session
    have x: "x \<notin> sessions s" using fr(2) i session(2) by (metis fst_conv)
    let ?s3 = "s\<lparr>heap := (heap s)(brk s \<mapsto> Some x), brk := Suc (brk s), world := lib_envopt_exist L x w1, sessions := insert x (sessions s)\<rparr>"
    have s3: "sets (world ?s3) = sets (world s)" using L w1 unfolding ipset_laws_def by simp
    obtain ok4 s4 where c4: "try_ipset_create L x SETNAME_IPV4 ''hash:ip'' NFPROTO_IPV4 ?s3 = Some (ok4, s4)" "same_res ?s3 s4"
      "ok4 \<Longrightarrow> sets (world s4) = (sets (world s))(SETNAME_IPV4 \<mapsto> created ''hash:ip'' NFPROTO_IPV4 (sets (world s) SETNAME_IPV4))"
      "ok4 \<Longrightarrow> stderr s4 = stderr s"
      using try_ipset_create_outcome [OF L, of x ?s3 SETNAME_IPV4 "''hash:ip''" NFPROTO_IPV4] s3 by (auto split: if_splits)
    obtain ok6 s6 where c6: "try_ipset_create L x SETNAME_IPV6 ''hash:ip'' NFPROTO_IPV6 s4 = Some (ok6, s6)" "same_res s4 s6"
      "ok6 \<Longrightarrow> sets (world s6) = (sets (world s4))(SETNAME_IPV6 \<mapsto> created ''hash:ip'' NFPROTO_IPV6 (sets (world s4) SETNAME_IPV6))"
      "ok6 \<Longrightarrow> stderr s6 = stderr s4"
      using try_ipset_create_outcome [OF L, of x s4 SETNAME_IPV6 "''hash:ip''" NFPROTO_IPV6] c4(2) by (auto simp: same_res_def split: if_splits)
    have e: "\<exists>w'. err_session L (brk s) t = Some (None, t\<lparr>world := w', sessions := sessions s, heap := heap s\<rparr>)" if "same_res ?s3 t" for t
      using err_session_cleans [OF L, of t "brk s" x] that x fr(1) by (auto simp: same_res_def fun_upd_idem)
    show ?thesis
      using session m i e [OF c4(2)] e [OF same_res_trans [OF c4(2) c6(2)]] c4 c6 x fr(1)
      by (auto simp: ipset_init_def Let_def same_res_def SETNAME_IPV4_def SETNAME_IPV6_def)
  qed
qed

section \<open>The whole program\<close>

lemma ipset_main_after_init:
  assumes L: "ipset_laws L sets opts tname" and i: "ipset_init L s = Some (Some p, s1)"
    and s1: "heap s1 p = Some (Some ss)" "ss \<in> sessions s1" and a: "aton ''1.1.1.1'' = Some a" "length a = 4"
  shows "\<exists>s'. ipset_main L aton addr0 s = Some (0, s') \<and> heap s' = (heap s1)(p := None) \<and> sessions s' = sessions s1 - {ss} \<and>
    ((\<exists>i. sets (world s1) SETNAME_IPV4 = Some i \<and> sets (world s') = (sets (world s1))(SETNAME_IPV4 \<mapsto> i\<lparr>imembers := insert a (imembers i)\<rparr>)) \<and>
       stderr s' = stderr s1 \<or>
     sets (world s') = sets (world s1) \<and> length (stderr s') = length (stderr s1) + 1)"
proof -
  let ?addr = "ip2addr aton ''1.1.1.1'' addr0"
  have addr: "family ?addr = AF_INET" "ip4_addr ?addr = a" using a by (simp_all add: ip2addr_def Let_def ip4_addr_def)
  obtain ok s2 where c: "try_ipset_cmd L ss IPSET_CMD_ADD SETNAME_IPV4 NFPROTO_IPV4 a s1 = Some (ok, s2)" "same_res s1 s2"
    "if ok then (\<exists>i. sets (world s1) SETNAME_IPV4 = Some i \<and> sets (world s2) = (sets (world s1))(SETNAME_IPV4 \<mapsto> i\<lparr>imembers := insert a (imembers i)\<rparr>)) \<and> stderr s2 = stderr s1
     else sets (world s2) = sets (world s1) \<and> length (stderr s2) = length (stderr s1) + 1"
    using try_ipset_add_outcome [OF L s1(2), of SETNAME_IPV4 NFPROTO_IPV4 a] by blast
  let ?s3 = "s2\<lparr>world := lib_report_reset L ss (world s2)\<rparr>"
  have r: "sets (world ?s3) = sets (world s2)" using L by (simp add: ipset_laws_def)
  obtain w' where f: "ipset_session_fini L (Some ss) ?s3 = Some (?s3\<lparr>world := w', sessions := sessions ?s3 - {ss}\<rparr>)" "sets w' = sets (world ?s3)"
    using session_fini_Some [OF L, of ss ?s3] c(2) s1(2) by (auto simp: same_res_def)
  have "ipset_main L aton addr0 s = Some (0, ?s3\<lparr>world := w', sessions := sessions s1 - {ss}, heap := (heap s1)(p := None)\<rparr>)"
    using i c f s1 addr by (simp add: ipset_main_def ipset_add_ip_def ipset_fini_def deref_def free_state_def same_res_def domIff)
  with c f(2) r show ?thesis by (auto simp: same_res_def split: if_splits)
qed

text \<open>
  C37. The program, with a library that keeps its promises. When the initialisation succeeds, \<open>main\<close> returns 0 with its structure released and its
  session closed; both sets exist with type \<open>hash:ip\<close> and the right family and with the members they had before, and the address has been
  added to the IPv4 set, or a message says why not; no other set has changed. When the initialisation fails it has released
  what it allocated, and \<open>main\<close>, which does not look at the result, follows the \<open>NULL\<close> pointer.
\<close>

theorem ipset_main_outcome:
  assumes L: "ipset_laws L sets opts tname" and fr: "heap s (brk s) = None" "\<forall>w ss. fst (lib_session_init L w) = Some ss \<longrightarrow> ss \<notin> sessions s"
    and a: "aton ''1.1.1.1'' = Some a" "length a = 4"
  shows "case ipset_init L s of None \<Rightarrow> ipset_main L aton addr0 s = None
    | Some (None, s1) \<Rightarrow> heap s1 = heap s \<and> sessions s1 = sessions s \<and> ipset_main L aton addr0 s = None
    | Some (Some p, s1) \<Rightarrow> \<exists>s'. ipset_main L aton addr0 s = Some (0, s') \<and> heap s' = heap s \<and> sessions s' = sessions s \<and>
        (let i4 = created ''hash:ip'' NFPROTO_IPV4 (sets (world s) SETNAME_IPV4);
             i4' = (if stderr s' = stderr s then i4\<lparr>imembers := insert a (imembers i4)\<rparr> else i4) in
         sets (world s') = (sets (world s))(SETNAME_IPV4 \<mapsto> i4',
           SETNAME_IPV6 \<mapsto> created ''hash:ip'' NFPROTO_IPV6 (sets (world s) SETNAME_IPV6)))"
proof (cases "ipset_init L s")
  case None
  then show ?thesis by (simp add: ipset_main_def)
next
  case (Some r)
  note init = ipset_init_cases [OF L fr, unfolded Some, simplified]
  obtain q s1 where r: "r = (q, s1)" by (cases r)
  show ?thesis
  proof (cases q)
    case None
    with Some r init show ?thesis by (simp add: ipset_main_def ipset_add_ip_def deref_def)
  next
    case q: (Some p)
    obtain ss where ss: "p = brk s" "heap s1 = (heap s)(p \<mapsto> Some ss)" "sessions s1 = insert ss (sessions s)" "ss \<notin> sessions s" "stderr s1 = stderr s"
      "sets (world s1) = (sets (world s))(SETNAME_IPV4 \<mapsto> created ''hash:ip'' NFPROTO_IPV4 (sets (world s) SETNAME_IPV4),
          SETNAME_IPV6 \<mapsto> created ''hash:ip'' NFPROTO_IPV6 (sets (world s) SETNAME_IPV6))"
      using init r q by auto
    have n: "SETNAME_IPV4 \<noteq> SETNAME_IPV6" by (simp add: SETNAME_IPV4_def SETNAME_IPV6_def)
    have i: "ipset_init L s = Some (Some p, s1)" using Some r q by simp
    obtain s' where s': "ipset_main L aton addr0 s = Some (0, s')" "heap s' = heap s" "sessions s' = sessions s"
      "(\<exists>i. sets (world s1) SETNAME_IPV4 = Some i \<and> sets (world s') = (sets (world s1))(SETNAME_IPV4 \<mapsto> i\<lparr>imembers := insert a (imembers i)\<rparr>)) \<and>
       stderr s' = stderr s1 \<or> sets (world s') = sets (world s1) \<and> length (stderr s') = length (stderr s1) + 1"
      using ipset_main_after_init [OF L i, of ss aton a addr0] a ss fr(1) by (auto simp: fun_upd_idem)
    from s'(4) show ?thesis
    proof
      assume "(\<exists>i. sets (world s1) SETNAME_IPV4 = Some i \<and> sets (world s') = (sets (world s1))(SETNAME_IPV4 \<mapsto> i\<lparr>imembers := insert a (imembers i)\<rparr>)) \<and>
        stderr s' = stderr s1"
      with i s' ss n show ?thesis by (auto simp: Let_def fun_upd_twist)
    next
      assume "sets (world s') = sets (world s1) \<and> length (stderr s') = length (stderr s1) + 1"
      with i s' ss show ?thesis by (auto simp: Let_def)
    qed
  qed
qed

text \<open>A library over a world of sets and options; closing \<open>NULL\<close> aborts.\<close>

record lib_world =
  w_sets :: "string \<rightharpoonup> iset"
  w_opts :: "nat \<Rightarrow> ipset_opt \<rightharpoonup> opt_val"

definition test_cmd :: "nat \<Rightarrow> ipset_cmd \<Rightarrow> lib_world \<Rightarrow> int \<times> lib_world" where
  "test_cmd ss c w = (case c of
     IPSET_CMD_CREATE \<Rightarrow> (case (w_opts w ss IPSET_SETNAME, w_opts w ss IPSET_OPT_FAMILY) of
         (Some (Str n), Some (Num f)) \<Rightarrow> (0, w\<lparr>w_sets := (w_sets w)(n \<mapsto> created ''hash:ip'' f (w_sets w n))\<rparr>) | _ \<Rightarrow> (1, w))
   | IPSET_CMD_ADD \<Rightarrow> (case (w_opts w ss IPSET_SETNAME, w_opts w ss IPSET_OPT_IP) of
         (Some (Str n), Some (Addr a)) \<Rightarrow> (case w_sets w n of None \<Rightarrow> (1, w)
            | Some i \<Rightarrow> (0, w\<lparr>w_sets := (w_sets w)(n \<mapsto> i\<lparr>imembers := insert a (imembers i)\<rparr>)\<rparr>)) | _ \<Rightarrow> (1, w)))"

definition test_lib :: "lib_world ipset_lib" where
  "test_lib = \<lparr>lib_malloc = Pair True, lib_load_types = id, lib_session_init = Pair (Some 3),
    lib_session_fini = (\<lambda>p w. map_option (\<lambda>_. w) p), lib_envopt_exist = (\<lambda>_ w. w),
    lib_data_set = (\<lambda>ss o' v w. w\<lparr>w_opts := (w_opts w)(ss := (w_opts w ss)(o' \<mapsto> v))\<rparr>),
    lib_type_get = (\<lambda>ss c w. (if c = IPSET_CMD_ADD \<or> w_opts w ss IPSET_OPT_TYPENAME = Some (Str ''hash:ip'') then Some 0 else None, w)),
    lib_cmd = test_cmd, lib_report_reset = (\<lambda>_ w. w)\<rparr>"

lemma test_lib_laws: "ipset_laws test_lib w_sets w_opts (\<lambda>_. ''hash:ip'')"
  by (auto simp: ipset_laws_def test_lib_def test_cmd_def split: ipset_cmd.splits option.splits opt_val.splits)

theorem ipset_main_outcome_witness:
  "\<exists>s'. ipset_main test_lib (\<lambda>_. Some [1, 1, 1, 1]) \<lparr>family = 0, addr_union = replicate 16 0\<rparr>
      \<lparr>world = \<lparr>w_sets = Map.empty, w_opts = \<lambda>_. Map.empty\<rparr>, heap = Map.empty, brk = 1, sessions = {}, stderr = []\<rparr> = Some (0, s') \<and>
    heap s' = Map.empty \<and> sessions s' = {} \<and> w_sets (world s') ''ipset-ipv6'' = Some \<lparr>itype = ''hash:ip'', ifamily = 10, imembers = {}\<rparr>"
  using ipset_main_outcome [OF test_lib_laws, of "\<lparr>world = \<lparr>w_sets = Map.empty, w_opts = \<lambda>_. Map.empty\<rparr>, heap = Map.empty, brk = 1, sessions = {}, stderr = []\<rparr>"
    "\<lambda>_. Some [1, 1, 1, 1]" "[1, 1, 1, 1]" "\<lparr>family = 0, addr_union = replicate 16 0\<rparr>"]
  by (auto simp: ipset_init_def test_lib_def test_cmd_def try_ipset_create_def ipset_session_data_set_def ipset_type_get_def run_cmd_def Let_def
      created_def SETNAME_IPV4_def SETNAME_IPV6_def)

end
