(* ===== verification/Libipset.thy ===== *)
theory Libipset
  imports Prelude "HOL-Library.Monad_Syntax"
begin

text \<open>
  The headers of libipset that come with the binding, \<open>go_test/ipset_test/libipset\<close>, where they have content beyond declarations: the table of
  network masks of \<open>pfxlen.h\<close>, shown equal to the masks it stands for, and the enumerations and flags of \<open>data.h\<close>, \<open>linux_ip_set.h\<close> and \<open>session.h\<close>, whose
  values the compiler counts.
\<close>

section \<open>Network masks\<close>

text \<open>\<open>union nf_inet_addr\<close> as its 16 bytes in memory; the entries of the table are made of four words in network byte order.\<close>

definition htonl_bytes :: "u32 \<Rightarrow> u8 list" where
  "htonl_bytes x = [ucast (drop_bit 24 x), ucast (drop_bit 16 x), ucast (drop_bit 8 x), ucast x]"

definition E :: "u32 \<Rightarrow> u32 \<Rightarrow> u32 \<Rightarrow> u32 \<Rightarrow> u8 list" where
  "E a b c d = htonl_bytes a @ htonl_bytes b @ htonl_bytes c @ htonl_bytes d"

definition prefixlen_netmask_map :: "u8 list list" where
  "prefixlen_netmask_map =
    [E 0x00000000 0x00000000 0x00000000 0x00000000,
     E 0x80000000 0x00000000 0x00000000 0x00000000,
     E 0xC0000000 0x00000000 0x00000000 0x00000000,
     E 0xE0000000 0x00000000 0x00000000 0x00000000,
     E 0xF0000000 0x00000000 0x00000000 0x00000000,
     E 0xF8000000 0x00000000 0x00000000 0x00000000,
     E 0xFC000000 0x00000000 0x00000000 0x00000000,
     E 0xFE000000 0x00000000 0x00000000 0x00000000,
     E 0xFF000000 0x00000000 0x00000000 0x00000000,
     E 0xFF800000 0x00000000 0x00000000 0x00000000,
     E 0xFFC00000 0x00000000 0x00000000 0x00000000,
     E 0xFFE00000 0x00000000 0x00000000 0x00000000,
     E 0xFFF00000 0x00000000 0x00000000 0x00000000,
     E 0xFFF80000 0x00000000 0x00000000 0x00000000,
     E 0xFFFC0000 0x00000000 0x00000000 0x00000000,
     E 0xFFFE0000 0x00000000 0x00000000 0x00000000,
     E 0xFFFF0000 0x00000000 0x00000000 0x00000000,
     E 0xFFFF8000 0x00000000 0x00000000 0x00000000,
     E 0xFFFFC000 0x00000000 0x00000000 0x00000000,
     E 0xFFFFE000 0x00000000 0x00000000 0x00000000,
     E 0xFFFFF000 0x00000000 0x00000000 0x00000000,
     E 0xFFFFF800 0x00000000 0x00000000 0x00000000,
     E 0xFFFFFC00 0x00000000 0x00000000 0x00000000,
     E 0xFFFFFE00 0x00000000 0x00000000 0x00000000,
     E 0xFFFFFF00 0x00000000 0x00000000 0x00000000,
     E 0xFFFFFF80 0x00000000 0x00000000 0x00000000,
     E 0xFFFFFFC0 0x00000000 0x00000000 0x00000000,
     E 0xFFFFFFE0 0x00000000 0x00000000 0x00000000,
     E 0xFFFFFFF0 0x00000000 0x00000000 0x00000000,
     E 0xFFFFFFF8 0x00000000 0x00000000 0x00000000,
     E 0xFFFFFFFC 0x00000000 0x00000000 0x00000000,
     E 0xFFFFFFFE 0x00000000 0x00000000 0x00000000,
     E 0xFFFFFFFF 0x00000000 0x00000000 0x00000000,
     E 0xFFFFFFFF 0x80000000 0x00000000 0x00000000,
     E 0xFFFFFFFF 0xC0000000 0x00000000 0x00000000,
     E 0xFFFFFFFF 0xE0000000 0x00000000 0x00000000,
     E 0xFFFFFFFF 0xF0000000 0x00000000 0x00000000,
     E 0xFFFFFFFF 0xF8000000 0x00000000 0x00000000,
     E 0xFFFFFFFF 0xFC000000 0x00000000 0x00000000,
     E 0xFFFFFFFF 0xFE000000 0x00000000 0x00000000,
     E 0xFFFFFFFF 0xFF000000 0x00000000 0x00000000,
     E 0xFFFFFFFF 0xFF800000 0x00000000 0x00000000,
     E 0xFFFFFFFF 0xFFC00000 0x00000000 0x00000000,
     E 0xFFFFFFFF 0xFFE00000 0x00000000 0x00000000,
     E 0xFFFFFFFF 0xFFF00000 0x00000000 0x00000000,
     E 0xFFFFFFFF 0xFFF80000 0x00000000 0x00000000,
     E 0xFFFFFFFF 0xFFFC0000 0x00000000 0x00000000,
     E 0xFFFFFFFF 0xFFFE0000 0x00000000 0x00000000,
     E 0xFFFFFFFF 0xFFFF0000 0x00000000 0x00000000,
     E 0xFFFFFFFF 0xFFFF8000 0x00000000 0x00000000,
     E 0xFFFFFFFF 0xFFFFC000 0x00000000 0x00000000,
     E 0xFFFFFFFF 0xFFFFE000 0x00000000 0x00000000,
     E 0xFFFFFFFF 0xFFFFF000 0x00000000 0x00000000,
     E 0xFFFFFFFF 0xFFFFF800 0x00000000 0x00000000,
     E 0xFFFFFFFF 0xFFFFFC00 0x00000000 0x00000000,
     E 0xFFFFFFFF 0xFFFFFE00 0x00000000 0x00000000,
     E 0xFFFFFFFF 0xFFFFFF00 0x00000000 0x00000000,
     E 0xFFFFFFFF 0xFFFFFF80 0x00000000 0x00000000,
     E 0xFFFFFFFF 0xFFFFFFC0 0x00000000 0x00000000,
     E 0xFFFFFFFF 0xFFFFFFE0 0x00000000 0x00000000,
     E 0xFFFFFFFF 0xFFFFFFF0 0x00000000 0x00000000,
     E 0xFFFFFFFF 0xFFFFFFF8 0x00000000 0x00000000,
     E 0xFFFFFFFF 0xFFFFFFFC 0x00000000 0x00000000,
     E 0xFFFFFFFF 0xFFFFFFFE 0x00000000 0x00000000,
     E 0xFFFFFFFF 0xFFFFFFFF 0x00000000 0x00000000,
     E 0xFFFFFFFF 0xFFFFFFFF 0x80000000 0x00000000,
     E 0xFFFFFFFF 0xFFFFFFFF 0xC0000000 0x00000000,
     E 0xFFFFFFFF 0xFFFFFFFF 0xE0000000 0x00000000,
     E 0xFFFFFFFF 0xFFFFFFFF 0xF0000000 0x00000000,
     E 0xFFFFFFFF 0xFFFFFFFF 0xF8000000 0x00000000,
     E 0xFFFFFFFF 0xFFFFFFFF 0xFC000000 0x00000000,
     E 0xFFFFFFFF 0xFFFFFFFF 0xFE000000 0x00000000,
     E 0xFFFFFFFF 0xFFFFFFFF 0xFF000000 0x00000000,
     E 0xFFFFFFFF 0xFFFFFFFF 0xFF800000 0x00000000,
     E 0xFFFFFFFF 0xFFFFFFFF 0xFFC00000 0x00000000,
     E 0xFFFFFFFF 0xFFFFFFFF 0xFFE00000 0x00000000,
     E 0xFFFFFFFF 0xFFFFFFFF 0xFFF00000 0x00000000,
     E 0xFFFFFFFF 0xFFFFFFFF 0xFFF80000 0x00000000,
     E 0xFFFFFFFF 0xFFFFFFFF 0xFFFC0000 0x00000000,
     E 0xFFFFFFFF 0xFFFFFFFF 0xFFFE0000 0x00000000,
     E 0xFFFFFFFF 0xFFFFFFFF 0xFFFF0000 0x00000000,
     E 0xFFFFFFFF 0xFFFFFFFF 0xFFFF8000 0x00000000,
     E 0xFFFFFFFF 0xFFFFFFFF 0xFFFFC000 0x00000000,
     E 0xFFFFFFFF 0xFFFFFFFF 0xFFFFE000 0x00000000,
     E 0xFFFFFFFF 0xFFFFFFFF 0xFFFFF000 0x00000000,
     E 0xFFFFFFFF 0xFFFFFFFF 0xFFFFF800 0x00000000,
     E 0xFFFFFFFF 0xFFFFFFFF 0xFFFFFC00 0x00000000,
     E 0xFFFFFFFF 0xFFFFFFFF 0xFFFFFE00 0x00000000,
     E 0xFFFFFFFF 0xFFFFFFFF 0xFFFFFF00 0x00000000,
     E 0xFFFFFFFF 0xFFFFFFFF 0xFFFFFF80 0x00000000,
     E 0xFFFFFFFF 0xFFFFFFFF 0xFFFFFFC0 0x00000000,
     E 0xFFFFFFFF 0xFFFFFFFF 0xFFFFFFE0 0x00000000,
     E 0xFFFFFFFF 0xFFFFFFFF 0xFFFFFFF0 0x00000000,
     E 0xFFFFFFFF 0xFFFFFFFF 0xFFFFFFF8 0x00000000,
     E 0xFFFFFFFF 0xFFFFFFFF 0xFFFFFFFC 0x00000000,
     E 0xFFFFFFFF 0xFFFFFFFF 0xFFFFFFFE 0x00000000,
     E 0xFFFFFFFF 0xFFFFFFFF 0xFFFFFFFF 0x00000000,
     E 0xFFFFFFFF 0xFFFFFFFF 0xFFFFFFFF 0x80000000,
     E 0xFFFFFFFF 0xFFFFFFFF 0xFFFFFFFF 0xC0000000,
     E 0xFFFFFFFF 0xFFFFFFFF 0xFFFFFFFF 0xE0000000,
     E 0xFFFFFFFF 0xFFFFFFFF 0xFFFFFFFF 0xF0000000,
     E 0xFFFFFFFF 0xFFFFFFFF 0xFFFFFFFF 0xF8000000,
     E 0xFFFFFFFF 0xFFFFFFFF 0xFFFFFFFF 0xFC000000,
     E 0xFFFFFFFF 0xFFFFFFFF 0xFFFFFFFF 0xFE000000,
     E 0xFFFFFFFF 0xFFFFFFFF 0xFFFFFFFF 0xFF000000,
     E 0xFFFFFFFF 0xFFFFFFFF 0xFFFFFFFF 0xFF800000,
     E 0xFFFFFFFF 0xFFFFFFFF 0xFFFFFFFF 0xFFC00000,
     E 0xFFFFFFFF 0xFFFFFFFF 0xFFFFFFFF 0xFFE00000,
     E 0xFFFFFFFF 0xFFFFFFFF 0xFFFFFFFF 0xFFF00000,
     E 0xFFFFFFFF 0xFFFFFFFF 0xFFFFFFFF 0xFFF80000,
     E 0xFFFFFFFF 0xFFFFFFFF 0xFFFFFFFF 0xFFFC0000,
     E 0xFFFFFFFF 0xFFFFFFFF 0xFFFFFFFF 0xFFFE0000,
     E 0xFFFFFFFF 0xFFFFFFFF 0xFFFFFFFF 0xFFFF0000,
     E 0xFFFFFFFF 0xFFFFFFFF 0xFFFFFFFF 0xFFFF8000,
     E 0xFFFFFFFF 0xFFFFFFFF 0xFFFFFFFF 0xFFFFC000,
     E 0xFFFFFFFF 0xFFFFFFFF 0xFFFFFFFF 0xFFFFE000,
     E 0xFFFFFFFF 0xFFFFFFFF 0xFFFFFFFF 0xFFFFF000,
     E 0xFFFFFFFF 0xFFFFFFFF 0xFFFFFFFF 0xFFFFF800,
     E 0xFFFFFFFF 0xFFFFFFFF 0xFFFFFFFF 0xFFFFFC00,
     E 0xFFFFFFFF 0xFFFFFFFF 0xFFFFFFFF 0xFFFFFE00,
     E 0xFFFFFFFF 0xFFFFFFFF 0xFFFFFFFF 0xFFFFFF00,
     E 0xFFFFFFFF 0xFFFFFFFF 0xFFFFFFFF 0xFFFFFF80,
     E 0xFFFFFFFF 0xFFFFFFFF 0xFFFFFFFF 0xFFFFFFC0,
     E 0xFFFFFFFF 0xFFFFFFFF 0xFFFFFFFF 0xFFFFFFE0,
     E 0xFFFFFFFF 0xFFFFFFFF 0xFFFFFFFF 0xFFFFFFF0,
     E 0xFFFFFFFF 0xFFFFFFFF 0xFFFFFFFF 0xFFFFFFF8,
     E 0xFFFFFFFF 0xFFFFFFFF 0xFFFFFFFF 0xFFFFFFFC,
     E 0xFFFFFFFF 0xFFFFFFFF 0xFFFFFFFF 0xFFFFFFFE,
     E 0xFFFFFFFF 0xFFFFFFFF 0xFFFFFFFF 0xFFFFFFFF]"

text \<open>The members \<open>ip6\<close> and \<open>ip\<close> of an entry; an index behind the table is \<open>None\<close>.\<close>

definition PFXLEN6 :: "nat \<Rightarrow> u8 list option" where
  "PFXLEN6 n = (if n < length prefixlen_netmask_map then Some (prefixlen_netmask_map ! n) else None)"

definition PFXLEN :: "nat \<Rightarrow> u8 list option" where
  "PFXLEN n = map_option (take 4) (PFXLEN6 n)"

text \<open>Reference: byte \<open>j\<close> of the mask with \<open>n\<close> leading ones. Bits of an address are counted from the first of the first byte.\<close>

definition mask_byte :: "nat \<Rightarrow> u8" where
  "mask_byte k = (if 8 \<le> k then 255 else push_bit (8 - k) (mask k))"

definition netmask :: "nat \<Rightarrow> u8 list" where
  "netmask n = map (\<lambda>j. mask_byte (n - 8 * j)) [0..<16]"

definition addr_bit :: "u8 list \<Rightarrow> nat \<Rightarrow> bool" where
  "addr_bit a i = bit (a ! (i div 8)) (7 - i mod 8)"

lemma prefixlen_netmask_map_eq: "prefixlen_netmask_map = map netmask [0..<129]"
  by code_simp

lemma bit_mask_byte: "r < 8 \<Longrightarrow> bit (mask_byte k) (7 - r) \<longleftrightarrow> r < k"
proof -
  assume r: "r < 8"
  have "bit (255 :: u8) (7 - r)" using r by (auto simp: less_Suc_eq numeral_eq_Suc)
  then show ?thesis using r by (auto simp: mask_byte_def bit_push_bit_iff bit_mask_iff)
qed

lemma netmask_bit: "i < 128 \<Longrightarrow> addr_bit (netmask n) i \<longleftrightarrow> i < n"
proof -
  assume i: "i < 128"
  then have "i div 8 < 16" by presburger
  then have "addr_bit (netmask n) i \<longleftrightarrow> i mod 8 < n - 8 * (i div 8)" by (simp add: addr_bit_def netmask_def bit_mask_byte del: upt_rec_numeral)
  also have "\<dots> \<longleftrightarrow> i < n" by presburger
  finally show ?thesis .
qed

lemma length_netmask [simp]: "length (netmask n) = 16"
  by (simp add: netmask_def)

text \<open>A mask of leading ones selects the leading bits of an address of as many bytes.\<close>

lemma byte_eq_iff: "(a :: u8) = b \<longleftrightarrow> (\<forall>r<8. bit a (7 - r) = bit b (7 - r))"
proof
  assume r: "\<forall>r<8. bit a (7 - r) = bit b (7 - r)"
  show "a = b"
  proof (rule bit_word_eqI)
    fix k assume "k < LENGTH(8)"
    then show "bit a k \<longleftrightarrow> bit b k" using r [rule_format, of "7 - k"] by simp
  qed
qed simp

lemma addr_eq_iff:
  assumes "length a = L" "length b = L"
  shows "a = b \<longleftrightarrow> (\<forall>i < 8 * L. addr_bit a i = addr_bit b i)"
proof
  assume eq: "\<forall>i < 8 * L. addr_bit a i = addr_bit b i"
  show "a = b"
  proof (rule nth_equalityI)
    fix j assume "j < length a"
    then have "addr_bit a (8 * j + r) = addr_bit b (8 * j + r)" if "r < 8" for r using eq that assms by auto
    then show "a ! j = b ! j" by (simp add: byte_eq_iff addr_bit_def)
  qed (use assms in simp)
qed simp

lemma masked_bit:
  assumes "i < 8 * L" "length a = L" "length m = L"
  shows "addr_bit (map2 (AND) a m) i \<longleftrightarrow> addr_bit a i \<and> addr_bit m i"
proof -
  have "i div 8 < L" using assms(1) by presburger
  then show ?thesis using assms by (simp add: addr_bit_def bit_and_iff)
qed

lemma masked_eq_iff:
  assumes "length a = L" "length b = L" "length m = L" "n \<le> 8 * L" "\<And>i. i < 8 * L \<Longrightarrow> addr_bit m i \<longleftrightarrow> i < n"
  shows "map2 (AND) a m = map2 (AND) b m \<longleftrightarrow> (\<forall>i<n. addr_bit a i = addr_bit b i)"
proof -
  have "map2 (AND) a m = map2 (AND) b m \<longleftrightarrow> (\<forall>i < 8 * L. (addr_bit a i \<and> i < n) = (addr_bit b i \<and> i < n))"
    using assms(1-3,5) by (subst addr_eq_iff [where L = L]) (auto simp: masked_bit [where L = L])
  also have "\<dots> \<longleftrightarrow> (\<forall>i<n. addr_bit a i = addr_bit b i)" using assms(4) by (meson less_le_trans)
  finally show ?thesis .
qed

text \<open>
  The table holds the mask of every prefix length from 0 to 128: two addresses agree under the entry of \<open>n\<close> exactly when their first \<open>n\<close> bits are the same,
  IPv6 addresses with the member \<open>ip6\<close>, and IPv4 addresses, up to length 32, with the member \<open>ip\<close>. A longer prefix is outside the table.
\<close>

theorem pfxlen_matches:
  "(\<exists>m. PFXLEN6 n = Some m) \<longleftrightarrow> n \<le> 128"
  "\<lbrakk>PFXLEN6 n = Some m; length a = 16; length b = 16\<rbrakk> \<Longrightarrow> map2 (AND) a m = map2 (AND) b m \<longleftrightarrow> (\<forall>i<n. addr_bit a i = addr_bit b i)"
  "\<lbrakk>PFXLEN n = Some m; n \<le> 32; length a = 4; length b = 4\<rbrakk> \<Longrightarrow> map2 (AND) a m = map2 (AND) b m \<longleftrightarrow> (\<forall>i<n. addr_bit a i = addr_bit b i)"
proof -
  have P: "PFXLEN6 n = (if n \<le> 128 then Some (netmask n) else None)"
    by (auto simp: PFXLEN6_def prefixlen_netmask_map_eq simp del: upt_Suc)
  show "(\<exists>m. PFXLEN6 n = Some m) \<longleftrightarrow> n \<le> 128" by (simp add: P)
  show "\<lbrakk>PFXLEN6 n = Some m; length a = 16; length b = 16\<rbrakk> \<Longrightarrow> map2 (AND) a m = map2 (AND) b m \<longleftrightarrow> (\<forall>i<n. addr_bit a i = addr_bit b i)"
    by (rule masked_eq_iff [where L = 16]) (auto simp: P netmask_bit split: if_splits)
  assume *: "PFXLEN n = Some m" "n \<le> 32" "length a = 4" "length b = 4"
  then have m: "m = take 4 (netmask n)" by (simp add: PFXLEN_def P)
  have "addr_bit m i \<longleftrightarrow> i < n" if "i < 8 * 4" for i
  proof -
    have "addr_bit m i = addr_bit (netmask n) i" using that by (simp add: m addr_bit_def)
    then show ?thesis using that by (simp add: netmask_bit)
  qed
  with * show "map2 (AND) a m = map2 (AND) b m \<longleftrightarrow> (\<forall>i<n. addr_bit a i = addr_bit b i)"
    by (intro masked_eq_iff [where L = 4]) (auto simp: m)
qed

section \<open>Enumerations\<close>

text \<open>Declared enumerators with their initialisers, and the values that C gives them: the one before and one, starting with 0.\<close>

datatype enum_init = Next | Is int | Same string | Succ_of string | Bit_of string

type_synonym enum_decl = "(string \<times> enum_init) list"
type_synonym enum_env = "(string \<times> int) list"

primrec enum_val :: "enum_env \<Rightarrow> int \<Rightarrow> enum_init \<Rightarrow> int option" where
  "enum_val env prv Next = Some (prv + 1)"
| "enum_val env prv (Is v) = Some v"
| "enum_val env prv (Same n) = map_of env n"
| "enum_val env prv (Succ_of n) = map_option (\<lambda>v. v + 1) (map_of env n)"
| "enum_val env prv (Bit_of n) = map_option (\<lambda>v. push_bit (nat v) 1) (map_of env n)"

primrec enumerate_from :: "enum_env \<Rightarrow> int \<Rightarrow> enum_decl \<Rightarrow> enum_env option" where
  "enumerate_from env prv [] = Some []"
| "enumerate_from env prv (d # ds) = do {
     v \<leftarrow> enum_val env prv (snd d);
     rest \<leftarrow> enumerate_from ((fst d, v) # env) v ds;
     Some ((fst d, v) # rest) }"

definition enum_values :: "enum_env \<Rightarrow> enum_decl \<Rightarrow> enum_env" where
  "enum_values env ds = (case enumerate_from env (-1) ds of None \<Rightarrow> [] | Some vs \<Rightarrow> vs)"

text \<open>\<open>data.h\<close>.\<close>

definition ipset_opt_enum :: enum_decl where
  "ipset_opt_enum =
    [(''IPSET_OPT_NONE'', Is 0), (''IPSET_SETNAME'', Next), (''IPSET_OPT_TYPENAME'', Next), (''IPSET_OPT_FAMILY'', Next), (''IPSET_OPT_IP'', Next),
     (''IPSET_OPT_IP_FROM'', Same ''IPSET_OPT_IP''), (''IPSET_OPT_IP_TO'', Next), (''IPSET_OPT_CIDR'', Next), (''IPSET_OPT_PORT'', Next),
     (''IPSET_OPT_PORT_FROM'', Same ''IPSET_OPT_PORT''), (''IPSET_OPT_PORT_TO'', Next), (''IPSET_OPT_TIMEOUT'', Next), (''IPSET_OPT_GC'', Next),
     (''IPSET_OPT_HASHSIZE'', Next), (''IPSET_OPT_MAXELEM'', Next), (''IPSET_OPT_NETMASK'', Next), (''IPSET_OPT_PROBES'', Next),
     (''IPSET_OPT_RESIZE'', Next), (''IPSET_OPT_SIZE'', Next), (''IPSET_OPT_ELEMENTS'', Next), (''IPSET_OPT_REFERENCES'', Next),
     (''IPSET_OPT_MEMSIZE'', Next), (''IPSET_OPT_ETHER'', Next), (''IPSET_OPT_NAME'', Next), (''IPSET_OPT_NAMEREF'', Next),
     (''IPSET_OPT_IP2'', Next), (''IPSET_OPT_CIDR2'', Next), (''IPSET_OPT_IP2_TO'', Next), (''IPSET_OPT_PROTO'', Next), (''IPSET_OPT_IFACE'', Next),
     (''IPSET_OPT_SETNAME2'', Next), (''IPSET_OPT_EXIST'', Next), (''IPSET_OPT_BEFORE'', Next), (''IPSET_OPT_PHYSDEV'', Next),
     (''IPSET_OPT_NOMATCH'', Next), (''IPSET_OPT_FLAGS'', Is 48), (''IPSET_OPT_CADT_FLAGS'', Next), (''IPSET_OPT_ELEM'', Next),
     (''IPSET_OPT_TYPE'', Next), (''IPSET_OPT_LINENO'', Next), (''IPSET_OPT_REVISION'', Next), (''IPSET_OPT_REVISION_MIN'', Next),
     (''IPSET_OPT_MAX'', Next)]"

definition ipset_opts :: enum_env where
  "ipset_opts = enum_values [] ipset_opt_enum"

text \<open>\<open>1LL << opt\<close> is defined for \<open>opt\<close> below 63.\<close>

definition IPSET_FLAG :: "int \<Rightarrow> 64 word option" where
  "IPSET_FLAG opt = (if 0 \<le> opt \<and> opt < 63 then Some (push_bit (nat opt) 1) else None)"

definition flags_of :: "string list \<Rightarrow> 64 word option" where
  "flags_of ns = those (map (\<lambda>n. Option.bind (map_of ipset_opts n) IPSET_FLAG) ns) \<bind> (\<lambda>fs. Some (foldr (OR) fs 0))"

definition create_options :: "string list" where
  "create_options =
    [''IPSET_OPT_FAMILY'', ''IPSET_OPT_TYPENAME'', ''IPSET_OPT_TYPE'', ''IPSET_OPT_IP'', ''IPSET_OPT_IP_TO'', ''IPSET_OPT_CIDR'', ''IPSET_OPT_PORT'',
     ''IPSET_OPT_PORT_TO'', ''IPSET_OPT_TIMEOUT'', ''IPSET_OPT_GC'', ''IPSET_OPT_HASHSIZE'', ''IPSET_OPT_MAXELEM'', ''IPSET_OPT_NETMASK'',
     ''IPSET_OPT_PROBES'', ''IPSET_OPT_RESIZE'', ''IPSET_OPT_SIZE'']"

definition IPSET_CREATE_FLAGS :: "64 word option" where
  "IPSET_CREATE_FLAGS = flags_of create_options"

text \<open>\<open>ipset_data_test\<close>, over the function of the library that tests flags.\<close>

definition ipset_data_test :: "('d \<Rightarrow> 64 word \<Rightarrow> bool) \<Rightarrow> 'd \<Rightarrow> int \<Rightarrow> bool option" where
  "ipset_data_test ipset_data_flags_test d opt = map_option (ipset_data_flags_test d) (IPSET_FLAG opt)"

text \<open>\<open>linux_ip_set.h\<close> and \<open>session.h\<close>.\<close>

definition ipset_cmd_enum :: enum_decl where
  "ipset_cmd_enum =
    [(''IPSET_CMD_NONE'', Next), (''IPSET_CMD_PROTOCOL'', Next), (''IPSET_CMD_CREATE'', Next), (''IPSET_CMD_DESTROY'', Next),
     (''IPSET_CMD_FLUSH'', Next), (''IPSET_CMD_RENAME'', Next), (''IPSET_CMD_SWAP'', Next), (''IPSET_CMD_LIST'', Next), (''IPSET_CMD_SAVE'', Next),
     (''IPSET_CMD_ADD'', Next), (''IPSET_CMD_DEL'', Next), (''IPSET_CMD_TEST'', Next), (''IPSET_CMD_HEADER'', Next), (''IPSET_CMD_TYPE'', Next),
     (''IPSET_MSG_MAX'', Next), (''IPSET_CMD_RESTORE'', Same ''IPSET_MSG_MAX''), (''IPSET_CMD_HELP'', Next), (''IPSET_CMD_VERSION'', Next),
     (''IPSET_CMD_QUIT'', Next), (''IPSET_CMD_MAX'', Next), (''IPSET_CMD_COMMIT'', Same ''IPSET_CMD_MAX'')]"

definition attr_cmd_enum :: enum_decl where
  "attr_cmd_enum =
    [(''IPSET_ATTR_UNSPEC'', Next), (''IPSET_ATTR_PROTOCOL'', Next), (''IPSET_ATTR_SETNAME'', Next), (''IPSET_ATTR_TYPENAME'', Next),
     (''IPSET_ATTR_SETNAME2'', Same ''IPSET_ATTR_TYPENAME''), (''IPSET_ATTR_REVISION'', Next), (''IPSET_ATTR_FAMILY'', Next),
     (''IPSET_ATTR_FLAGS'', Next), (''IPSET_ATTR_DATA'', Next), (''IPSET_ATTR_ADT'', Next), (''IPSET_ATTR_LINENO'', Next),
     (''IPSET_ATTR_PROTOCOL_MIN'', Next), (''IPSET_ATTR_REVISION_MIN'', Same ''IPSET_ATTR_PROTOCOL_MIN''), (''__IPSET_ATTR_CMD_MAX'', Next)]"

definition attr_cadt_enum :: enum_decl where
  "attr_cadt_enum =
    [(''IPSET_ATTR_IP'', Succ_of ''IPSET_ATTR_UNSPEC''), (''IPSET_ATTR_IP_FROM'', Same ''IPSET_ATTR_IP''), (''IPSET_ATTR_IP_TO'', Next),
     (''IPSET_ATTR_CIDR'', Next), (''IPSET_ATTR_PORT'', Next), (''IPSET_ATTR_PORT_FROM'', Same ''IPSET_ATTR_PORT''), (''IPSET_ATTR_PORT_TO'', Next),
     (''IPSET_ATTR_TIMEOUT'', Next), (''IPSET_ATTR_PROTO'', Next), (''IPSET_ATTR_CADT_FLAGS'', Next),
     (''IPSET_ATTR_CADT_LINENO'', Same ''IPSET_ATTR_LINENO''), (''IPSET_ATTR_CADT_MAX'', Is 16), (''IPSET_ATTR_GC'', Next),
     (''IPSET_ATTR_HASHSIZE'', Next), (''IPSET_ATTR_MAXELEM'', Next), (''IPSET_ATTR_NETMASK'', Next), (''IPSET_ATTR_PROBES'', Next),
     (''IPSET_ATTR_RESIZE'', Next), (''IPSET_ATTR_SIZE'', Next), (''IPSET_ATTR_ELEMENTS'', Next), (''IPSET_ATTR_REFERENCES'', Next),
     (''IPSET_ATTR_MEMSIZE'', Next), (''__IPSET_ATTR_CREATE_MAX'', Next)]"

definition attr_adt_enum :: enum_decl where
  "attr_adt_enum =
    [(''IPSET_ATTR_ETHER'', Succ_of ''IPSET_ATTR_CADT_MAX''), (''IPSET_ATTR_NAME'', Next), (''IPSET_ATTR_NAMEREF'', Next),
     (''IPSET_ATTR_IP2'', Next), (''IPSET_ATTR_CIDR2'', Next), (''IPSET_ATTR_IP2_TO'', Next), (''IPSET_ATTR_IFACE'', Next),
     (''__IPSET_ATTR_ADT_MAX'', Next)]"

definition attr_ipaddr_enum :: enum_decl where
  "attr_ipaddr_enum =
    [(''IPSET_ATTR_IPADDR_IPV4'', Succ_of ''IPSET_ATTR_UNSPEC''), (''IPSET_ATTR_IPADDR_IPV6'', Next), (''__IPSET_ATTR_IPADDR_MAX'', Next)]"

definition ipset_errno_enum :: enum_decl where
  "ipset_errno_enum =
    [(''IPSET_ERR_PRIVATE'', Is 4096), (''IPSET_ERR_PROTOCOL'', Next), (''IPSET_ERR_FIND_TYPE'', Next), (''IPSET_ERR_MAX_SETS'', Next),
     (''IPSET_ERR_BUSY'', Next), (''IPSET_ERR_EXIST_SETNAME2'', Next), (''IPSET_ERR_TYPE_MISMATCH'', Next), (''IPSET_ERR_EXIST'', Next),
     (''IPSET_ERR_INVALID_CIDR'', Next), (''IPSET_ERR_INVALID_NETMASK'', Next), (''IPSET_ERR_INVALID_FAMILY'', Next), (''IPSET_ERR_TIMEOUT'', Next),
     (''IPSET_ERR_REFERENCED'', Next), (''IPSET_ERR_IPADDR_IPV4'', Next), (''IPSET_ERR_IPADDR_IPV6'', Next), (''IPSET_ERR_TYPE_SPECIFIC'', Is 4352)]"

definition ipset_cmd_flags_enum :: enum_decl where
  "ipset_cmd_flags_enum =
    [(''IPSET_FLAG_BIT_EXIST'', Is 0), (''IPSET_FLAG_EXIST'', Bit_of ''IPSET_FLAG_BIT_EXIST''), (''IPSET_FLAG_BIT_LIST_SETNAME'', Is 1),
     (''IPSET_FLAG_LIST_SETNAME'', Bit_of ''IPSET_FLAG_BIT_LIST_SETNAME''), (''IPSET_FLAG_BIT_LIST_HEADER'', Is 2),
     (''IPSET_FLAG_LIST_HEADER'', Bit_of ''IPSET_FLAG_BIT_LIST_HEADER''), (''IPSET_FLAG_CMD_MAX'', Is 15)]"

definition ipset_cadt_flags_enum :: enum_decl where
  "ipset_cadt_flags_enum =
    [(''IPSET_FLAG_BIT_BEFORE'', Is 0), (''IPSET_FLAG_BEFORE'', Bit_of ''IPSET_FLAG_BIT_BEFORE''), (''IPSET_FLAG_BIT_PHYSDEV'', Is 1),
     (''IPSET_FLAG_PHYSDEV'', Bit_of ''IPSET_FLAG_BIT_PHYSDEV''), (''IPSET_FLAG_BIT_NOMATCH'', Is 2),
     (''IPSET_FLAG_NOMATCH'', Bit_of ''IPSET_FLAG_BIT_NOMATCH''), (''IPSET_FLAG_CADT_MAX'', Is 15)]"

definition ipset_adt_enum :: enum_decl where
  "ipset_adt_enum =
    [(''IPSET_ADD'', Next), (''IPSET_DEL'', Next), (''IPSET_TEST'', Next), (''IPSET_ADT_MAX'', Next), (''IPSET_CREATE'', Same ''IPSET_ADT_MAX''),
     (''IPSET_CADT_MAX'', Next)]"

definition ip_set_dim_enum :: enum_decl where
  "ip_set_dim_enum =
    [(''IPSET_DIM_ZERO'', Is 0), (''IPSET_DIM_ONE'', Next), (''IPSET_DIM_TWO'', Next), (''IPSET_DIM_THREE'', Next), (''IPSET_DIM_MAX'', Is 6)]"

definition ip_set_kopt_enum :: enum_decl where
  "ip_set_kopt_enum =
    [(''IPSET_INV_MATCH'', Bit_of ''IPSET_DIM_ZERO''), (''IPSET_DIM_ONE_SRC'', Bit_of ''IPSET_DIM_ONE''),
     (''IPSET_DIM_TWO_SRC'', Bit_of ''IPSET_DIM_TWO''), (''IPSET_DIM_THREE_SRC'', Bit_of ''IPSET_DIM_THREE'')]"

definition ipset_envopt_enum :: enum_decl where
  "ipset_envopt_enum =
    [(''IPSET_ENV_BIT_SORTED'', Is 0), (''IPSET_ENV_SORTED'', Bit_of ''IPSET_ENV_BIT_SORTED''), (''IPSET_ENV_BIT_QUIET'', Is 1),
     (''IPSET_ENV_QUIET'', Bit_of ''IPSET_ENV_BIT_QUIET''), (''IPSET_ENV_BIT_RESOLVE'', Is 2),
     (''IPSET_ENV_RESOLVE'', Bit_of ''IPSET_ENV_BIT_RESOLVE''), (''IPSET_ENV_BIT_EXIST'', Is 3),
     (''IPSET_ENV_EXIST'', Bit_of ''IPSET_ENV_BIT_EXIST''), (''IPSET_ENV_BIT_LIST_SETNAME'', Is 4),
     (''IPSET_ENV_LIST_SETNAME'', Bit_of ''IPSET_ENV_BIT_LIST_SETNAME''), (''IPSET_ENV_BIT_LIST_HEADER'', Is 5),
     (''IPSET_ENV_LIST_HEADER'', Bit_of ''IPSET_ENV_BIT_LIST_HEADER'')]"

section \<open>The values\<close>

text \<open>The options are counted from 0 to 32, the internal ones from 48 to 55; only the declared aliases share a value.\<close>

lemma ipset_opt_values: "map snd (filter (\<lambda>x. fst x \<noteq> ''IPSET_OPT_IP_FROM'' \<and> fst x \<noteq> ''IPSET_OPT_PORT_FROM'') ipset_opts) = [0..32] @ [48..55]"
  by code_simp

lemma ipset_opt_range: "map_of ipset_opts n = Some v \<Longrightarrow> 0 \<le> v \<and> v < 63"
proof -
  have "list_all (\<lambda>x. 0 \<le> snd x \<and> snd x < 63) ipset_opts" by code_simp
  then show "map_of ipset_opts n = Some v \<Longrightarrow> 0 \<le> v \<and> v < 63" by (auto simp: list_all_iff dest!: map_of_SomeD)
qed

text \<open>Every option has a flag, no shift overflows, and flags differ for different values.\<close>

lemma IPSET_FLAG_bit: "IPSET_FLAG v = Some f \<Longrightarrow> bit f k \<longleftrightarrow> k = nat v"
  by (auto simp: IPSET_FLAG_def bit_exp_iff split: if_splits)

lemma IPSET_FLAG_option: "map_of ipset_opts n = Some v \<Longrightarrow> \<exists>f. IPSET_FLAG v = Some f"
  using ipset_opt_range [of n v] by (simp add: IPSET_FLAG_def)

lemma IPSET_FLAG_inj: "\<lbrakk>IPSET_FLAG v = Some f; IPSET_FLAG v' = Some f\<rbrakk> \<Longrightarrow> v = v'"
  using IPSET_FLAG_bit [of v f "nat v"] IPSET_FLAG_bit [of v' f "nat v"] by (auto simp: IPSET_FLAG_def split: if_splits)

text \<open>A set of flags contains exactly the options it lists.\<close>

lemma bit_foldr_or: "bit (foldr (OR) fs (0 :: 64 word)) k \<longleftrightarrow> (\<exists>f \<in> set fs. bit f k)"
  by (induction fs) (auto simp: bit_or_iff)

lemma those_map: "those (map g ns) = Some fs \<Longrightarrow> set fs = {f. \<exists>n \<in> set ns. g n = Some f}"
  by (induction ns arbitrary: fs) (auto split: option.splits)

lemma flags_of_test:
  assumes "flags_of ns = Some fs" "IPSET_FLAG v = Some f"
  shows "f AND fs \<noteq> 0 \<longleftrightarrow> (\<exists>n \<in> set ns. map_of ipset_opts n = Some v)"
proof -
  from assms(1) obtain gs where gs: "those (map (\<lambda>n. Option.bind (map_of ipset_opts n) IPSET_FLAG) ns) = Some gs" "fs = foldr (OR) gs 0"
    by (auto simp: flags_of_def)
  have "f AND fs \<noteq> 0 \<longleftrightarrow> bit fs (nat v)"
    using IPSET_FLAG_bit [OF assms(2)] bit_imp_le_length [of fs "nat v"] by (subst bit_eq_iff) (auto simp: bit_and_iff)
  also have "\<dots> \<longleftrightarrow> (\<exists>n \<in> set ns. \<exists>v' g. map_of ipset_opts n = Some v' \<and> IPSET_FLAG v' = Some g \<and> bit g (nat v))"
    unfolding gs(2) bit_foldr_or those_map [OF gs(1)] by (fastforce simp: bind_eq_Some_conv)
  also have "\<dots> \<longleftrightarrow> (\<exists>n \<in> set ns. map_of ipset_opts n = Some v)"
  proof -
    have "v' = v" if "IPSET_FLAG v' = Some g" "bit g (nat v)" for v' g
      using that assms(2) IPSET_FLAG_bit [OF that(1), of "nat v"] by (auto simp: IPSET_FLAG_def split: if_splits)
    moreover have "bit f (nat v)" by (simp add: IPSET_FLAG_bit [OF assms(2)])
    ultimately show ?thesis using assms(2) by metis
  qed
  finally show ?thesis .
qed

lemma IPSET_CREATE_FLAGS_test:
  "\<exists>fs. IPSET_CREATE_FLAGS = Some fs \<and> (\<forall>n v f. map_of ipset_opts n = Some v \<longrightarrow> IPSET_FLAG v = Some f \<longrightarrow>
    (f AND fs \<noteq> 0 \<longleftrightarrow> (\<exists>n' \<in> set create_options. map_of ipset_opts n' = Some v)))"
proof -
  have "IPSET_CREATE_FLAGS \<noteq> None" by code_simp
  then show ?thesis unfolding IPSET_CREATE_FLAGS_def using flags_of_test by blast
qed

text \<open>The values are those that the comments of the header give: commands up to 18, attributes of a command up to 10, and of an element up to 9, then from 17.\<close>

lemma ipset_cmd_values: "enum_values [] ipset_cmd_enum ! 9 = (''IPSET_CMD_ADD'', 9)" "enum_values [] ipset_cmd_enum ! 2 = (''IPSET_CMD_CREATE'', 2)"
  "map snd (enum_values [] ipset_cmd_enum) = [0..14] @ [14..18] @ [18]"
  by code_simp+

lemma attr_values:
  "map snd (enum_values [] attr_cmd_enum) = [0..3] @ [3..10] @ [10, 11]"
  "map snd (enum_values (enum_values [] attr_cmd_enum) attr_cadt_enum) = [1, 1, 2, 3, 4, 4, 5, 6, 7, 8, 9] @ [16..27]"
  "map snd (enum_values (enum_values (enum_values [] attr_cmd_enum) attr_cadt_enum) attr_adt_enum) = [17..24]"
  "map snd (enum_values (enum_values [] attr_cmd_enum) attr_ipaddr_enum) = [1, 2, 3]"
  by code_simp+

text \<open>Flags of commands, of elements, of matches and of the environment are single bits, in the order of declaration.\<close>

lemma flag_values:
  "map snd (enum_values [] ipset_cmd_flags_enum) = [0, 1, 1, 2, 2, 4, 15]" "map snd (enum_values [] ipset_cadt_flags_enum) = [0, 1, 1, 2, 2, 4, 15]"
  "map snd (enum_values (enum_values [] ip_set_dim_enum) ip_set_kopt_enum) = [1, 2, 4, 8]"
  "map snd (enum_values [] ipset_envopt_enum) = [0, 1, 1, 2, 2, 4, 3, 8, 4, 16, 5, 32]"
  by code_simp+

lemma errno_values:
  "map snd (enum_values [] ipset_errno_enum) = [4096..4110] @ [4352]" "map snd (enum_values [] ipset_adt_enum) = [0, 1, 2, 3, 3, 4]"
  by code_simp+

end
