(* ===== verification/Mpi.thy ===== *)
theory Mpi
  imports Prelude
begin

text \<open>
  What the experiments of \<open>MPI/MPI_Test\<close> use of MPI: messages between the processes of one communicator, on one tag. The library is a
  record of two functions on the state of its network; sending never fails, and receiving from a given process fails while there is nothing
  to receive, in which case the call blocks. The laws are those of the standard: between two processes messages
  are received in the order in which they were sent, and processes do not see messages of others. A receive from \<open>MPI_ANY_SOURCE\<close> is a
  receive from some process from which there is a message. This theory has the laws, and facts on updating the state of one process.
\<close>

type_synonym rank = nat

record ('n, 'm) mpi_net =
  net_send :: "rank \<Rightarrow> rank \<Rightarrow> 'm \<Rightarrow> 'n \<Rightarrow> 'n"
  net_recv :: "rank \<Rightarrow> rank \<Rightarrow> 'n \<Rightarrow> ('m \<times> 'n) option"

text \<open>\<open>pend n s d\<close> are the messages from \<open>s\<close> to \<open>d\<close> that have not been received, oldest first.\<close>

definition net_laws :: "('n, 'm) mpi_net \<Rightarrow> ('n \<Rightarrow> rank \<Rightarrow> rank \<Rightarrow> 'm list) \<Rightarrow> bool" where
  "net_laws N pend \<longleftrightarrow>
    (\<forall>n s d m. pend (net_send N s d m n) = (pend n)(s := (pend n s)(d := pend n s d @ [m]))) \<and>
    (\<forall>n s d. net_recv N s d n = None \<longleftrightarrow> pend n s d = []) \<and>
    (\<forall>n s d m n'. net_recv N s d n = Some (m, n') \<longrightarrow>
      pend n s d \<noteq> [] \<and> m = hd (pend n s d) \<and> pend n' = (pend n)(s := (pend n s)(d := tl (pend n s d))))"

lemma pend_send:
  "net_laws N pend \<Longrightarrow> pend (net_send N s d m n) = (pend n)(s := (pend n s)(d := pend n s d @ [m]))"
  by (simp add: net_laws_def)

lemma pend_recv:
  assumes "net_laws N pend" "net_recv N s d n = Some (m, n')"
  shows "\<exists>ms. pend n s d = m # ms \<and> pend n' = (pend n)(s := (pend n s)(d := ms))"
proof -
  from assms have "pend n s d \<noteq> []" "m = hd (pend n s d)" "pend n' = (pend n)(s := (pend n s)(d := tl (pend n s d)))"
    unfolding net_laws_def by blast+
  then show ?thesis by (cases "pend n s d") auto
qed

lemma recv_blocked: "net_laws N pend \<Longrightarrow> net_recv N s d n = None \<longleftrightarrow> pend n s d = []"
  by (simp add: net_laws_def)

lemma recv_enabled:
  assumes "net_laws N pend" "pend n s d \<noteq> []"
  obtains m n' where "net_recv N s d n = Some (m, n')"
proof (cases "net_recv N s d n")
  case None
  with assms show ?thesis by (simp add: recv_blocked)
next
  case (Some r)
  with that show ?thesis by (cases r) auto
qed

text \<open>The elements of a list of clients, counted client by client.\<close>

lemma sum_count_list:
  assumes "\<forall>x \<in> set l. 0 < x \<and> x < (n :: nat)"
  shows "(\<Sum>c = 1..<n. count_list l c) = length l"
  using assms
proof (induction l)
  case (Cons x l)
  have "(\<Sum>c = 1..<n. (if x = c then 1 else 0 :: nat)) = 1" using Cons.prems by (subst sum.delta') auto
  moreover have "count_list (x # l) c = (if x = c then 1 else 0) + count_list l c" for c by simp
  ultimately show ?case using Cons by (simp add: sum.distrib del: count_list.simps)
qed simp

text \<open>A network of queues, which satisfies the laws.\<close>

definition queues :: "(rank \<Rightarrow> rank \<Rightarrow> 'm list, 'm) mpi_net" where
  "queues = \<lparr>net_send = \<lambda>s d m n. n(s := (n s)(d := n s d @ [m])),
    net_recv = \<lambda>s d n. case n s d of [] \<Rightarrow> None | m # ms \<Rightarrow> Some (m, n(s := (n s)(d := ms)))\<rparr>"

lemma queues_laws: "net_laws queues id"
  by (auto simp: net_laws_def queues_def split: list.splits)

end
