(* ===== verification/Mpi_Lock.thy ===== *)
theory Mpi_Lock
  imports Mpi
begin

text \<open>
  \<open>MPI/MPI_Test/mpi_test_Win_lock.c\<close>: in four rounds every client (rank 1 and up) puts a vector into its window of shared memory and tells
  the server (rank 0), which fetches the vector with \<open>MPI_Get\<close> and sends the message back. The program is a step relation: one process does one
  step, and vectors are copied element by element, so that a client may write its window while the server reads it. \<open>nprocs\<close> is the number of
  processes. The number of elements that \<open>MPI_Get\<close> asks for is an argument, which the program sets to \<open>get_count\<close>; asking for more elements
  than the window has stops the server.

  The loop variable \<open>i\<close> of a process is part of its program point. A client that is through its loop, and the server likewise, waits in
  \<open>MPI_Barrier\<close>.
\<close>

section \<open>The program\<close>

definition ABsize :: nat where
  "ABsize = 1024 * 1024 * 100 div 8"

definition get_count :: nat where
  "get_count = ABsize * 8"

datatype client_point = C_top nat | C_recv nat | C_copy nat nat | C_send nat | C_barrier

datatype server_point = S_top nat | S_recv nat nat | S_get nat nat rank nat | S_send nat nat rank | S_barrier | S_overrun

text \<open>The entries of the log are what the server prints: its round, the source, the message and the first ten elements.\<close>

record 'n wl =
  cpt :: "rank \<Rightarrow> client_point"
  cbuf :: "rank \<Rightarrow> u8 list"
  cB :: "rank \<Rightarrow> nat \<Rightarrow> int"
  win :: "rank \<Rightarrow> nat \<Rightarrow> int"
  spt :: server_point
  sbuf :: "u8 list"
  net :: 'n
  slog :: "(nat \<times> rank \<times> u8 list \<times> int list) list"

definition client_msg :: "nat \<Rightarrow> rank \<Rightarrow> u8 list" where
  "client_msg i r = bytes '' '' @ dec_digits i @ bytes '' client:>'' @ dec_digits r @ bytes ''<!\<newline>''"

definition wl_start :: "'n \<Rightarrow> (rank \<Rightarrow> nat \<Rightarrow> int) \<Rightarrow> 'n wl" where
  "wl_start n0 a0 = \<lparr>cpt = \<lambda>_. C_top 0, cbuf = \<lambda>_. [], cB = \<lambda>_ _. 0, win = a0, spt = S_top 0, sbuf = [], net = n0, slog = []\<rparr>"

text \<open>A step of client \<open>c\<close>: the body of the loop for a rank other than 0.\<close>

inductive client_step :: "('n, u8 list) mpi_net \<Rightarrow> rank \<Rightarrow> 'n wl \<Rightarrow> 'n wl \<Rightarrow> bool" for N c where
  first: "cpt s c = C_top i \<Longrightarrow> i < 4 \<Longrightarrow>
    client_step N c s (s\<lparr>cbuf := (cbuf s)(c := client_msg i c), 
      cB := (cB s)(c := if i > 0 then \<lambda>j. int j + int i else (\<lambda>j. int j + int i)(0 := int c)),
      cpt := (cpt s)(c := if i > 0 then C_recv i else C_copy i 0)\<rparr>)"
| ack: "cpt s c = C_recv i \<Longrightarrow> net_recv N 0 c (net s) = Some (m, n') \<Longrightarrow>
    client_step N c s (s\<lparr>cbuf := (cbuf s)(c := m), cB := (cB s)(c := (cB s c)(0 := int c)), net := n', cpt := (cpt s)(c := C_copy i 0)\<rparr>)"
| copy: "cpt s c = C_copy i j \<Longrightarrow> j < ABsize \<Longrightarrow>
    client_step N c s (s\<lparr>win := (win s)(c := (win s c)(j := cB s c j)), cpt := (cpt s)(c := C_copy i (Suc j))\<rparr>)"
| copied: "cpt s c = C_copy i ABsize \<Longrightarrow> client_step N c s (s\<lparr>cpt := (cpt s)(c := C_send i)\<rparr>)"
| send: "cpt s c = C_send i \<Longrightarrow>
    client_step N c s (s\<lparr>net := net_send N c 0 (cbuf s c) (net s), cpt := (cpt s)(c := C_top (Suc i))\<rparr>)"
| through: "cpt s c = C_top 4 \<Longrightarrow> client_step N c s (s\<lparr>cpt := (cpt s)(c := C_barrier)\<rparr>)"

text \<open>A step of the server.\<close>

inductive server_step :: "('n, u8 list) mpi_net \<Rightarrow> nat \<Rightarrow> nat \<Rightarrow> 'n wl \<Rightarrow> 'n wl \<Rightarrow> bool" for N nprocs cnt where
  round: "spt s = S_top i \<Longrightarrow> i < 4 \<Longrightarrow> server_step N nprocs cnt s (s\<lparr>spt := S_recv i 0\<rparr>)"
| recv: "spt s = S_recv i k \<Longrightarrow> k < nprocs - 1 \<Longrightarrow> 0 < src \<Longrightarrow> src < nprocs \<Longrightarrow> net_recv N src 0 (net s) = Some (m, n') \<Longrightarrow>
    server_step N nprocs cnt s (s\<lparr>sbuf := m, net := n', spt := S_get i k src 0\<rparr>)"
| overrun: "spt s = S_get i k src j \<Longrightarrow> ABsize < cnt \<Longrightarrow> server_step N nprocs cnt s (s\<lparr>spt := S_overrun\<rparr>)"
| get: "spt s = S_get i k src j \<Longrightarrow> cnt \<le> ABsize \<Longrightarrow> j < cnt \<Longrightarrow>
    server_step N nprocs cnt s (s\<lparr>win := (win s)(0 := (win s 0)(j := win s src j)), spt := S_get i k src (Suc j)\<rparr>)"
| got: "spt s = S_get i k src cnt \<Longrightarrow> cnt \<le> ABsize \<Longrightarrow>
    server_step N nprocs cnt s (s\<lparr>slog := slog s @ [(i, src, sbuf s, map (win s 0) [0..<10])], spt := S_send i k src\<rparr>)"
| reply: "spt s = S_send i k src \<Longrightarrow>
    server_step N nprocs cnt s (s\<lparr>net := net_send N 0 src (sbuf s) (net s), spt := S_recv i (Suc k)\<rparr>)"
| next_round: "spt s = S_recv i k \<Longrightarrow> \<not> k < nprocs - 1 \<Longrightarrow> server_step N nprocs cnt s (s\<lparr>spt := S_top (Suc i)\<rparr>)"
| through: "spt s = S_top 4 \<Longrightarrow> server_step N nprocs cnt s (s\<lparr>spt := S_barrier\<rparr>)"

text \<open>Inversion of a step of a client.\<close>

inductive_cases client_stepE: "client_step N c s s'"

inductive wl_reach :: "('n, u8 list) mpi_net \<Rightarrow> nat \<Rightarrow> nat \<Rightarrow> 'n wl \<Rightarrow> 'n wl \<Rightarrow> bool" for N nprocs cnt s0 where
  start: "wl_reach N nprocs cnt s0 s0"
| client: "wl_reach N nprocs cnt s0 s \<Longrightarrow> 0 < c \<Longrightarrow> c < nprocs \<Longrightarrow> client_step N c s s' \<Longrightarrow> wl_reach N nprocs cnt s0 s'"
| server: "wl_reach N nprocs cnt s0 s \<Longrightarrow> server_step N nprocs cnt s s' \<Longrightarrow> wl_reach N nprocs cnt s0 s'"

section \<open>What holds in every reachable state\<close>

text \<open>The vector that client \<open>c\<close> puts into its window in round \<open>i\<close>.\<close>

definition vec :: "rank \<Rightarrow> nat \<Rightarrow> nat \<Rightarrow> int" where
  "vec c i j = (if j = 0 then int c else int j + int i)"

fun sent :: "client_point \<Rightarrow> nat" where
  "sent (C_top i) = i" | "sent (C_recv i) = i" | "sent (C_copy i j) = i" | "sent (C_send i) = i" | "sent C_barrier = 4"

text \<open>The client has sent a message whose answer it has not received.\<close>

fun waits :: "client_point \<Rightarrow> bool" where
  "waits (C_top i) = (i > 0)" | "waits (C_recv i) = True" | "waits (C_copy i j) = False" | "waits (C_send i) = False" | "waits C_barrier = True"

fun reading :: "rank \<Rightarrow> server_point \<Rightarrow> bool" where
  "reading c (S_get i k src j) = (src = c)" | "reading c _ = False"

fun serving :: "rank \<Rightarrow> server_point \<Rightarrow> bool" where
  "serving c (S_get i k src j) = (src = c)" | "serving c (S_send i k src) = (src = c)" | "serving c _ = False"

text \<open>Between a client and the server there is at most one message, and only when the client waits.\<close>

definition tokens :: "('n \<Rightarrow> rank \<Rightarrow> rank \<Rightarrow> u8 list list) \<Rightarrow> rank \<Rightarrow> 'n wl \<Rightarrow> bool" where
  "tokens pend c s \<longleftrightarrow>
    length (pend (net s) c 0) + (if serving c (spt s) then 1 else 0) + length (pend (net s) 0 c) = (if waits (cpt s c) then 1 else 0) \<and>
    set (pend (net s) c 0) \<union> set (pend (net s) 0 c) \<subseteq> {client_msg 0 c} \<and> (serving c (spt s) \<longrightarrow> sbuf s = client_msg 0 c)"

definition windows :: "rank \<Rightarrow> 'n wl \<Rightarrow> bool" where
  "windows c s \<longleftrightarrow> (case cpt s c of
      C_top i \<Rightarrow> i \<le> 4 \<and> (0 < i \<longrightarrow> (\<forall>j<ABsize. win s c j = vec c (i - 1) j))
    | C_recv i \<Rightarrow> 0 < i \<and> i < 4 \<and> (\<forall>j<ABsize. win s c j = vec c (i - 1) j) \<and> (\<forall>j. cB s c j = int j + int i)
    | C_copy i j \<Rightarrow> i < 4 \<and> j \<le> ABsize \<and> cbuf s c = client_msg 0 c \<and> cB s c = vec c i \<and> (\<forall>l<j. win s c l = vec c i l)
    | C_send i \<Rightarrow> i < 4 \<and> cbuf s c = client_msg 0 c \<and> (\<forall>j<ABsize. win s c j = vec c i j)
    | C_barrier \<Rightarrow> (\<forall>j<ABsize. win s c j = vec c 3 j)) \<and>
    (case spt s of S_get i k src j \<Rightarrow> src = c \<longrightarrow> (\<forall>l<j. win s 0 l = win s c l) | _ \<Rightarrow> True)"

text \<open>What the server has printed about client \<open>c\<close>, and how often it has done so.\<close>

definition entries :: "rank \<Rightarrow> 'n wl \<Rightarrow> (u8 list \<times> int list) list" where
  "entries c s = map snd (filter (\<lambda>e. fst e = c) (map snd (slog s)))"

definition served :: "('n \<Rightarrow> rank \<Rightarrow> rank \<Rightarrow> u8 list list) \<Rightarrow> rank \<Rightarrow> 'n wl \<Rightarrow> nat" where
  "served pend c s = sent (cpt s c) - length (pend (net s) c 0) - (if reading c (spt s) then 1 else 0)"

definition logged :: "('n \<Rightarrow> rank \<Rightarrow> rank \<Rightarrow> u8 list list) \<Rightarrow> rank \<Rightarrow> 'n wl \<Rightarrow> bool" where
  "logged pend c s \<longleftrightarrow> entries c s = map (\<lambda>t. (client_msg 0 c, map (vec c t) [0..<10])) [0..<served pend c s]"

definition client_inv :: "('n \<Rightarrow> rank \<Rightarrow> rank \<Rightarrow> u8 list list) \<Rightarrow> rank \<Rightarrow> 'n wl \<Rightarrow> bool" where
  "client_inv pend c s \<longleftrightarrow> tokens pend c s \<and> windows c s \<and> logged pend c s"

lemmas client_inv_defs = client_inv_def tokens_def windows_def logged_def entries_def served_def

lemma client_inv_frame:
  assumes "client_inv pend c s" "cpt s' c = cpt s c" "cbuf s' c = cbuf s c" "cB s' c = cB s c" "win s' c = win s c" "win s' 0 = win s 0"
    "pend (net s') c 0 = pend (net s) c 0" "pend (net s') 0 c = pend (net s) 0 c" "spt s' = spt s" "sbuf s' = sbuf s" "slog s' = slog s"
  shows "client_inv pend c s'"
  using assms by (simp add: client_inv_defs split: client_point.splits server_point.splits)

lemma client_step_other:
  assumes N: "net_laws N pend" and st: "client_step N c s s'" and i: "client_inv pend d s" and d: "d \<noteq> c" "0 < c" "0 < d"
  shows "client_inv pend d s'"
  using st
proof cases
  case (ack i m n')
  then show ?thesis using pend_recv [OF N ack(3)] d by (intro client_inv_frame [OF i]) auto
qed (use d pend_send [OF N] in \<open>auto intro!: client_inv_frame [OF i]\<close>)

lemma vec_upd: "(\<lambda>j. int j + int i)(0 := int c) = vec c i"
  by (auto simp: vec_def)

lemma client_step_own:
  assumes N: "net_laws N pend" and st: "client_step N c s s'" and i: "client_inv pend c s" and c: "0 < c"
  shows "client_inv pend c s'"
  using st
proof cases
  case (first i)
  then show ?thesis using i vec_upd [of i c] c by (auto simp: client_inv_defs split: server_point.splits)
next
  case (ack i m n')
  obtain ms where ms: "pend (net s) 0 c = m # ms" "pend n' = (pend (net s))(0 := (pend (net s) 0)(c := ms))" using pend_recv [OF N ack(3)] by blast
  with ack i c have "ms = []" "pend (net s) c 0 = []" "\<not> serving c (spt s)" "m = client_msg 0 c" "cB s c = (\<lambda>j. int j + int i)"
    by (auto simp: client_inv_def tokens_def windows_def)
  moreover from this have "\<not> reading c (spt s)" by (cases "spt s") auto
  ultimately show ?thesis using i ack ms c vec_upd [of i c] by (auto simp: client_inv_defs split: server_point.splits)
next
  case (copy i j)
  then show ?thesis using i c by (auto simp: client_inv_defs less_Suc_eq split: server_point.splits)
next
  case (copied i)
  then show ?thesis using i c by (auto simp: client_inv_defs split: server_point.splits)
next
  case (send i)
  then have "pend (net s) c 0 = []" "pend (net s) 0 c = []" "\<not> serving c (spt s)" using i by (auto simp: client_inv_def tokens_def split: if_splits)
  moreover from this have "\<not> reading c (spt s)" by (cases "spt s") auto
  ultimately show ?thesis using i send c by (auto simp: client_inv_defs pend_send [OF N] split: server_point.splits)
next
  case through
  then show ?thesis using i c by (auto simp: client_inv_defs split: server_point.splits)
qed

text \<open>The server has served one message per iteration of its inner loop, and its source is a client.\<close>

definition server_inv :: "nat \<Rightarrow> nat \<Rightarrow> 'n wl \<Rightarrow> bool" where
  "server_inv nprocs cnt s \<longleftrightarrow> (case spt s of
      S_top i \<Rightarrow> i \<le> 4 \<and> length (slog s) = i * (nprocs - 1)
    | S_recv i k \<Rightarrow> i < 4 \<and> k \<le> nprocs - 1 \<and> length (slog s) = i * (nprocs - 1) + k
    | S_get i k src j \<Rightarrow> i < 4 \<and> k < nprocs - 1 \<and> length (slog s) = i * (nprocs - 1) + k \<and> 0 < src \<and> src < nprocs \<and> j \<le> cnt
    | S_send i k src \<Rightarrow> i < 4 \<and> k < nprocs - 1 \<and> length (slog s) = i * (nprocs - 1) + k + 1 \<and> 0 < src \<and> src < nprocs
    | S_barrier \<Rightarrow> length (slog s) = 4 * (nprocs - 1)
    | S_overrun \<Rightarrow> False) \<and> (\<forall>e \<in> set (slog s). 0 < fst (snd e) \<and> fst (snd e) < nprocs)"

lemma server_step_inv:
  assumes "server_step N nprocs cnt s s'" "server_inv nprocs cnt s" "cnt \<le> ABsize"
  shows "server_inv nprocs cnt s'"
  using assms by cases (auto simp: server_inv_def)

text \<open>Steps of the server that concern a client: taking its message, and printing what was read from its window.\<close>

lemma server_recv_client:
  assumes N: "net_laws N pend" and i: "client_inv pend c s" and c: "0 < c"
    and recv: "spt s = S_recv r k" "net_recv N src 0 (net s) = Some (m, n')" "s' = s\<lparr>sbuf := m, net := n', spt := S_get r k src 0\<rparr>"
  shows "client_inv pend c s'"
proof -
  obtain ms where ms: "pend (net s) src 0 = m # ms" "pend n' = (pend (net s))(src := (pend (net s) src)(0 := ms))" using pend_recv [OF N recv(2)] by blast
  show ?thesis
  proof (cases "src = c")
    case True
    with ms recv i have e: "ms = []" "pend (net s) 0 c = []" "m = client_msg 0 c" "waits (cpt s c)"
      by (auto simp: client_inv_def tokens_def split: if_splits)
    have "tokens pend c s'" using e True ms recv c by (simp add: tokens_def)
    moreover have "windows c s'" using i recv by (simp add: client_inv_def windows_def split: client_point.splits)
    moreover have "logged pend c s'" using i recv True ms e c by (simp add: client_inv_def logged_def entries_def served_def)
    ultimately show ?thesis by (simp add: client_inv_def)
  next
    case False
    then show ?thesis using ms recv i c by (auto simp: client_inv_defs split: client_point.splits)
  qed
qed

lemma server_got_client:
  assumes i: "client_inv pend c s" and c: "0 < c" and cnt: "10 \<le> cnt" "cnt \<le> ABsize"
    and got: "spt s = S_get r k src cnt" "s' = s\<lparr>slog := slog s @ [(r, src, sbuf s, map (win s 0) [0..<10])], spt := S_send r k src\<rparr>"
  shows "client_inv pend c s'"
proof (cases "src = c")
  case True
  have w: "waits (cpt s c)" "pend (net s) c 0 = []" "sbuf s = client_msg 0 c" using got True i by (auto simp: client_inv_def tokens_def split: if_splits)
  then have p: "0 < sent (cpt s c)" "\<forall>j<ABsize. win s c j = vec c (sent (cpt s c) - 1) j"
    using i by (auto simp: client_inv_def windows_def split: client_point.splits)
  then have "map (win s 0) [0..<10] = map (vec c (sent (cpt s c) - 1)) [0..<10]"
    using i got True cnt by (auto simp: client_inv_def windows_def)
  moreover have "tokens pend c s'" using i got True by (simp add: client_inv_def tokens_def)
  moreover have "windows c s'" using i got by (simp add: client_inv_def windows_def split: client_point.splits)
  ultimately show ?thesis using w p(1) got True i c
    by (cases "sent (cpt s c)") (simp_all add: client_inv_def logged_def entries_def served_def)
next
  case False
  then show ?thesis using got i c by (auto simp: client_inv_defs split: client_point.splits)
qed

lemma server_step_client:
  assumes N: "net_laws N pend" and st: "server_step N nprocs cnt s s'" and i: "client_inv pend c s" and v: "server_inv nprocs cnt s"
    and cnt: "10 \<le> cnt" "cnt \<le> ABsize" and c: "0 < c"
  shows "client_inv pend c s'"
  using st
proof cases
  case (recv r k src m n')
  then show ?thesis by (intro server_recv_client [OF N i c])
next
  case (get r k src j)
  then show ?thesis using i c cnt v by (auto simp: client_inv_defs server_inv_def less_Suc_eq split: client_point.splits)
next
  case (got r k src)
  then show ?thesis by (intro server_got_client [OF i c cnt])
next
  case (reply r k src)
  show ?thesis
  proof (cases "src = c")
    case True
    then show ?thesis using reply i c by (auto simp: client_inv_defs pend_send [OF N] split: client_point.splits if_splits)
  next
    case False
    then show ?thesis using reply i c v by (auto simp: client_inv_defs pend_send [OF N] server_inv_def split: client_point.splits)
  qed
qed (use i c cnt in \<open>auto simp: client_inv_defs split: client_point.splits\<close>)

definition wl_inv :: "('n \<Rightarrow> rank \<Rightarrow> rank \<Rightarrow> u8 list list) \<Rightarrow> nat \<Rightarrow> nat \<Rightarrow> 'n wl \<Rightarrow> bool" where
  "wl_inv pend nprocs cnt s \<longleftrightarrow> server_inv nprocs cnt s \<and> (\<forall>c. 0 < c \<and> c < nprocs \<longrightarrow> client_inv pend c s)"

lemma client_step_server: "client_step N c s s' \<Longrightarrow> server_inv nprocs cnt s' = server_inv nprocs cnt s"
proof -
  assume "client_step N c s s'"
  then have "spt s' = spt s" "slog s' = slog s" by (auto elim!: client_stepE)
  then show ?thesis unfolding server_inv_def by (simp only:)
qed

lemma wl_start_inv: "(\<forall>s d. pend n0 s d = []) \<Longrightarrow> wl_inv pend nprocs cnt (wl_start n0 a0)"
  by (simp add: wl_inv_def wl_start_def server_inv_def client_inv_defs)

lemma wl_reach_inv:
  assumes N: "net_laws N pend" "\<forall>s d. pend n0 s d = []" and cnt: "10 \<le> cnt" "cnt \<le> ABsize"
  shows "wl_reach N nprocs cnt (wl_start n0 a0) s \<Longrightarrow> wl_inv pend nprocs cnt s"
proof (induction rule: wl_reach.induct)
  case start
  then show ?case by (rule wl_start_inv) (rule N(2))
next
  case (client s c s')
  then show ?case unfolding wl_inv_def
    using client_step_own [OF N(1) client(4)] client_step_other [OF N(1) client(4)] client_step_server [OF client(4)] by metis
next
  case (server s s')
  then show ?case unfolding wl_inv_def
    using server_step_inv [OF server(2) _ cnt(2)] server_step_client [OF N(1) server(2) _ _ cnt] by blast
qed

section \<open>Progress\<close>

text \<open>The entries of the log are distributed over the clients.\<close>

lemma length_entries: "length (entries c s) = count_list (map (\<lambda>e. fst (snd e)) (slog s)) c"
  by (simp add: entries_def count_list_eq_length_filter filter_map o_def eq_commute)

lemma log_count:
  assumes "wl_inv pend nprocs cnt s"
  shows "length (slog s) = (\<Sum>c = 1..<nprocs. served pend c s)"
proof -
  have "length (slog s) = (\<Sum>c = 1..<nprocs. length (entries c s))"
    using assms sum_count_list [of "map (\<lambda>e. fst (snd e)) (slog s)" nprocs] by (simp add: wl_inv_def server_inv_def length_entries)
  also have "\<dots> = (\<Sum>c = 1..<nprocs. served pend c s)"
    using assms by (intro sum.cong) (auto simp: wl_inv_def client_inv_def logged_def)
  finally show ?thesis .
qed

lemma served_le: "client_inv pend c s \<Longrightarrow> served pend c s \<le> 4"
  by (auto simp: client_inv_def windows_def served_def split: client_point.splits)

lemma client_moves:
  assumes N: "net_laws N pend" and i: "client_inv pend c s" and no: "\<nexists>s'. client_step N c s s'"
  shows "cpt s c = C_barrier \<or> (\<exists>i. cpt s c = C_recv i \<and> pend (net s) 0 c = [])"
proof (cases "cpt s c")
  case (C_top j)
  with i have "j < 4 \<or> j = 4" by (auto simp: client_inv_def windows_def)
  with C_top no show ?thesis by (auto intro: client_step.intros)
next
  case (C_recv j)
  with no show ?thesis by (metis N recv_enabled client_step.ack)
next
  case (C_copy j l)
  with i have "l < ABsize \<or> l = ABsize" by (auto simp: client_inv_def windows_def)
  with C_copy no show ?thesis by (auto intro: client_step.intros)
qed (use no in \<open>auto intro: client_step.intros\<close>)

lemma server_moves:
  assumes N: "net_laws N pend" and v: "server_inv nprocs cnt s" and cnt: "cnt \<le> ABsize" and no: "\<nexists>s'. server_step N nprocs cnt s s'"
  shows "spt s = S_barrier \<or> (\<exists>i k. spt s = S_recv i k \<and> k < nprocs - 1 \<and> (\<forall>c. 0 < c \<and> c < nprocs \<longrightarrow> pend (net s) c 0 = []))"
proof (cases "spt s")
  case (S_top j)
  with v have "j < 4 \<or> j = 4" by (auto simp: server_inv_def)
  with S_top no show ?thesis by (auto intro: server_step.intros)
next
  case (S_recv i k)
  with no show ?thesis by (metis N recv_enabled server_step.recv server_step.next_round)
next
  case (S_get i k src j)
  with v have "j < cnt \<or> j = cnt" by (auto simp: server_inv_def)
  with S_get cnt no show ?thesis by (auto intro: server_step.intros)
next
  case S_overrun
  with v show ?thesis by (simp add: server_inv_def)
qed (use no in \<open>auto intro: server_step.intros\<close>)

lemma serves_all:
  assumes "length (slog s) = (\<Sum>c = 1..<nprocs. served pend c s)" "\<forall>c. 0 < c \<and> c < nprocs \<longrightarrow> served pend c s \<le> 4"
    "length (slog s) = 4 * (nprocs - 1)" "0 < c" "c < nprocs"
  shows "served pend c s = 4"
proof (rule ccontr)
  assume "served pend c s \<noteq> 4"
  then have "served pend c s < 4" using assms by (metis le_neq_implies_less)
  then have "(\<Sum>c = 1..<nprocs. served pend c s) < (\<Sum>c = 1..<nprocs. 4)" using assms by (intro sum_strict_mono_ex1) auto
  then show False using assms by simp
qed

lemma wl_stuck:
  assumes N: "net_laws N pend" and v: "wl_inv pend nprocs cnt s" and cnt: "cnt \<le> ABsize"
    and no: "\<nexists>s'. server_step N nprocs cnt s s'" "\<forall>c. 0 < c \<and> c < nprocs \<longrightarrow> (\<nexists>s'. client_step N c s s')"
  shows "spt s = S_barrier \<and> (\<forall>c. 0 < c \<and> c < nprocs \<longrightarrow> cpt s c = C_barrier)"
proof -
  have cl: "cpt s c = C_barrier \<or> (\<exists>i. cpt s c = C_recv i \<and> pend (net s) 0 c = [])" "client_inv pend c s" "served pend c s \<le> 4" if "0 < c" "c < nprocs" for c
    using client_moves [OF N, of c s] served_le [of pend c s] v no(2) that by (auto simp: wl_inv_def)
  have sv: "server_inv nprocs cnt s" using v by (simp add: wl_inv_def)
  from server_moves [OF N sv cnt no(1)] show ?thesis
  proof (elim disjE exE conjE)
    fix i k assume b: "spt s = S_recv i k" "k < nprocs - 1" "\<forall>c. 0 < c \<and> c < nprocs \<longrightarrow> pend (net s) c 0 = []"
    have "served pend c s = 4" if "c \<in> {1..<nprocs}" for c
      using cl [of c] that b by (auto simp: client_inv_def tokens_def served_def)
    then have "length (slog s) = 4 * (nprocs - 1)" using log_count [OF v] by simp
    moreover have "length (slog s) < 4 * (nprocs - 1)"
    proof -
      have "length (slog s) = i * (nprocs - 1) + k" "i \<le> 3" using sv b by (auto simp: server_inv_def)
      moreover have "i * (nprocs - 1) \<le> 3 * (nprocs - 1)" using \<open>i \<le> 3\<close> by (rule mult_right_mono) simp
      ultimately show ?thesis using b(2) by linarith
    qed
    ultimately show ?thesis by simp
  next
    assume b: "spt s = S_barrier"
    then have four: "served pend c s = 4" if "0 < c" "c < nprocs" for c
      using serves_all [OF log_count [OF v]] cl(3) sv that by (auto simp: server_inv_def)
    have "cpt s c \<noteq> C_recv i \<or> pend (net s) 0 c \<noteq> []" if "0 < c" "c < nprocs" for c i
      using four [OF that] cl(2) [OF that] that b by (auto simp: client_inv_def tokens_def windows_def served_def)
    with b cl(1) show ?thesis by blast
  qed
qed

section \<open>A first exchange\<close>

lemma copy_loop:
  assumes "wl_reach N nprocs cnt s0 s" "cpt s 1 = C_copy i j" "j \<le> ABsize" "1 < nprocs"
  shows "\<exists>s'. wl_reach N nprocs cnt s0 s' \<and> cpt s' 1 = C_send i \<and> net s' = net s \<and> spt s' = spt s \<and> slog s' = slog s"
  using assms
proof (induction "ABsize - j" arbitrary: s j)
  case 0
  then have "client_step N 1 s (s\<lparr>cpt := (cpt s)(1 := C_send i)\<rparr>)" by (auto intro: client_step.copied)
  with 0 show ?case by (intro exI [of _ "s\<lparr>cpt := (cpt s)(1 := C_send i)\<rparr>"]) (auto intro: wl_reach.client)
next
  case (Suc x)
  let ?t = "s\<lparr>win := (win s)(1 := (win s 1)(j := cB s 1 j)), cpt := (cpt s)(1 := C_copy i (Suc j))\<rparr>"
  have "client_step N 1 s ?t" using Suc by (intro client_step.copy) auto
  then have "wl_reach N nprocs cnt s0 ?t" using Suc.prems by (auto intro: wl_reach.client)
  with Suc.hyps(1) [of "Suc j" ?t] Suc.hyps(2) Suc.prems show ?case by auto
qed

lemma get_loop:
  assumes "wl_reach N nprocs cnt s0 s" "spt s = S_get i k src j" "j \<le> cnt" "cnt \<le> ABsize"
  shows "\<exists>s' l. wl_reach N nprocs cnt s0 s' \<and> spt s' = S_send i k src \<and> slog s' = slog s @ [(i, src, l)]"
  using assms
proof (induction "cnt - j" arbitrary: s j)
  case 0
  then have "server_step N nprocs cnt s (s\<lparr>slog := slog s @ [(i, src, sbuf s, map (win s 0) [0..<10])], spt := S_send i k src\<rparr>)"
    (is "server_step N nprocs cnt s ?t") by (intro server_step.got) auto
  with 0 show ?case by (intro exI [of _ ?t]) (auto intro: wl_reach.server)
next
  case (Suc x)
  let ?t = "s\<lparr>win := (win s)(0 := (win s 0)(j := win s src j)), spt := S_get i k src (Suc j)\<rparr>"
  have "server_step N nprocs cnt s ?t" using Suc by (intro server_step.get) auto
  then have "wl_reach N nprocs cnt s0 ?t" using Suc.prems by (auto intro: wl_reach.server)
  with Suc.hyps(1) [of "Suc j" ?t] Suc.hyps(2) Suc.prems show ?case by auto
qed

lemma first_get:
  assumes N: "net_laws N pend" and n: "1 < nprocs"
  shows "\<exists>s. wl_reach N nprocs cnt (wl_start n0 a0) s \<and> spt s = S_get 0 0 1 0 \<and> slog s = []"
proof -
  let ?R = "wl_reach N nprocs cnt (wl_start n0 a0)"
  let ?s1 = "(wl_start n0 a0)\<lparr>spt := S_recv 0 0\<rparr>"
  have "server_step N nprocs cnt (wl_start n0 a0) ?s1" by (rule server_step.round) (simp_all add: wl_start_def)
  then have "?R ?s1" by (rule wl_reach.server [OF wl_reach.start])
  moreover have "client_step N 1 ?s1 (?s1\<lparr>cbuf := (cbuf ?s1)(1 := client_msg 0 1),
      cB := (cB ?s1)(1 := if (0 :: nat) > 0 then \<lambda>j. int j + int 0 else (\<lambda>j. int j + int 0)(0 := int 1)),
      cpt := (cpt ?s1)(1 := if (0 :: nat) > 0 then C_recv 0 else C_copy 0 0)\<rparr>)" (is "client_step N 1 _ ?s2")
    by (rule client_step.first) (simp_all add: wl_start_def)
  ultimately have "?R ?s2" using n by (auto intro: wl_reach.client)
  then obtain s3 where s3: "?R s3" "cpt s3 1 = C_send 0" "spt s3 = S_recv 0 0" "slog s3 = []"
    using copy_loop [of N nprocs cnt _ ?s2 0 0] n by (auto simp: wl_start_def)
  let ?s4 = "s3\<lparr>net := net_send N 1 0 (cbuf s3 1) (net s3), cpt := (cpt s3)(1 := C_top (Suc 0))\<rparr>"
  have "client_step N 1 s3 ?s4" using s3 by (intro client_step.send)
  then have s4: "?R ?s4" using s3 n by (auto intro: wl_reach.client)
  have "pend (net ?s4) 1 0 \<noteq> []" by (simp add: pend_send [OF N])
  then obtain m n' where "net_recv N 1 0 (net ?s4) = Some (m, n')" by (rule recv_enabled [OF N])
  then have "server_step N nprocs cnt ?s4 (?s4\<lparr>sbuf := m, net := n', spt := S_get 0 0 1 0\<rparr>)"
    using n s3(3) by (intro server_step.recv) auto
  then have "?R (?s4\<lparr>sbuf := m, net := n', spt := S_get 0 0 1 0\<rparr>)" using s4 by (rule wl_reach.server [rotated])
  with s3(4) show ?thesis by force
qed

section \<open>The theorems\<close>


definition no_messages :: "rank \<Rightarrow> rank \<Rightarrow> u8 list list" where
  "no_messages = (\<lambda>_ _. [])"


text \<open>
  The program asks \<open>MPI_Get\<close> for as many elements as the window has bytes, eight times as many as it has elements: the server never
  prints a vector, and with at least one client it gets to the point where the request goes beyond the window and its own buffer.
\<close>

theorem win_lock_get_overruns:
  assumes N: "net_laws N pend" "\<forall>s d. pend n0 s d = []" and n: "1 < nprocs"
  shows "(\<forall>s. wl_reach N nprocs get_count (wl_start n0 a0) s \<longrightarrow> slog s = []) \<and>
    (\<exists>s. wl_reach N nprocs get_count (wl_start n0 a0) s \<and> spt s = S_overrun)"
proof
  have big: "ABsize < get_count" by (simp add: ABsize_def get_count_def)
  have "slog s = [] \<and> (\<forall>i k src. spt s \<noteq> S_send i k src)" if "wl_reach N nprocs get_count (wl_start n0 a0) s" for s
    using that
  proof (induction rule: wl_reach.induct)
    case (client s c s')
    from client(4) have "slog s' = slog s" "spt s' = spt s" by (auto elim!: client_stepE)
    with client show ?case by simp
  next
    case (server s s')
    from server(2) show ?case using server(3) big by cases auto
  qed (simp add: wl_start_def)
  then show "\<forall>s. wl_reach N nprocs get_count (wl_start n0 a0) s \<longrightarrow> slog s = []" by blast
next
  obtain s where s: "wl_reach N nprocs get_count (wl_start n0 a0) s" "spt s = S_get 0 0 1 0" using first_get [OF N(1) n] by blast
  from s(2) have "server_step N nprocs get_count s (s\<lparr>spt := S_overrun\<rparr>)"
    by (rule server_step.overrun) (simp add: ABsize_def get_count_def)
  then have "wl_reach N nprocs get_count (wl_start n0 a0) (s\<lparr>spt := S_overrun\<rparr>)" by (rule wl_reach.server [OF s(1)])
  then show "\<exists>s. wl_reach N nprocs get_count (wl_start n0 a0) s \<and> spt s = S_overrun" by force
qed

theorem win_lock_get_overruns_witness:
  "\<exists>s. wl_reach queues 2 get_count (wl_start no_messages (\<lambda>_ _. 0)) s \<and> spt s = S_overrun"
  using win_lock_get_overruns [OF queues_laws, of no_messages 2 "\<lambda>_ _. 0"] by (simp add: no_messages_def)

end
