(* ===== verification/Mpi_Post.thy ===== *)
theory Mpi_Post
  imports Mpi
begin

text \<open>
  \<open>mpi_test_Win_start_post.c\<close> and \<open>mpi_test_Win_start_post_2.c\<close> of \<open>MPI/MPI_Test\<close>: the clients open their windows for a group of processes with
  \<open>MPI_Win_post\<close> and wait in \<open>MPI_Win_wait\<close> until these have completed their accesses. The two programs have the same clients and differ
  in the server: the first opens and completes an access per message, the second one access for all clients per round.

  The state keeps which process has completed an access to which window. When \<open>MPI_Win_wait\<close> may return is a parameter, with the law of the standard
  that every process of the group has completed an access. The locale \<open>post_server\<close> has what the two servers share: they leave the clients
  alone, only they complete accesses, and they receive one message per iteration of their inner loop.
\<close>

section \<open>The clients\<close>

definition ABsize :: nat where
  "ABsize = 1024 * 1024 * 100 div 8"

definition get_count :: nat where
  "get_count = ABsize * 8"

text \<open>The array of ranks has 100 elements; all of those that are set are the rank of the process itself.\<close>

definition all_rank :: "nat \<Rightarrow> rank \<Rightarrow> rank list option" where
  "all_rank nprocs rnk = (if nprocs \<le> 100 then Some (replicate nprocs rnk) else None)"

text \<open>\<open>MPI_Group_incl\<close> and \<open>MPI_Group_excl\<close> with the first element of the array, on the group of all processes.\<close>

definition s_group :: "nat \<Rightarrow> rank \<Rightarrow> rank list option" where
  "s_group nprocs rnk = map_option (take 1) (all_rank nprocs rnk)"

definition c_group :: "nat \<Rightarrow> rank \<Rightarrow> rank list option" where
  "c_group nprocs rnk = map_option (\<lambda>a. filter (\<lambda>r. r \<notin> set (take 1 a)) [0..<nprocs]) (all_rank nprocs rnk)"

datatype client_point = C_top nat | C_send nat | C_post nat | C_wait nat | C_barrier

datatype server_point = S_top nat | S_recv nat nat | S_get nat nat rank | S_complete nat nat rank | S_barrier | S_overrun

record 'n pw =
  cpt :: "rank \<Rightarrow> client_point"
  cbuf :: "rank \<Rightarrow> u8 list"
  win :: "rank \<Rightarrow> nat \<Rightarrow> int"
  exposed :: "rank \<Rightarrow> rank list"
  spt :: server_point
  sbuf :: "u8 list"
  epoch :: "rank list"
  T :: "nat \<Rightarrow> nat \<Rightarrow> int"
  unfreed :: nat
  net :: 'n
  completed :: "(rank \<times> rank) set"
  sources :: "rank list"
  slog :: "int list list"

definition client_msg :: "nat \<Rightarrow> rank \<Rightarrow> u8 list" where
  "client_msg i r = bytes ''>'' @ dec_digits r @ bytes ''<  hello procs,num:'' @ dec_digits i @ bytes ''!\<newline>''"

definition vec :: "rank \<Rightarrow> nat \<Rightarrow> nat \<Rightarrow> int" where
  "vec c i = (\<lambda>j. int j + int i)(9 := int c)"

definition pw_start :: "'n \<Rightarrow> 'n pw" where
  "pw_start n0 = \<lparr>cpt = \<lambda>_. C_top 0, cbuf = \<lambda>_. [], win = \<lambda>_ _. 0, exposed = \<lambda>_. [], spt = S_top 0, sbuf = [], epoch = [], T = \<lambda>_ _. 0,
    unfreed = 0, net = n0, completed = {}, sources = [], slog = []\<rparr>"

text \<open>\<open>wait_ok cs c g\<close>: with the completed accesses \<open>cs\<close>, client \<open>c\<close> may return from \<open>MPI_Win_wait\<close> for a window posted to \<open>g\<close>.\<close>

definition wait_laws :: "((rank \<times> rank) set \<Rightarrow> rank \<Rightarrow> rank list \<Rightarrow> bool) \<Rightarrow> bool" where
  "wait_laws wait_ok \<longleftrightarrow> (\<forall>cs c g. wait_ok cs c g \<longrightarrow> (\<forall>r \<in> set g. (r, c) \<in> cs))"

inductive client_step :: "('n, u8 list) mpi_net \<Rightarrow> ((rank \<times> rank) set \<Rightarrow> rank \<Rightarrow> rank list \<Rightarrow> bool) \<Rightarrow> nat \<Rightarrow> rank \<Rightarrow> 'n pw \<Rightarrow> 'n pw \<Rightarrow> bool"
  for N wait_ok nprocs c where
  compute: "cpt s c = C_top i \<Longrightarrow> i < 4 \<Longrightarrow>
    client_step N wait_ok nprocs c s (s\<lparr>cbuf := (cbuf s)(c := client_msg i c), win := (win s)(c := vec c i), cpt := (cpt s)(c := C_send i)\<rparr>)"
| send: "cpt s c = C_send i \<Longrightarrow>
    client_step N wait_ok nprocs c s (s\<lparr>net := net_send N c 0 (cbuf s c) (net s), cpt := (cpt s)(c := C_post i)\<rparr>)"
| post: "cpt s c = C_post i \<Longrightarrow> s_group nprocs c = Some g \<Longrightarrow>
    client_step N wait_ok nprocs c s (s\<lparr>exposed := (exposed s)(c := g), cpt := (cpt s)(c := C_wait i)\<rparr>)"
| wait: "cpt s c = C_wait i \<Longrightarrow> wait_ok (completed s) c (exposed s c) \<Longrightarrow>
    client_step N wait_ok nprocs c s (s\<lparr>cpt := (cpt s)(c := C_top (Suc i))\<rparr>)"
| through: "cpt s c = C_top 4 \<Longrightarrow> client_step N wait_ok nprocs c s (s\<lparr>cpt := (cpt s)(c := C_barrier)\<rparr>)"

section \<open>The two servers\<close>

text \<open>What \<open>MPI_Get\<close> leaves in a buffer \<open>a\<close>.\<close>

definition fetch :: "nat \<Rightarrow> (nat \<Rightarrow> int) \<Rightarrow> (nat \<Rightarrow> int) \<Rightarrow> nat \<Rightarrow> int" where
  "fetch cnt w a = (\<lambda>j. if j < cnt then w j else a j)"

inductive server_step :: "('n, u8 list) mpi_net \<Rightarrow> nat \<Rightarrow> nat \<Rightarrow> 'n pw \<Rightarrow> 'n pw \<Rightarrow> bool" for N nprocs cnt where
  round: "spt s = S_top i \<Longrightarrow> i < 4 \<Longrightarrow> server_step N nprocs cnt s (s\<lparr>spt := S_recv i 0\<rparr>)"
| recv: "spt s = S_recv i k \<Longrightarrow> k < nprocs - 1 \<Longrightarrow> 0 < src \<Longrightarrow> src < nprocs \<Longrightarrow> net_recv N src 0 (net s) = Some (m, n') \<Longrightarrow>
    server_step N nprocs cnt s (s\<lparr>sbuf := m, net := n', sources := sources s @ [src], epoch := [src], spt := S_get i k src\<rparr>)"
| overrun: "spt s = S_get i k src \<Longrightarrow> ABsize < cnt \<Longrightarrow> server_step N nprocs cnt s (s\<lparr>spt := S_overrun\<rparr>)"
| get: "spt s = S_get i k src \<Longrightarrow> cnt \<le> ABsize \<Longrightarrow>
    server_step N nprocs cnt s (s\<lparr>win := (win s)(0 := fetch cnt (win s src) (win s 0)), spt := S_complete i k src\<rparr>)"
| complete: "spt s = S_complete i k src \<Longrightarrow>
    server_step N nprocs cnt s (s\<lparr>completed := completed s \<union> {0} \<times> set (epoch s), slog := slog s @ [map (win s 0) [0..<10]], spt := S_recv i (Suc k)\<rparr>)"
| next_round: "spt s = S_recv i k \<Longrightarrow> \<not> k < nprocs - 1 \<Longrightarrow> server_step N nprocs cnt s (s\<lparr>spt := S_top (Suc i)\<rparr>)"
| through: "spt s = S_top 4 \<Longrightarrow> server_step N nprocs cnt s (s\<lparr>spt := S_barrier\<rparr>)"

text \<open>The second server keeps one vector per message of the round, allocated and never released.\<close>

inductive server2_step :: "('n, u8 list) mpi_net \<Rightarrow> nat \<Rightarrow> nat \<Rightarrow> 'n pw \<Rightarrow> 'n pw \<Rightarrow> bool" for N nprocs cnt where
  round: "spt s = S_top i \<Longrightarrow> i < 4 \<Longrightarrow> c_group nprocs 0 = Some g \<Longrightarrow> server2_step N nprocs cnt s (s\<lparr>epoch := g, spt := S_recv i 0\<rparr>)"
| recv: "spt s = S_recv i k \<Longrightarrow> k < nprocs - 1 \<Longrightarrow> 0 < src \<Longrightarrow> src < nprocs \<Longrightarrow> net_recv N src 0 (net s) = Some (m, n') \<Longrightarrow>
    server2_step N nprocs cnt s (s\<lparr>sbuf := m, net := n', sources := sources s @ [src], unfreed := unfreed s + 1, spt := S_get i k src\<rparr>)"
| overrun: "spt s = S_get i k src \<Longrightarrow> ABsize < cnt \<Longrightarrow> server2_step N nprocs cnt s (s\<lparr>spt := S_overrun\<rparr>)"
| get: "spt s = S_get i k src \<Longrightarrow> cnt \<le> ABsize \<Longrightarrow>
    server2_step N nprocs cnt s (s\<lparr>T := (T s)(k := fetch cnt (win s src) (T s k)), spt := S_recv i (Suc k)\<rparr>)"
| complete: "spt s = S_recv i k \<Longrightarrow> \<not> k < nprocs - 1 \<Longrightarrow>
    server2_step N nprocs cnt s (s\<lparr>completed := completed s \<union> {0} \<times> set (epoch s),
      slog := slog s @ map (\<lambda>l. map (T s l) [0..<10]) [0..<nprocs - 1], spt := S_top (Suc i)\<rparr>)"
| through: "spt s = S_top 4 \<Longrightarrow> server2_step N nprocs cnt s (s\<lparr>spt := S_barrier\<rparr>)"

text \<open>A run of the clients and one of the servers.\<close>

inductive_cases client_stepE: "client_step N wait_done cnt c s s'"

inductive_cases server_stepE: "server_step N nprocs cnt s s'"

inductive_cases server2_stepE: "server2_step N nprocs cnt s s'"

inductive pw_reach :: "('n, u8 list) mpi_net \<Rightarrow> ((rank \<times> rank) set \<Rightarrow> rank \<Rightarrow> rank list \<Rightarrow> bool) \<Rightarrow> nat \<Rightarrow> ('n pw \<Rightarrow> 'n pw \<Rightarrow> bool) \<Rightarrow> 'n pw \<Rightarrow> 'n pw \<Rightarrow> bool"
  for N wait_ok nprocs srv s0 where
  start: "pw_reach N wait_ok nprocs srv s0 s0"
| client: "pw_reach N wait_ok nprocs srv s0 s \<Longrightarrow> 0 < c \<Longrightarrow> c < nprocs \<Longrightarrow> client_step N wait_ok nprocs c s s' \<Longrightarrow> pw_reach N wait_ok nprocs srv s0 s'"
| server: "pw_reach N wait_ok nprocs srv s0 s \<Longrightarrow> srv s s' \<Longrightarrow> pw_reach N wait_ok nprocs srv s0 s'"

section \<open>No client comes out of its first wait\<close>

definition posted :: "client_point \<Rightarrow> bool" where
  "posted p \<longleftrightarrow> p = C_post 0 \<or> p = C_wait 0"

definition clients_inv :: "('n \<Rightarrow> rank \<Rightarrow> rank \<Rightarrow> u8 list list) \<Rightarrow> nat \<Rightarrow> 'n pw \<Rightarrow> bool" where
  "clients_inv pend nprocs s \<longleftrightarrow> completed s \<subseteq> {0} \<times> UNIV \<and>
    (\<forall>c. 0 < c \<and> c < nprocs \<longrightarrow> cpt s c \<in> {C_top 0, C_send 0, C_post 0, C_wait 0} \<and> (cpt s c = C_wait 0 \<longrightarrow> exposed s c = [c]) \<and>
      length (pend (net s) c 0) + count_list (sources s) c \<le> (if posted (cpt s c) then 1 else 0))"

definition server_inv :: "nat \<Rightarrow> 'n pw \<Rightarrow> bool" where
  "server_inv nprocs s \<longleftrightarrow> (\<forall>src \<in> set (sources s). 0 < src \<and> src < nprocs) \<and> (case spt s of
      S_top i \<Rightarrow> length (sources s) = i * (nprocs - 1)
    | S_recv i k \<Rightarrow> k \<le> nprocs - 1 \<and> length (sources s) = i * (nprocs - 1) + k
    | S_get i k src \<Rightarrow> k < nprocs - 1 \<and> length (sources s) = i * (nprocs - 1) + Suc k
    | S_complete i k src \<Rightarrow> k < nprocs - 1 \<and> length (sources s) = i * (nprocs - 1) + Suc k
    | S_barrier \<Rightarrow> length (sources s) = 4 * (nprocs - 1)
    | S_overrun \<Rightarrow> True)"

text \<open>What the servers promise.\<close>

locale post_server =
  fixes N :: "('n, u8 list) mpi_net" and pend :: "'n \<Rightarrow> rank \<Rightarrow> rank \<Rightarrow> u8 list list" and nprocs :: nat and srv :: "'n pw \<Rightarrow> 'n pw \<Rightarrow> bool"
  assumes loop: "srv s s' \<Longrightarrow> server_inv nprocs s \<Longrightarrow> server_inv nprocs s'"
    and frame: "srv s s' \<Longrightarrow> cpt s' = cpt s \<and> exposed s' = exposed s \<and> (completed s \<subseteq> {0} \<times> UNIV \<longrightarrow> completed s' \<subseteq> {0} \<times> UNIV)"
    and takes: "net_laws N pend \<Longrightarrow> srv s s' \<Longrightarrow> 0 < c \<Longrightarrow>
      length (pend (net s') c 0) + count_list (sources s') c = length (pend (net s) c 0) + count_list (sources s) c"
begin

lemma server_clients:
  assumes "net_laws N pend" "srv s s'" "clients_inv pend nprocs s"
  shows "clients_inv pend nprocs s'"
  using frame [OF assms(2)] takes [OF assms(1,2)] assms(3) by (auto simp: clients_inv_def)

lemma client_clients:
  assumes net: "net_laws N pend" and w: "wait_laws wait_ok" and st: "client_step N wait_ok nprocs c s s'" "0 < c" "c < nprocs" and i: "clients_inv pend nprocs s"
  shows "clients_inv pend nprocs s'"
  using st(1)
proof cases
  case (wait i)
  with i st have "i = 0" "exposed s c = [c]" "completed s \<subseteq> {0} \<times> UNIV" by (auto simp: clients_inv_def)
  moreover from this wait w have "(c, c) \<in> completed s" by (auto simp: wait_laws_def)
  ultimately show ?thesis using st(2) by auto
next
  case (send i)
  with i st show ?thesis by (auto simp: clients_inv_def posted_def pend_send [OF net])
next
  case (post i g)
  moreover from this st(3) have "g = [c]" by (auto simp: s_group_def all_rank_def split: if_splits)
  ultimately show ?thesis using i st by (auto simp: clients_inv_def posted_def)
qed (use i st in \<open>auto simp: clients_inv_def posted_def\<close>)

lemma reach_inv:
  assumes "net_laws N pend" "wait_laws wait_ok" "\<forall>s d. pend n0 s d = []"
  shows "pw_reach N wait_ok nprocs srv (pw_start n0) s \<Longrightarrow> clients_inv pend nprocs s \<and> server_inv nprocs s"
proof (induction rule: pw_reach.induct)
  case start
  then show ?case using assms(3) by (simp add: clients_inv_def server_inv_def pw_start_def)
next
  case (client s c s')
  from client(4) have "spt s' = spt s" "sources s' = sources s" by (auto elim!: client_stepE)
  then have "server_inv nprocs s' = server_inv nprocs s" unfolding server_inv_def by (simp only:)
  with client client_clients [OF assms(1,2) client(4,2,3)] show ?case by simp
next
  case (server s s')
  then show ?case using server_clients [OF assms(1)] loop by blast
qed

lemma nobody_at_barrier:
  assumes "net_laws N pend" "wait_laws wait_ok" "\<forall>s d. pend n0 s d = []" "1 < nprocs" "pw_reach N wait_ok nprocs srv (pw_start n0) s"
  shows "spt s \<noteq> S_barrier \<and> (\<forall>c. 0 < c \<and> c < nprocs \<longrightarrow> cpt s c \<in> {C_top 0, C_send 0, C_post 0, C_wait 0})"
proof -
  have i: "clients_inv pend nprocs s" "server_inv nprocs s" using reach_inv [OF assms(1-3,5)] by auto
  have "count_list (sources s) c \<le> 1" if "c \<in> {1..<nprocs}" for c
    using i(1) that by (auto simp: clients_inv_def split: if_splits)
  then have "(\<Sum>c = 1..<nprocs. count_list (sources s) c) \<le> (\<Sum>c = 1..<nprocs. 1)" by (rule sum_mono)
  then have "length (sources s) \<le> nprocs - 1" using sum_count_list [of "sources s" nprocs] i(2) by (simp add: server_inv_def)
  then have "spt s \<noteq> S_barrier" using i(2) assms(4) by (auto simp: server_inv_def)
  with i(1) show ?thesis by (auto simp: clients_inv_def)
qed

end

section \<open>The two programs\<close>

lemma server_takes:
  assumes N: "net_laws N pend" and st: "server_step N nprocs cnt s s'" and c: "0 < c"
  shows "length (pend (net s') c 0) + count_list (sources s') c = length (pend (net s) c 0) + count_list (sources s) c"
  using st
proof cases
  case (recv i k src m n')
  then show ?thesis using pend_recv [OF N recv(6)] by auto
qed auto

lemma server2_takes:
  assumes N: "net_laws N pend" and st: "server2_step N nprocs cnt s s'" and c: "0 < c"
  shows "length (pend (net s') c 0) + count_list (sources s') c = length (pend (net s) c 0) + count_list (sources s) c"
  using st
proof cases
  case (recv i k src m n')
  then show ?thesis using pend_recv [OF N recv(6)] by auto
qed auto

interpretation ps1: post_server N pend nprocs "server_step N nprocs cnt" for N pend nprocs cnt
proof
  show "server_step N nprocs cnt s s' \<Longrightarrow> server_inv nprocs s \<Longrightarrow> server_inv nprocs s'" for s s'
    by (auto simp: server_inv_def elim!: server_stepE)
next
  show "net_laws N pend \<Longrightarrow> server_step N nprocs cnt s s' \<Longrightarrow> 0 < c \<Longrightarrow>
    length (pend (net s') c 0) + count_list (sources s') c = length (pend (net s) c 0) + count_list (sources s) c" for s s' c
    by (rule server_takes)
qed (auto elim!: server_stepE dest: subsetD)

interpretation ps2: post_server N pend nprocs "server2_step N nprocs cnt" for N pend nprocs cnt
proof
  show "server2_step N nprocs cnt s s' \<Longrightarrow> server_inv nprocs s \<Longrightarrow> server_inv nprocs s'" for s s'
    by (auto simp: server_inv_def elim!: server2_stepE)
next
  show "net_laws N pend \<Longrightarrow> server2_step N nprocs cnt s s' \<Longrightarrow> 0 < c \<Longrightarrow>
    length (pend (net s') c 0) + count_list (sources s') c = length (pend (net s) c 0) + count_list (sources s) c" for s s' c
    by (rule server2_takes)
qed (auto elim!: server2_stepE dest: subsetD)

text \<open>
  C35. Neither program finishes: the array from which the groups are made holds the rank of the process itself, so that every client opens its
  window to itself, and it never completes an access. In every reachable state, with any number of clients, whatever \<open>MPI_Get\<close> transfers and
  in whatever order messages are received, every client is before or in its first \<open>MPI_Win_wait\<close>, and the server has not reached the barrier.
\<close>

theorem post_programs_never_finish:
  assumes "net_laws N pend" "wait_laws wait_ok" "\<forall>s d. pend n0 s d = []" "1 < nprocs"
    and "srv = server_step N nprocs cnt \<or> srv = server2_step N nprocs cnt" "pw_reach N wait_ok nprocs srv (pw_start n0) s"
  shows "spt s \<noteq> S_barrier \<and> (\<forall>c. 0 < c \<and> c < nprocs \<longrightarrow> cpt s c \<in> {C_top 0, C_send 0, C_post 0, C_wait 0})"
  using assms(5)
proof
  assume "srv = server_step N nprocs cnt"
  with ps1.nobody_at_barrier [OF assms(1-4), of cnt s] assms(6) show ?thesis by simp
next
  assume "srv = server2_step N nprocs cnt"
  with ps2.nobody_at_barrier [OF assms(1-4), of cnt s] assms(6) show ?thesis by simp
qed

text \<open>The law for waiting has an instance, and a client does get to its first wait.\<close>

definition all_completed :: "(rank \<times> rank) set \<Rightarrow> rank \<Rightarrow> rank list \<Rightarrow> bool" where
  "all_completed cs c g \<longleftrightarrow> (\<forall>r \<in> set g. (r, c) \<in> cs)"

definition no_messages :: "rank \<Rightarrow> rank \<Rightarrow> u8 list list" where
  "no_messages = (\<lambda>_ _. [])"

lemma client_gets_to_wait:
  "\<exists>s. pw_reach N wait_ok 2 srv (pw_start n0) s \<and> cpt s 1 = C_wait 0 \<and> exposed s 1 = [1]"
proof -
  let ?R = "pw_reach N wait_ok 2 srv (pw_start n0)"
  let ?s1 = "(pw_start n0)\<lparr>cbuf := (cbuf (pw_start n0))(1 := client_msg 0 1), win := (win (pw_start n0))(1 := vec 1 0), cpt := (cpt (pw_start n0))(1 := C_send 0)\<rparr>"
  let ?s2 = "?s1\<lparr>net := net_send N 1 0 (cbuf ?s1 1) (net ?s1), cpt := (cpt ?s1)(1 := C_post 0)\<rparr>"
  let ?s3 = "?s2\<lparr>exposed := (exposed ?s2)(1 := [1]), cpt := (cpt ?s2)(1 := C_wait 0)\<rparr>"
  have "client_step N wait_ok 2 1 (pw_start n0) ?s1" by (rule client_step.compute) (simp_all add: pw_start_def)
  then have 1: "?R ?s1" by (intro pw_reach.client [OF pw_reach.start, of 1]) simp_all
  have "client_step N wait_ok 2 1 ?s1 ?s2" by (rule client_step.send) simp
  then have 2: "?R ?s2" by (intro pw_reach.client [OF 1, of 1]) simp_all
  have "client_step N wait_ok 2 1 ?s2 ?s3" by (rule client_step.post) (simp_all add: s_group_def all_rank_def numeral_2_eq_2)
  then have "?R ?s3" by (intro pw_reach.client [OF 2, of 1]) simp_all
  then show ?thesis by force
qed

theorem post_programs_never_finish_witness:
  "\<exists>s. pw_reach queues all_completed 2 (server_step queues 2 get_count) (pw_start no_messages) s \<and> cpt s 1 = C_wait 0 \<and> spt s \<noteq> S_barrier"
proof -
  obtain s where s: "pw_reach queues all_completed 2 (server_step queues 2 get_count) (pw_start no_messages) s" "cpt s 1 = C_wait 0"
    using client_gets_to_wait [of queues all_completed] by blast
  have "wait_laws all_completed" by (simp add: wait_laws_def all_completed_def)
  with post_programs_never_finish [OF queues_laws _ _ _ _ s(1), of get_count] s show ?thesis by (auto simp: no_messages_def)
qed

end
