(* ===== verification/Mpi_Send_Recv.thy ===== *)
theory Mpi_Send_Recv
  imports Mpi
begin

text \<open>
  \<open>MPI/MPI_Test/mpi_test_send_recv.c\<close>: in five rounds rank 0 sends two messages to rank 1 and receives a number, while rank 1 receives the first
  message with \<open>MPI_Irecv\<close> and \<open>MPI_Wait\<close>, the second with \<open>MPI_Recv\<close>, and sends the number with \<open>MPI_Ssend\<close>, which
  returns when the number has been received. Other processes only print. The program is a step relation on the two processes. The
  count that is passed with the number is an argument, which the program sets to \<open>req_count\<close>; the variable has room for one.
\<close>

section \<open>The program\<close>

definition req_count :: nat where
  "req_count = 4"

datatype message = Text "u8 list" | Ints "int list"

datatype point0 = A_send1 nat | A_send2 nat | A_recv nat | A_done

datatype point1 = B_irecv nat | B_wait nat | B_recv nat | B_ssend nat | B_sync nat | B_done | B_overrun

record 'n sr =
  pt0 :: point0
  pt1 :: point1
  net :: 'n
  out0 :: "int list"
  out1 :: "u8 list list"

definition text_msg :: "nat \<Rightarrow> message" where
  "text_msg i = Text (bytes '' 1 client num:'' @ dec_digits i @ bytes ''!'')"

fun the_text :: "message \<Rightarrow> u8 list" where
  "the_text (Text t) = t" | "the_text (Ints _) = []"

fun the_ints :: "message \<Rightarrow> int list" where
  "the_ints (Ints l) = l" | "the_ints (Text _) = []"

definition next0 :: "nat \<Rightarrow> point0" where
  "next0 i = (if i < 5 then A_send1 i else A_done)"

definition next1 :: "nat \<Rightarrow> point1" where
  "next1 i = (if i < 5 then B_irecv i else B_done)"

definition sr_start :: "'n \<Rightarrow> 'n sr" where
  "sr_start n0 = \<lparr>pt0 = next0 0, pt1 = next1 0, net = n0, out0 = [], out1 = []\<rparr>"

inductive step0 :: "('n, message) mpi_net \<Rightarrow> nat \<Rightarrow> 'n sr \<Rightarrow> 'n sr \<Rightarrow> bool" for N cnt where
  send1: "pt0 s = A_send1 i \<Longrightarrow> step0 N cnt s (s\<lparr>net := net_send N 0 1 (text_msg i) (net s), pt0 := A_send2 i\<rparr>)"
| send2: "pt0 s = A_send2 i \<Longrightarrow> step0 N cnt s (s\<lparr>net := net_send N 0 1 (text_msg i) (net s), pt0 := A_recv i\<rparr>)"
| recv: "pt0 s = A_recv i \<Longrightarrow> net_recv N 1 0 (net s) = Some (m, n') \<Longrightarrow>
    step0 N cnt s (s\<lparr>net := n', out0 := out0 s @ the_ints m, pt0 := next0 (Suc i)\<rparr>)"

text \<open>\<open>MPI_Ssend\<close> is two steps: the number is on its way, and it has been received. Sending more than one number reads behind the variable.\<close>

inductive step1 :: "('n, message) mpi_net \<Rightarrow> nat \<Rightarrow> 'n sr \<Rightarrow> 'n sr \<Rightarrow> bool" for N cnt where
  irecv: "pt1 s = B_irecv i \<Longrightarrow> step1 N cnt s (s\<lparr>pt1 := B_wait i\<rparr>)"
| wait: "pt1 s = B_wait i \<Longrightarrow> net_recv N 0 1 (net s) = Some (m, n') \<Longrightarrow>
    step1 N cnt s (s\<lparr>net := n', out1 := out1 s @ [the_text m], pt1 := B_recv i\<rparr>)"
| recv: "pt1 s = B_recv i \<Longrightarrow> net_recv N 0 1 (net s) = Some (m, n') \<Longrightarrow>
    step1 N cnt s (s\<lparr>net := n', out1 := out1 s @ [the_text m], pt1 := B_ssend i\<rparr>)"
| ssend: "pt1 s = B_ssend i \<Longrightarrow> cnt \<le> 1 \<Longrightarrow>
    step1 N cnt s (s\<lparr>net := net_send N 1 0 (Ints (replicate cnt 1)) (net s), pt1 := B_sync i\<rparr>)"
| overrun: "pt1 s = B_ssend i \<Longrightarrow> 1 < cnt \<Longrightarrow> step1 N cnt s (s\<lparr>pt1 := B_overrun\<rparr>)"
| sync: "pt1 s = B_sync i \<Longrightarrow> net_recv N 1 0 (net s) = None \<Longrightarrow> step1 N cnt s (s\<lparr>pt1 := next1 (Suc i)\<rparr>)"

inductive_cases step1E: "step1 N cnt s s'"

inductive sr_reach :: "('n, message) mpi_net \<Rightarrow> nat \<Rightarrow> 'n sr \<Rightarrow> 'n sr \<Rightarrow> bool" for N cnt s0 where
  start: "sr_reach N cnt s0 s0"
| zero: "sr_reach N cnt s0 s \<Longrightarrow> step0 N cnt s s' \<Longrightarrow> sr_reach N cnt s0 s'"
| one: "sr_reach N cnt s0 s \<Longrightarrow> step1 N cnt s s' \<Longrightarrow> sr_reach N cnt s0 s'"

section \<open>Counting messages\<close>

text \<open>How many texts rank 0 has sent and rank 1 received, and how many numbers rank 1 has sent and rank 0 received.\<close>

fun texts_sent :: "point0 \<Rightarrow> nat" where
  "texts_sent (A_send1 i) = 2 * i" | "texts_sent (A_send2 i) = 2 * i + 1" | "texts_sent (A_recv i) = 2 * i + 2" | "texts_sent A_done = 10"

fun nums_received :: "point0 \<Rightarrow> nat" where
  "nums_received (A_send1 i) = i" | "nums_received (A_send2 i) = i" | "nums_received (A_recv i) = i" | "nums_received A_done = 5"

fun texts_received :: "point1 \<Rightarrow> nat" where
  "texts_received (B_irecv i) = 2 * i" | "texts_received (B_wait i) = 2 * i" | "texts_received (B_recv i) = 2 * i + 1"
| "texts_received (B_ssend i) = 2 * i + 2" | "texts_received (B_sync i) = 2 * i + 2" | "texts_received B_done = 10" | "texts_received B_overrun = 0"

fun nums_sent :: "point1 \<Rightarrow> nat" where
  "nums_sent (B_irecv i) = i" | "nums_sent (B_wait i) = i" | "nums_sent (B_recv i) = i" | "nums_sent (B_ssend i) = i"
| "nums_sent (B_sync i) = Suc i" | "nums_sent B_done = 5" | "nums_sent B_overrun = 0"

fun round0_ok :: "point0 \<Rightarrow> bool" where
  "round0_ok (A_send1 i) = (i < 5)" | "round0_ok (A_send2 i) = (i < 5)" | "round0_ok (A_recv i) = (i < 5)" | "round0_ok A_done = True"

fun round1_ok :: "point1 \<Rightarrow> bool" where
  "round1_ok (B_irecv i) = (i < 5)" | "round1_ok (B_wait i) = (i < 5)" | "round1_ok (B_recv i) = (i < 5)" | "round1_ok (B_ssend i) = (i < 5)"
| "round1_ok (B_sync i) = (i < 5)" | "round1_ok B_done = True" | "round1_ok B_overrun = False"

definition sr_inv :: "('n \<Rightarrow> rank \<Rightarrow> rank \<Rightarrow> message list) \<Rightarrow> nat \<Rightarrow> 'n sr \<Rightarrow> bool" where
  "sr_inv pend cnt s \<longleftrightarrow> round0_ok (pt0 s) \<and> round1_ok (pt1 s) \<and>
    texts_received (pt1 s) \<le> texts_sent (pt0 s) \<and> nums_received (pt0 s) \<le> nums_sent (pt1 s) \<and>
    pend (net s) 0 1 = map (\<lambda>k. text_msg (k div 2)) [texts_received (pt1 s)..<texts_sent (pt0 s)] \<and>
    pend (net s) 1 0 = replicate (nums_sent (pt1 s) - nums_received (pt0 s)) (Ints (replicate cnt 1)) \<and>
    out1 s = map (\<lambda>k. the_text (text_msg (k div 2))) [0..<texts_received (pt1 s)] \<and>
    out0 s = concat (replicate (nums_received (pt0 s)) (replicate cnt 1))"

lemma next_simps [simp]:
  "i < 5 \<Longrightarrow> texts_sent (next0 (Suc i)) = 2 * i + 2" "i < 5 \<Longrightarrow> nums_received (next0 (Suc i)) = Suc i" "round0_ok (next0 i)"
  "i < 5 \<Longrightarrow> texts_received (next1 (Suc i)) = 2 * i + 2" "i < 5 \<Longrightarrow> nums_sent (next1 (Suc i)) = Suc i" "round1_ok (next1 i)"
  by (auto simp: next0_def next1_def)

lemma concat_replicate_Suc: "concat (replicate (Suc n) xs) = concat (replicate n xs) @ xs"
  by (induction n) auto

lemma step0_inv:
  assumes N: "net_laws N pend" and st: "step0 N cnt s s'" and i: "sr_inv pend cnt s"
  shows "sr_inv pend cnt s'"
  using st
proof cases
  case (recv i m n')
  obtain ms where ms: "pend (net s) 1 0 = m # ms" "pend n' = (pend (net s))(1 := (pend (net s) 1)(0 := ms))" using pend_recv [OF N recv(3)] by blast
  have i5: "i < 5" "i \<le> nums_sent (pt1 s)" using i recv by (auto simp: sr_inv_def)
  have r: "m # ms = replicate (nums_sent (pt1 s) - i) (Ints (replicate cnt 1))" using i recv ms by (simp add: sr_inv_def)
  then have m: "m = Ints (replicate cnt 1)" "ms = replicate (nums_sent (pt1 s) - Suc i) (Ints (replicate cnt 1))" "i < nums_sent (pt1 s)"
    using i5(2) by (cases "nums_sent (pt1 s) - i"; auto simp: Suc_diff_le)+
  have "out0 s @ the_ints m = concat (replicate (Suc i) (replicate cnt 1))"
    using i recv m by (simp add: sr_inv_def concat_replicate_Suc del: replicate.simps)
  then show ?thesis using i recv ms m i5 by (simp add: sr_inv_def del: replicate.simps)
qed (use i in \<open>auto simp: sr_inv_def pend_send [OF N]\<close>)

lemma map_upt_Cons: "map f [a..<b] = x # xs \<longleftrightarrow> a < b \<and> x = f a \<and> xs = map f [Suc a..<b]"
  by (auto simp: map_eq_Cons_conv upt_eq_Cons_conv)

lemma step1_inv:
  assumes N: "net_laws N pend" and st: "step1 N cnt s s'" and i: "sr_inv pend cnt s" and cnt: "cnt \<le> 1"
  shows "sr_inv pend cnt s'"
  using st
proof cases
  case (wait i m n')
  obtain ms where ms: "pend (net s) 0 1 = m # ms" "pend n' = (pend (net s))(0 := (pend (net s) 0)(1 := ms))" using pend_recv [OF N wait(3)] by blast
  with wait i have "m = text_msg i" "2 * i < texts_sent (pt0 s)" "ms = map (\<lambda>k. text_msg (k div 2)) [Suc (2 * i)..<texts_sent (pt0 s)]"
    using map_upt_Cons [of "\<lambda>k. text_msg (k div 2)" "2 * i" "texts_sent (pt0 s)" m ms] by (auto simp: sr_inv_def)
  with ms wait i show ?thesis by (simp add: sr_inv_def)
next
  case (recv i m n')
  obtain ms where ms: "pend (net s) 0 1 = m # ms" "pend n' = (pend (net s))(0 := (pend (net s) 0)(1 := ms))" using pend_recv [OF N recv(3)] by blast
  with recv i have "m = text_msg i" "Suc (2 * i) < texts_sent (pt0 s)" "ms = map (\<lambda>k. text_msg (k div 2)) [Suc (Suc (2 * i))..<texts_sent (pt0 s)]"
    using map_upt_Cons [of "\<lambda>k. text_msg (k div 2)" "Suc (2 * i)" "texts_sent (pt0 s)" m ms] by (auto simp: sr_inv_def)
  with ms recv i show ?thesis by (simp add: sr_inv_def)
next
  case (ssend i)
  then show ?thesis using i by (simp add: sr_inv_def pend_send [OF N] Suc_diff_le replicate_append_same)
next
  case (overrun i)
  with cnt show ?thesis by simp
next
  case (sync i)
  then show ?thesis using i N by (auto simp: sr_inv_def net_laws_def)
qed (use i in \<open>auto simp: sr_inv_def\<close>)

lemma sr_reach_inv:
  assumes N: "net_laws N pend" "\<forall>s d. pend n0 s d = []" and cnt: "cnt \<le> 1"
  shows "sr_reach N cnt (sr_start n0) s \<Longrightarrow> sr_inv pend cnt s"
proof (induction rule: sr_reach.induct)
  case start
  then show ?case using N(2) by (simp add: sr_inv_def sr_start_def next0_def next1_def)
qed (use step0_inv [OF N(1)] step1_inv [OF N(1) _ _ cnt] in blast)+

lemma sr_stuck:
  assumes N: "net_laws N pend" and i: "sr_inv pend cnt s" and cnt: "cnt \<le> 1"
    and no: "\<nexists>s'. step0 N cnt s s'" "\<nexists>s'. step1 N cnt s s'"
  shows "pt0 s = A_done \<and> pt1 s = B_done"
proof -
  have 0: "pt0 s = A_done \<or> (\<exists>i. pt0 s = A_recv i \<and> nums_sent (pt1 s) = i)"
  proof (cases "pt0 s")
    case (A_recv j)
    with no(1) have "pend (net s) 1 0 = []" by (metis N recv_enabled step0.recv)
    with i A_recv show ?thesis by (auto simp: sr_inv_def)
  qed (use no(1) in \<open>auto intro: step0.intros\<close>)
  show ?thesis
  proof (cases "pt1 s")
    case (B_wait j)
    with no(2) have "pend (net s) 0 1 = []" by (metis N recv_enabled step1.wait)
    with i B_wait 0 show ?thesis by (auto simp: sr_inv_def)
  next
    case (B_recv j)
    with no(2) have "pend (net s) 0 1 = []" by (metis N recv_enabled step1.recv)
    with i B_recv 0 show ?thesis by (auto simp: sr_inv_def)
  next
    case (B_sync j)
    with no(2) have "net_recv N 1 0 (net s) \<noteq> None" by (meson step1.sync)
    then have "pend (net s) 1 0 \<noteq> []" by (simp add: recv_blocked [OF N])
    with i B_sync 0 show ?thesis by (auto simp: sr_inv_def)
  next
    case (B_ssend j)
    with no(2) cnt show ?thesis by (meson step1.ssend)
  next
    case B_done
    with i 0 show ?thesis by (auto simp: sr_inv_def)
  next
    case B_overrun
    with i show ?thesis by (simp add: sr_inv_def)
  qed (use no(2) cnt in \<open>auto intro: step1.intros\<close>)
qed


definition no_messages :: "rank \<Rightarrow> rank \<Rightarrow> message list" where
  "no_messages = (\<lambda>_ _. [])"

text \<open>After the first message of round 0 has been sent and received.\<close>

definition one_message :: "(rank \<Rightarrow> rank \<Rightarrow> message list) sr" where
  "one_message = \<lparr>pt0 = A_send2 0, pt1 = B_recv 0, net = no_messages, out0 = [], out1 = [bytes '' 1 client num:0!'']\<rparr>"

lemma one_message_reached: "sr_reach queues cnt (sr_start no_messages) one_message"
proof -
  let ?s1 = "(sr_start no_messages)\<lparr>net := net_send queues 0 1 (text_msg 0) (net (sr_start no_messages)), pt0 := A_send2 0\<rparr>"
  let ?s2 = "?s1\<lparr>pt1 := B_wait 0\<rparr>"
  have "step0 queues cnt (sr_start no_messages) ?s1" by (rule step0.send1) (simp add: sr_start_def next0_def)
  then have 1: "sr_reach queues cnt (sr_start no_messages) ?s1" by (rule sr_reach.zero [OF sr_reach.start])
  have "step1 queues cnt ?s1 ?s2" by (rule step1.irecv) (simp add: sr_start_def next1_def)
  then have 2: "sr_reach queues cnt (sr_start no_messages) ?s2" by (rule sr_reach.one [OF 1])
  have "net_recv queues 0 1 (net ?s2) = Some (text_msg 0, no_messages)"
    by (auto simp: queues_def sr_start_def no_messages_def)
  then have "step1 queues cnt ?s2 (?s2\<lparr>net := no_messages, out1 := out1 ?s2 @ [the_text (text_msg 0)], pt1 := B_recv 0\<rparr>)" by (intro step1.wait) auto
  moreover have "?s2\<lparr>net := no_messages, out1 := out1 ?s2 @ [the_text (text_msg 0)], pt1 := B_recv 0\<rparr> = one_message"
    by (simp add: one_message_def sr_start_def text_msg_def dec_digits.simps)
  ultimately have "step1 queues cnt ?s2 one_message" by simp
  then show ?thesis by (rule sr_reach.one [OF 2])
qed


end
