(* ===== verification/Tls_Psk.thy ===== *)
theory Tls_Psk
  imports Prelude "HOL-Library.Monad_Syntax"
begin

text \<open>
  The TLS programs with pre-shared keys, \<open>tls_psk/server.cpp\<close>, \<open>tls_psk/server2.cpp\<close> and \<open>tls_psk/client.cpp\<close>: the callbacks that give OpenSSL
  identity and key, the loop of the server over its connections, the loop of the client that prints what it reads, and the printing of
  cipher suites and signature algorithms.

  OpenSSL is a parameter: the results of its calls are fields of \<open>ssl_lib\<close>, and \<open>snprintf_laws\<close> states the documented behaviour of
  \<open>BIO_snprintf\<close>. A callback is \<open>None\<close> when it would write outside the buffer it is given; \<open>Exits\<close> is a call of \<open>report_error\<close>, which ends the process.
\<close>

definition PSK_KEY :: "u8 list" where "PSK_KEY = bytes ''786c69646a673277332d742a552940786761313534''"
definition PSK_UTF8_KEY :: "u8 list" where "PSK_UTF8_KEY = bytes ''xlidjg2w3-t*U)@xga154''"
definition PSK_ID :: "u8 list" where "PSK_ID = bytes ''Client1''"

section \<open>Callbacks up to TLS 1.2\<close>

definition memcpy :: "u8 list \<Rightarrow> u8 list \<Rightarrow> u8 list option" where
  "memcpy dst src = (if length src \<le> length dst then Some (src @ drop (length src) dst) else None)"

text \<open>The key is copied when it fits; the bound is compared as an \<open>int\<close>.\<close>

definition give_key :: "u8 list \<Rightarrow> u32 \<Rightarrow> (nat \<times> u8 list) option" where
  "give_key psk max_psk_len =
    (let key_len = length PSK_UTF8_KEY in
     if int key_len > sint max_psk_len then Some (0, psk)
     else do { psk' \<leftarrow> memcpy psk PSK_UTF8_KEY; Some (key_len, psk') })"

text \<open>\<open>identity\<close> is the string the client has sent, \<open>psk\<close> the buffer for the key.\<close>

definition psk_server_cb :: "u8 list option \<Rightarrow> u8 list \<Rightarrow> u32 \<Rightarrow> (nat \<times> u8 list) option" where
  "psk_server_cb identity psk max_psk_len =
    (case identity of
       None \<Rightarrow> Some (0, psk)
     | Some ident \<Rightarrow> if ident \<noteq> PSK_ID then Some (0, psk) else give_key psk max_psk_len)"

text \<open>In \<open>server2.cpp\<close> a wrong identity is only reported.\<close>

definition psk_server2_cb :: "u8 list option \<Rightarrow> u8 list \<Rightarrow> u32 \<Rightarrow> (nat \<times> u8 list) option" where
  "psk_server2_cb identity psk max_psk_len =
    (case identity of None \<Rightarrow> Some (0, psk) | Some ident \<Rightarrow> give_key psk max_psk_len)"

text \<open>\<open>snprintf buf n text\<close>: the result of \<open>BIO_snprintf (buf, n, "%s", text)\<close> and the buffer after it.\<close>

type_synonym snprintf = "u8 list \<Rightarrow> nat \<Rightarrow> u8 list \<Rightarrow> int \<times> u8 list"

definition snprintf_laws :: "snprintf \<Rightarrow> bool" where
  "snprintf_laws f \<longleftrightarrow> (\<forall>buf n txt. n \<le> length buf \<longrightarrow>
    (if length txt < n then f buf n txt = (int (length txt), txt @ 0 # drop (length txt + 1) buf)
     else fst (f buf n txt) = -1 \<and> length (snd (f buf n txt)) = length buf \<and> drop n (snd (f buf n txt)) = drop n buf))"

text \<open>The comparison with \<open>INT_MAX\<close> comes first, so that the key length is compared with a number that is not negative.\<close>

definition psk_client_cb :: "snprintf \<Rightarrow> u8 list \<Rightarrow> u32 \<Rightarrow> u8 list \<Rightarrow> u32 \<Rightarrow> (nat \<times> u8 list \<times> u8 list) option" where
  "psk_client_cb snprintf identity max_identity_len psk max_psk_len =
    (case snprintf identity (unat max_identity_len) PSK_ID of (ret, identity') \<Rightarrow>
       if ret < 0 \<or> ret > uint max_identity_len then Some (0, identity', psk)
       else let key_len = length PSK_UTF8_KEY in
         if uint max_psk_len > 2147483647 \<or> int key_len > uint max_psk_len then Some (0, identity', psk)
         else do { psk' \<leftarrow> memcpy psk PSK_UTF8_KEY; Some (key_len, identity', psk') })"

definition str_of :: "u8 list \<Rightarrow> u8 list" where
  "str_of buf = takeWhile (\<lambda>b. b \<noteq> 0) buf"

section \<open>Callbacks of TLS 1.3\<close>

record ('c, 'm) ssl_lib =
  cipher_find :: "u8 list \<Rightarrow> 'c option"
  session_new :: bool
  set1_master_key :: bool
  set_cipher :: bool
  set_protocol_version :: bool
  ssl_version :: int
  handshake_digest :: "'c \<Rightarrow> 'm"
  hexstr2buf :: "u8 list \<Rightarrow> u8 list option"

record 'c session =
  master_key :: "u8 list"
  session_cipher :: 'c
  protocol_version :: int

definition TLS1_3_VERSION :: int where "TLS1_3_VERSION = 0x0304"
definition tls13_aes128gcmsha256_id :: "u8 list" where "tls13_aes128gcmsha256_id = [0x13, 0x01]"
definition tls13_aes256gcmsha384_id :: "u8 list" where "tls13_aes256gcmsha384_id = [0x13, 0x02]"

datatype 'a cb_result = Returns int 'a | Exits

definition make_session :: "('c, 'm) ssl_lib \<Rightarrow> u8 list \<Rightarrow> 'c \<Rightarrow> int \<Rightarrow> 'c session option" where
  "make_session lib key c v =
    (if session_new lib \<and> set1_master_key lib \<and> set_cipher lib \<and> set_protocol_version lib
     then Some \<lparr>master_key = key, session_cipher = c, protocol_version = v\<rparr> else None)"

definition psk_find_session_cb :: "('c, 'm) ssl_lib \<Rightarrow> u8 list \<Rightarrow> 'c session option cb_result" where
  "psk_find_session_cb lib identity =
    (if length PSK_ID \<noteq> length identity \<or> PSK_ID \<noteq> identity then Returns 1 None
     else (case cipher_find lib tls13_aes256gcmsha384_id of
             None \<Rightarrow> Exits
           | Some c \<Rightarrow> (case make_session lib PSK_UTF8_KEY c (ssl_version lib) of None \<Rightarrow> Exits | Some s \<Rightarrow> Returns 1 (Some s))))"

text \<open>The common part of the two callbacks of the client: the session is given out with the identity when its digest is the wanted one.\<close>

definition use_session :: "('c, 'm) ssl_lib \<Rightarrow> u8 list \<Rightarrow> u8 list \<Rightarrow> 'm option \<Rightarrow> (u8 list \<times> 'c session) cb_result" where
  "use_session lib key suite md =
    (case cipher_find lib suite of
       None \<Rightarrow> Exits
     | Some c \<Rightarrow>
         (case make_session lib key c TLS1_3_VERSION of
            None \<Rightarrow> Exits
          | Some s \<Rightarrow>
              if (case md of None \<Rightarrow> False | Some m \<Rightarrow> handshake_digest lib (session_cipher s) \<noteq> m) then Exits
              else Returns 1 (PSK_ID, s)))"

definition psk_use_session_utf8_cb :: "('c, 'm) ssl_lib \<Rightarrow> 'm option \<Rightarrow> (u8 list \<times> 'c session) cb_result" where
  "psk_use_session_utf8_cb lib md = use_session lib PSK_UTF8_KEY tls13_aes256gcmsha384_id md"

definition psk_use_session_cb :: "('c, 'm) ssl_lib \<Rightarrow> 'm option \<Rightarrow> (u8 list \<times> 'c session) cb_result" where
  "psk_use_session_cb lib md =
    (case hexstr2buf lib PSK_KEY of None \<Rightarrow> Exits | Some key \<Rightarrow> use_session lib key tls13_aes128gcmsha256_id md)"

section \<open>The loop of the server\<close>

definition reply :: "u8 list" where
  "reply = bytes ''ggggggggg ssl test'' @ [10]"

text \<open>
  \<open>opened\<close> are the descriptors of accepted connections that have not been closed: \<open>SSL_shutdown\<close> does not close the socket, and the call
  of \<open>SSL_free\<close> is commented out. \<open>sent\<close> is what was written on which descriptor.
\<close>

record tls_server =
  count :: nat
  opened :: "int list"
  sent :: "(int \<times> u8 list) list"

text \<open>\<open>acc opened\<close> is the result of \<open>accept\<close>, the argument of \<open>serve_connections\<close> the results of \<open>SSL_accept\<close>; \<open>Inl\<close> is the exit of the process.\<close>

fun serve_connections :: "(int list \<Rightarrow> int) \<Rightarrow> int list \<Rightarrow> tls_server \<Rightarrow> tls_server + tls_server" where
  "serve_connections acc [] s = Inr s"
| "serve_connections acc (r # rs) s =
    (let s1 = s\<lparr>count := count s + 1\<rparr>; client = acc (opened s) in
     if client < 0 then Inl s1
     else let s2 = s1\<lparr>opened := opened s1 @ [client]\<rparr>;
              s3 = (if r \<le> 0 then s2 else s2\<lparr>sent := sent s2 @ [(client, reply)]\<rparr>)
          in serve_connections acc rs s3)"

section \<open>The loop of the client\<close>

text \<open>The results of \<open>BIO_read\<close>: bytes (none at the end of the stream), or an error that may be worth a retry.\<close>

datatype bio_read = Data "u8 list" | Err bool

text \<open>What is printed, and whether the loop ended with the end of the stream; the buffer of 1025 bytes takes at most 1024 and a zero.\<close>

fun read_loop :: "bio_read list \<Rightarrow> (u8 list \<times> bool) option" where
  "read_loop [] = Some ([], False)"
| "read_loop (Err retry # rs) = (if retry then read_loop rs else Some ([], False))"
| "read_loop (Data bs # rs) =
    (if bs = [] then Some ([], True)
     else if length bs > 1024 then None
     else do { (out, e) \<leftarrow> read_loop rs; Some (str_of (bs @ [0]) @ out, e) })"

section \<open>Lists of ciphers and signature algorithms\<close>

fun showCiphers :: "u8 list list \<Rightarrow> u8 list" where
  "showCiphers [] = [10]"
| "showCiphers (n # ns) = n @ [58] @ showCiphers ns"

text \<open>The numbers of the algorithms are those of the OpenSSL headers.\<close>

record nids =
  EVP_PKEY_RSA :: int
  EVP_PKEY_RSA_PSS :: int
  EVP_PKEY_DSA :: int
  EVP_PKEY_EC :: int
  NID_ED25519 :: int
  NID_ED448 :: int
  NID_id_GostR3410_2001 :: int
  NID_id_GostR3410_2012_256 :: int
  NID_id_GostR3410_2012_512 :: int
  NID_undef :: int

definition get_sigtype :: "nids \<Rightarrow> int \<Rightarrow> u8 list option" where
  "get_sigtype k nid =
    map_of [(EVP_PKEY_RSA k, bytes ''RSA''), (EVP_PKEY_RSA_PSS k, bytes ''RSA-PSS''), (EVP_PKEY_DSA k, bytes ''DSA''),
      (EVP_PKEY_EC k, bytes ''ECDSA''), (NID_ED25519 k, bytes ''Ed25519''), (NID_ED448 k, bytes ''Ed448''),
      (NID_id_GostR3410_2001 k, bytes ''gost2001''), (NID_id_GostR3410_2012_256 k, bytes ''gost2012_256''),
      (NID_id_GostR3410_2012_512 k, bytes ''gost2012_512'')] nid"

definition hex_digit :: "nat \<Rightarrow> u8" where
  "hex_digit n = of_nat (if n < 10 then 48 + n else 55 + n)"

text \<open>\<open>0x%02X\<close>\<close>

definition hex_byte :: "u8 \<Rightarrow> u8 list" where
  "hex_byte b = bytes ''0x'' @ [hex_digit (unat b div 16), hex_digit (unat b mod 16)]"

record sigalg =
  sign_nid :: int
  hash_nid :: int
  rsign :: u8
  rhash :: u8

definition print_sigalg :: "nids \<Rightarrow> (int \<Rightarrow> u8 list) \<Rightarrow> sigalg \<Rightarrow> u8 list" where
  "print_sigalg k nid2sn a =
    (case get_sigtype k (sign_nid a) of None \<Rightarrow> hex_byte (rsign a) | Some s \<Rightarrow> s) @
    (if hash_nid a \<noteq> NID_undef k then bytes ''+'' @ nid2sn (hash_nid a)
     else if get_sigtype k (sign_nid a) = None then bytes ''+'' @ hex_byte (rhash a) else [])"

fun sigalg_loop :: "nids \<Rightarrow> (int \<Rightarrow> u8 list) \<Rightarrow> nat \<Rightarrow> sigalg list \<Rightarrow> u8 list" where
  "sigalg_loop k nid2sn i [] = []"
| "sigalg_loop k nid2sn i (a # as) = (if i \<noteq> 0 then bytes '':'' else []) @ print_sigalg k nid2sn a @ sigalg_loop k nid2sn (i + 1) as"

definition do_print_sigalgs :: "nids \<Rightarrow> (int \<Rightarrow> u8 list) \<Rightarrow> bool \<Rightarrow> bool \<Rightarrow> sigalg list \<Rightarrow> u8 list" where
  "do_print_sigalgs k nid2sn is_server shared as =
    bytes ''Print sigalgs:'' @ [10] @
    (if as = [] then []
     else (if shared then bytes ''Shared '' else []) @ (if \<not> is_server then bytes ''Requested '' else []) @
       bytes ''Signature Algorithms: '' @ sigalg_loop k nid2sn 0 as @ [10])"

section \<open>Properties\<close>

lemma lengths [simp]: "length PSK_ID = 7" "length PSK_UTF8_KEY = 21" "0 \<notin> set PSK_ID"
  by (simp_all add: PSK_ID_def PSK_UTF8_KEY_def bytes_def)

lemma str_of_prefix: "0 \<notin> set xs \<Longrightarrow> str_of (xs @ 0 # ys) = xs"
  by (induction xs) (auto simp: str_of_def)

lemma sint_bound: "k \<le> sint (m :: u32) \<Longrightarrow> 0 \<le> k \<Longrightarrow> k \<le> uint m"
proof -
  assume k: "k \<le> sint m" "0 \<le> k"
  have "uint m = take_bit 32 (sint m)" by (simp add: uint_sint)
  moreover have "sint m < 2 ^ 31" using sint_lt [of m] by simp
  ultimately have "uint m = sint m" using k by (simp add: take_bit_int_eq_self)
  with k show ?thesis by simp
qed

lemma key_fits:
  assumes "21 \<le> unat (m :: u32)" "unat m < 2 ^ 31"
  shows "21 \<le> sint m" "21 \<le> uint m" "uint m \<le> 2147483647"
proof -
  have "unat m < 2147483648" using assms(2) by simp
  then show u: "21 \<le> uint m" "uint m \<le> 2147483647" using assms(1) uint_nat [of m] by linarith+
  then have "signed_take_bit 31 (uint m) = uint m" by (intro signed_take_bit_int_eq_self) auto
  with u show "21 \<le> sint m" by (simp add: sint_uint)
qed

lemma give_key_spec:
  assumes "unat m \<le> length psk"
  shows "give_key psk m = Some (if 21 \<le> sint m then (21, PSK_UTF8_KEY @ drop 21 psk) else (0, psk))"
proof (cases "21 \<le> sint m")
  case True
  then have "21 \<le> uint m" by (rule sint_bound) simp
  then have "21 \<le> unat m" using uint_nat [of m] by linarith
  with assms True show ?thesis by (simp add: give_key_def memcpy_def)
qed (simp add: give_key_def)

text \<open>
  C27. The callbacks of client and server for TLS 1.2 fit together: when the buffers are as large as OpenSSL says and have room for identity and key,
  the server finds with the identity that the client wrote the same key that the client uses, and nothing else is written. Whatever the identity and
  the declared sizes are, the callback of the server stays in its buffer and gives the key to no other identity.
\<close>

theorem psk_callbacks_agree:
  assumes "snprintf_laws snprintf" "unat mi \<le> length idbuf" "7 < unat mi"
    "unat m1 \<le> length p1" "unat m2 \<le> length p2" "21 \<le> unat m1" "unat m1 < 2 ^ 31" "21 \<le> unat m2" "unat m2 < 2 ^ 31"
  shows "(\<exists>idbuf' p1' p2'. psk_client_cb snprintf idbuf mi p1 m1 = Some (21, idbuf', p1') \<and>
      psk_server_cb (Some (str_of idbuf')) p2 m2 = Some (21, p2') \<and> take 21 p1' = take 21 p2' \<and>
      drop 21 p1' = drop 21 p1 \<and> drop 21 p2' = drop 21 p2 \<and> drop 8 idbuf' = drop 8 idbuf) \<and>
    (\<forall>ident p m. unat m \<le> length p \<longrightarrow> (\<exists>n p'. psk_server_cb ident p m = Some (n, p') \<and> length p' = length p \<and>
      (ident \<noteq> Some PSK_ID \<longrightarrow> n = 0 \<and> p' = p)))"
proof (intro conjI allI impI)
  have "snprintf idbuf (unat mi) PSK_ID = (7, PSK_ID @ 0 # drop 8 idbuf)"
    using assms(1) [unfolded snprintf_laws_def, rule_format, of "unat mi" idbuf PSK_ID] assms(2,3) by simp
  moreover have "7 \<le> uint mi" using assms(3) uint_nat [of mi] by linarith
  ultimately have "psk_client_cb snprintf idbuf mi p1 m1 = Some (21, PSK_ID @ 0 # drop 8 idbuf, PSK_UTF8_KEY @ drop 21 p1)"
    using assms(4,6) key_fits(2,3) [OF assms(6,7)] by (simp add: psk_client_cb_def memcpy_def)
  moreover have "psk_server_cb (Some (str_of (PSK_ID @ 0 # drop 8 idbuf))) p2 m2 = Some (21, PSK_UTF8_KEY @ drop 21 p2)"
    using give_key_spec [OF assms(5)] key_fits(1) [OF assms(8,9)] by (simp add: psk_server_cb_def str_of_prefix)
  ultimately show "\<exists>idbuf' p1' p2'. psk_client_cb snprintf idbuf mi p1 m1 = Some (21, idbuf', p1') \<and>
      psk_server_cb (Some (str_of idbuf')) p2 m2 = Some (21, p2') \<and> take 21 p1' = take 21 p2' \<and>
      drop 21 p1' = drop 21 p1 \<and> drop 21 p2' = drop 21 p2 \<and> drop 8 idbuf' = drop 8 idbuf" by simp
next
  fix ident and p :: "u8 list" and m :: u32
  assume m: "unat m \<le> length p"
  then have "21 \<le> sint m \<Longrightarrow> 21 \<le> length p" using sint_bound [of 21 m] uint_nat [of m] by linarith
  with give_key_spec [OF m] show "\<exists>n p'. psk_server_cb ident p m = Some (n, p') \<and> length p' = length p \<and> (ident \<noteq> Some PSK_ID \<longrightarrow> n = 0 \<and> p' = p)"
    by (auto simp: psk_server_cb_def split: option.split)
qed

text \<open>An instance of \<open>BIO_snprintf\<close>.\<close>

definition test_snprintf :: snprintf where
  "test_snprintf buf n txt =
    (if length txt < n then (int (length txt), txt @ 0 # drop (length txt + 1) buf)
     else (-1, take (n - 1) txt @ (if n = 0 then [] else [0]) @ drop n buf))"

lemma test_snprintf_laws: "snprintf_laws test_snprintf"
  by (auto simp: snprintf_laws_def test_snprintf_def)

theorem psk_callbacks_agree_witness:
  "\<exists>idbuf' p1' p2'. psk_client_cb test_snprintf (replicate 128 7) 128 (replicate 256 8) 256 = Some (21, idbuf', p1') \<and>
    psk_server_cb (Some (str_of idbuf')) (replicate 256 9) 256 = Some (21, p2') \<and> take 21 p1' = take 21 p2'"
  using psk_callbacks_agree [OF test_snprintf_laws, of 128 "replicate 128 7" 256 "replicate 256 8" 256 "replicate 256 9"] by auto

text \<open>
  The second server reports an unexpected identity but goes on: its callback gives the key to every client that sends any identity, where the
  callback of the first server gives none.
\<close>

theorem server2_accepts_any_identity:
  assumes "unat m \<le> length p" "21 \<le> unat m" "unat m < 2 ^ 31" "ident \<noteq> PSK_ID"
  shows "psk_server2_cb (Some ident) p m = Some (21, PSK_UTF8_KEY @ drop 21 p) \<and> psk_server_cb (Some ident) p m = Some (0, p)"
  using assms(4) give_key_spec [OF assms(1)] key_fits(1) [OF assms(2,3)] by (simp_all add: psk_server2_cb_def psk_server_cb_def)

theorem server2_accepts_any_identity_witness:
  "psk_server2_cb (Some (bytes ''Mallory'')) (replicate 256 0) 256 = Some (21, PSK_UTF8_KEY @ drop 21 (replicate 256 0))"
  using server2_accepts_any_identity [of 256 "replicate 256 0" "bytes ''Mallory''"] by (simp add: PSK_ID_def)

text \<open>The meaning of a string of lower-case hexadecimal digits, as \<open>OPENSSL_hexstr2buf\<close> is documented.\<close>

fun hex_bytes :: "u8 list \<Rightarrow> u8 list" where
  "hex_bytes (a # b # r) = (let v = (\<lambda>c. if c < 58 then c - 48 else c - 87) in (16 * v a + v b) # hex_bytes r)"
| "hex_bytes xs = []"

lemma hex_key: "hex_bytes PSK_KEY = PSK_UTF8_KEY"
  by code_simp

text \<open>
  For TLS 1.3, whenever the first callback of the client returns, the callback of a server with the same library, asked for the identity that the
  client sends, finds the same session: key, cipher suite and version. The second callback of the client, when it returns, makes a session with the same
  identity and key (its hexadecimal key is the textual one) but with another cipher suite, which the server does not find.
\<close>

theorem tls13_sessions_agree:
  assumes "ssl_version lib = TLS1_3_VERSION" "hexstr2buf lib PSK_KEY = Some (hex_bytes PSK_KEY)"
    "cipher_find lib tls13_aes128gcmsha256_id \<noteq> cipher_find lib tls13_aes256gcmsha384_id"
    "psk_use_session_utf8_cb lib md = Returns 1 (ident, s)" "psk_use_session_cb lib md' = Returns 1 (ident', s')"
  shows "psk_find_session_cb lib ident = Returns 1 (Some s) \<and> ident' = ident \<and> master_key s' = master_key s \<and>
    session_cipher s' \<noteq> session_cipher s"
  using assms
  by (auto simp: psk_use_session_utf8_cb_def psk_use_session_cb_def use_session_def psk_find_session_cb_def make_session_def hex_key
      split: option.splits if_splits)

definition test_lib :: "(u8 list, u8 list) ssl_lib" where
  "test_lib = \<lparr>cipher_find = Some, session_new = True, set1_master_key = True, set_cipher = True, set_protocol_version = True,
    ssl_version = TLS1_3_VERSION, handshake_digest = (\<lambda>c. c), hexstr2buf = (\<lambda>t. Some (hex_bytes t))\<rparr>"

theorem tls13_sessions_agree_witness:
  "\<exists>s. psk_use_session_utf8_cb test_lib None = Returns 1 (PSK_ID, s) \<and> psk_find_session_cb test_lib PSK_ID = Returns 1 (Some s)"
proof -
  let ?s = "\<lparr>master_key = PSK_UTF8_KEY, session_cipher = tls13_aes256gcmsha384_id, protocol_version = TLS1_3_VERSION\<rparr>"
  let ?t = "\<lparr>master_key = PSK_UTF8_KEY, session_cipher = tls13_aes128gcmsha256_id, protocol_version = TLS1_3_VERSION\<rparr>"
  have "psk_use_session_utf8_cb test_lib None = Returns 1 (PSK_ID, ?s)" "psk_use_session_cb test_lib None = Returns 1 (PSK_ID, ?t)"
    by (simp_all add: psk_use_session_utf8_cb_def psk_use_session_cb_def use_session_def test_lib_def make_session_def hex_key)
  with tls13_sessions_agree [of test_lib None PSK_ID ?s None PSK_ID ?t] show ?thesis
    by (simp add: test_lib_def tls13_aes128gcmsha256_id_def tls13_aes256gcmsha384_id_def)
qed

lemma serve_connections_opened:
  "\<forall>opd. (0 \<le> acc opd) = (length opd < lim) \<Longrightarrow> length (opened s) \<le> lim \<Longrightarrow> lim < length (opened s) + length rs \<Longrightarrow>
    \<exists>s'. serve_connections acc rs s = Inl s' \<and> length (opened s') = lim \<and> count s' + length (opened s) = count s + lim + 1"
proof (induction acc rs s rule: serve_connections.induct)
  case (2 acc r rs s)
  show ?case
  proof (cases "length (opened s) < lim")
    case True
    then have "\<not> acc (opened s) < 0" using "2.prems"(1) by (simp add: linorder_not_less)
    with "2.IH" [OF refl refl this refl refl] "2.prems" True show ?thesis by (auto simp: Let_def)
  next
    case False
    then have "acc (opened s) < 0" "length (opened s) = lim" using "2.prems"(1,2) by (auto simp flip: linorder_not_less)
    then show ?thesis by (simp add: Let_def)
  qed
qed simp



text \<open>The bytes that a sequence of reads delivers.\<close>

fun delivered :: "bio_read list \<Rightarrow> u8 list" where
  "delivered [] = []"
| "delivered (Err r # rs) = delivered rs"
| "delivered (Data bs # rs) = bs @ delivered rs"

fun good_read :: "bio_read \<Rightarrow> bool" where
  "good_read (Err r) = r"
| "good_read (Data bs) = (bs \<noteq> [] \<and> length bs \<le> 1024)"

text \<open>
  The client prints what the server sends: however the bytes are cut into reads of at most 1024 bytes, and with any retries in between, its output is
  exactly the byte stream, when that has no zero byte, such as the reply of the server.
\<close>

theorem client_prints_stream:
  assumes "\<forall>r \<in> set rs. good_read r" "0 \<notin> set (delivered rs)"
  shows "read_loop (rs @ [Data []]) = Some (delivered rs, True)"
  using assms
proof (induction rs)
  case (Cons r rs)
  then show ?case by (cases r) (auto simp: str_of_prefix [of _ "[]"])
qed simp

theorem client_prints_stream_witness:
  "read_loop ([Data (take 5 reply), Err True, Data (drop 5 reply)] @ [Data []]) = Some (reply, True)"
proof -
  have "0 \<notin> set (delivered [Data (take 5 reply), Err True, Data (drop 5 reply)])" "length reply = 19" by code_simp+
  with client_prints_stream [of "[Data (take 5 reply), Err True, Data (drop 5 reply)]"] show ?thesis by simp
qed

text \<open>The loop over the signature algorithms separates them with colons.\<close>

lemma sigalg_loop_Suc: "sigalg_loop k nid2sn (Suc i) as = concat (map (\<lambda>a. bytes '':'' @ print_sigalg k nid2sn a) as)"
  by (induction as arbitrary: i) auto

lemma do_print_sigalgs_list:
  "do_print_sigalgs k nid2sn True True (a # as) = bytes ''Print sigalgs:'' @ [10] @ bytes ''Shared Signature Algorithms: '' @
    print_sigalg k nid2sn a @ concat (map (\<lambda>a. bytes '':'' @ print_sigalg k nid2sn a) as) @ [10]"
  by (simp add: do_print_sigalgs_def sigalg_loop_Suc)

end
