(* ===== verification/Tls_Setup.thy ===== *)
theory Tls_Setup
  imports Tls_Psk
begin

text \<open>
  How the TLS programs of \<open>tls_psk\<close> set up their contexts and sockets before they serve or connect: \<open>server.cpp\<close>, \<open>server2.cpp\<close> and \<open>client.cpp\<close>.
  A context is a record of what has been set on it; the results of the calls of OpenSSL and of the system are the fields of \<open>tls_env\<close>. The
  preprocessor symbol \<open>USEING_PSK\<close> is an argument of the first server and of the client, where its definition is commented out, so that the value in
  the repository is \<open>False\<close>; in \<open>server2.cpp\<close> it is defined. A call that ends the process is \<open>Inl\<close>.
\<close>

section \<open>Contexts\<close>

datatype ssl_op =
  SSL_OP_ALL | SSL_OP_NO_SSLv2 | SSL_OP_NO_SSLv3 | SSL_OP_NO_TLSv1 | SSL_OP_NO_TLSv1_1 | SSL_OP_NO_TLSv1_2 | SSL_OP_NO_TLSv1_3
| SSL_OP_NO_DTLSv1 | SSL_OP_NO_COMPRESSION | SSL_OP_NO_SESSION_RESUMPTION_ON_RENEGOTIATION

datatype verify_flag = SSL_VERIFY_PEER | SSL_VERIFY_FAIL_IF_NO_PEER_CERT

datatype ssl_callback = Psk_server_cb | Psk_find_session_cb | Psk_client_cb | Cert_status_cb | Server_name_cb | Ocsp_resp_cb

record ssl_ctx =
  options :: "ssl_op set"
  cipher_list :: "string list option"
  key_file :: "string option"
  cert_file :: "string option"
  trusted :: "string option"
  verify_flags :: "verify_flag set"
  callbacks :: "ssl_callback set"

record tls_env =
  ctx_new :: bool
  set_cipher_list :: int
  use_key :: "string \<Rightarrow> int"
  use_cert :: "string \<Rightarrow> int"
  check_key :: bool
  load_verify :: "string \<Rightarrow> int"
  sys_socket :: int
  sys_bind :: int
  sys_listen :: int

datatype stop = Exit_failure string | Main_returns int

definition new_ctx :: ssl_ctx where
  "new_ctx = \<lparr>options = {}, cipher_list = None, key_file = None, cert_file = None, trusted = None, verify_flags = {}, callbacks = {}\<rparr>"

definition create_context :: "tls_env \<Rightarrow> stop + ssl_ctx" where
  "create_context e = (if ctx_new e then Inr new_ctx else Inl (Exit_failure ''Unable to create SSL context''))"

text \<open>The lists of cipher suites of server and client, the same.\<close>

definition default_cipher_tlsv1_2_list :: "string list" where
  "default_cipher_tlsv1_2_list =
    [''ECDHE-ECDSA-AES128-GCM-SHA256'', ''DHE-RSA-AES128-GCM-SHA256'', ''ECDHE-ECDSA-AES256-GCM-SHA384'', ''ECDHE-RSA-AES256-GCM-SHA384'',
     ''DHE-PSK-AES128-GCM-SHA256'', ''DHE-PSK-AES256-GCM-SHA384'', ''DHE-RSA-AES256-GCM-SHA384'', ''ECDHE-ECDSA-CHACHA20-POLY1305-SHA256'',
     ''ECDHE-RSA-CHACHA20-POLY1305-SHA256'', ''DHE-RSA-CHACHA20-POLY1305-SHA256'', ''ECDHE-RSA-AES128-GCM-SHA256'', ''PSK-AES128-GCM-SHA256'',
     ''PSK-AES256-GCM-SHA384'', ''PSK-CHACHA20-POLY1305'', ''PSK-AES128-CBC-SHA256'', ''ECDHE-PSK-AES128-GCM-SHA256'', ''ECDHE-PSK-AES256-GCM-SHA384'']"

definition client_cipher_tlsv1_2_list :: "string list" where
  "client_cipher_tlsv1_2_list =
    [''ECDHE-ECDSA-AES128-GCM-SHA256'', ''DHE-RSA-AES128-GCM-SHA256'', ''ECDHE-ECDSA-AES256-GCM-SHA384'', ''ECDHE-RSA-AES256-GCM-SHA384'',
     ''DHE-PSK-AES128-GCM-SHA256'', ''DHE-PSK-AES256-GCM-SHA384'', ''DHE-RSA-AES256-GCM-SHA384'', ''ECDHE-ECDSA-CHACHA20-POLY1305-SHA256'',
     ''ECDHE-RSA-CHACHA20-POLY1305-SHA256'', ''DHE-RSA-CHACHA20-POLY1305-SHA256'', ''ECDHE-RSA-AES128-GCM-SHA256'', ''PSK-AES128-GCM-SHA256'',
     ''PSK-AES256-GCM-SHA384'', ''PSK-CHACHA20-POLY1305'', ''PSK-AES128-CBC-SHA256'', ''ECDHE-PSK-AES128-GCM-SHA256'', ''ECDHE-PSK-AES256-GCM-SHA384'']"

lemma client_cipher_list_same: "client_cipher_tlsv1_2_list = default_cipher_tlsv1_2_list"
  unfolding client_cipher_tlsv1_2_list_def default_cipher_tlsv1_2_list_def by (rule refl)

definition set_options :: "ssl_op set \<Rightarrow> ssl_ctx \<Rightarrow> ssl_ctx" where
  "set_options os ctx = ctx\<lparr>options := options ctx \<union> os\<rparr>"

text \<open>Private key and certificate, checked against each other.\<close>

definition own_certificate :: "tls_env \<Rightarrow> string \<Rightarrow> string \<Rightarrow> ssl_ctx \<Rightarrow> stop + ssl_ctx" where
  "own_certificate e key crt ctx =
    (if use_key e key \<noteq> 1 then Inl (Exit_failure ''Could not read private key file'')
     else if use_cert e crt \<noteq> 1 then Inl (Exit_failure ''Could not read certificate file'')
     else if \<not> check_key e then Inl (Exit_failure ''Check private key failed'')
     else Inr (ctx\<lparr>key_file := Some key, cert_file := Some crt\<rparr>))"

definition base_options :: "ssl_op set" where
  "base_options = {SSL_OP_ALL, SSL_OP_NO_SSLv2, SSL_OP_NO_SSLv3, SSL_OP_NO_DTLSv1, SSL_OP_NO_TLSv1_1, SSL_OP_NO_TLSv1_3,
     SSL_OP_NO_COMPRESSION, SSL_OP_NO_SESSION_RESUMPTION_ON_RENEGOTIATION}"

definition configure_context :: "string list \<Rightarrow> string \<Rightarrow> string \<Rightarrow> bool \<Rightarrow> tls_env \<Rightarrow> ssl_ctx \<Rightarrow> stop + ssl_ctx" where
  "configure_context suites key crt psk e ctx =
    (let ctx1 = set_options base_options ctx in
     if set_cipher_list e \<noteq> 1 then Inl (Exit_failure ''Set cipher list failed'')
     else let ctx2 = ctx1\<lparr>cipher_list := Some suites\<rparr> in
       if psk then Inr ctx2 else own_certificate e key crt ctx2)"

definition server_configure_context :: "bool \<Rightarrow> tls_env \<Rightarrow> ssl_ctx \<Rightarrow> stop + ssl_ctx" where
  "server_configure_context = configure_context default_cipher_tlsv1_2_list ''./iwf.key'' ''./iwf.crt''"

definition client_configure_context :: "bool \<Rightarrow> tls_env \<Rightarrow> ssl_ctx \<Rightarrow> stop + ssl_ctx" where
  "client_configure_context = configure_context client_cipher_tlsv1_2_list ''./5gc.key'' ''./5gc.crt''"

definition server2_configure_context :: "ssl_ctx \<Rightarrow> ssl_ctx" where
  "server2_configure_context ctx = set_options {SSL_OP_ALL, SSL_OP_NO_SSLv2, SSL_OP_NO_SSLv3, SSL_OP_NO_TLSv1_1, SSL_OP_NO_DTLSv1,
     SSL_OP_NO_COMPRESSION, SSL_OP_NO_SESSION_RESUMPTION_ON_RENEGOTIATION} ctx"

section \<open>The start of the programs\<close>

definition create_socket :: "tls_env \<Rightarrow> stop + int" where
  "create_socket e =
    (let s = sys_socket e in
     if s < 0 then Inl (Exit_failure ''Unable to create socket'')
     else if sys_bind e < 0 then Inl (Exit_failure ''Unable to bind'')
     else if sys_listen e < 0 then Inl (Exit_failure ''Unable to listen'')
     else Inr s)"

definition add_callbacks :: "ssl_callback set \<Rightarrow> ssl_ctx \<Rightarrow> ssl_ctx" where
  "add_callbacks cs ctx = ctx\<lparr>callbacks := callbacks ctx \<union> cs\<rparr>"

definition require_certificate :: "tls_env \<Rightarrow> verify_flag set \<Rightarrow> string \<Rightarrow> ssl_ctx \<Rightarrow> stop + ssl_ctx" where
  "require_certificate e vs ca ctx =
    (let ctx1 = ctx\<lparr>verify_flags := vs\<rparr> in
     if load_verify e ca \<le> 0 then Inl (Main_returns (-2)) else Inr (ctx1\<lparr>trusted := Some ca\<rparr>))"

abbreviation sum_bind :: "stop + 'a \<Rightarrow> ('a \<Rightarrow> stop + 'b) \<Rightarrow> stop + 'b" where
  "sum_bind r f \<equiv> (case r of Inl x \<Rightarrow> Inl x | Inr y \<Rightarrow> f y)"

definition server_setup :: "bool \<Rightarrow> tls_env \<Rightarrow> stop + (ssl_ctx \<times> int)" where
  "server_setup psk e =
    sum_bind (create_context e) (\<lambda>ctx. sum_bind (server_configure_context psk e ctx) (\<lambda>ctx1. sum_bind (create_socket e) (\<lambda>sock.
      if psk then Inr (add_callbacks {Psk_server_cb} ctx1, sock)
      else sum_bind (require_certificate e {SSL_VERIFY_PEER, SSL_VERIFY_FAIL_IF_NO_PEER_CERT} ''5gc_ca.crt''
             (add_callbacks {Cert_status_cb, Server_name_cb} ctx1)) (\<lambda>ctx2. Inr (ctx2, sock)))))"

definition server2_setup :: "tls_env \<Rightarrow> stop + (ssl_ctx \<times> int)" where
  "server2_setup e =
    sum_bind (create_context e) (\<lambda>ctx. let ctx1 = server2_configure_context ctx in
      sum_bind (create_socket e) (\<lambda>sock. Inr (add_callbacks {Psk_server_cb, Psk_find_session_cb} ctx1, sock)))"

definition client_setup :: "bool \<Rightarrow> tls_env \<Rightarrow> stop + ssl_ctx" where
  "client_setup psk e =
    sum_bind (create_context e) (\<lambda>ctx. sum_bind (client_configure_context psk e ctx) (\<lambda>ctx1.
      if psk then Inr (add_callbacks {Psk_client_cb} ctx1)
      else require_certificate e {SSL_VERIFY_PEER} ''iwf_ca.crt'' (add_callbacks {Ocsp_resp_cb} ctx1)))"

text \<open>The server from its start on: the arguments \<open>acc\<close> and \<open>rs\<close> are those of \<open>serve_connections\<close>.\<close>

definition server_main :: "bool \<Rightarrow> tls_env \<Rightarrow> (int list \<Rightarrow> int) \<Rightarrow> int list \<Rightarrow> stop + tls_server" where
  "server_main psk e acc rs = sum_bind (server_setup psk e) (\<lambda>(ctx, sock).
     case serve_connections acc rs \<lparr>count = 0, opened = [], sent = []\<rparr> of Inl s \<Rightarrow> Inl (Exit_failure ''Unable to accept'') | Inr s \<Rightarrow> Inr s)"

definition server2_main :: "tls_env \<Rightarrow> (int list \<Rightarrow> int) \<Rightarrow> int list \<Rightarrow> stop + tls_server" where
  "server2_main e acc rs = sum_bind (server2_setup e) (\<lambda>(ctx, sock).
     case serve_connections acc rs \<lparr>count = 0, opened = [], sent = []\<rparr> of Inl s \<Rightarrow> Inl (Exit_failure ''Unable to accept'') | Inr s \<Rightarrow> Inr s)"

text \<open>The client: it connects and prints what it reads. \<open>None\<close> is a read beyond its buffer, which OpenSSL does not make.\<close>

definition tls_client_main :: "bool \<Rightarrow> tls_env \<Rightarrow> int \<Rightarrow> bio_read list \<Rightarrow> (stop + u8 list) option" where
  "tls_client_main psk e connect_rv rs = (case client_setup psk e of
     Inl x \<Rightarrow> Some (Inl x)
   | Inr ctx \<Rightarrow> if connect_rv \<le> 0 then Some (Inl (Main_returns (-2))) else map_option (\<lambda>(out, _). Inr out) (read_loop rs))"

section \<open>What the programs offer\<close>

datatype version = SSLv2 | SSLv3 | TLSv1 | TLSv1_1 | TLSv1_2 | TLSv1_3

fun forbids :: "version \<Rightarrow> ssl_op" where
  "forbids SSLv2 = SSL_OP_NO_SSLv2" | "forbids SSLv3 = SSL_OP_NO_SSLv3" | "forbids TLSv1 = SSL_OP_NO_TLSv1" | "forbids TLSv1_1 = SSL_OP_NO_TLSv1_1"
| "forbids TLSv1_2 = SSL_OP_NO_TLSv1_2" | "forbids TLSv1_3 = SSL_OP_NO_TLSv1_3"

definition not_forbidden :: "ssl_ctx \<Rightarrow> version list" where
  "not_forbidden ctx = filter (\<lambda>v. forbids v \<notin> options ctx) [SSLv2, SSLv3, TLSv1, TLSv1_1, TLSv1_2, TLSv1_3]"

text \<open>Versions are ordered by age. Two ends agree on the latest version that neither forbids.\<close>

fun version_rank :: "version \<Rightarrow> nat" where
  "version_rank SSLv2 = 0" | "version_rank SSLv3 = 1" | "version_rank TLSv1 = 2" | "version_rank TLSv1_1 = 3" | "version_rank TLSv1_2 = 4"
| "version_rank TLSv1_3 = 5"

lemma version_rank_inj: "version_rank v = version_rank v' \<Longrightarrow> v = v'"
  by (cases v; cases v') simp_all

instantiation version :: linorder
begin

definition less_eq_version :: "version \<Rightarrow> version \<Rightarrow> bool" where
  "v \<le> v' \<longleftrightarrow> version_rank v \<le> version_rank v'"

definition less_version :: "version \<Rightarrow> version \<Rightarrow> bool" where
  "v < v' \<longleftrightarrow> version_rank v < version_rank v'"

instance
  by standard (auto simp: less_eq_version_def less_version_def intro: version_rank_inj)

end

definition negotiated :: "ssl_ctx \<Rightarrow> ssl_ctx \<Rightarrow> version option" where
  "negotiated c d = (let vs = set (not_forbidden c) \<inter> set (not_forbidden d) in if vs = {} then None else Some (Max vs))"

lemma negotiated_latest:
  "negotiated c d = Some v \<longleftrightarrow> v \<in> set (not_forbidden c) \<inter> set (not_forbidden d) \<and> (\<forall>u \<in> set (not_forbidden c) \<inter> set (not_forbidden d). u \<le> v)"
  by (cases "set (not_forbidden c) \<inter> set (not_forbidden d) = {}") (auto simp: negotiated_def Let_def Max_eq_iff)

lemmas setup_defs = server_setup_def server2_setup_def client_setup_def create_context_def new_ctx_def server_configure_context_def
  client_configure_context_def server2_configure_context_def configure_context_def set_options_def own_certificate_def base_options_def
  create_socket_def add_callbacks_def require_certificate_def client_cipher_list_same Let_def

text \<open>The calls that must succeed for a program to get through its start.\<close>

definition certificates_ok :: "tls_env \<Rightarrow> string \<Rightarrow> string \<Rightarrow> string \<Rightarrow> bool" where
  "certificates_ok e key crt ca \<longleftrightarrow> use_key e key = 1 \<and> use_cert e crt = 1 \<and> check_key e \<and> 0 < load_verify e ca"

definition socket_ok :: "tls_env \<Rightarrow> bool" where
  "socket_ok e \<longleftrightarrow> 0 \<le> sys_socket e \<and> 0 \<le> sys_bind e \<and> 0 \<le> sys_listen e"

lemma server_setup_iff:
  "(\<exists>r. server_setup psk e = Inr r) \<longleftrightarrow> ctx_new e \<and> set_cipher_list e = 1 \<and> socket_ok e \<and>
    (\<not> psk \<longrightarrow> certificates_ok e ''./iwf.key'' ''./iwf.crt'' ''5gc_ca.crt'')"
  by (auto simp: setup_defs socket_ok_def certificates_ok_def)

lemma client_setup_iff:
  "(\<exists>r. client_setup psk e = Inr r) \<longleftrightarrow> ctx_new e \<and> set_cipher_list e = 1 \<and>
    (\<not> psk \<longrightarrow> certificates_ok e ''./5gc.key'' ''./5gc.crt'' ''iwf_ca.crt'')"
  by (auto simp: setup_defs certificates_ok_def)

lemma server_setup_result:
  assumes "server_setup psk e = Inr (ctx, sock)"
  shows "0 \<le> sock \<and> ctx = (if psk then \<lparr>options = base_options, cipher_list = Some default_cipher_tlsv1_2_list, key_file = None, cert_file = None,
      trusted = None, verify_flags = {}, callbacks = {Psk_server_cb}\<rparr>
    else \<lparr>options = base_options, cipher_list = Some default_cipher_tlsv1_2_list, key_file = Some ''./iwf.key'', cert_file = Some ''./iwf.crt'',
      trusted = Some ''5gc_ca.crt'', verify_flags = {SSL_VERIFY_PEER, SSL_VERIFY_FAIL_IF_NO_PEER_CERT}, callbacks = {Cert_status_cb, Server_name_cb}\<rparr>)"
  using assms by (simp add: setup_defs split: if_splits)

lemma client_setup_result:
  assumes "client_setup psk e = Inr ctx"
  shows "ctx = (if psk then \<lparr>options = base_options, cipher_list = Some default_cipher_tlsv1_2_list, key_file = None, cert_file = None,
      trusted = None, verify_flags = {}, callbacks = {Psk_client_cb}\<rparr>
    else \<lparr>options = base_options, cipher_list = Some default_cipher_tlsv1_2_list, key_file = Some ''./5gc.key'', cert_file = Some ''./5gc.crt'',
      trusted = Some ''iwf_ca.crt'', verify_flags = {SSL_VERIFY_PEER}, callbacks = {Ocsp_resp_cb}\<rparr>)"
  using assms by (simp add: setup_defs split: if_splits)

lemma server2_setup_result:
  assumes "server2_setup e = Inr (ctx, sock)"
  shows "options ctx = base_options - {SSL_OP_NO_TLSv1_3} \<and> callbacks ctx = {Psk_server_cb, Psk_find_session_cb}"
  using assms by (auto simp: setup_defs split: if_splits)

text \<open>The programs with each other: the first server and the second one, which leaves TLS 1.3 open, agree with the client on TLS 1.2.\<close>

lemma versions_negotiated:
  assumes "client_setup psk' e' = Inr c"
  shows "server_setup psk e = Inr (s, k) \<Longrightarrow> negotiated s c = Some TLSv1_2" "server2_setup e = Inr (s, k) \<Longrightarrow> negotiated s c = Some TLSv1_2"
proof -
  have c: "options c = base_options" using client_setup_result [OF assms] by (simp split: if_splits)
  have r: "TLSv1 \<le> TLSv1_2" by (simp add: less_eq_version_def)
  show "negotiated s c = Some TLSv1_2" if "server_setup psk e = Inr (s, k)"
    using server_setup_result [OF that] c r by (auto simp: negotiated_latest not_forbidden_def base_options_def split: if_splits)
  show "negotiated s c = Some TLSv1_2" if "server2_setup e = Inr (s, k)"
    using server2_setup_result [OF that] c r by (auto simp: negotiated_latest not_forbidden_def base_options_def split: if_splits)
qed


text \<open>An environment in which every call succeeds.\<close>

definition good_env :: tls_env where
  "good_env = \<lparr>ctx_new = True, set_cipher_list = 1, use_key = \<lambda>_. 1, use_cert = \<lambda>_. 1, check_key = True, load_verify = \<lambda>_. 1,
    sys_socket = 3, sys_bind = 0, sys_listen = 0\<rparr>"


end
