(* ===== verification/Tls_Ocsp.thy ===== *)
theory Tls_Ocsp
  imports Prelude
begin

text \<open>
  The certificate status of the TLS programs: the answer that \<open>tls_psk/server.cpp\<close> attaches to its certificate, the callback of the client for it
  (\<open>client.cpp\<close>), and the callback for server names. Whether \<open>malloc\<close> succeeds is an argument; writing through its \<open>NULL\<close> is \<open>None\<close>.
\<close>

section \<open>The callbacks\<close>

text \<open>The bytes of the answer, the initial ones apart.\<close>

definition ocsp_basic :: "u8 list" where
  "ocsp_basic = [
     0x30, 0x82, 0x06, 0x19, 0x30, 0x82, 0x01, 0x18, 0xa0, 0x03, 0x02, 0x01, 0x00, 0xa1, 0x81, 0x8a, 0x30, 0x81, 0x87, 0x31, 0x0b, 0x30, 0x09, 0x06,
     0x03, 0x55, 0x04, 0x06, 0x13, 0x02, 0x55, 0x53, 0x31, 0x17, 0x30, 0x15, 0x06, 0x03, 0x55, 0x04, 0x0a, 0x13, 0x0e, 0x56, 0x65, 0x72, 0x69, 0x53,
     0x69, 0x67, 0x6e, 0x2c, 0x20, 0x49, 0x6e, 0x63, 0x2e, 0x31, 0x1f, 0x30, 0x1d, 0x06, 0x03, 0x55, 0x04, 0x0b, 0x13, 0x16, 0x56, 0x65, 0x72, 0x69,
     0x53, 0x69, 0x67, 0x6e, 0x20, 0x54, 0x72, 0x75, 0x73, 0x74, 0x20, 0x4e, 0x65, 0x74, 0x77, 0x6f, 0x72, 0x6b, 0x31, 0x3e, 0x30, 0x3c, 0x06, 0x03,
     0x55, 0x04, 0x03, 0x13, 0x35, 0x56, 0x65, 0x72, 0x69, 0x53, 0x69, 0x67, 0x6e, 0x20, 0x43, 0x6c, 0x61, 0x73, 0x73, 0x20, 0x33, 0x20, 0x53, 0x65,
     0x63, 0x75, 0x72, 0x65, 0x20, 0x53, 0x65, 0x72, 0x76, 0x65, 0x72, 0x20, 0x43, 0x41, 0x20, 0x2d, 0x20, 0x47, 0x32, 0x20, 0x4f, 0x43, 0x53, 0x50,
     0x20, 0x52, 0x65, 0x73, 0x70, 0x6f, 0x6e, 0x64, 0x65, 0x72, 0x18, 0x0f, 0x32, 0x30, 0x31, 0x31, 0x30, 0x36, 0x30, 0x38, 0x31, 0x36, 0x31, 0x39,
     0x35, 0x38, 0x5a, 0x30, 0x73, 0x30, 0x71, 0x30, 0x49, 0x30, 0x09, 0x06, 0x05, 0x2b, 0x0e, 0x03, 0x02, 0x1a, 0x05, 0x00, 0x04, 0x14, 0x6c, 0x2b,
     0xc5, 0x5a, 0xaf, 0x8d, 0x96, 0xbf, 0x60, 0xad, 0xf8, 0x1d, 0x02, 0x3f, 0x23, 0xb4, 0x8a, 0x00, 0x59, 0xc2, 0x04, 0x14, 0xa5, 0xef, 0x0b, 0x11,
     0xce, 0xc0, 0x41, 0x03, 0xa3, 0x4a, 0x65, 0x90, 0x48, 0xb2, 0x1c, 0xe0, 0x57, 0x2d, 0x7d, 0x47, 0x02, 0x10, 0x30, 0x11, 0x9e, 0x6e, 0xf4, 0x1b,
     0xdb, 0xa3, 0xfe, 0xfe, 0x71, 0x1d, 0xbe, 0x8f, 0x61, 0x91, 0x80, 0x00, 0x18, 0x0f, 0x32, 0x30, 0x31, 0x31, 0x30, 0x36, 0x30, 0x38, 0x31, 0x36,
     0x31, 0x39, 0x35, 0x38, 0x5a, 0xa0, 0x11, 0x18, 0x0f, 0x32, 0x30, 0x31, 0x31, 0x30, 0x36, 0x31, 0x35, 0x31, 0x36, 0x31, 0x39, 0x35, 0x38, 0x5a,
     0x30, 0x0d, 0x06, 0x09, 0x2a, 0x86, 0x48, 0x86, 0xf7, 0x0d, 0x01, 0x01, 0x05, 0x05, 0x00, 0x03, 0x81, 0x81, 0x00, 0x13, 0x96, 0xc6, 0xb0, 0xd5,
     0xbf, 0xbd, 0x86, 0x24, 0x2d, 0x7d, 0x66, 0x04, 0x56, 0x76, 0x4d, 0x8d, 0xc9, 0x7c, 0xb2, 0xa3, 0x89, 0xeb, 0xb0, 0x49, 0x43, 0x96, 0x85, 0xec,
     0xc7, 0xa5, 0xa2, 0x31, 0x39, 0x7c, 0x42, 0x1a, 0x6e, 0x96, 0x16, 0x37, 0x1b, 0xf9, 0x1b, 0xdc, 0x17, 0xb6, 0x50, 0x50, 0xcb, 0x19, 0x33, 0x9b,
     0x3e, 0xe4, 0xe0, 0x0c, 0x0e, 0x03, 0x58, 0x88, 0x6d, 0xc6, 0x6f, 0xd6, 0x30, 0x8a, 0xb3, 0x62, 0xdc, 0x28, 0xb5, 0x46, 0x3f, 0x4a, 0x23, 0x9d,
     0x06, 0x07, 0x69, 0xc8, 0x6e, 0xcc, 0x31, 0xb6, 0x74, 0x8b, 0xe9, 0x04, 0xf6, 0xf4, 0xff, 0xec, 0x32, 0xd7, 0xe0, 0x6b, 0xb2, 0x47, 0x17, 0x60,
     0x27, 0x51, 0xae, 0x81, 0x22, 0xce, 0x0c, 0x4a, 0x1a, 0x26, 0x91, 0xa0, 0x25, 0xd3, 0x48, 0xa5, 0x2f, 0x45, 0x49, 0x4d, 0x0f, 0x0e, 0x78, 0x16,
     0xcc, 0x82, 0x5d, 0xa0, 0x82, 0x04, 0x66, 0x30, 0x82, 0x04, 0x62, 0x30, 0x82, 0x04, 0x5e, 0x30, 0x82, 0x03, 0x46, 0xa0, 0x03, 0x02, 0x01, 0x02,
     0x02, 0x10, 0x7a, 0xa6, 0x30, 0x92, 0x98, 0x6d, 0xf4, 0xa5, 0x71, 0x6f, 0x99, 0x3e, 0xc7, 0xa8, 0x3f, 0xff, 0x30, 0x0d, 0x06, 0x09, 0x2a, 0x86,
     0x48, 0x86, 0xf7, 0x0d, 0x01, 0x01, 0x05, 0x05, 0x00, 0x30, 0x81, 0xb5, 0x31, 0x0b, 0x30, 0x09, 0x06, 0x03, 0x55, 0x04, 0x06, 0x13, 0x02, 0x55,
     0x53, 0x31, 0x17, 0x30, 0x15, 0x06, 0x03, 0x55, 0x04, 0x0a, 0x13, 0x0e, 0x56, 0x65, 0x72, 0x69, 0x53, 0x69, 0x67, 0x6e, 0x2c, 0x20, 0x49, 0x6e,
     0x63, 0x2e, 0x31, 0x1f, 0x30, 0x1d, 0x06, 0x03, 0x55, 0x04, 0x0b, 0x13, 0x16, 0x56, 0x65, 0x72, 0x69, 0x53, 0x69, 0x67, 0x6e, 0x20, 0x54, 0x72,
     0x75, 0x73, 0x74, 0x20, 0x4e, 0x65, 0x74, 0x77, 0x6f, 0x72, 0x6b, 0x31, 0x3b, 0x30, 0x39, 0x06, 0x03, 0x55, 0x04, 0x0b, 0x13, 0x32, 0x54, 0x65,
     0x72, 0x6d, 0x73, 0x20, 0x6f, 0x66, 0x20, 0x75, 0x73, 0x65, 0x20, 0x61, 0x74, 0x20, 0x68, 0x74, 0x74, 0x70, 0x73, 0x3a, 0x2f, 0x2f, 0x77, 0x77,
     0x77, 0x2e, 0x76, 0x65, 0x72, 0x69, 0x73, 0x69, 0x67, 0x6e, 0x2e, 0x63, 0x6f, 0x6d, 0x2f, 0x72, 0x70, 0x61, 0x20, 0x28, 0x63, 0x29, 0x30, 0x39,
     0x31, 0x2f, 0x30, 0x2d, 0x06, 0x03, 0x55, 0x04, 0x03, 0x13, 0x26, 0x56, 0x65, 0x72, 0x69, 0x53, 0x69, 0x67, 0x6e, 0x20, 0x43, 0x6c, 0x61, 0x73,
     0x73, 0x20, 0x33, 0x20, 0x53, 0x65, 0x63, 0x75, 0x72, 0x65, 0x20, 0x53, 0x65, 0x72, 0x76, 0x65, 0x72, 0x20, 0x43, 0x41, 0x20, 0x2d, 0x20, 0x47,
     0x32, 0x30, 0x1e, 0x17, 0x0d, 0x31, 0x31, 0x30, 0x35, 0x32, 0x31, 0x30, 0x30, 0x30, 0x30, 0x30, 0x30, 0x5a, 0x17, 0x0d, 0x31, 0x31, 0x30, 0x38,
     0x31, 0x39, 0x32, 0x33, 0x35, 0x39, 0x35, 0x39, 0x5a, 0x30, 0x81, 0x87, 0x31, 0x0b, 0x30, 0x09, 0x06, 0x03, 0x55, 0x04, 0x06, 0x13, 0x02, 0x55,
     0x53, 0x31, 0x17, 0x30, 0x15, 0x06, 0x03, 0x55, 0x04, 0x0a, 0x13, 0x0e, 0x56, 0x65, 0x72, 0x69, 0x53, 0x69, 0x67, 0x6e, 0x2c, 0x20, 0x49, 0x6e,
     0x63, 0x2e, 0x31, 0x1f, 0x30, 0x1d, 0x06, 0x03, 0x55, 0x04, 0x0b, 0x13, 0x16, 0x56, 0x65, 0x72, 0x69, 0x53, 0x69, 0x67, 0x6e, 0x20, 0x54, 0x72,
     0x75, 0x73, 0x74, 0x20, 0x4e, 0x65, 0x74, 0x77, 0x6f, 0x72, 0x6b, 0x31, 0x3e, 0x30, 0x3c, 0x06, 0x03, 0x55, 0x04, 0x03, 0x13, 0x35, 0x56, 0x65,
     0x72, 0x69, 0x53, 0x69, 0x67, 0x6e, 0x20, 0x43, 0x6c, 0x61, 0x73, 0x73, 0x20, 0x33, 0x20, 0x53, 0x65, 0x63, 0x75, 0x72, 0x65, 0x20, 0x53, 0x65,
     0x72, 0x76, 0x65, 0x72, 0x20, 0x43, 0x41, 0x20, 0x2d, 0x20, 0x47, 0x32, 0x20, 0x4f, 0x43, 0x53, 0x50, 0x20, 0x52, 0x65, 0x73, 0x70, 0x6f, 0x6e,
     0x64, 0x65, 0x72, 0x30, 0x81, 0x9f, 0x30, 0x0d, 0x06, 0x09, 0x2a, 0x86, 0x48, 0x86, 0xf7, 0x0d, 0x01, 0x01, 0x01, 0x05, 0x00, 0x03, 0x81, 0x8d,
     0x00, 0x30, 0x81, 0x89, 0x02, 0x81, 0x81, 0x00, 0xf4, 0x0d, 0x10, 0xcd, 0xc8, 0x00, 0x0e, 0x71, 0xc2, 0x1a, 0x6e, 0xc9, 0x0d, 0x20, 0x92, 0x82,
     0xed, 0x9b, 0xa7, 0xa6, 0x8f, 0x36, 0xd9, 0xa0, 0x22, 0x23, 0x44, 0xdf, 0x4f, 0xca, 0xde, 0xb4, 0x99, 0x63, 0x94, 0xe1, 0xdf, 0x45, 0xf0, 0x32,
     0xb4, 0x5e, 0x73, 0x63, 0x11, 0x43, 0xc1, 0xa1, 0x5f, 0xda, 0xe2, 0x8b, 0xfb, 0x66, 0xa5, 0xa3, 0x1c, 0xc2, 0x54, 0x7b, 0x35, 0xae, 0x45, 0x57,
     0x5f, 0x90, 0xb4, 0x8e, 0x7d, 0x38, 0x2f, 0x04, 0x81, 0xf9, 0x22, 0xa0, 0xe0, 0xee, 0x60, 0x8b, 0xc8, 0x9b, 0xdd, 0xdf, 0xdc, 0xaa, 0x0b, 0x39,
     0xad, 0xee, 0x19, 0x01, 0xe2, 0xbc, 0x1a, 0xb9, 0x8f, 0x4e, 0xab, 0x7b, 0x90, 0x40, 0xeb, 0x08, 0x38, 0xd7, 0x9e, 0xfe, 0xfb, 0xc3, 0xa5, 0xd9,
     0x08, 0xfb, 0x57, 0x09, 0xd3, 0x67, 0xb3, 0x46, 0x55, 0x66, 0x16, 0x0a, 0x0d, 0x72, 0xd0, 0x19, 0x02, 0x03, 0x01, 0x00, 0x01, 0xa3, 0x82, 0x01,
     0x18, 0x30, 0x82, 0x01, 0x14, 0x30, 0x09, 0x06, 0x03, 0x55, 0x1d, 0x13, 0x04, 0x02, 0x30, 0x00, 0x30, 0x81, 0xac, 0x06, 0x03, 0x55, 0x1d, 0x20,
     0x04, 0x81, 0xa4, 0x30, 0x81, 0xa1, 0x30, 0x81, 0x9e, 0x06, 0x0b, 0x60, 0x86, 0x48, 0x01, 0x86, 0xf8, 0x45, 0x01, 0x07, 0x17, 0x03, 0x30, 0x81,
     0x8e, 0x30, 0x28, 0x06, 0x08, 0x2b, 0x06, 0x01, 0x05, 0x05, 0x07, 0x02, 0x01, 0x16, 0x1c, 0x68, 0x74, 0x74, 0x70, 0x73, 0x3a, 0x2f, 0x2f, 0x77,
     0x77, 0x77, 0x2e, 0x76, 0x65, 0x72, 0x69, 0x73, 0x69, 0x67, 0x6e, 0x2e, 0x63, 0x6f, 0x6d, 0x2f, 0x43, 0x50, 0x53, 0x30, 0x62, 0x06, 0x08, 0x2b,
     0x06, 0x01, 0x05, 0x05, 0x07, 0x02, 0x02, 0x30, 0x56, 0x30, 0x15, 0x16, 0x0e, 0x56, 0x65, 0x72, 0x69, 0x53, 0x69, 0x67, 0x6e, 0x2c, 0x20, 0x49,
     0x6e, 0x63, 0x2e, 0x30, 0x03, 0x02, 0x01, 0x01, 0x1a, 0x3d, 0x56, 0x65, 0x72, 0x69, 0x53, 0x69, 0x67, 0x6e, 0x27, 0x73, 0x20, 0x43, 0x50, 0x53,
     0x20, 0x69, 0x6e, 0x63, 0x6f, 0x72, 0x70, 0x2e, 0x20, 0x62, 0x79, 0x20, 0x72, 0x65, 0x66, 0x65, 0x72, 0x65, 0x6e, 0x63, 0x65, 0x20, 0x6c, 0x69,
     0x61, 0x62, 0x2e, 0x20, 0x6c, 0x74, 0x64, 0x2e, 0x20, 0x28, 0x63, 0x29, 0x39, 0x37, 0x20, 0x56, 0x65, 0x72, 0x69, 0x53, 0x69, 0x67, 0x6e, 0x30,
     0x13, 0x06, 0x03, 0x55, 0x1d, 0x25, 0x04, 0x0c, 0x30, 0x0a, 0x06, 0x08, 0x2b, 0x06, 0x01, 0x05, 0x05, 0x07, 0x03, 0x09, 0x30, 0x0b, 0x06, 0x03,
     0x55, 0x1d, 0x0f, 0x04, 0x04, 0x03, 0x02, 0x07, 0x80, 0x30, 0x0f, 0x06, 0x09, 0x2b, 0x06, 0x01, 0x05, 0x05, 0x07, 0x30, 0x01, 0x05, 0x04, 0x02,
     0x05, 0x00, 0x30, 0x25, 0x06, 0x03, 0x55, 0x1d, 0x11, 0x04, 0x1e, 0x30, 0x1c, 0xa4, 0x1a, 0x30, 0x18, 0x31, 0x16, 0x30, 0x14, 0x06, 0x03, 0x55,
     0x04, 0x03, 0x13, 0x0d, 0x4f, 0x43, 0x53, 0x50, 0x38, 0x2d, 0x54, 0x47, 0x56, 0x37, 0x2d, 0x35, 0x35, 0x30, 0x0d, 0x06, 0x09, 0x2a, 0x86, 0x48,
     0x86, 0xf7, 0x0d, 0x01, 0x01, 0x05, 0x05, 0x00, 0x03, 0x82, 0x01, 0x01, 0x00, 0x6d, 0x08, 0x61, 0x33, 0xf7, 0xdd, 0xc9, 0xcf, 0xb5, 0x47, 0xca,
     0x84, 0xd5, 0xb4, 0x77, 0xaf, 0xfa, 0x82, 0xae, 0x94, 0x80, 0x9b, 0xc6, 0xf5, 0x95, 0xfd, 0x24, 0x26, 0xb9, 0x51, 0x11, 0x31, 0x30, 0x65, 0x6a,
     0xcf, 0xd4, 0x42, 0xcf, 0x0f, 0x1f, 0x8b, 0x6f, 0xde, 0x29, 0x73, 0x69, 0x87, 0x0c, 0x94, 0xff, 0x65, 0x57, 0xbe, 0xa5, 0xb0, 0x3d, 0x82, 0x2d,
     0x3c, 0x54, 0xfe, 0xe2, 0x37, 0x1f, 0xf6, 0x76, 0x92, 0x73, 0x0d, 0x8f, 0xf2, 0xa1, 0x5e, 0x74, 0xdc, 0x76, 0x50, 0xba, 0x1f, 0xc7, 0xb9, 0x04,
     0x8d, 0x18, 0x2c, 0xa7, 0x1e, 0xc0, 0x27, 0xce, 0xf2, 0x2e, 0x26, 0x7d, 0x98, 0xd9, 0x35, 0x16, 0x87, 0x31, 0x37, 0xef, 0x6b, 0xa2, 0x27, 0x04,
     0x8f, 0x30, 0x43, 0x13, 0xe4, 0x64, 0x09, 0x99, 0x64, 0x87, 0xc3, 0xab, 0x66, 0x23, 0x1a, 0x52, 0xc7, 0x4b, 0x60, 0x49, 0x93, 0x1e, 0x10, 0xfe,
     0xa8, 0xfd, 0xbd, 0x13, 0x4e, 0xfc, 0x83, 0x19, 0x75, 0x7b, 0x56, 0xe1, 0xdf, 0x11, 0x02, 0x12, 0x00, 0xe6, 0x71, 0x26, 0x25, 0x6d, 0xf9, 0x01,
     0x37, 0x38, 0x62, 0x1b, 0x65, 0x30, 0xf7, 0x5e, 0x37, 0x7c, 0xca, 0x36, 0x0f, 0xcf, 0x10, 0x51, 0xb2, 0xaa, 0xf7, 0x47, 0xfd, 0xcc, 0xde, 0xca,
     0x95, 0x69, 0x6e, 0x2a, 0x99, 0xc9, 0xaf, 0xc4, 0xc0, 0xb8, 0xf8, 0x53, 0x70, 0x5c, 0x4a, 0x2d, 0x79, 0x8f, 0x82, 0x34, 0xca, 0x94, 0x8d, 0x3f,
     0xad, 0x0a, 0xbd, 0x6c, 0x9a, 0x54, 0xba, 0x10, 0xed, 0x17, 0xaf, 0xad, 0x19, 0xe5, 0xf3, 0x54, 0x76, 0xc7, 0x45, 0xcf, 0x8d, 0x43, 0xfd, 0x2b,
     0x04, 0x32, 0x49, 0xb3, 0x8f, 0xb3, 0xdd, 0x6f, 0x00, 0xe8, 0xba, 0xf3, 0x78, 0x1a, 0xf7, 0x19, 0x1d, 0x23, 0x56, 0x51, 0x0b, 0x00, 0x20, 0x1c,
     0x3c, 0x9c, 0x99, 0xe3, 0x05]"

definition ocsp_rspder :: "u8 list" where
  "ocsp_rspder = [
     0x30, 0x82, 0x06, 0x37, 0x0a, 0x01, 0x00, 0xa0, 0x82, 0x06, 0x30, 0x30, 0x82, 0x06, 0x2c, 0x06, 0x09, 0x2b, 0x06, 0x01, 0x05, 0x05, 0x07, 0x30,
     0x01, 0x01, 0x04, 0x82, 0x06, 0x1d] @ ocsp_basic"

definition SSL_TLSEXT_ERR_OK :: int where "SSL_TLSEXT_ERR_OK = 0"
definition SSL_TLSEXT_ERR_NOACK :: int where "SSL_TLSEXT_ERR_NOACK = 3"

text \<open>The result of the callback and the answer that it hands to OpenSSL.\<close>

definition cert_status_cb :: "bool \<Rightarrow> (int \<times> u8 list) option" where
  "cert_status_cb malloc_ok =
    (let rspderlen = length ocsp_rspder;
         rspder = (if malloc_ok then Some (replicate rspderlen (0::u8)) else None)
     in case rspder of None \<Rightarrow> None | Some buf \<Rightarrow> Some (SSL_TLSEXT_ERR_OK, ocsp_rspder @ drop rspderlen buf))"

text \<open>The callback of the client prints whether there is an answer.\<close>

definition ocsp_resp_cb :: "u8 list option \<Rightarrow> int \<times> string" where
  "ocsp_resp_cb p = (case p of None \<Rightarrow> (1, ''no response sent'') | Some _ \<Rightarrow> (1, ''OCSP response success''))"

text \<open>The callback for the name that a client asks for; the first argument says whether the SSL object exists.\<close>

definition serverNameCallback :: "bool \<Rightarrow> u8 list option \<Rightarrow> int \<times> u8 list" where
  "serverNameCallback ssl servername =
    (if \<not> ssl then (SSL_TLSEXT_ERR_NOACK, [])
     else (case servername of
       Some n \<Rightarrow> (SSL_TLSEXT_ERR_OK, bytes ''server name is '' @ (if n = [] then bytes ''NULL'' else n))
     | None \<Rightarrow> (SSL_TLSEXT_ERR_OK, bytes ''server name is NULL'')))"

section \<open>DER\<close>

text \<open>A reference reader of the encoding: tag, length in one, two or three bytes, contents, and the bytes behind the element.\<close>

type_synonym element = "nat \<times> nat list \<times> nat list"

definition cut :: "nat \<Rightarrow> nat \<Rightarrow> nat list \<Rightarrow> element option" where
  "cut t n bs = (if n \<le> length bs then Some (t, take n bs, drop n bs) else None)"

fun der_element :: "nat list \<Rightarrow> element option" where
  "der_element (t # n # bs) =
    (if n < 128 then cut t n bs
     else if n = 129 then (case bs of a # cs \<Rightarrow> cut t a cs | _ \<Rightarrow> None)
     else if n = 130 then (case bs of a # b # cs \<Rightarrow> cut t (256 * a + b) cs | _ \<Rightarrow> None)
     else None)"
| "der_element _ = None"

lemma der_element_shorter: "der_element bs = Some (t, c, r) \<Longrightarrow> length c + length r < length bs"
  by (cases bs rule: der_element.cases) (auto simp: cut_def split: if_splits list.splits)

text \<open>All elements of a string one after the other, with nothing in between or left over; constructed ones (bit 5 of the tag) are read inside.\<close>

function der_all :: "nat list \<Rightarrow> (nat \<times> nat list) list option" where
  "der_all bs =
    (if bs = [] then Some []
     else (case der_element bs of None \<Rightarrow> None | Some (t, c, r) \<Rightarrow>
       (case (if bit t 5 then der_all c else Some []) of None \<Rightarrow> None | Some inner \<Rightarrow>
         (case der_all r of None \<Rightarrow> None | Some rest \<Rightarrow> Some ((t, c) # inner @ rest)))))"
  by pat_completeness auto
termination
  by (relation "measure length") (auto dest!: der_element_shorter)

declare der_all.simps [simp del]

lemma length_ocsp_basic: "length ocsp_basic = 1565"
  by (simp add: ocsp_basic_def)

lemma der_all_Nil: "der_all [] = Some []"
  by (simp add: der_all.simps)

lemma der_all_leaf:
  "der_element bs = Some (t, c, r) \<Longrightarrow> \<not> bit t 5 \<Longrightarrow> der_all r = Some rest \<Longrightarrow> der_all bs = Some ((t, c) # rest)"
  by (subst der_all.simps) auto

lemma der_all_constructed:
  "der_element bs = Some (t, c, []) \<Longrightarrow> bit t 5 \<Longrightarrow> der_all c = Some inner \<Longrightarrow> der_all bs = Some ((t, c) # inner)"
  by (subst der_all.simps) (auto simp: der_all_Nil)

lemma constructed_tags: "bit (48::nat) 5" "bit (160::nat) 5" "\<not> bit (10::nat) 5" "\<not> bit (6::nat) 5" "\<not> bit (4::nat) 5"
  by (simp_all add: bit_iff_odd)

text \<open>The parts of the answer, from the inside: the encoded basic response with its type, the answer with its status.\<close>

definition basic_element :: "nat list" where
  "basic_element = [4, 130, 6, 29] @ map unat ocsp_basic"

definition response_bytes :: "nat list" where
  "response_bytes = [6, 9, 43, 6, 1, 5, 5, 7, 48, 1, 1] @ basic_element"

definition response_element :: "nat list" where
  "response_element = [48, 130, 6, 44] @ response_bytes"

lemmas part_defs = basic_element_def response_bytes_def response_element_def

lemma basic_parts: "der_all basic_element = Some [(4, map unat ocsp_basic)]"
  by (rule der_all_leaf [OF _ constructed_tags(5) der_all_Nil]) (simp add: part_defs cut_def length_ocsp_basic)

lemma response_parts: "der_all response_bytes = Some [(6, [43, 6, 1, 5, 5, 7, 48, 1, 1]), (4, map unat ocsp_basic)]"
  by (rule der_all_leaf [OF _ constructed_tags(4) basic_parts]) (simp add: part_defs cut_def)

lemma response_element_parts:
  "der_all response_element = Some [(48, response_bytes), (6, [43, 6, 1, 5, 5, 7, 48, 1, 1]), (4, map unat ocsp_basic)]"
  by (rule der_all_constructed [OF _ constructed_tags(1) response_parts]) (simp add: part_defs cut_def length_ocsp_basic)

lemma tagged_parts:
  "der_all ([160, 130, 6, 48] @ response_element) =
    Some [(160, response_element), (48, response_bytes), (6, [43, 6, 1, 5, 5, 7, 48, 1, 1]), (4, map unat ocsp_basic)]"
  by (rule der_all_constructed [OF _ constructed_tags(2) response_element_parts]) (simp add: part_defs cut_def length_ocsp_basic)

lemma status_parts:
  "der_all ([10, 1, 0, 160, 130, 6, 48] @ response_element) =
    Some [(10, [0]), (160, response_element), (48, response_bytes), (6, [43, 6, 1, 5, 5, 7, 48, 1, 1]), (4, map unat ocsp_basic)]"
  by (rule der_all_leaf [OF _ constructed_tags(3) tagged_parts]) (simp add: cut_def)

text \<open>
  The answer that the server attaches is one complete element of DER, every length in it agrees with the bytes that follow: status
  successful, and a basic response (1.3.6.1.5.5.7.48.1.1) in an octet string. The server copies all of it, and fails only without memory. The callback of the client returns success
  with any answer and with none.
\<close>

theorem stapled_answer:
  "cert_status_cb malloc_ok = (if malloc_ok then Some (SSL_TLSEXT_ERR_OK, ocsp_rspder) else None) \<and>
   der_all (map unat ocsp_rspder) = Some [(48, [10, 1, 0, 160, 130, 6, 48] @ response_element), (10, [0]), (160, response_element), (48, response_bytes),
     (6, [43, 6, 1, 5, 5, 7, 48, 1, 1]), (4, map unat ocsp_basic)] \<and>
   fst (ocsp_resp_cb p) = 1"
proof (intro conjI)
  show "cert_status_cb malloc_ok = (if malloc_ok then Some (SSL_TLSEXT_ERR_OK, ocsp_rspder) else None)" by (simp add: cert_status_cb_def)
  show "der_all (map unat ocsp_rspder) = Some [(48, [10, 1, 0, 160, 130, 6, 48] @ response_element), (10, [0]), (160, response_element), (48, response_bytes),
     (6, [43, 6, 1, 5, 5, 7, 48, 1, 1]), (4, map unat ocsp_basic)]"
    by (rule der_all_constructed [OF _ constructed_tags(1) status_parts]) (simp add: ocsp_rspder_def part_defs cut_def length_ocsp_basic)
  show "fst (ocsp_resp_cb p) = 1" by (simp add: ocsp_resp_cb_def split: option.splits)
qed

end
