(* ===== verification/Tls_Report.thy ===== *)
theory Tls_Report
  imports Tls_Setup Tls_Ocsp
begin

text \<open>
  What the TLS programs of \<open>tls_psk\<close> print about a connection: cipher lists, the certificate of the peer, signature algorithms. What OpenSSL
  reports about the connection is a record; a list that OpenSSL does not have (\<open>NULL\<close>) is \<open>None\<close>. The programs contain copies of the same functions.
\<close>

section \<open>Lists\<close>

datatype line =
  Text string
| Ciphers "u8 list"
| Shared "u8 list"
| Certificate "u8 list" "u8 list"
| No_certificate
| Verify_code int
| Sigalgs "u8 list"
| Connection nat

record connection =
  enabled :: "u8 list list"
  offered :: "u8 list list option"
  shared_ciphers :: "u8 list option"
  peer :: "(u8 list \<times> u8 list) option"
  verify_result :: int
  sigalgs :: "sigalg list"

text \<open>The number of elements of a missing stack is negative, so that the loop does not run.\<close>

definition showSSLCiphers :: "connection \<Rightarrow> line list" where
  "showSSLCiphers c = [Text ''ssl enable cipher lists:'', Ciphers (showCiphers (enabled c))]"

definition showClientCiphers :: "connection \<Rightarrow> line list" where
  "showClientCiphers c = [Text ''ssl client cipher lists:'', Ciphers (showCiphers (case offered c of None \<Rightarrow> [] | Some ns \<Rightarrow> ns))]"

definition showCtxCiphers :: "u8 list list \<Rightarrow> line list" where
  "showCtxCiphers ns = [Text ''ssl ctx cipher lists:'', Ciphers (showCiphers ns)]"

text \<open>The array of 1024 bytes is not initialised and not written when there are no shared ciphers; \<open>None\<close> when no zero is found in it.\<close>

definition showGetSharedCiphers :: "u8 list \<Rightarrow> connection \<Rightarrow> line list option" where
  "showGetSharedCiphers buf0 c =
    (let buf = (case shared_ciphers c of None \<Rightarrow> buf0 | Some s \<Rightarrow> take 1023 s @ [0] @ drop (Suc (length (take 1023 s))) buf0)
     in if 0 \<in> set buf then Some [Shared (str_of buf)] else None)"

definition ShowCerts :: "connection \<Rightarrow> line list" where
  "ShowCerts c = (case peer c of Some (subject, issuer) \<Rightarrow> [Certificate subject issuer] | None \<Rightarrow> [No_certificate])"

definition client_ShowCerts :: "connection \<Rightarrow> line list" where
  "client_ShowCerts = ShowCerts"

text \<open>The copies in the other programs: \<open>do_print_sigalgs\<close> of the client and of the second server has no heading.\<close>

definition client_get_sigtype :: "nids \<Rightarrow> int \<Rightarrow> u8 list option" where
  "client_get_sigtype = get_sigtype"

definition server2_get_sigtype :: "nids \<Rightarrow> int \<Rightarrow> u8 list option" where
  "server2_get_sigtype = get_sigtype"

definition client_do_print_sigalgs :: "nids \<Rightarrow> (int \<Rightarrow> u8 list) \<Rightarrow> bool \<Rightarrow> bool \<Rightarrow> sigalg list \<Rightarrow> u8 list" where
  "client_do_print_sigalgs k nid2sn is_server shared as =
    (if as = [] then []
     else (if shared then bytes ''Shared '' else []) @ (if \<not> is_server then bytes ''Requested '' else []) @
       bytes ''Signature Algorithms: '' @ sigalg_loop k nid2sn 0 as @ [10])"

definition server2_do_print_sigalgs :: "nids \<Rightarrow> (int \<Rightarrow> u8 list) \<Rightarrow> bool \<Rightarrow> bool \<Rightarrow> sigalg list \<Rightarrow> u8 list" where
  "server2_do_print_sigalgs = client_do_print_sigalgs"

definition server2_psk_find_session_cb :: "('c, 'm) ssl_lib \<Rightarrow> u8 list \<Rightarrow> 'c session option cb_result" where
  "server2_psk_find_session_cb = psk_find_session_cb"

section \<open>A connection\<close>

definition connection_report :: "nids \<Rightarrow> (int \<Rightarrow> u8 list) \<Rightarrow> bool \<Rightarrow> u8 list \<Rightarrow> connection \<Rightarrow> int \<Rightarrow> nat \<Rightarrow> line list option" where
  "connection_report k nid2sn psk buf0 c accept_rv number = do {
     shared \<leftarrow> showGetSharedCiphers buf0 c;
     let sig = [Sigalgs (do_print_sigalgs k nid2sn True True (sigalgs c))];
     let closing = [Text ''connection closed.''];
     Some (showSSLCiphers c @
       (if accept_rv \<le> 0 then [Text ''accept error''] @ showClientCiphers c @ shared @ sig
        else (if psk then [] else Verify_code (verify_result c) # ShowCerts c) @ showClientCiphers c @ shared @ sig @ [Connection number]) @
       closing) }"

definition client_report :: "nids \<Rightarrow> (int \<Rightarrow> u8 list) \<Rightarrow> bool \<Rightarrow> u8 list list \<Rightarrow> connection \<Rightarrow> int \<Rightarrow> line list" where
  "client_report k nid2sn psk ctx_ciphers c connect_rv =
    showCtxCiphers ctx_ciphers @ showSSLCiphers c @ [Sigalgs (client_do_print_sigalgs k nid2sn False False (sigalgs c))] @
    (if connect_rv \<le> 0 then [Text ''errored; unable to connect.''] else if psk then [] else Verify_code (verify_result c) # client_ShowCerts c)"

section \<open>What a report shows\<close>

lemma str_of_upto: "str_of (xs @ 0 # ys) = str_of xs"
  by (induction xs) (auto simp: str_of_def)

lemma shared_reported:
  "shared_ciphers c = Some s \<Longrightarrow> showGetSharedCiphers buf0 c = Some [Shared (str_of (take 1023 s))]"
  by (simp add: showGetSharedCiphers_def str_of_upto)

lemma shared_missing:
  "shared_ciphers c = None \<Longrightarrow> showGetSharedCiphers buf0 c = (if 0 \<in> set buf0 then Some [Shared (str_of buf0)] else None)"
  by (simp add: showGetSharedCiphers_def)

text \<open>
  The report of the server on a connection: when OpenSSL has a list of shared ciphers it is printed, and the report does not depend on the uninitialised array;
  without it, as after a failed handshake, the report contains whatever that array holds, and its end is not found when it has no zero. A certificate is reported exactly
  when certificates are used and the handshake succeeded.
\<close>

theorem connection_report_contents:
  "(shared_ciphers c = Some s \<longrightarrow>
      (\<exists>r. connection_report k nid2sn psk buf0 c rv n = Some r \<and> connection_report k nid2sn psk buf1 c rv n = Some r \<and>
         Shared (str_of (take 1023 s)) \<in> set r)) \<and>
   (shared_ciphers c = None \<and> 0 \<notin> set buf0 \<longrightarrow> connection_report k nid2sn psk buf0 c rv n = None) \<and>
   (shared_ciphers c = None \<and> 0 \<in> set buf0 \<longrightarrow>
      (\<exists>r. connection_report k nid2sn psk buf0 c rv n = Some r \<and> Shared (str_of buf0) \<in> set r)) \<and>
   (connection_report k nid2sn psk buf0 c rv n = Some r \<longrightarrow>
      ((\<exists>a b. Certificate a b \<in> set r) \<or> No_certificate \<in> set r \<longleftrightarrow> \<not> psk \<and> 0 < rv) \<and> (Connection n \<in> set r \<longleftrightarrow> 0 < rv))"
proof (intro conjI impI, goal_cases)
  case 1
  then show ?case by (simp add: connection_report_def shared_reported Let_def)
next
  case 2
  then show ?case by (simp add: connection_report_def shared_missing)
next
  case 3
  then show ?case by (simp add: connection_report_def shared_missing Let_def)
next
  case 4
  then show ?case
    by (auto simp: connection_report_def showGetSharedCiphers_def showSSLCiphers_def showClientCiphers_def ShowCerts_def Let_def split: if_splits option.splits)
next
  case 5
  then show ?case
    by (auto simp: connection_report_def showGetSharedCiphers_def showSSLCiphers_def showClientCiphers_def ShowCerts_def Let_def split: if_splits option.splits)
qed

end
