(* ===== verification/Tracker.thy ===== *)
theory Tracker
  imports Prelude Complex_Main "HOL-Library.Multiset"
begin

text \<open>
  The exact latency tracker of \<open>C/p99\<close> (\<open>tracker.c\<close>), which keeps all values and sorts them when it is queried, the contract of
  \<open>tracker.h\<close> as a locale, and the two clients of that contract: the accuracy test \<open>tracker_test.c\<close> and the benchmark \<open>main.c\<close>.

  A \<open>double\<close> is a real number, and \<open>rnd\<close> is the rounding of the result of an operation; \<open>rnd_laws\<close> says that rounding is
  monotone and keeps the halves of integers below \<open>2^52\<close>. The conversion of a non-negative \<open>double\<close> to \<open>int\<close> is the integer
  part. A result \<open>Exit\<close> is a call of \<open>exit\<close>, \<open>Undef\<close> an access outside an array or an overflow of an \<open>int\<close>. \<open>qsort\<close> is a
  function that returns the elements in ascending order.
\<close>

datatype 'a result = Return 'a | Exit | Undef

definition INT_MAX :: int where "INT_MAX = 2147483647"
definition LONG_MAX :: int where "LONG_MAX = 9223372036854775807"

definition rnd_laws :: "(real \<Rightarrow> real) \<Rightarrow> bool" where
  "rnd_laws rnd \<longleftrightarrow> mono rnd \<and> (\<forall>m :: int. \<bar>m\<bar> \<le> 2 ^ 52 \<longrightarrow> rnd (of_int m / 2) = of_int m / 2)"

lemma rnd_int: "rnd_laws rnd \<Longrightarrow> \<bar>m\<bar> \<le> 2 ^ 51 \<Longrightarrow> rnd (of_int m) = of_int m"
proof -
  assume r: "rnd_laws rnd" and m: "\<bar>m\<bar> \<le> 2 ^ 51"
  have "\<bar>2 * m\<bar> \<le> 2 ^ 52" using m by simp
  with r have "rnd (of_int (2 * m) / 2) = of_int (2 * m) / 2" unfolding rnd_laws_def by blast
  then show ?thesis by simp
qed

definition to_int :: "real \<Rightarrow> int" where
  "to_int x = (if 0 \<le> x then \<lfloor>x\<rfloor> else \<lceil>x\<rceil>)"

section \<open>The exact tracker\<close>

text \<open>\<open>values\<close> is the allocated array, \<open>percentiles\<close> the array of the same name.\<close>

record tracker =
  percentiles :: "real list"
  percentile_count :: nat
  vals :: "int list"
  value_count :: nat
  value_capacity :: int
  is_sorted :: bool

definition DEFAULT_VALUES_NUM :: int where "DEFAULT_VALUES_NUM = 1024"

definition current_time_us :: "int \<Rightarrow> int \<Rightarrow> int" where
  "current_time_us tv_sec tv_nsec = tv_sec * 1000000 + tv_nsec div 1000"

text \<open>The memory that \<open>malloc\<close> and \<open>realloc\<close> return is arbitrary (\<open>junk\<close>); \<open>mem\<close> says whether the call succeeds.\<close>

definition fresh_array :: "(nat \<Rightarrow> int) \<Rightarrow> int \<Rightarrow> int list" where
  "fresh_array junk n = map junk [0..<nat n]"

definition tracker_static :: tracker where
  "tracker_static = \<lparr>percentiles = [], percentile_count = 0, vals = [], value_count = 0, value_capacity = DEFAULT_VALUES_NUM, is_sorted = True\<rparr>"

definition tracker_init :: "bool \<Rightarrow> bool \<Rightarrow> (nat \<Rightarrow> int) \<Rightarrow> real list \<Rightarrow> tracker \<Rightarrow> tracker result" where
  "tracker_init mem mem' junk input_percentiles t =
    (if \<not> mem then Exit
     else if \<not> mem' then Exit
     else Return (t\<lparr>percentiles := input_percentiles, percentile_count := length input_percentiles, vals := fresh_array junk (value_capacity t), value_count := 0\<rparr>))"

definition grown :: "(nat \<Rightarrow> int) \<Rightarrow> int list \<Rightarrow> int \<Rightarrow> int list" where
  "grown junk vs n = take (nat n) vs @ drop (length vs) (fresh_array junk n)"

definition tracker_insert :: "bool \<Rightarrow> (nat \<Rightarrow> int) \<Rightarrow> int \<Rightarrow> tracker \<Rightarrow> tracker result" where
  "tracker_insert mem junk v t =
    (let full = (int (value_count t) = value_capacity t);
         cap = (if full then value_capacity t + value_capacity t div 2 else value_capacity t) in
     if cap > INT_MAX then Undef
     else if full \<and> \<not> mem then Exit
     else let vs = (if full then grown junk (vals t) cap else vals t) in
       if value_count t < length vs
       then Return (t\<lparr>vals := vs[value_count t := v], value_count := value_count t + 1, value_capacity := cap, is_sorted := False\<rparr>)
       else Undef)"

text \<open>\<open>tracker_query\<close>: the answer, and the state, whose array may have been sorted.\<close>

definition quantile_index :: "(real \<Rightarrow> real) \<Rightarrow> real \<Rightarrow> nat \<Rightarrow> int" where
  "quantile_index rnd q n = to_int (rnd (rnd (q * real_of_int (int n - 1)) + 0.5))"

definition tracker_query :: "(real \<Rightarrow> real) \<Rightarrow> real \<Rightarrow> tracker \<Rightarrow> (int \<times> tracker) result" where
  "tracker_query rnd quantile t =
    (if value_count t = 0 then Return (-1, t)
     else let n = value_count t;
              t' = (if is_sorted t then t else t\<lparr>vals := sort (take n (vals t)) @ drop n (vals t), is_sorted := True\<rparr>);
              i = quantile_index rnd quantile n in
       if 0 \<le> i \<and> nat i < length (vals t') then Return (vals t' ! nat i, t') else Undef)"

text \<open>\<open>tracker_print_results\<close>: the percentile results, the number of values, the largest and the smallest; \<open>None\<close> for no values.\<close>

fun query_all :: "(real \<Rightarrow> real) \<Rightarrow> real list \<Rightarrow> tracker \<Rightarrow> ((real \<times> int) list \<times> tracker) result" where
  "query_all rnd [] t = Return ([], t)"
| "query_all rnd (q # qs) t =
    (case tracker_query rnd q t of
       Return (x, t1) \<Rightarrow> (case query_all rnd qs t1 of Return (xs, t2) \<Rightarrow> Return ((q, x) # xs, t2) | Exit \<Rightarrow> Exit | Undef \<Rightarrow> Undef)
     | Exit \<Rightarrow> Exit
     | Undef \<Rightarrow> Undef)"

definition tracker_print_results :: "(real \<Rightarrow> real) \<Rightarrow> tracker \<Rightarrow> (((real \<times> int) list \<times> nat \<times> int \<times> int) option \<times> tracker) result" where
  "tracker_print_results rnd t =
    (if value_count t = 0 then Return (None, t)
     else if percentile_count t > length (percentiles t) then Undef
     else (case query_all rnd (take (percentile_count t) (percentiles t)) t of
             Return (xs, t') \<Rightarrow>
               (if value_count t' \<le> length (vals t')
                then Return (Some (xs, value_count t', vals t' ! (value_count t' - 1), vals t' ! 0), t') else Undef)
           | Exit \<Rightarrow> Exit
           | Undef \<Rightarrow> Undef))"

definition tracker_free :: "tracker \<Rightarrow> tracker" where
  "tracker_free t = t\<lparr>percentiles := [], vals := []\<rparr>"

section \<open>What the exact tracker represents\<close>

text \<open>The state after the values \<open>xs\<close> have been inserted.\<close>

definition keeps :: "int list \<Rightarrow> tracker \<Rightarrow> bool" where
  "keeps xs t \<longleftrightarrow> value_count t = length xs \<and> length xs \<le> length (vals t) \<and> mset (take (length xs) (vals t)) = mset xs \<and>
    (is_sorted t \<longrightarrow> sorted (take (length xs) (vals t))) \<and> int (length (vals t)) = value_capacity t \<and>
    1024 \<le> value_capacity t \<and> value_capacity t \<le> INT_MAX"

lemma tracker_init_keeps: "tracker_init True True junk ps tracker_static = Return t \<Longrightarrow> keeps [] t"
  by (auto simp: tracker_init_def tracker_static_def keeps_def fresh_array_def DEFAULT_VALUES_NUM_def INT_MAX_def)

lemma take_grown: "n \<le> length vs \<Longrightarrow> length vs \<le> nat c \<Longrightarrow> take n (grown junk vs c) = take n vs"
  by (simp add: grown_def)

lemma length_grown: "length vs \<le> nat c \<Longrightarrow> length (grown junk vs c) = nat c"
  by (simp add: grown_def fresh_array_def)

lemma keeps_snoc:
  assumes "keeps xs t" "length xs < length vs" "take (length xs) vs = take (length xs) (vals t)"
    "int (length vs) = cap" "1024 \<le> cap" "cap \<le> INT_MAX"
  shows "keeps (xs @ [v]) (t\<lparr>vals := vs[length xs := v], value_count := length xs + 1, value_capacity := cap, is_sorted := False\<rparr>)"
  using assms by (simp add: keeps_def take_Suc_conv_app_nth)

lemma tracker_insert_keeps:
  assumes k: "keeps xs t" and b: "length xs < 2 ^ 30"
  shows "\<exists>t'. tracker_insert True junk v t = Return t' \<and> keeps (xs @ [v]) t' \<and> percentiles t' = percentiles t \<and>
    percentile_count t' = percentile_count t"
proof (cases "int (length xs) = value_capacity t")
  case True
  define c where "c = value_capacity t + value_capacity t div 2"
  have len: "length (vals t) = length xs" "1024 \<le> value_capacity t" "value_count t = length xs" using k True by (auto simp: keeps_def)
  have c: "c \<le> INT_MAX" "1024 \<le> c" "length xs < nat c" "length (vals t) \<le> nat c"
    using b True len by (auto simp: c_def INT_MAX_def)
  have g: "length (grown junk (vals t) c) = nat c" by (rule length_grown [OF c(4)])
  have "keeps (xs @ [v]) (t\<lparr>vals := (grown junk (vals t) c)[length xs := v], value_count := length xs + 1, value_capacity := c, is_sorted := False\<rparr>)"
    using c g len by (intro keeps_snoc [OF k]) (auto simp: take_grown)
  then show ?thesis using c g len True by (auto simp: tracker_insert_def Let_def c_def)
next
  case False
  then have "length xs < length (vals t)" "value_capacity t \<le> INT_MAX" "value_count t = length xs" "1024 \<le> value_capacity t"
    "int (length (vals t)) = value_capacity t" using k by (auto simp: keeps_def)
  then show ?thesis using False keeps_snoc [OF k, of "vals t" "value_capacity t" v] by (auto simp: tracker_insert_def Let_def)
qed

lemma quantile_index_bounds:
  assumes r: "rnd_laws rnd" and q: "0 \<le> q" "q \<le> 1" and n: "0 < n" "n \<le> 2 ^ 31"
  shows "0 \<le> quantile_index rnd q n" "quantile_index rnd q n < int n"
proof -
  have m: "mono rnd" using r by (simp add: rnd_laws_def)
  have half: "rnd (of_int k / 2) = of_int k / 2" if "\<bar>k\<bar> \<le> 2 ^ 52" for k :: int using r that unfolding rnd_laws_def by blast
  let ?p = "q * real_of_int (int n - 1)"
  have p: "0 \<le> ?p" "?p \<le> real_of_int (int n - 1)" using q n by (auto intro: mult_left_le_one_le)
  have "rnd 0 \<le> rnd ?p" "rnd ?p \<le> rnd (real_of_int (int n - 1))" using p m by (auto elim: monoD)
  moreover have "rnd 0 = 0" "rnd (real_of_int (int n - 1)) = real_of_int (int n - 1)" using half [of 0] rnd_int [OF r, of "int n - 1"] n by auto
  ultimately have s: "real_of_int 1 / 2 \<le> rnd ?p + 0.5" "rnd ?p + 0.5 \<le> real_of_int (2 * int n - 1) / 2" by auto
  have "rnd (real_of_int 1 / 2) \<le> rnd (rnd ?p + 0.5)" "rnd (rnd ?p + 0.5) \<le> rnd (real_of_int (2 * int n - 1) / 2)"
    using s m by (auto elim: monoD)
  moreover have "rnd (real_of_int (2 * int n - 1) / 2) = real_of_int (2 * int n - 1) / 2" using n by (intro half) auto
  ultimately have t: "1 / 2 \<le> rnd (rnd ?p + 0.5)" "rnd (rnd ?p + 0.5) \<le> real n - 1 / 2" using half [of 1] n by auto
  then have "to_int (rnd (rnd ?p + 0.5)) = \<lfloor>rnd (rnd ?p + 0.5)\<rfloor>" by (simp add: to_int_def)
  with t show "0 \<le> quantile_index rnd q n" "quantile_index rnd q n < int n"
    by (auto simp: quantile_index_def floor_less_iff)
qed

lemma quantile_index_mono:
  assumes r: "rnd_laws rnd" and q: "0 \<le> p" "p \<le> q" "q \<le> 1" and n: "0 < n" "n \<le> 2 ^ 31"
  shows "quantile_index rnd p n \<le> quantile_index rnd q n"
proof -
  have m: "mono rnd" using r by (simp add: rnd_laws_def)
  have tm: "to_int a \<le> to_int b" if "a \<le> b" for a b
    using that by (auto simp: to_int_def floor_mono ceiling_mono) (meson ceiling_le_zero floor_le_zero le_floor_iff linear not_le order_trans zero_le_floor)+
  have "p * real_of_int (int n - 1) \<le> q * real_of_int (int n - 1)" using q n by (intro mult_right_mono) auto
  then show ?thesis unfolding quantile_index_def by (intro tm monoD [OF m] add_right_mono)
qed

text \<open>The answer that the definition of the quantile prescribes, over the inserted values.\<close>

definition quantile_spec :: "(real \<Rightarrow> real) \<Rightarrow> real \<Rightarrow> int list \<Rightarrow> int" where
  "quantile_spec rnd q xs = (if xs = [] then -1 else sort xs ! nat (quantile_index rnd q (length xs)))"

lemma sorted_prefix:
  assumes "keeps xs t"
  shows "sort (take (length xs) (vals t)) = sort xs" and "is_sorted t \<Longrightarrow> take (length xs) (vals t) = sort xs"
proof -
  show "sort (take (length xs) (vals t)) = sort xs"
    using assms by (intro properties_for_sort) (auto simp: keeps_def)
  then show "is_sorted t \<Longrightarrow> take (length xs) (vals t) = sort xs"
    using assms by (simp add: keeps_def sorted_sort_id)
qed

lemma tracker_query_keeps:
  assumes k: "keeps xs t" and r: "rnd_laws rnd" and q: "0 \<le> q" "q \<le> 1"
  shows "\<exists>t'. tracker_query rnd q t = Return (quantile_spec rnd q xs, t') \<and> keeps xs t' \<and> percentiles t' = percentiles t \<and>
    percentile_count t' = percentile_count t \<and> (xs \<noteq> [] \<longrightarrow> is_sorted t')"
proof (cases "xs = []")
  case False
  define t' where "t' = (if is_sorted t then t
    else t\<lparr>vals := sort (take (length xs) (vals t)) @ drop (length xs) (vals t), is_sorted := True\<rparr>)"
  have n: "value_count t = length xs" "length xs \<le> length (vals t)" "length (vals t) \<le> 2 ^ 31"
    using k by (auto simp: keeps_def INT_MAX_def)
  have k': "keeps xs t'" using k by (auto simp: t'_def keeps_def)
  have s: "take (length xs) (vals t') = sort xs" by (rule sorted_prefix(2) [OF k']) (simp add: t'_def)
  let ?i = "quantile_index rnd q (length xs)"
  have i: "0 \<le> ?i" "nat ?i < length xs" using quantile_index_bounds [OF r q, of "length xs"] False n by auto
  then have "vals t' ! nat ?i = sort xs ! nat ?i" by (metis s nth_take)
  moreover have "nat ?i < length (vals t')" using i k' by (simp add: keeps_def)
  ultimately have "tracker_query rnd q t = Return (quantile_spec rnd q xs, t')"
    using i n False by (simp add: tracker_query_def t'_def quantile_spec_def Let_def)
  then show ?thesis using k' by (auto simp: t'_def)
qed (use k in \<open>simp add: tracker_query_def keeps_def quantile_spec_def\<close>)

lemma query_all_keeps:
  assumes "rnd_laws rnd" "\<forall>q \<in> set qs. 0 \<le> q \<and> q \<le> 1"
  shows "keeps xs t \<Longrightarrow> \<exists>t'. query_all rnd qs t = Return (map (\<lambda>q. (q, quantile_spec rnd q xs)) qs, t') \<and> keeps xs t' \<and>
    percentiles t' = percentiles t \<and> (qs \<noteq> [] \<longrightarrow> xs \<noteq> [] \<longrightarrow> is_sorted t')"
  using assms(2)
proof (induction qs arbitrary: t)
  case (Cons q qs)
  obtain t1 where t1: "tracker_query rnd q t = Return (quantile_spec rnd q xs, t1)" "keeps xs t1" "percentiles t1 = percentiles t"
    "xs \<noteq> [] \<longrightarrow> is_sorted t1"
    using tracker_query_keeps [OF Cons.prems(1) assms(1), of q] Cons.prems by auto
  from Cons.IH [OF t1(2)] Cons.prems obtain t2 where
    "query_all rnd qs t1 = Return (map (\<lambda>q. (q, quantile_spec rnd q xs)) qs, t2)" "keeps xs t2" "percentiles t2 = percentiles t1"
    "qs \<noteq> [] \<longrightarrow> xs \<noteq> [] \<longrightarrow> is_sorted t2" by auto
  with t1 show ?case by (cases qs) auto
qed simp

text \<open>The first and the last of the sorted values.\<close>

lemma sort_ends:
  fixes xs :: "int list"
  assumes "xs \<noteq> []"
  shows "sort xs ! 0 = Min (set xs)" "sort xs ! (length xs - 1) = Max (set xs)"
proof -
  have "sort xs ! 0 \<in> set xs" "sort xs ! (length xs - 1) \<in> set xs" using assms nth_mem [of _ "sort xs"] by auto
  moreover have "sort xs ! 0 \<le> x" "x \<le> sort xs ! (length xs - 1)" if "x \<in> set xs" for x
  proof -
    from that obtain i where "i < length xs" "x = sort xs ! i" by (metis in_set_conv_nth length_sort set_sort)
    then show "sort xs ! 0 \<le> x" "x \<le> sort xs ! (length xs - 1)" by (auto intro!: sorted_nth_mono)
  qed
  ultimately show "sort xs ! 0 = Min (set xs)" "sort xs ! (length xs - 1) = Max (set xs)" by (auto intro!: Min_eqI [symmetric] Max_eqI [symmetric])
qed

lemma print_keeps:
  assumes k: "keeps xs t" and r: "rnd_laws rnd" and q: "\<forall>q \<in> set (percentiles t). 0 \<le> q \<and> q \<le> 1"
    and p: "percentile_count t = length (percentiles t)" "percentiles t \<noteq> []" and x: "xs \<noteq> []"
  shows "\<exists>t'. tracker_print_results rnd t =
    Return (Some (map (\<lambda>q. (q, quantile_spec rnd q xs)) (percentiles t), length xs, Max (set xs), Min (set xs)), t') \<and> keeps xs t'"
proof -
  from query_all_keeps [OF r q k] obtain t' where
    t': "query_all rnd (percentiles t) t = Return (map (\<lambda>q. (q, quantile_spec rnd q xs)) (percentiles t), t')" "keeps xs t'" "is_sorted t'"
    using p x by auto
  have "take (length xs) (vals t') = sort xs" by (rule sorted_prefix(2) [OF t'(2,3)])
  then have "vals t' ! (length xs - 1) = sort xs ! (length xs - 1)" "vals t' ! 0 = sort xs ! 0"
    using x by (metis nth_take length_greater_0_conv diff_less zero_less_one)+
  then have "vals t' ! (length xs - 1) = Max (set xs)" "vals t' ! 0 = Min (set xs)" using sort_ends [OF x] by simp_all
  then show ?thesis using t' k p x by (auto simp: tracker_print_results_def keeps_def)
qed

section \<open>The contract of tracker.h\<close>

text \<open>
  What a client may expect of any of the three implementations: \<open>keep xs s\<close> says that \<open>xs\<close> have been inserted; up to \<open>bound\<close>
  values can be, and a query answers with one of them, with 0 (no estimate yet) or with -1 (nothing to answer with).
\<close>

fun insert_values :: "(int \<Rightarrow> 's \<Rightarrow> 's result) \<Rightarrow> int list \<Rightarrow> 's \<Rightarrow> 's result" where
  "insert_values ins [] s = Return s"
| "insert_values ins (x # xs) s = (case ins x s of Return s' \<Rightarrow> insert_values ins xs s' | Exit \<Rightarrow> Exit | Undef \<Rightarrow> Undef)"

text \<open>The loops of \<open>verify_percentile_accuracy\<close>: the true and the estimated value of each quantile.\<close>

definition SAMPLE_SIZE :: nat where "SAMPLE_SIZE = 10000"

fun check_quantiles :: "(real \<Rightarrow> real) \<Rightarrow> (real \<Rightarrow> 's \<Rightarrow> (int \<times> 's) result) \<Rightarrow> int list \<Rightarrow> real list \<Rightarrow> 's \<Rightarrow> ((int \<times> int) list \<times> 's) result" where
  "check_quantiles rnd query samples [] s = Return ([], s)"
| "check_quantiles rnd query samples (q # qs) s =
    (let target_index = to_int (rnd (q * real SAMPLE_SIZE)) - 1 in
     if target_index < 0 \<or> nat target_index \<ge> length samples then Undef
     else (case query q s of
             Return (e, s1) \<Rightarrow>
               (case check_quantiles rnd query samples qs s1 of
                  Return (rs, s2) \<Rightarrow> Return ((samples ! nat target_index, e) # rs, s2)
                | Exit \<Rightarrow> Exit
                | Undef \<Rightarrow> Undef)
           | Exit \<Rightarrow> Exit
           | Undef \<Rightarrow> Undef))"

text \<open>\<open>rand\<close> gives the results of the calls of that function, \<open>mem\<close> says whether the samples could be allocated.\<close>

definition verify_percentile_accuracy :: "(real \<Rightarrow> real) \<Rightarrow> (real list \<Rightarrow> 's result) \<Rightarrow> (int \<Rightarrow> 's \<Rightarrow> 's result) \<Rightarrow>
    (real \<Rightarrow> 's \<Rightarrow> (int \<times> 's) result) \<Rightarrow> bool \<Rightarrow> (nat \<Rightarrow> int) \<Rightarrow> real list \<Rightarrow> ((int \<times> int) list \<times> 's) result" where
  "verify_percentile_accuracy rnd init ins query mem rand qs =
    (case init qs of
       Return s \<Rightarrow>
         (let samples = map (\<lambda>i. rand i mod 100000) [0..<SAMPLE_SIZE] in
          if \<not> mem then Undef
          else (case insert_values ins samples s of
                  Return s1 \<Rightarrow> check_quantiles rnd query (sort samples) qs s1
                | Exit \<Rightarrow> Exit
                | Undef \<Rightarrow> Undef))
     | Exit \<Rightarrow> Exit
     | Undef \<Rightarrow> Undef)"

definition test_percentiles :: "real list" where
  "test_percentiles = [0.1, 0.5, 0.9, 0.99, 0.999]"

definition estimates_from :: "int list \<Rightarrow> (int \<times> int) list \<Rightarrow> bool" where
  "estimates_from xs rs \<longleftrightarrow> (\<forall>(a, e) \<in> set rs. a \<in> set xs \<and> e \<in> {-1, 0} \<union> set xs)"

lemma target_index_bounds:
  assumes r: "rnd_laws rnd" and q: "1 / 10000 \<le> q" "q \<le> 1"
  shows "0 \<le> to_int (rnd (q * real SAMPLE_SIZE)) - 1" "nat (to_int (rnd (q * real SAMPLE_SIZE)) - 1) < SAMPLE_SIZE"
proof -
  have "rnd 1 \<le> rnd (q * 10000)" "rnd (q * 10000) \<le> rnd 10000" using q r by (auto simp: rnd_laws_def elim: monoD)
  moreover have "rnd 1 = 1" "rnd 10000 = 10000" using rnd_int [OF r, of 1] rnd_int [OF r, of 10000] by auto
  ultimately have "1 \<le> rnd (q * 10000)" "rnd (q * 10000) \<le> 10000" by auto
  then obtain k where "k = to_int (rnd (q * 10000))" "1 \<le> k" "k \<le> 10000"
    by (simp add: to_int_def le_floor_iff floor_le_iff)
  then show "0 \<le> to_int (rnd (q * real SAMPLE_SIZE)) - 1" "nat (to_int (rnd (q * real SAMPLE_SIZE)) - 1) < SAMPLE_SIZE"
    by (auto simp: SAMPLE_SIZE_def)
qed

locale tracker_contract =
  fixes ins :: "int \<Rightarrow> 's \<Rightarrow> 's result"
    and query :: "real \<Rightarrow> 's \<Rightarrow> (int \<times> 's) result"
    and keep :: "int list \<Rightarrow> 's \<Rightarrow> bool"
    and bound :: nat
  assumes ins_keep: "keep xs s \<Longrightarrow> length xs < bound \<Longrightarrow> \<exists>s'. ins v s = Return s' \<and> keep (xs @ [v]) s'"
    and query_keep: "keep xs s \<Longrightarrow> 0 \<le> q \<Longrightarrow> q \<le> 1 \<Longrightarrow>
      \<exists>e s'. query q s = Return (e, s') \<and> e \<in> {-1, 0} \<union> set xs \<and> keep xs s'"
begin

lemma insert_values_keep:
  "keep xs s \<Longrightarrow> length xs + length ys \<le> bound \<Longrightarrow> \<exists>s'. insert_values ins ys s = Return s' \<and> keep (xs @ ys) s'"
proof (induction ys arbitrary: xs s)
  case (Cons y ys)
  from ins_keep [OF Cons.prems(1), of y] Cons.prems(2) obtain s1 where s1: "ins y s = Return s1" "keep (xs @ [y]) s1" by auto
  from Cons.IH [OF s1(2)] Cons.prems(2) s1(1) show ?case by auto
qed simp

lemma check_quantiles_keep:
  assumes r: "rnd_laws rnd" and n: "length samples = SAMPLE_SIZE"
  shows "keep xs s \<Longrightarrow> \<forall>q \<in> set qs. 1 / 10000 \<le> q \<and> q \<le> 1 \<Longrightarrow>
    \<exists>rs s'. check_quantiles rnd query samples qs s = Return (rs, s') \<and> length rs = length qs \<and>
      (\<forall>(a, e) \<in> set rs. a \<in> set samples \<and> e \<in> {-1, 0} \<union> set xs) \<and> keep xs s'"
proof (induction qs arbitrary: s)
  case (Cons q qs)
  have q: "1 / 10000 \<le> q" "q \<le> 1" "0 \<le> q" using Cons.prems(2) by auto
  from query_keep [OF Cons.prems(1) q(3,2)] obtain e s1 where
    s1: "query q s = Return (e, s1)" "e \<in> {-1, 0} \<union> set xs" "keep xs s1" by blast
  from Cons.IH [OF s1(3)] Cons.prems(2) obtain rs s2 where
    s2: "check_quantiles rnd query samples qs s1 = Return (rs, s2)" "length rs = length qs"
    "\<forall>(a, e) \<in> set rs. a \<in> set samples \<and> e \<in> {-1, 0} \<union> set xs" "keep xs s2" by auto
  note i = target_index_bounds [OF r q(1,2)]
  have "samples ! nat (to_int (rnd (q * real SAMPLE_SIZE)) - 1) \<in> set samples" using i n by simp
  with i n s1 s2 show ?case by (simp add: Let_def)
qed simp

lemma verify_keep:
  assumes r: "rnd_laws rnd" and s: "init qs = Return s" "keep [] s" and b: "SAMPLE_SIZE \<le> bound"
    and q: "\<forall>q \<in> set qs. 1 / 10000 \<le> q \<and> q \<le> 1"
  shows "\<exists>rs s'. verify_percentile_accuracy rnd init ins query True rand qs = Return (rs, s') \<and> length rs = length qs \<and>
    estimates_from (map (\<lambda>i. rand i mod 100000) [0..<SAMPLE_SIZE]) rs"
proof -
  let ?xs = "map (\<lambda>i. rand i mod 100000) [0..<SAMPLE_SIZE]"
  from insert_values_keep [OF s(2), of ?xs] b obtain s1 where s1: "insert_values ins ?xs s = Return s1" "keep ?xs s1" by auto
  from check_quantiles_keep [OF r, of "sort ?xs" ?xs s1 qs] s1(2) q obtain rs s' where
    "check_quantiles rnd query (sort ?xs) qs s1 = Return (rs, s')" "length rs = length qs"
    "\<forall>(a, e) \<in> set rs. a \<in> set ?xs \<and> e \<in> {-1, 0} \<union> set ?xs" by auto
  with s s1 show ?thesis by (simp add: verify_percentile_accuracy_def estimates_from_def Let_def)
qed

end

lemma quantile_spec_in: "rnd_laws rnd \<Longrightarrow> 0 \<le> q \<Longrightarrow> q \<le> 1 \<Longrightarrow> xs \<noteq> [] \<Longrightarrow> length xs \<le> 2 ^ 31 \<Longrightarrow> quantile_spec rnd q xs \<in> set xs"
  using quantile_index_bounds [of rnd q "length xs"] nth_mem [of "nat (quantile_index rnd q (length xs))" "sort xs"]
  by (auto simp: quantile_spec_def)

interpretation exact: tracker_contract "tracker_insert True junk" "tracker_query rnd" 
  "\<lambda>xs t. rnd_laws rnd \<and> keeps xs t \<and> percentiles t = ps \<and> percentile_count t = length ps" "2 ^ 30" for junk rnd ps
proof (unfold_locales, goal_cases)
  case (1 xs t v)
  then show ?case using tracker_insert_keeps [of xs t junk v] by auto
next
  case (2 xs t q)
  then have k: "rnd_laws rnd" "keeps xs t" by auto
  have "length xs \<le> 2 ^ 31" using k(2) by (auto simp: keeps_def INT_MAX_def)
  then have "quantile_spec rnd q xs \<in> {-1, 0} \<union> set xs"
    using quantile_spec_in [OF k(1) 2(2,3)] by (cases "xs = []") (auto simp: quantile_spec_def)
  with tracker_query_keeps [OF k(2,1) 2(2,3)] 2(1) show ?case by auto
qed

section \<open>Properties\<close>

text \<open>Calls of a client between \<open>tracker_init\<close> and \<open>tracker_free\<close>; an insertion carries the memory a reallocation would return.\<close>

datatype tracker_call = Insert "nat \<Rightarrow> int" int | Query real

fun valid_call :: "tracker_call \<Rightarrow> bool" where
  "valid_call (Insert junk v) = True"
| "valid_call (Query q) = (0 \<le> q \<and> q \<le> 1)"

fun run_calls :: "(real \<Rightarrow> real) \<Rightarrow> tracker_call list \<Rightarrow> tracker \<Rightarrow> (int list \<times> tracker) result" where
  "run_calls rnd [] t = Return ([], t)"
| "run_calls rnd (Insert junk v # cs) t =
    (case tracker_insert True junk v t of Return t' \<Rightarrow> run_calls rnd cs t' | Exit \<Rightarrow> Exit | Undef \<Rightarrow> Undef)"
| "run_calls rnd (Query q # cs) t =
    (case tracker_query rnd q t of
       Return (x, t') \<Rightarrow> (case run_calls rnd cs t' of Return (ys, u) \<Rightarrow> Return (x # ys, u) | Exit \<Rightarrow> Exit | Undef \<Rightarrow> Undef)
     | Exit \<Rightarrow> Exit
     | Undef \<Rightarrow> Undef)"

fun spec_calls :: "(real \<Rightarrow> real) \<Rightarrow> tracker_call list \<Rightarrow> int list \<Rightarrow> int list" where
  "spec_calls rnd [] xs = []"
| "spec_calls rnd (Insert junk v # cs) xs = spec_calls rnd cs (xs @ [v])"
| "spec_calls rnd (Query q # cs) xs = quantile_spec rnd q xs # spec_calls rnd cs xs"

lemma run_calls_refine:
  "rnd_laws rnd \<Longrightarrow> keeps xs t \<Longrightarrow> \<forall>c \<in> set cs. valid_call c \<Longrightarrow> length xs + length cs \<le> 2 ^ 30 \<Longrightarrow>
    \<exists>t'. run_calls rnd cs t = Return (spec_calls rnd cs xs, t')"
proof (induction rnd cs xs arbitrary: t rule: spec_calls.induct)
  case (2 rnd junk v cs xs)
  from tracker_insert_keeps [OF "2.prems"(2), of junk v] "2.prems"(4) obtain t1 where
    "tracker_insert True junk v t = Return t1" "keeps (xs @ [v]) t1" by auto
  with "2.IH" [of t1] "2.prems" show ?case by auto
next
  case (3 rnd q cs xs)
  from tracker_query_keeps [OF "3.prems"(2,1), of q] "3.prems"(3) obtain t1 where
    "tracker_query rnd q t = Return (quantile_spec rnd q xs, t1)" "keeps xs t1" by auto
  with "3.IH" [of t1] "3.prems" show ?case by auto
qed simp

lemma init_static: "\<exists>t. tracker_init True True junk ps tracker_static = Return t \<and> keeps [] t \<and> percentiles t = ps \<and> percentile_count t = length ps"
  using tracker_init_keeps [of junk ps] by (simp add: tracker_init_def)


lemma rnd_laws_id: "rnd_laws (\<lambda>x. x)"
  by (simp add: rnd_laws_def mono_def)


lemma quantile_spec_mono:
  assumes "rnd_laws rnd" "0 \<le> p" "p \<le> q" "q \<le> 1" "xs \<noteq> []" "length xs \<le> 2 ^ 31"
  shows "quantile_spec rnd p xs \<le> quantile_spec rnd q xs"
  using quantile_index_mono [OF assms(1-4), of "length xs"] quantile_index_bounds [OF assms(1), of q "length xs"]
    quantile_index_bounds [OF assms(1), of p "length xs"] assms
  by (auto simp: quantile_spec_def intro!: sorted_nth_mono)

lemma quantile_spec_ends:
  assumes r: "rnd_laws rnd" and x: "xs \<noteq> []" "length xs \<le> 2 ^ 31"
  shows "quantile_spec rnd 0 xs = Min (set xs)" "quantile_spec rnd 1 xs = Max (set xs)"
proof -
  have half: "rnd (of_int k / 2) = of_int k / 2" if "\<bar>k\<bar> \<le> 2 ^ 52" for k :: int using r that unfolding rnd_laws_def by blast
  have "rnd 0 = 0" "rnd 0.5 = 0.5" using half [of 0] half [of 1] by auto
  then have "rnd (rnd (0 * real_of_int (int (length xs) - 1)) + 0.5) = 0.5" by (metis mult_zero_left add_0)
  then have "quantile_index rnd 0 (length xs) = to_int 0.5" unfolding quantile_index_def by (simp only:)
  then have "quantile_index rnd 0 (length xs) = 0" by (simp add: to_int_def)
  then show "quantile_spec rnd 0 xs = Min (set xs)" using x sort_ends(1) [of xs] by (simp add: quantile_spec_def)
  let ?n = "int (length xs)"
  have "rnd (real_of_int (?n - 1)) = real_of_int (?n - 1)" using x by (intro rnd_int [OF r]) auto
  moreover have "rnd (real_of_int (2 * ?n - 1) / 2) = real_of_int (2 * ?n - 1) / 2" using x by (intro half) auto
  moreover have "real_of_int (2 * ?n - 1) / 2 = real_of_int (?n - 1) + 0.5" by simp
  ultimately have i: "quantile_index rnd 1 (length xs) = to_int (real_of_int (?n - 1) + 0.5)" by (metis quantile_index_def mult_1)
  have "1 \<le> length xs" using x by (simp add: Suc_le_eq)
  then have "to_int (real_of_int (?n - 1) + 0.5) = ?n - 1" by (simp add: to_int_def floor_eq_iff)
  with i have "nat (quantile_index rnd 1 (length xs)) = length xs - 1" by linarith
  then show "quantile_spec rnd 1 xs = Max (set xs)" using x sort_ends(2) [of xs] by (simp add: quantile_spec_def)
qed

text \<open>
  The report over \<open>xs\<close> (not empty, at most \<open>2^30\<close> values) for any non-empty list of quantiles lists for each of them one of the
  inserted values, never a smaller value for a larger quantile, the minimum for 0 and the maximum for 1, and the true number,
  maximum and minimum of the values.
\<close>

theorem tracker_report:
  assumes "rnd_laws rnd" "xs \<noteq> []" "length xs \<le> 2 ^ 30" "qs \<noteq> []" "\<forall>q \<in> set qs. 0 \<le> q \<and> q \<le> 1"
  shows "\<exists>t0 t t' f. tracker_init True True junk qs tracker_static = Return t0 \<and>
    insert_values (tracker_insert True junk) xs t0 = Return t \<and>
    tracker_print_results rnd t = Return (Some (map (\<lambda>q. (q, f q)) qs, length xs, Max (set xs), Min (set xs)), t') \<and>
    (\<forall>q \<in> set qs. f q \<in> set xs) \<and> (\<forall>p \<in> set qs. \<forall>q \<in> set qs. p \<le> q \<longrightarrow> f p \<le> f q) \<and>
    f 0 = Min (set xs) \<and> f 1 = Max (set xs)"
proof -
  obtain t0 where t0: "tracker_init True True junk qs tracker_static = Return t0" "keeps [] t0" "percentiles t0 = qs" "percentile_count t0 = length qs"
    using init_static by blast
  from exact.insert_values_keep [of rnd "[]" t0 qs xs junk] t0 assms(1,3) obtain t where
    t: "insert_values (tracker_insert True junk) xs t0 = Return t" "keeps xs t" "percentiles t = qs" "percentile_count t = length qs" by auto
  have n: "length xs \<le> 2 ^ 31" using assms(3) by simp
  from print_keeps [OF t(2) assms(1)] t assms obtain t' where
    "tracker_print_results rnd t = Return (Some (map (\<lambda>q. (q, quantile_spec rnd q xs)) qs, length xs, Max (set xs), Min (set xs)), t')" by auto
  then show ?thesis
    using t0 t quantile_spec_in [OF assms(1) _ _ assms(2) n] quantile_spec_mono [OF assms(1) _ _ _ assms(2) n] quantile_spec_ends [OF assms(1,2) n] assms(5)
    by - (rule exI [of _ t0], rule exI [of _ t], rule exI [of _ t'], rule exI [of _ "\<lambda>q. quantile_spec rnd q xs"], auto)
qed

theorem tracker_report_witness:
  "\<exists>t0 t t' a. tracker_init True True (\<lambda>_. 0) [0, 1/2, 1] tracker_static = Return t0 \<and>
    insert_values (tracker_insert True (\<lambda>_. 0)) [30, 10, 20] t0 = Return t \<and>
    tracker_print_results (\<lambda>x. x) t = Return (Some ([(0, 10), (1/2, a), (1, 30)], 3, 30, 10), t') \<and> a \<in> {10, 20, 30}"
proof -
  obtain t0 t t' f where "tracker_init True True (\<lambda>_. 0) [0, 1/2, 1] tracker_static = Return t0"
    "insert_values (tracker_insert True (\<lambda>_. 0)) [30, 10, 20] t0 = Return t"
    "tracker_print_results (\<lambda>x. x) t = Return (Some (map (\<lambda>q. (q, f q)) [0, 1/2, 1], length [30, 10, 20 :: int],
      Max (set [30, 10, 20]), Min (set [30, 10, 20])), t')" "\<forall>q \<in> set [0, 1/2, 1]. f q \<in> set [30, 10, 20]"
    "f 0 = Min (set [30, 10, 20])" "f 1 = Max (set [30, 10, 20])"
    using tracker_report [OF rnd_laws_id, of "[30, 10, 20]" "[0, 1/2, 1]" "\<lambda>_. 0"] by auto
  then show ?thesis by (auto simp: numeral_3_eq_3 simp del: insert_values.simps)
qed

text \<open>The rank the accuracy test compares with differs from the rank the tracker uses, so that it reports errors of an exact tracker.\<close>

lemma test_rank_differs:
  "to_int (0.5 * real SAMPLE_SIZE) - 1 = 4999" "quantile_index (\<lambda>x. x) 0.5 SAMPLE_SIZE = 5000"
  by (simp_all add: to_int_def quantile_index_def SAMPLE_SIZE_def)

end
