(* ===== verification/Tracker_Approx.thy ===== *)
theory Tracker_Approx
  imports Tracker "HOL-Library.Monad_Syntax"
begin

text \<open>
  The two approximate latency trackers of \<open>C/p99\<close> (\<open>tracker2.c\<close> and \<open>tracker3.c\<close>), which keep a few candidates for each percentile.
  They share everything but the tracks; the locale \<open>track_kind\<close> states what a kind of track has to promise for the whole
  tracker to fulfil the contract of \<open>tracker.h\<close>, and is interpreted for both.
\<close>

section \<open>The second tracker: unsorted candidates\<close>

definition MAX_TRACKED :: nat where "MAX_TRACKED = 16"

record track2 =
  quantile2 :: real
  estimate2 :: int
  left_candidates :: "int list"
  right_candidates :: "int list"
  left_index :: int
  right_index :: int
  count_left2 :: int
  count_right2 :: int

text \<open>The parts of \<open>latency_tracker_t\<close>, for either kind of track.\<close>

record 'a latency_tracker =
  tracks :: "'a list"
  track_count :: nat
  total_count :: int
  global_min :: int
  global_max :: int

text \<open>\<open>target_rank\<close>, the quantile of the number of values; \<open>None\<close> when it is no \<open>int\<close>.\<close>

definition target :: "(real \<Rightarrow> real) \<Rightarrow> real \<Rightarrow> int \<Rightarrow> int option" where
  "target rnd q tot =
    (let r = to_int (rnd (q * real_of_int tot)) in if - INT_MAX - 1 \<le> r \<and> r \<le> INT_MAX then Some r else None)"

definition init_track2 :: "real \<Rightarrow> track2" where
  "init_track2 q = \<lparr>quantile2 = q, estimate2 = 0, left_candidates = replicate 8 0, right_candidates = replicate 8 0,
    left_index = 0, right_index = 0, count_left2 = 0, count_right2 = 0\<rparr>"

text \<open>The first entries of the array are replaced; more percentiles than entries are written past its end.\<close>

definition tracker2_init :: "real list \<Rightarrow> track2 latency_tracker \<Rightarrow> track2 latency_tracker result" where
  "tracker2_init ps t =
    (if length ps > MAX_TRACKED then Undef
     else Return (t\<lparr>tracks := map init_track2 ps @ drop (length ps) (tracks t), track_count := length ps, total_count := 0,
                    global_min := LONG_MAX, global_max := 0\<rparr>))"

definition slot :: "int \<Rightarrow> nat" where
  "slot i = nat (i mod 8)"

text \<open>The candidate arrays and counts after a value has been sorted in; \<open>None\<close> when a counter overflows.\<close>

definition place2 :: "int \<Rightarrow> track2 \<Rightarrow> track2 option" where
  "place2 v pt =
    (if v < estimate2 pt then
       (if left_index pt = INT_MAX \<or> count_left2 pt = INT_MAX then None
        else Some (pt\<lparr>left_candidates := (left_candidates pt)[slot (left_index pt) := v], left_index := left_index pt + 1,
                      count_left2 := count_left2 pt + 1\<rparr>))
     else if v > estimate2 pt then
       (if right_index pt = INT_MAX \<or> count_right2 pt = INT_MAX then None
        else Some (pt\<lparr>right_candidates := (right_candidates pt)[slot (right_index pt) := v], right_index := right_index pt + 1,
                      count_right2 := count_right2 pt + 1\<rparr>))
     else Some pt)"

definition estimate_track2 :: "int \<Rightarrow> track2 \<Rightarrow> track2" where
  "estimate_track2 target_rank pt =
    (if count_left2 pt > target_rank \<and> count_left2 pt > 0 then pt\<lparr>estimate2 := left_candidates pt ! slot (left_index pt)\<rparr>
     else if count_left2 pt < target_rank \<and> count_right2 pt > 0 then pt\<lparr>estimate2 := right_candidates pt ! slot (right_index pt)\<rparr>
     else pt)"

definition insert_track2 :: "(real \<Rightarrow> real) \<Rightarrow> int \<Rightarrow> int \<Rightarrow> track2 \<Rightarrow> track2 option" where
  "insert_track2 rnd tot v pt =
    do { pt' \<leftarrow> place2 v pt; target_rank \<leftarrow> target rnd (quantile2 pt') tot; Some (estimate_track2 target_rank pt') }"

text \<open>The frame of \<open>tracker_insert\<close>, the same in both files: the totals, then every track in use.\<close>

fun insert_tracks :: "('a \<Rightarrow> 'a option) \<Rightarrow> nat \<Rightarrow> 'a list \<Rightarrow> 'a list option" where
  "insert_tracks f 0 ts = Some ts"
| "insert_tracks f (Suc n) [] = None"
| "insert_tracks f (Suc n) (pt # ts) = do { pt' \<leftarrow> f pt; ts' \<leftarrow> insert_tracks f n ts; Some (pt' # ts') }"

definition insert_all :: "(int \<Rightarrow> int \<Rightarrow> 'a \<Rightarrow> 'a option) \<Rightarrow> int \<Rightarrow> 'a latency_tracker \<Rightarrow> 'a latency_tracker result" where
  "insert_all f v t =
    (if total_count t = INT_MAX then Undef
     else let tot = total_count t + 1 in
       (case insert_tracks (f tot v) (track_count t) (tracks t) of
          None \<Rightarrow> Undef
        | Some ts \<Rightarrow>
            Return (t\<lparr>total_count := tot, global_min := (if v < global_min t then v else global_min t),
                      global_max := (if v > global_max t then v else global_max t), tracks := ts\<rparr>)))"

definition tracker2_insert :: "(real \<Rightarrow> real) \<Rightarrow> int \<Rightarrow> track2 latency_tracker \<Rightarrow> track2 latency_tracker result" where
  "tracker2_insert rnd = insert_all (insert_track2 rnd)"

definition query_tracks :: "(real \<Rightarrow> real) \<Rightarrow> ('a \<Rightarrow> real) \<Rightarrow> ('a \<Rightarrow> int) \<Rightarrow> real \<Rightarrow> 'a latency_tracker \<Rightarrow> int" where
  "query_tracks rnd quant est q t =
    (case filter (\<lambda>pt. \<bar>rnd (quant pt - q)\<bar> < 1 / 1000000) (take (track_count t) (tracks t)) of [] \<Rightarrow> -1 | pt # _ \<Rightarrow> est pt)"

definition tracker2_query :: "(real \<Rightarrow> real) \<Rightarrow> real \<Rightarrow> track2 latency_tracker \<Rightarrow> int" where
  "tracker2_query rnd = query_tracks rnd quantile2 estimate2"

text \<open>The output of \<open>tracker_print_results\<close>: the estimates, the largest and the smallest value.\<close>

definition print_tracks :: "('a \<Rightarrow> real) \<Rightarrow> (real \<Rightarrow> 'a latency_tracker \<Rightarrow> int) \<Rightarrow> 'a latency_tracker \<Rightarrow> (real \<times> int) list \<times> int \<times> int" where
  "print_tracks quant query t =
    (map (\<lambda>pt. (quant pt, query (quant pt) t)) (take (track_count t) (tracks t)), global_max t, global_min t)"

definition tracker2_print_results :: "(real \<Rightarrow> real) \<Rightarrow> track2 latency_tracker \<Rightarrow> (real \<times> int) list \<times> int \<times> int" where
  "tracker2_print_results rnd = print_tracks quantile2 (tracker2_query rnd)"

section \<open>The third tracker: sorted candidates\<close>

record track3 =
  quantile3 :: real
  estimate3 :: int
  candidates :: "int list"
  count3 :: int
  actual_rank3 :: int
  count_left3 :: int
  count_right3 :: int

text \<open>\<open>tracker_init\<close> does not touch \<open>count\<close> and \<open>actual_rank\<close>, which are zero at the start of the program.\<close>

definition init_track3 :: "real \<Rightarrow> track3 \<Rightarrow> track3" where
  "init_track3 q pt = pt\<lparr>quantile3 := q, estimate3 := 0, candidates := replicate 5 0, count_left3 := 0, count_right3 := 0\<rparr>"

definition tracker3_init :: "real list \<Rightarrow> track3 latency_tracker \<Rightarrow> track3 latency_tracker result" where
  "tracker3_init ps t =
    (if length ps > MAX_TRACKED then Undef
     else Return (t\<lparr>tracks := map2 init_track3 ps (tracks t) @ drop (length ps) (tracks t), track_count := length ps, total_count := 0,
                    global_min := LONG_MAX, global_max := 0\<rparr>))"

text \<open>The new value enters on the left or on the right, the candidate at the other end leaves, and the rest is sorted again.\<close>

definition shift3 :: "int \<Rightarrow> int \<Rightarrow> track3 \<Rightarrow> track3" where
  "shift3 target_rank v pt =
    (let cs = sort (if count_left3 pt > target_rank then v # butlast (candidates pt) else tl (candidates pt) @ [v])
     in pt\<lparr>candidates := cs, estimate3 := cs ! 2\<rparr>)"

definition insert_track3 :: "(real \<Rightarrow> real) \<Rightarrow> int \<Rightarrow> int \<Rightarrow> track3 \<Rightarrow> track3 option" where
  "insert_track3 rnd tot v pt =
    (if count3 pt \<le> 4 then
       (if 0 \<le> count3 pt then Some (pt\<lparr>candidates := (candidates pt)[nat (count3 pt) := v], count3 := count3 pt + 1\<rparr>) else None)
     else
       let pt1 = (if count3 pt = 5
                  then (let cs = sort (candidates pt) in
                        pt\<lparr>count_left3 := 2, count_right3 := 2, actual_rank3 := 2, candidates := cs, estimate3 := cs ! 2\<rparr>)
                  else pt) in
       if count3 pt1 = INT_MAX \<or> (if v < estimate3 pt1 then count_left3 pt1 else count_right3 pt1) = INT_MAX then None
       else
         let pt2 = (if v < estimate3 pt1 then pt1\<lparr>count3 := count3 pt1 + 1, count_left3 := count_left3 pt1 + 1\<rparr>
                    else pt1\<lparr>count3 := count3 pt1 + 1, count_right3 := count_right3 pt1 + 1\<rparr>) in
         do { target_rank \<leftarrow> target rnd (quantile3 pt2) tot; Some (shift3 target_rank v pt2) })"

definition tracker3_insert :: "(real \<Rightarrow> real) \<Rightarrow> int \<Rightarrow> track3 latency_tracker \<Rightarrow> track3 latency_tracker result" where
  "tracker3_insert rnd = insert_all (insert_track3 rnd)"

definition tracker3_query :: "(real \<Rightarrow> real) \<Rightarrow> real \<Rightarrow> track3 latency_tracker \<Rightarrow> int" where
  "tracker3_query rnd = query_tracks rnd quantile3 estimate3"

definition tracker3_print_results :: "(real \<Rightarrow> real) \<Rightarrow> track3 latency_tracker \<Rightarrow> (real \<times> int) list \<times> int \<times> int" where
  "tracker3_print_results rnd = print_tracks quantile3 (tracker3_query rnd)"

section \<open>The contract of the approximate trackers\<close>

lemma target_bounds:
  assumes r: "rnd_laws rnd" and q: "0 \<le> q" "q \<le> 1" and n: "0 \<le> tot" "tot \<le> INT_MAX"
  shows "\<exists>k. target rnd q tot = Some k \<and> 0 \<le> k \<and> k \<le> tot"
proof -
  have "0 \<le> q * real_of_int tot" "q * real_of_int tot \<le> real_of_int tot" using q n by (auto intro: mult_left_le_one_le)
  then have "rnd 0 \<le> rnd (q * real_of_int tot)" "rnd (q * real_of_int tot) \<le> rnd (real_of_int tot)"
    using r by (auto simp: rnd_laws_def elim: monoD)
  moreover have "rnd 0 = 0" "rnd (real_of_int tot) = real_of_int tot" using rnd_int [OF r, of 0] rnd_int [OF r, of tot] n by (auto simp: INT_MAX_def)
  ultimately have "0 \<le> rnd (q * real_of_int tot)" "rnd (q * real_of_int tot) \<le> real_of_int tot" by auto
  then have "0 \<le> to_int (rnd (q * real_of_int tot))" "to_int (rnd (q * real_of_int tot)) \<le> tot" by (auto simp: to_int_def floor_le_iff)
  then show ?thesis using n by (auto simp: target_def Let_def INT_MAX_def)
qed

lemma insert_tracks_nth:
  "\<forall>i < n. \<exists>pt'. f (ts ! i) = Some pt' \<and> P i pt' \<Longrightarrow> n \<le> length ts \<Longrightarrow>
    \<exists>ts'. insert_tracks f n ts = Some ts' \<and> length ts' = length ts \<and> (\<forall>i < n. P i (ts' ! i))"
proof (induction f n ts arbitrary: P rule: insert_tracks.induct)
  case (3 f n pt ts)
  from "3.prems"(1) obtain pt' where pt': "f pt = Some pt'" "P 0 pt'" by auto
  have "\<forall>i < n. \<exists>pt'. f (ts ! i) = Some pt' \<and> P (Suc i) pt'" using "3.prems"(1) by auto
  from "3.IH" [OF pt'(1) this] "3.prems"(2) obtain ts' where
    "insert_tracks f n ts = Some ts'" "length ts' = length ts" "\<forall>i < n. P (Suc i) (ts' ! i)" by auto
  with pt' show ?case by (auto simp: nth_Cons split: nat.split)
qed auto

lemma insert_tracks_ok:
  "\<forall>pt \<in> set (take n ts). \<exists>pt'. f pt = Some pt' \<and> P pt' \<Longrightarrow> n \<le> length ts \<Longrightarrow>
    \<exists>ts'. insert_tracks f n ts = Some ts' \<and> length ts' = length ts \<and> (\<forall>pt \<in> set (take n ts'). P pt)"
  using insert_tracks_nth [of n f ts "\<lambda>_. P"] by (auto simp: all_set_conv_all_nth)

definition keeps_all :: "(int list \<Rightarrow> 'a \<Rightarrow> bool) \<Rightarrow> int list \<Rightarrow> 'a latency_tracker \<Rightarrow> bool" where
  "keeps_all ok xs t \<longleftrightarrow> track_count t \<le> length (tracks t) \<and> total_count t = int (length xs) \<and>
    (\<forall>pt \<in> set (take (track_count t) (tracks t)). ok xs pt) \<and>
    global_max t = foldl max 0 xs \<and> global_min t = foldl min LONG_MAX xs"

locale track_kind =
  fixes ins_track :: "int \<Rightarrow> int \<Rightarrow> 'a \<Rightarrow> 'a option"
    and quant :: "'a \<Rightarrow> real"
    and est :: "'a \<Rightarrow> int"
    and ok :: "int list \<Rightarrow> 'a \<Rightarrow> bool"
    and rnd :: "real \<Rightarrow> real"
  assumes ins_track_ok: "ok xs pt \<Longrightarrow> int (length xs) < INT_MAX \<Longrightarrow> \<exists>pt'. ins_track (int (length xs) + 1) v pt = Some pt' \<and> ok (xs @ [v]) pt'"
    and est_ok: "ok xs pt \<Longrightarrow> est pt \<in> {0} \<union> set xs"
begin

lemma insert_all_keeps:
  assumes k: "keeps_all ok xs t" and n: "int (length xs) < INT_MAX"
  shows "\<exists>t'. insert_all ins_track v t = Return t' \<and> keeps_all ok (xs @ [v]) t'"
proof -
  have "\<forall>pt \<in> set (take (track_count t) (tracks t)). \<exists>pt'. ins_track (int (length xs) + 1) v pt = Some pt' \<and> ok (xs @ [v]) pt'"
    using ins_track_ok [OF _ n] k by (simp add: keeps_all_def)
  from insert_tracks_ok [OF this] k obtain ts where
    ts: "insert_tracks (ins_track (int (length xs) + 1) v) (track_count t) (tracks t) = Some ts" "length ts = length (tracks t)"
    "\<forall>pt \<in> set (take (track_count t) ts). ok (xs @ [v]) pt" by (auto simp: keeps_all_def)
  with k n show ?thesis by (simp add: insert_all_def keeps_all_def Let_def min_def max_def)
qed

lemma query_tracks_keeps:
  assumes k: "keeps_all ok xs t"
  shows "query_tracks rnd quant est q t \<in> {-1, 0} \<union> set xs"
proof (cases "filter (\<lambda>pt. \<bar>rnd (quant pt - q)\<bar> < 1 / 1000000) (take (track_count t) (tracks t))")
  case (Cons pt pts)
  then have "pt \<in> set (filter (\<lambda>pt. \<bar>rnd (quant pt - q)\<bar> < 1 / 1000000) (take (track_count t) (tracks t)))" by simp
  then have "ok xs pt" using k by (simp add: keeps_all_def)
  with est_ok [of xs pt] Cons show ?thesis by (simp add: query_tracks_def)
qed (simp add: query_tracks_def)

end

sublocale track_kind \<subseteq> tracker_contract "insert_all ins_track" "\<lambda>q t. Return (query_tracks rnd quant est q t, t)" "keeps_all ok" "nat INT_MAX"
proof (unfold_locales, goal_cases)
  case (1 xs t v)
  then show ?case by (intro insert_all_keeps) auto
next
  case (2 xs t q)
  then show ?case using query_tracks_keeps [of xs t q] by blast
qed

section \<open>The second tracker keeps the contract\<close>

definition ok2 :: "(real \<Rightarrow> real) \<Rightarrow> int list \<Rightarrow> track2 \<Rightarrow> bool" where
  "ok2 rnd xs pt \<longleftrightarrow> rnd_laws rnd \<and> 0 \<le> quantile2 pt \<and> quantile2 pt \<le> 1 \<and>
    length (left_candidates pt) = 8 \<and> length (right_candidates pt) = 8 \<and>
    0 \<le> left_index pt \<and> left_index pt \<le> int (length xs) \<and> 0 \<le> right_index pt \<and> right_index pt \<le> int (length xs) \<and>
    count_left2 pt = left_index pt \<and> count_right2 pt = right_index pt \<and>
    set (left_candidates pt) \<union> set (right_candidates pt) \<union> {estimate2 pt} \<subseteq> {0} \<union> set xs"

lemma slot_less: "slot i < 8"
  by (simp add: slot_def nat_less_iff)

lemma place2_ok:
  assumes "ok2 rnd xs pt" "int (length xs) < INT_MAX"
  shows "\<exists>pt'. place2 v pt = Some pt' \<and> ok2 rnd (xs @ [v]) pt'"
  using assms set_update_subset_insert [of "left_candidates pt" "slot (left_index pt)" v]
    set_update_subset_insert [of "right_candidates pt" "slot (right_index pt)" v]
  by (auto simp: place2_def ok2_def)

lemma slot_in: "length cs = 8 \<Longrightarrow> set cs \<subseteq> A \<Longrightarrow> cs ! slot i \<in> A"
  using nth_mem [of "slot i" cs] slot_less [of i] by auto

lemma estimate_track2_ok:
  assumes k: "ok2 rnd xs pt"
  shows "ok2 rnd xs (estimate_track2 r pt)"
proof -
  have "left_candidates pt ! slot i \<in> {0} \<union> set xs" "right_candidates pt ! slot i \<in> {0} \<union> set xs" for i
    using k unfolding ok2_def Un_subset_iff by (blast intro: slot_in)+
  with k show ?thesis by (simp add: estimate_track2_def ok2_def)
qed

lemma insert_track2_ok:
  assumes "ok2 rnd xs pt" "int (length xs) < INT_MAX"
  shows "\<exists>pt'. insert_track2 rnd (int (length xs) + 1) v pt = Some pt' \<and> ok2 rnd (xs @ [v]) pt'"
proof -
  from place2_ok [OF assms, of v] obtain p where p: "place2 v pt = Some p" "ok2 rnd (xs @ [v]) p" by auto
  then obtain k where "target rnd (quantile2 p) (int (length xs) + 1) = Some k"
    using target_bounds [of rnd "quantile2 p" "int (length xs) + 1"] assms(2) by (auto simp: ok2_def)
  with p estimate_track2_ok [OF p(2)] show ?thesis by (simp add: insert_track2_def)
qed

interpretation approx2: track_kind "insert_track2 rnd" quantile2 estimate2 "ok2 rnd" rnd for rnd
proof (unfold_locales, goal_cases)
  case (1 xs pt v)
  then show ?case by (rule insert_track2_ok)
next
  case (2 xs pt)
  then show ?case by (auto simp: ok2_def)
qed

text \<open>The statically allocated tracker: all bytes are zero.\<close>

definition g_tracker2 :: "track2 latency_tracker" where
  "g_tracker2 = \<lparr>tracks = replicate MAX_TRACKED (init_track2 0), track_count = 0, total_count = 0, global_min = 0, global_max = 0\<rparr>"

lemma tracker2_init_keeps:
  assumes "rnd_laws rnd" "length qs \<le> MAX_TRACKED" "\<forall>q \<in> set qs. 0 \<le> q \<and> q \<le> 1" "length (tracks t) = MAX_TRACKED"
  shows "\<exists>t'. tracker2_init qs t = Return t' \<and> keeps_all (ok2 rnd) [] t' \<and> tracks t' = map init_track2 qs @ drop (length qs) (tracks t) \<and>
    track_count t' = length qs"
  using assms by (auto simp: tracker2_init_def keeps_all_def ok2_def init_track2_def)

section \<open>The third tracker keeps the contract\<close>

definition ok3 :: "(real \<Rightarrow> real) \<Rightarrow> int list \<Rightarrow> track3 \<Rightarrow> bool" where
  "ok3 rnd xs pt \<longleftrightarrow> rnd_laws rnd \<and> 0 \<le> quantile3 pt \<and> quantile3 pt \<le> 1 \<and> length (candidates pt) = 5 \<and> count3 pt = int (length xs) \<and>
    (if length xs \<le> 5 then set (take (length xs) (candidates pt)) \<subseteq> set xs \<and> estimate3 pt = 0
     else set (candidates pt) \<subseteq> set xs \<and> sorted (candidates pt) \<and> estimate3 pt = candidates pt ! 2 \<and>
       0 \<le> count_left3 pt \<and> 0 \<le> count_right3 pt \<and> count_left3 pt + count_right3 pt = count3 pt - 1)"

lemma shift3_facts:
  assumes "length (candidates pt) = 5" "set (candidates pt) \<subseteq> set xs"
  shows "length (candidates (shift3 k v pt)) = 5" "set (candidates (shift3 k v pt)) \<subseteq> set (xs @ [v])"
    "sorted (candidates (shift3 k v pt))" "estimate3 (shift3 k v pt) = candidates (shift3 k v pt) ! 2"
    "quantile3 (shift3 k v pt) = quantile3 pt" "count3 (shift3 k v pt) = count3 pt"
    "count_left3 (shift3 k v pt) = count_left3 pt" "count_right3 (shift3 k v pt) = count_right3 pt"
  using assms by (auto simp: shift3_def Let_def dest: in_set_butlastD in_set_tlD)

text \<open>The first five values are only stored.\<close>

lemma insert_track3_fill:
  assumes k: "ok3 rnd xs pt" and n: "length xs < 5"
  shows "\<exists>pt'. insert_track3 rnd tot v pt = Some pt' \<and> ok3 rnd (xs @ [v]) pt'"
proof -
  have "take (Suc (length xs)) ((candidates pt)[length xs := v]) = take (length xs) (candidates pt) @ [v]"
    using k n by (simp add: ok3_def take_Suc_conv_app_nth)
  then show ?thesis using k n by (auto simp: insert_track3_def ok3_def)
qed

lemma insert_track3_shift:
  assumes k: "ok3 rnd xs pt" and n: "5 \<le> length xs" "int (length xs) < INT_MAX"
  shows "\<exists>pt'. insert_track3 rnd (int (length xs) + 1) v pt = Some pt' \<and> ok3 rnd (xs @ [v]) pt'"
proof -
  define pt1 where "pt1 = (if count3 pt = 5
    then pt\<lparr>count_left3 := 2, count_right3 := 2, actual_rank3 := 2, candidates := sort (candidates pt), estimate3 := sort (candidates pt) ! 2\<rparr> else pt)"
  define pt2 where "pt2 = (if v < estimate3 pt1 then pt1\<lparr>count3 := count3 pt1 + 1, count_left3 := count_left3 pt1 + 1\<rparr>
    else pt1\<lparr>count3 := count3 pt1 + 1, count_right3 := count_right3 pt1 + 1\<rparr>)"
  have pt1: "length (candidates pt1) = 5" "set (candidates pt1) \<subseteq> set xs" "count3 pt1 = int (length xs)" "quantile3 pt1 = quantile3 pt"
    "0 \<le> count_left3 pt1" "0 \<le> count_right3 pt1" "count_left3 pt1 + count_right3 pt1 = count3 pt1 - 1"
    using k n by (auto simp: pt1_def ok3_def split: if_splits)
  then have pt2: "length (candidates pt2) = 5" "set (candidates pt2) \<subseteq> set xs" "count3 pt2 = int (length xs) + 1" "quantile3 pt2 = quantile3 pt"
    "0 \<le> count_left3 pt2" "0 \<le> count_right3 pt2" "count_left3 pt2 + count_right3 pt2 = count3 pt2 - 1"
    by (auto simp: pt2_def)
  from k n pt2(4) obtain r where r: "target rnd (quantile3 pt2) (int (length xs) + 1) = Some r"
    using target_bounds [of rnd "quantile3 pt" "int (length xs) + 1"] by (auto simp: ok3_def)
  have "count3 pt = int (length xs)" using k by (simp add: ok3_def)
  then have "insert_track3 rnd (int (length xs) + 1) v pt = Some (shift3 r v pt2)"
    using n pt1 r unfolding insert_track3_def Let_def pt1_def [symmetric] pt2_def [symmetric] by auto
  moreover have "ok3 rnd (xs @ [v]) (shift3 r v pt2)"
    using k n pt2 shift3_facts [OF pt2(1,2), of r v] by (auto simp: ok3_def)
  ultimately show ?thesis by blast
qed

interpretation approx3: track_kind "insert_track3 rnd" quantile3 estimate3 "ok3 rnd" rnd for rnd
proof (unfold_locales, goal_cases)
  case (1 xs pt v)
  then show ?case by (cases "length xs < 5") (simp_all add: insert_track3_fill insert_track3_shift)
next
  case (2 xs pt)
  then have "length xs > 5 \<Longrightarrow> candidates pt ! 2 \<in> set xs" using nth_mem [of 2 "candidates pt"] unfolding ok3_def by auto
  with 2 show ?case by (auto simp: ok3_def split: if_splits)
qed

definition g_tracker3 :: "track3 latency_tracker" where
  "g_tracker3 = \<lparr>tracks = replicate MAX_TRACKED \<lparr>quantile3 = 0, estimate3 = 0, candidates = replicate 5 0, count3 = 0, actual_rank3 = 0,
    count_left3 = 0, count_right3 = 0\<rparr>, track_count = 0, total_count = 0, global_min = 0, global_max = 0\<rparr>"

lemma tracker3_init_keeps:
  assumes "rnd_laws rnd" "length qs \<le> MAX_TRACKED" "\<forall>q \<in> set qs. 0 \<le> q \<and> q \<le> 1"
  shows "\<exists>t. tracker3_init qs g_tracker3 = Return t \<and> keeps_all (ok3 rnd) [] t"
  using assms by (auto simp: tracker3_init_def g_tracker3_def keeps_all_def ok3_def init_track3_def set_zip)

section \<open>Properties\<close>

definition test_passes :: "(nat \<Rightarrow> int) \<Rightarrow> real list \<Rightarrow> ((int \<times> int) list \<times> 's) result \<Rightarrow> bool" where
  "test_passes rand qs r \<longleftrightarrow> (\<exists>rs t. r = Return (rs, t) \<and> length rs = length qs \<and>
    estimates_from (map (\<lambda>i. rand i mod 100000) [0..<SAMPLE_SIZE]) rs)"

text \<open>
  With each of the three implementations the accuracy test runs to its end without an overrun or overflow, whatever
  \<open>rand\<close> returns, for up to 16 quantiles between 1/10000 and 1, among them those of \<open>tracker_test.c\<close>; each true value is a sample, and
  each estimate is a sample, 0 or -1.
\<close>

theorem tracker_test_runs:
  assumes r: "rnd_laws rnd" and qs: "length qs \<le> 16" "\<forall>q \<in> set qs. 1 / 10000 \<le> q \<and> q \<le> 1"
  shows "test_passes rand qs (verify_percentile_accuracy rnd (\<lambda>ps. tracker_init True True junk ps tracker_static)
      (tracker_insert True junk) (tracker_query rnd) True rand qs) \<and>
    test_passes rand qs (verify_percentile_accuracy rnd (\<lambda>ps. tracker2_init ps g_tracker2)
      (tracker2_insert rnd) (\<lambda>q t. Return (tracker2_query rnd q t, t)) True rand qs) \<and>
    test_passes rand qs (verify_percentile_accuracy rnd (\<lambda>ps. tracker3_init ps g_tracker3)
      (tracker3_insert rnd) (\<lambda>q t. Return (tracker3_query rnd q t, t)) True rand qs)"
    (is "?exact \<and> ?two \<and> ?three")
proof (intro conjI)
  have q: "\<forall>q \<in> set qs. 0 \<le> q \<and> q \<le> 1" "length qs \<le> MAX_TRACKED" using qs by (auto simp: MAX_TRACKED_def)
  obtain t where "tracker_init True True junk qs tracker_static = Return t" "keeps [] t" "percentiles t = qs" "percentile_count t = length qs"
    using init_static by blast
  then show ?exact unfolding test_passes_def
    using r qs by (intro exact.verify_keep [where s = t and ps = qs and qs = qs]) (auto simp: SAMPLE_SIZE_def)
  obtain t2 where "tracker2_init qs g_tracker2 = Return t2" "keeps_all (ok2 rnd) [] t2"
    using tracker2_init_keeps [OF r q(2,1), of g_tracker2] by (auto simp: g_tracker2_def)
  then show ?two unfolding tracker2_insert_def tracker2_query_def test_passes_def
    using r qs by (intro approx2.verify_keep [where s = t2]) (auto simp: SAMPLE_SIZE_def INT_MAX_def)
  obtain t3 where "tracker3_init qs g_tracker3 = Return t3" "keeps_all (ok3 rnd) [] t3"
    using tracker3_init_keeps [OF r q(2,1)] by auto
  then show ?three unfolding tracker3_insert_def tracker3_query_def test_passes_def
    using r qs by (intro approx3.verify_keep [where s = t3]) (auto simp: SAMPLE_SIZE_def INT_MAX_def)
qed

theorem tracker_test_runs_witness:
  "test_passes (\<lambda>i. int i) test_percentiles (verify_percentile_accuracy (\<lambda>x. x) (\<lambda>ps. tracker2_init ps g_tracker2)
      (tracker2_insert (\<lambda>x. x)) (\<lambda>q t. Return (tracker2_query (\<lambda>x. x) q t, t)) True (\<lambda>i. int i) test_percentiles)"
  using tracker_test_runs [OF rnd_laws_id, of test_percentiles "\<lambda>i. int i"] by (auto simp: test_percentiles_def)

text \<open>While at most seven positive values have been inserted, the slot from which the estimate is read has not been written.\<close>

definition blind :: "nat \<Rightarrow> track2 \<Rightarrow> bool" where
  "blind n pt \<longleftrightarrow> estimate2 pt = 0 \<and> count_left2 pt = 0 \<and> right_index pt = int n \<and> 0 \<le> count_right2 pt \<and> count_right2 pt \<le> int n \<and>
    (\<forall>i < length (right_candidates pt). n \<le> i \<longrightarrow> right_candidates pt ! i = 0) \<and> length (right_candidates pt) = 8 \<and>
    0 \<le> quantile2 pt \<and> quantile2 pt \<le> 1"

lemma insert_track2_blind:
  assumes b: "blind n pt" and r: "rnd_laws rnd" and n: "n < 7" and v: "0 < v"
  shows "\<exists>pt'. insert_track2 rnd (int n + 1) v pt = Some pt' \<and> blind (Suc n) pt'"
proof -
  define p where "p = pt\<lparr>right_candidates := (right_candidates pt)[n := v], right_index := int n + 1, count_right2 := count_right2 pt + 1\<rparr>"
  have "slot (int n) = n" "slot (int n + 1) = Suc n" using n by (auto simp: slot_def)
  then have p: "place2 v pt = Some p" "right_candidates p ! slot (right_index p) = 0" and bp: "blind (Suc n) p"
    using b n v by (auto simp: place2_def blind_def INT_MAX_def p_def nth_list_update)
  from b n obtain k where k: "target rnd (quantile2 p) (int n + 1) = Some k" "0 \<le> k"
    using target_bounds [OF r, of "quantile2 p" "int n + 1"] by (auto simp: INT_MAX_def blind_def p_def)
  have "blind (Suc n) (estimate_track2 k p)" using bp p(2) k(2) by (auto simp: estimate_track2_def blind_def)
  with p(1) k(1) show ?thesis by (simp add: insert_track2_def)
qed

lemma insert_values_blind:
  assumes r: "rnd_laws rnd"
  shows "\<lbrakk>\<forall>i < length qs. blind n (tracks t ! i) \<and> quantile2 (tracks t ! i) = qs ! i; length qs \<le> length (tracks t); track_count t = length qs;
      total_count t = int n; \<forall>x \<in> set xs. 0 < x; n + length xs \<le> 7\<rbrakk> \<Longrightarrow>
    \<exists>t'. insert_values (tracker2_insert rnd) xs t = Return t' \<and> (\<forall>i < length qs. estimate2 (tracks t' ! i) = 0 \<and> quantile2 (tracks t' ! i) = qs ! i) \<and>
      length qs \<le> length (tracks t') \<and> track_count t' = length qs"
proof (induction xs arbitrary: n t)
  case Nil
  then show ?case by (simp add: blind_def)
next
  case (Cons v xs)
  have "\<forall>i < length qs. \<exists>pt'. insert_track2 rnd (int n + 1) v (tracks t ! i) = Some pt' \<and> blind (Suc n) pt' \<and> quantile2 pt' = qs ! i"
  proof (intro allI impI)
    fix i assume "i < length qs"
    then have b: "blind n (tracks t ! i)" "quantile2 (tracks t ! i) = qs ! i" using Cons.prems(1) by auto
    from insert_track2_blind [OF b(1) r, of v] Cons.prems(5,6) obtain pt' where
      pt': "insert_track2 rnd (int n + 1) v (tracks t ! i) = Some pt'" "blind (Suc n) pt'" by auto
    then have "quantile2 pt' = quantile2 (tracks t ! i)" by (auto simp: insert_track2_def estimate_track2_def place2_def split: if_splits)
    with pt' b show "\<exists>pt'. insert_track2 rnd (int n + 1) v (tracks t ! i) = Some pt' \<and> blind (Suc n) pt' \<and> quantile2 pt' = qs ! i" by auto
  qed
  from insert_tracks_nth [OF this Cons.prems(2)] obtain ts where
    ts: "insert_tracks (insert_track2 rnd (int n + 1) v) (length qs) (tracks t) = Some ts" "length ts = length (tracks t)"
    "\<forall>i < length qs. blind (Suc n) (ts ! i) \<and> quantile2 (ts ! i) = qs ! i" by auto
  define t1 where "t1 = t\<lparr>total_count := int n + 1, global_min := (if v < global_min t then v else global_min t),
    global_max := (if v > global_max t then v else global_max t), tracks := ts\<rparr>"
  have "tracker2_insert rnd v t = Return t1"
    using ts(1) Cons.prems(3,4,6) by (simp add: tracker2_insert_def insert_all_def Let_def t1_def INT_MAX_def)
  with Cons.IH [of "Suc n" t1] ts Cons.prems show ?case by (simp add: t1_def)
qed

text \<open>
  The second tracker reads its estimate from the slot behind the value it has just stored: for any quantiles (at most 16) it answers 0 to
  every query until eight positive values have been inserted.
\<close>

theorem tracker2_blind_start:
  assumes "rnd_laws rnd" "length qs \<le> 16" "\<forall>q \<in> set qs. 0 \<le> q \<and> q \<le> 1" "length xs \<le> 7" "\<forall>x \<in> set xs. 0 < x"
  shows "\<exists>t t'. tracker2_init qs g_tracker2 = Return t \<and> insert_values (tracker2_insert rnd) xs t = Return t' \<and>
    (\<forall>q \<in> set qs. tracker2_query rnd q t' = 0)"
proof -
  have n: "length qs \<le> MAX_TRACKED" using assms(2) by (simp add: MAX_TRACKED_def)
  from tracker2_init_keeps [OF assms(1) n assms(3), of g_tracker2] obtain t where
    t: "tracker2_init qs g_tracker2 = Return t" "tracks t = map init_track2 qs @ drop (length qs) (tracks g_tracker2)" "track_count t = length qs"
    "total_count t = 0" by (auto simp: g_tracker2_def keeps_all_def)
  have "\<forall>i < length qs. blind 0 (tracks t ! i) \<and> quantile2 (tracks t ! i) = qs ! i"
    using assms(3) by (simp add: t nth_append blind_def init_track2_def)
  from insert_values_blind [OF assms(1) this, of xs] t assms(4,5) obtain t' where
    t': "insert_values (tracker2_insert rnd) xs t = Return t'" "\<forall>i < length qs. estimate2 (tracks t' ! i) = 0 \<and> quantile2 (tracks t' ! i) = qs ! i"
    "length qs \<le> length (tracks t')" "track_count t' = length qs" by auto
  have "rnd 0 = 0" using rnd_int [OF assms(1), of 0] by simp
  have "tracker2_query rnd q t' = 0" if q: "q \<in> set qs" for q
  proof -
    let ?P = "\<lambda>pt. \<bar>rnd (quantile2 pt - q)\<bar> < 1 / 1000000"
    let ?ts = "take (length qs) (tracks t')"
    from q obtain i where "i < length qs" "qs ! i = q" by (metis in_set_conv_nth)
    moreover have "?ts ! i \<in> set ?ts" using t'(3) \<open>i < length qs\<close> by (intro nth_mem) simp
    ultimately have "?ts ! i \<in> set ?ts" "?P (?ts ! i)" using t' \<open>rnd 0 = 0\<close> by auto
    then obtain pt pts where f: "filter ?P ?ts = pt # pts" by (cases "filter ?P ?ts") (auto simp: filter_empty_conv)
    then have "pt \<in> set ?ts" by (metis filter_is_subset list.set_intros(1) subsetD)
    then have "estimate2 pt = 0" using t'(2,3) by (auto simp: in_set_conv_nth)
    with f t'(4) show ?thesis by (simp add: tracker2_query_def query_tracks_def)
  qed
  with t(1) t'(1) show ?thesis by blast
qed

theorem tracker2_blind_start_witness:
  "\<exists>t t'. tracker2_init [0.5] g_tracker2 = Return t \<and> insert_values (tracker2_insert (\<lambda>x. x)) [100, 100, 100] t = Return t' \<and>
    tracker2_query (\<lambda>x. x) 0.5 t' = 0"
  using tracker2_blind_start [OF rnd_laws_id, of "[0.5]" "[100, 100, 100]"] by (simp del: insert_values.simps)

text \<open>
  \<open>tracker_init\<close> of the third tracker leaves \<open>count\<close> as it is. A tracker that is initialised again after it has seen more than five values
  does not collect five new ones first: it sorts the new values in between the zeros of the cleared array.
\<close>

lemma tracker3_reinit_stale:
  assumes "5 < count3 pt" "count3 pt < INT_MAX" "0 < v" "0 \<le> q" "q \<le> 1" "rnd_laws rnd"
  shows "\<exists>pt'. insert_track3 rnd 1 v (init_track3 q pt) = Some pt' \<and> candidates pt' = [0, 0, 0, 0, v]"
proof -
  obtain k where k: "target rnd q 1 = Some k" "0 \<le> k" using target_bounds [OF assms(6,4,5), of 1] by (auto simp: INT_MAX_def)
  then show ?thesis using assms by (simp add: insert_track3_def init_track3_def shift3_def Let_def INT_MAX_def numeral_eq_Suc)
qed

end
