(* ===== verification/P99.thy ===== *)
theory P99
  imports Tracker
begin

text \<open>
  The latency benchmark \<open>C/p99/main.c\<close>: a number of redis clients, each of which sends its next command when the reply to the last one
  arrives, until the requested number of commands has been executed; the latencies go to the exact tracker.

  hiredis and libevent are the events of the list that \<open>dispatch\<close> consumes: replies (with a flag for a
  reply that is \<open>NULL\<close>), the outcome of a connection attempt, and \<open>SIGINT\<close>. Every event carries the clock readings that its handler
  makes. The commands given to hiredis are logged in \<open>commands\<close>, what is printed at the end in \<open>printed\<close>.
\<close>

text \<open>The figures of \<open>print_results\<close>: seconds, minutes and remaining seconds, commands, commands per second, and the report of the tracker.\<close>

datatype results = Results real int real int "real option" "((real \<times> int) list \<times> nat \<times> int \<times> int) option"

record bench =
  g_total_commands :: int
  g_executed_commands :: int
  g_connections :: int
  start_time :: int
  end_time :: int
  client_start :: "int list"
  track :: tracker
  commands :: "(nat \<times> string) list"
  loop_broken :: bool
  printed :: "results list"

definition print_results :: "(real \<Rightarrow> real) \<Rightarrow> int \<Rightarrow> bench \<Rightarrow> bench result" where
  "print_results rnd now b =
    (let total_time_seconds = rnd (real_of_int (now - start_time b) / 1000000);
         minutes = to_int (rnd (total_time_seconds / 60));
         seconds = rnd (total_time_seconds - real_of_int (minutes * 60));
         commands_per_second = (if total_time_seconds = 0 then None else Some (rnd (real_of_int (g_executed_commands b) / total_time_seconds)))
     in case tracker_print_results rnd (track b) of
          Return (report, t) \<Rightarrow>
            Return (b\<lparr>end_time := now, track := t,
                      printed := printed b @ [Results total_time_seconds minutes seconds (g_executed_commands b) commands_per_second report]\<rparr>)
        | Exit \<Rightarrow> Exit
        | Undef \<Rightarrow> Undef)"

text \<open>\<open>null\<close> says that there is no reply, \<open>now\<close> is the first and \<open>now'\<close> the second reading of the clock.\<close>

definition get_callback :: "(real \<Rightarrow> real) \<Rightarrow> (nat \<Rightarrow> int) \<Rightarrow> nat \<Rightarrow> bool \<Rightarrow> int \<Rightarrow> int \<Rightarrow> bench \<Rightarrow> bench result" where
  "get_callback rnd junk c null now now' b =
    (if null then Return b
     else if c \<ge> length (client_start b) then Undef
     else (case tracker_insert True junk (now - client_start b ! c) (track b) of
             Return t \<Rightarrow>
               (let b1 = b\<lparr>track := t, g_executed_commands := g_executed_commands b + 1\<rparr> in
                if g_executed_commands b1 \<ge> g_total_commands b1
                then (case print_results rnd now' b1 of
                        Return b2 \<Rightarrow> Return (b2\<lparr>loop_broken := True\<rparr>)
                      | Exit \<Rightarrow> Exit
                      | Undef \<Rightarrow> Undef)
                else Return (b1\<lparr>client_start := (client_start b1)[c := now'], commands := commands b1 @ [(c, ''GET test'')]\<rparr>))
           | Exit \<Rightarrow> Exit
           | Undef \<Rightarrow> Undef))"

definition connect_callback :: "bool \<Rightarrow> bench \<Rightarrow> bench" where
  "connect_callback ok b = (if ok then b\<lparr>g_connections := g_connections b - 1\<rparr> else b)"

text \<open>The messages of the two callbacks are left out; that of the disconnection does nothing else.\<close>

definition disconnect_callback :: "bool \<Rightarrow> bench \<Rightarrow> bench" where
  "disconnect_callback ok b = b"

text \<open>\<open>err\<close> is the error flag of the new redis context, \<open>mem\<close> says whether the client could be allocated.\<close>

definition start_client :: "bool \<Rightarrow> bool \<Rightarrow> int \<Rightarrow> bench \<Rightarrow> bench result" where
  "start_client mem err now b =
    (if err then Exit
     else if \<not> mem then Undef
     else Return (b\<lparr>client_start := client_start b @ [now], commands := commands b @ [(length (client_start b), ''GET p99'')]\<rparr>))"

definition signal_handler :: "(real \<Rightarrow> real) \<Rightarrow> int \<Rightarrow> bench \<Rightarrow> bench result" where
  "signal_handler rnd now b =
    (case print_results rnd now b of Return b' \<Rightarrow> Return (b'\<lparr>loop_broken := True\<rparr>) | Exit \<Rightarrow> Exit | Undef \<Rightarrow> Undef)"

text \<open>The options in the order of the command line, with the numbers that \<open>atoi\<close> and \<open>atol\<close> make of their arguments.\<close>

datatype bench_opt = Opt_host string | Opt_port int | Opt_connections int | Opt_commands int | Opt_unknown

record bench_args =
  host :: string
  redis_port :: int
  connections :: int
  total_commands :: int

definition default_args :: bench_args where
  "default_args = \<lparr>host = ''127.0.0.1'', redis_port = 6379, connections = 8, total_commands = 1000000\<rparr>"

fun bench_options :: "bench_opt list \<Rightarrow> bench_args \<Rightarrow> bench_args option" where
  "bench_options [] a = Some a"
| "bench_options (Opt_host h # os) a = bench_options os (a\<lparr>host := h\<rparr>)"
| "bench_options (Opt_port p # os) a = bench_options os (a\<lparr>redis_port := p\<rparr>)"
| "bench_options (Opt_connections n # os) a = bench_options os (a\<lparr>connections := n\<rparr>)"
| "bench_options (Opt_commands n # os) a = (if n \<le> connections a \<or> n \<le> 0 then None else bench_options os (a\<lparr>total_commands := n\<rparr>))"
| "bench_options (Opt_unknown # os) a = None"

definition bench_percentiles :: "real list" where
  "bench_percentiles = [0.5, 0.95, 0.9, 0.99, 0.999, 0.9999]"

text \<open>For each client: whether it could be allocated, the error flag of its redis context, and the time it starts.\<close>

fun start_clients :: "(bool \<times> bool \<times> int) list \<Rightarrow> bench \<Rightarrow> bench result" where
  "start_clients [] b = Return b"
| "start_clients ((mem, err, now) # cs) b =
    (case start_client mem err now b of Return b' \<Rightarrow> start_clients cs b' | Exit \<Rightarrow> Exit | Undef \<Rightarrow> Undef)"

text \<open>\<open>main\<close> from the end of the options to the event loop; \<open>mem\<close> says which of the three allocations succeed.\<close>

definition bench_start :: "bool \<times> bool \<times> bool \<Rightarrow> (nat \<Rightarrow> int) \<Rightarrow> bench_args \<Rightarrow> int \<Rightarrow> (nat \<Rightarrow> bool \<times> bool \<times> int) \<Rightarrow> bench result" where
  "bench_start mem junk a now env =
    (case mem of (mem1, mem2, mem3) \<Rightarrow>
     (case tracker_init mem1 mem2 junk bench_percentiles tracker_static of
       Return t \<Rightarrow>
         (if \<not> mem3 \<and> 0 < connections a then Undef
          else start_clients (map env [0..<nat (connections a)])
            \<lparr>g_total_commands = total_commands a, g_executed_commands = 0, g_connections = connections a, start_time = now, end_time = 0,
             client_start = [], track = t, commands = [], loop_broken = False, printed = []\<rparr>)
     | Exit \<Rightarrow> Exit
     | Undef \<Rightarrow> Undef))"

datatype event = Reply nat bool int int | Connected bool | Disconnected bool | Interrupt int

fun handle_event :: "(real \<Rightarrow> real) \<Rightarrow> (nat \<Rightarrow> int) \<Rightarrow> event \<Rightarrow> bench \<Rightarrow> bench result" where
  "handle_event rnd junk (Reply c null now now') b = get_callback rnd junk c null now now' b"
| "handle_event rnd junk (Connected ok) b = Return (connect_callback ok b)"
| "handle_event rnd junk (Disconnected ok) b = Return (disconnect_callback ok b)"
| "handle_event rnd junk (Interrupt now) b = signal_handler rnd now b"

text \<open>\<open>event_base_dispatch\<close>: the events are handled until the loop is broken.\<close>

fun dispatch :: "(real \<Rightarrow> real) \<Rightarrow> (nat \<Rightarrow> int) \<Rightarrow> event list \<Rightarrow> bench \<Rightarrow> bench result" where
  "dispatch rnd junk [] b = Return b"
| "dispatch rnd junk (e # es) b =
    (if loop_broken b then Return b
     else (case handle_event rnd junk e b of Return b' \<Rightarrow> dispatch rnd junk es b' | Exit \<Rightarrow> Exit | Undef \<Rightarrow> Undef))"

definition bench_main :: "(real \<Rightarrow> real) \<Rightarrow> bool \<times> bool \<times> bool \<Rightarrow> (nat \<Rightarrow> int) \<Rightarrow> bench_opt list \<Rightarrow> int \<Rightarrow> (nat \<Rightarrow> bool \<times> bool \<times> int) \<Rightarrow> event list \<Rightarrow> bench result" where
  "bench_main rnd mem junk os now env es =
    (case bench_options os default_args of
       None \<Rightarrow> Exit
     | Some a \<Rightarrow> (case bench_start mem junk a now env of Return b \<Rightarrow> dispatch rnd junk es b | Exit \<Rightarrow> Exit | Undef \<Rightarrow> Undef))"

section \<open>What the benchmark measures\<close>

text \<open>The latency of each command that was answered: the time from the last command of the client to its reply.\<close>

fun latencies :: "event list \<Rightarrow> int list \<Rightarrow> int list" where
  "latencies [] ts = []"
| "latencies (Reply c null now now' # es) ts = (if null then latencies es ts else (now - ts ! c) # latencies es (ts[c := now']))"
| "latencies (e # es) ts = latencies es ts"

fun from_clients :: "nat \<Rightarrow> event \<Rightarrow> bool" where
  "from_clients n (Reply c null now now') = (c < n)"
| "from_clients n (Connected ok) = True"
| "from_clients n (Disconnected ok) = True"
| "from_clients n (Interrupt now) = False"

text \<open>The state of a running benchmark that has measured \<open>xs\<close>.\<close>

definition measured :: "int list \<Rightarrow> bench \<Rightarrow> bool" where
  "measured xs b \<longleftrightarrow> keeps xs (track b) \<and> percentiles (track b) = bench_percentiles \<and> percentile_count (track b) = length bench_percentiles \<and>
    g_executed_commands b = int (length xs) \<and> \<not> loop_broken b \<and> printed b = [] \<and>
    length (commands b) = length (client_start b) + length xs"

lemma bench_percentiles_ok: "\<forall>q \<in> set bench_percentiles. 0 \<le> q \<and> q \<le> 1" "bench_percentiles \<noteq> []"
  by (auto simp: bench_percentiles_def)

lemma start_clients_ok:
  "\<exists>b'. start_clients (map (\<lambda>t. (True, False, t)) nows) b = Return b' \<and> client_start b' = client_start b @ nows \<and>
    length (commands b') = length (commands b) + length nows \<and> track b' = track b \<and> g_executed_commands b' = g_executed_commands b \<and>
    g_total_commands b' = g_total_commands b \<and> loop_broken b' = loop_broken b \<and> printed b' = printed b"
proof (induction nows arbitrary: b)
  case (Cons t nows)
  show ?case using Cons.IH [of "b\<lparr>client_start := client_start b @ [t], commands := commands b @ [(length (client_start b), ''GET p99'')]\<rparr>"]
    by (auto simp: start_client_def)
qed simp

lemma bench_start_ok:
  "\<exists>b. bench_start (True, True, True) junk a now (\<lambda>i. (True, False, t0 i)) = Return b \<and> measured [] b \<and>
    client_start b = map t0 [0..<nat (connections a)] \<and> g_total_commands b = total_commands a"
proof -
  obtain t where t: "tracker_init True True junk bench_percentiles tracker_static = Return t" "keeps [] t" "percentiles t = bench_percentiles"
    "percentile_count t = length bench_percentiles" using init_static by blast
  from start_clients_ok [of "map t0 [0..<nat (connections a)]" "\<lparr>g_total_commands = total_commands a, g_executed_commands = 0,
      g_connections = connections a, start_time = now, end_time = 0, client_start = [], track = t, commands = [], loop_broken = False, printed = []\<rparr>"]
  obtain b where "start_clients (map (\<lambda>i. (True, False, t0 i)) [0..<nat (connections a)]) \<lparr>g_total_commands = total_commands a, g_executed_commands = 0,
      g_connections = connections a, start_time = now, end_time = 0, client_start = [], track = t, commands = [], loop_broken = False, printed = []\<rparr> = Return b"
    "client_start b = map t0 [0..<nat (connections a)]" "length (commands b) = nat (connections a)" "track b = t" "g_executed_commands b = 0"
    "g_total_commands b = total_commands a" "\<not> loop_broken b" "printed b = []" by (auto simp: comp_def)
  with t show ?thesis by (simp add: bench_start_def measured_def)
qed

text \<open>The report over \<open>xs\<close>.\<close>

definition bench_report :: "(real \<Rightarrow> real) \<Rightarrow> int list \<Rightarrow> (real \<times> int) list \<times> nat \<times> int \<times> int" where
  "bench_report rnd xs = (map (\<lambda>q. (q, quantile_spec rnd q xs)) bench_percentiles, length xs, Max (set xs), Min (set xs))"

text \<open>A benchmark that has ended after measuring \<open>xs\<close> with \<open>n\<close> clients.\<close>

definition reported :: "(real \<Rightarrow> real) \<Rightarrow> nat \<Rightarrow> int list \<Rightarrow> bench \<Rightarrow> bool" where
  "reported rnd n xs b \<longleftrightarrow> loop_broken b \<and> length (commands b) + 1 = n + length xs \<and>
    (\<exists>s m r p. printed b = [Results s m r (int (length xs)) p (Some (bench_report rnd xs))])"

lemma print_results_ok:
  assumes "rnd_laws rnd" "keeps xs (track b)" "xs \<noteq> []" "percentiles (track b) = bench_percentiles" "percentile_count (track b) = length bench_percentiles"
    "g_executed_commands b = int (length xs)" "printed b = []"
  shows "\<exists>b' s m r p. print_results rnd now b = Return b' \<and> printed b' = [Results s m r (int (length xs)) p (Some (bench_report rnd xs))] \<and>
    commands b' = commands b"
proof -
  from print_keeps [OF assms(2,1)] assms bench_percentiles_ok obtain t where
    "tracker_print_results rnd (track b) = Return (Some (bench_report rnd xs), t)" by (auto simp: bench_report_def)
  then show ?thesis using assms(6,7) by (simp add: print_results_def Let_def)
qed

lemma get_callback_measured:
  fixes now now' :: int
  assumes r: "rnd_laws rnd" and m: "measured xs b" and c: "c < length (client_start b)"
    and n: "int (length xs) < g_total_commands b" "g_total_commands b \<le> 2 ^ 30"
  defines "ys \<equiv> xs @ [now - client_start b ! c]"
  shows "\<exists>b'. get_callback rnd junk c False now now' b = Return b' \<and>
    (if int (length ys) = g_total_commands b then reported rnd (length (client_start b)) ys b'
     else measured ys b' \<and> client_start b' = (client_start b)[c := now'] \<and> g_total_commands b' = g_total_commands b)"
proof -
  from tracker_insert_keeps [of xs "track b" junk "now - client_start b ! c"] m n obtain t where
    t: "tracker_insert True junk (now - client_start b ! c) (track b) = Return t" "keeps ys t" "percentiles t = percentiles (track b)"
    "percentile_count t = percentile_count (track b)" by (auto simp: measured_def ys_def)
  show ?thesis
  proof (cases "int (length ys) = g_total_commands b")
    case True
    with t m r c print_results_ok [of rnd ys "b\<lparr>track := t, g_executed_commands := g_executed_commands b + 1\<rparr>" now'] show ?thesis
      by (auto simp: get_callback_def measured_def reported_def ys_def)
  next
    case False
    with t m c n show ?thesis by (auto simp: get_callback_def measured_def ys_def)
  qed
qed

lemma dispatch_broken: "loop_broken b \<Longrightarrow> dispatch rnd junk es b = Return b"
  by (cases es) auto

text \<open>A reply ends the benchmark or leaves it running with one more latency.\<close>

lemma reply_cases:
  assumes "rnd_laws rnd" "tot \<le> 2 ^ 30" "measured xs b" "g_total_commands b = int tot" "length xs < tot" "c < length (client_start b)"
  obtains (finished) b' where "get_callback rnd junk c False now now' b = Return b'" "length xs + 1 = tot"
      "reported rnd (length (client_start b)) (xs @ [now - client_start b ! c]) b'" "loop_broken b'"
  | (running) b' where "get_callback rnd junk c False now now' b = Return b'" "length xs + 1 < tot" "measured (xs @ [now - client_start b ! c]) b'"
      "client_start b' = (client_start b)[c := now']" "g_total_commands b' = int tot"
proof -
  from get_callback_measured [OF assms(1,3,6), of junk now now'] assms(2,4,5) obtain b' where
    "get_callback rnd junk c False now now' b = Return b'"
    "if length xs + 1 = tot then reported rnd (length (client_start b)) (xs @ [now - client_start b ! c]) b'
     else measured (xs @ [now - client_start b ! c]) b' \<and> client_start b' = (client_start b)[c := now'] \<and> g_total_commands b' = g_total_commands b"
    by auto
  then show thesis using that assms(4,5) by (cases "length xs + 1 = tot") (auto simp: reported_def)
qed

lemma dispatch_measured:
  assumes "rnd_laws rnd" "tot \<le> 2 ^ 30"
  shows "\<lbrakk>measured xs b; g_total_commands b = int tot; length xs < tot; \<forall>e \<in> set es. from_clients (length (client_start b)) e;
      tot \<le> length (xs @ latencies es (client_start b))\<rbrakk> \<Longrightarrow>
    \<exists>b'. dispatch rnd junk es b = Return b' \<and> reported rnd (length (client_start b)) (take tot (xs @ latencies es (client_start b))) b'"
proof (induction es arbitrary: xs b)
  case (Cons e es)
  have nb: "\<not> loop_broken b" using Cons.prems(1) by (simp add: measured_def)
  show ?case
  proof (cases e)
    case (Reply c null now now')
    show ?thesis
    proof (cases null)
      case True
      with Reply nb Cons.IH [OF Cons.prems(1-3)] Cons.prems(4,5) show ?thesis by (simp add: get_callback_def)
    next
      case False
      have c: "c < length (client_start b)" using Cons.prems(4) Reply by simp
      from assms Cons.prems(1-3) c show ?thesis
      proof (cases rule: reply_cases [where junk = junk and now = now and now' = now'])
        case (finished b')
        then have "take tot (xs @ latencies (e # es) (client_start b)) = xs @ [now - client_start b ! c]" using Reply False by auto
        with finished nb Reply False show ?thesis by (simp add: dispatch_broken)
      next
        case (running b')
        with Cons.IH [of "xs @ [now - client_start b ! c]" b'] Cons.prems(4,5) nb Reply False show ?thesis by simp
      qed
    qed
  next
    case (Connected ok)
    have "measured xs (connect_callback ok b)" "client_start (connect_callback ok b) = client_start b"
      "g_total_commands (connect_callback ok b) = g_total_commands b" using Cons.prems(1) by (auto simp: connect_callback_def measured_def)
    with Cons.IH [of xs "connect_callback ok b"] Connected nb Cons.prems show ?thesis by simp
  next
    case (Disconnected ok)
    with Cons.IH [OF Cons.prems(1-3)] nb Cons.prems(4,5) show ?thesis by (simp add: disconnect_callback_def)
  next
    case (Interrupt now)
    then show ?thesis using Cons.prems(4) by simp
  qed
qed simp

lemma options_positive: "bench_options os a = Some a' \<Longrightarrow> 0 < total_commands a \<Longrightarrow> 0 < total_commands a'"
  by (induction os a rule: bench_options.induct) (auto split: if_splits)

text \<open>
  C22. The program, started with options that it accepts and a total command count \<open>n\<close> (at most \<open>2^30\<close>), when clients can be started and are not interrupted, ends with the \<open>n\<close>-th
  reply, whatever order the replies of the clients come in and however many replies are missing: it prints once, with \<open>n\<close> executed
  commands, the exact percentiles, number, maximum and minimum of the first \<open>n\<close> latencies, each measured from the last command of the client that
  gets the reply; it has then sent one command less than clients and replies together.
\<close>

theorem benchmark_reports:
  assumes "rnd_laws rnd" "bench_options os default_args = Some a" "total_commands a \<le> 2 ^ 30"
    "\<forall>e \<in> set es. from_clients (nat (connections a)) e"
    "total_commands a \<le> int (length (latencies es (map t0 [0..<nat (connections a)])))"
  shows "\<exists>b. bench_main rnd (True, True, True) junk os now (\<lambda>i. (True, False, t0 i)) es = Return b \<and>
    reported rnd (nat (connections a)) (take (nat (total_commands a)) (latencies es (map t0 [0..<nat (connections a)]))) b"
proof -
  have pos: "0 < total_commands a" by (rule options_positive [OF assms(2)]) (simp add: default_args_def)
  from bench_start_ok [of junk a now t0] obtain b where b: "bench_start (True, True, True) junk a now (\<lambda>i. (True, False, t0 i)) = Return b"
    "measured [] b" "client_start b = map t0 [0..<nat (connections a)]" "g_total_commands b = total_commands a" by blast
  have "\<exists>b'. dispatch rnd junk es b = Return b' \<and> reported rnd (length (client_start b)) (take (nat (total_commands a)) ([] @ latencies es (client_start b))) b'"
    using assms pos b by (intro dispatch_measured) auto
  then show ?thesis using b assms(2) by (auto simp: bench_main_def)
qed

theorem benchmark_reports_witness:
  "\<exists>b. bench_main (\<lambda>x. x) (True, True, True) (\<lambda>_. 0) [Opt_connections 2, Opt_commands 3] 0 (\<lambda>i. (True, False, int i))
      [Reply 1 False 11 20, Reply 0 True 12 12, Connected True, Reply 0 False 30 40, Reply 1 False 25 60, Reply 0 False 70 80] = Return b \<and>
    reported (\<lambda>x. x) 2 [10, 30, 5] b"
  using benchmark_reports [OF rnd_laws_id, of "[Opt_connections 2, Opt_commands 3]" "default_args\<lparr>connections := 2, total_commands := 3\<rparr>"
      "[Reply 1 False 11 20, Reply 0 True 12 12, Connected True, Reply 0 False 30 40, Reply 1 False 25 60, Reply 0 False 70 80]" int "\<lambda>_. 0" 0]
  by (simp add: upt_rec default_args_def)

text \<open>The check of \<open>-n\<close> compares with the connections known so far; a later \<open>-c\<close> is not checked.\<close>

lemma options_order:
  "\<exists>a. bench_options [Opt_commands 10, Opt_connections 20] default_args = Some a \<and> total_commands a < connections a"
  "bench_options [Opt_connections 20, Opt_commands 10] default_args = None"
  by (simp_all add: default_args_def)

end
