(* ===== verification/Fsm.thy ===== *)
theory Fsm
  imports Prelude
begin

text \<open>
  The state machines of \<open>C/FSM\<close>: the machines for the three kinds of processes of a parallel I/O library
  (\<open>cfio3_FSM.cpp\<close>, \<open>cfio3_FSM.h\<close>) and the table-driven machine of \<open>FSM_c.c\<close>.

  The codes of process kinds and messages come from \<open>global.h\<close>, which is not part of the repository, so they are a parameter
  (\<open>sm_codes\<close>); \<open>codes_distinct\<close> says that the codes of different messages differ. Debug output is left out.
\<close>

section \<open>Process state machines\<close>

record sm_codes =
  proc_client :: int
  proc_master :: int
  proc_server :: int
  msg_exit :: int
  msg_data :: int
  msg_create_file_begin :: int
  msg_create_file_end :: int
  msg_data_get_end :: int
  msg_data_write_begin :: int
  msg_data_write_end :: int

definition codes_distinct :: "sm_codes \<Rightarrow> bool" where
  "codes_distinct k \<longleftrightarrow> distinct [msg_exit k, msg_data k, msg_create_file_begin k, msg_create_file_end k, msg_data_get_end k,
    msg_data_write_begin k, msg_data_write_end k]"

definition c_SM_init :: u8 where "c_SM_init = 10"
definition c_SM_work :: u8 where "c_SM_work = 11"
definition c_SM_wait :: u8 where "c_SM_wait = 12"
definition c_SM_finish :: u8 where "c_SM_finish = 13"
definition c_SM_error :: u8 where "c_SM_error = 14"

definition m_SM_init :: u8 where "m_SM_init = 20"
definition m_SM_wait :: u8 where "m_SM_wait = 21"
definition m_SM_work :: u8 where "m_SM_work = 22"
definition m_SM_finish :: u8 where "m_SM_finish = 23"
definition m_SM_error :: u8 where "m_SM_error = 24"

definition s_SM_init :: u8 where "s_SM_init = 30"
definition s_SM_wait :: u8 where "s_SM_wait = 31"
definition s_SM_work :: u8 where "s_SM_work = 32"
definition s_SM_finish :: u8 where "s_SM_finish = 33"
definition s_SM_error :: u8 where "s_SM_error = 34"

lemmas client_codes = c_SM_init_def c_SM_work_def c_SM_wait_def c_SM_finish_def c_SM_error_def
lemmas master_codes = m_SM_init_def m_SM_wait_def m_SM_work_def m_SM_finish_def m_SM_error_def
lemmas server_codes = s_SM_init_def s_SM_wait_def s_SM_work_def s_SM_finish_def s_SM_error_def
lemmas state_codes = client_codes master_codes server_codes

text \<open>\<open>message\<close> are the 256 bytes of the array.\<close>

record SM_VAR =
  rank :: int
  procs_type :: int
  state :: u8
  message :: "u8 list"

definition strncpy256 :: "u8 list \<Rightarrow> u8 list" where
  "strncpy256 src = take 256 src @ replicate (256 - length src) 0"

text \<open>\<open>SM_init\<close>; \<open>None\<close> is the result \<open>NULL\<close>, where the new object is lost.\<close>

definition SM_init :: "sm_codes \<Rightarrow> int \<Rightarrow> int \<Rightarrow> u8 list \<Rightarrow> SM_VAR option" where
  "SM_init k rnk ty msg =
    (let var = \<lparr>rank = rnk, procs_type = ty, state = 0, message = strncpy256 msg\<rparr> in
     if proc_client k = ty then Some (var\<lparr>state := c_SM_init\<rparr>)
     else if proc_master k = ty then Some (var\<lparr>state := m_SM_init\<rparr>)
     else if proc_server k = ty then Some (var\<lparr>state := s_SM_init\<rparr>)
     else None)"

text \<open>The result -1 is converted to \<open>unsigned char\<close>.\<close>

definition SM_get_state :: "SM_VAR \<Rightarrow> u8" where
  "SM_get_state var = (if rank var \<ge> 0 then state var else -1)"

subsection \<open>Transitions\<close>

definition with_note :: "string \<Rightarrow> SM_VAR \<Rightarrow> SM_VAR" where
  "with_note txt var = var\<lparr>message := strncpy256 (bytes txt)\<rparr>"

definition client_SM_anyone2error :: "SM_VAR \<Rightarrow> SM_VAR" where
  "client_SM_anyone2error var = var\<lparr>state := c_SM_error\<rparr>"

definition client_SM_init2wait :: "SM_VAR \<Rightarrow> SM_VAR" where
  "client_SM_init2wait var =
    (if c_SM_init = state var then var\<lparr>state := c_SM_wait\<rparr> else client_SM_anyone2error (with_note ''init -> wait'' var))"

definition client_SM_wait2work :: "SM_VAR \<Rightarrow> SM_VAR" where
  "client_SM_wait2work var =
    (if c_SM_wait = state var then var\<lparr>state := c_SM_work\<rparr> else client_SM_anyone2error (with_note ''wait -> work'' var))"

definition client_SM_work2wait :: "SM_VAR \<Rightarrow> SM_VAR" where
  "client_SM_work2wait var =
    (if c_SM_work = state var then var\<lparr>state := c_SM_wait\<rparr> else client_SM_anyone2error (with_note ''work -> wait'' var))"

definition client_SM_work2finish :: "SM_VAR \<Rightarrow> SM_VAR" where
  "client_SM_work2finish var =
    (if c_SM_work = state var then var\<lparr>state := c_SM_finish\<rparr> else client_SM_anyone2error (with_note ''work -> finish'' var))"

definition client_SM_error2init :: "SM_VAR \<Rightarrow> SM_VAR" where
  "client_SM_error2init var =
    (if c_SM_error = state var then with_note ''client'' (var\<lparr>state := c_SM_init\<rparr>)
     else client_SM_anyone2error (with_note ''error -> init'' var))"

definition master_SM_anyone2error :: "SM_VAR \<Rightarrow> SM_VAR" where
  "master_SM_anyone2error var = var\<lparr>state := m_SM_error\<rparr>"

definition master_SM_init2wait :: "SM_VAR \<Rightarrow> SM_VAR" where
  "master_SM_init2wait var =
    (if m_SM_init = state var then var\<lparr>state := m_SM_wait\<rparr> else master_SM_anyone2error (with_note ''init -> wait'' var))"

definition master_SM_wait2work :: "SM_VAR \<Rightarrow> SM_VAR" where
  "master_SM_wait2work var =
    (if m_SM_wait = state var then var\<lparr>state := m_SM_work\<rparr> else master_SM_anyone2error (with_note ''wait -> work'' var))"

definition master_SM_work2wait :: "SM_VAR \<Rightarrow> SM_VAR" where
  "master_SM_work2wait var =
    (if m_SM_work = state var then var\<lparr>state := m_SM_wait\<rparr> else master_SM_anyone2error (with_note ''work -> wait'' var))"

definition master_SM_work2finish :: "SM_VAR \<Rightarrow> SM_VAR" where
  "master_SM_work2finish var =
    (if m_SM_work = state var then var\<lparr>state := m_SM_finish\<rparr> else master_SM_anyone2error (with_note ''work -> finish'' var))"

definition master_SM_error2init :: "SM_VAR \<Rightarrow> SM_VAR" where
  "master_SM_error2init var =
    (if m_SM_error = state var then with_note ''master'' (var\<lparr>state := m_SM_init\<rparr>)
     else master_SM_anyone2error (with_note ''error -> init'' var))"

definition server_SM_anyone2error :: "SM_VAR \<Rightarrow> SM_VAR" where
  "server_SM_anyone2error var = var\<lparr>state := s_SM_error\<rparr>"

definition server_SM_init2wait :: "SM_VAR \<Rightarrow> SM_VAR" where
  "server_SM_init2wait var =
    (if s_SM_init = state var then (with_note ''init -> wait'' var)\<lparr>state := s_SM_wait\<rparr> else server_SM_anyone2error var)"

definition server_SM_wait2work :: "SM_VAR \<Rightarrow> SM_VAR" where
  "server_SM_wait2work var =
    (if s_SM_wait = state var then var\<lparr>state := s_SM_work\<rparr> else server_SM_anyone2error (with_note ''wait -> work'' var))"

definition server_SM_work2wait :: "SM_VAR \<Rightarrow> SM_VAR" where
  "server_SM_work2wait var =
    (if s_SM_work = state var then var\<lparr>state := s_SM_wait\<rparr> else server_SM_anyone2error (with_note ''work -> wait'' var))"

definition server_SM_wait2finish :: "SM_VAR \<Rightarrow> SM_VAR" where
  "server_SM_wait2finish var =
    (if s_SM_wait = state var then var\<lparr>state := s_SM_finish\<rparr> else server_SM_anyone2error (with_note ''work -> finish'' var))"

definition server_SM_error2init :: "SM_VAR \<Rightarrow> SM_VAR" where
  "server_SM_error2init var =
    (if s_SM_error = state var then with_note ''server'' (var\<lparr>state := s_SM_init\<rparr>)
     else server_SM_anyone2error (with_note ''error -> init'' var))"

text \<open>The transition tables of the header.\<close>

definition client_SM_steps :: "(SM_VAR \<Rightarrow> SM_VAR) list" where
  "client_SM_steps = [client_SM_init2wait, client_SM_wait2work, client_SM_work2wait, client_SM_work2finish,
    client_SM_anyone2error, client_SM_error2init]"

definition master_SM_steps :: "(SM_VAR \<Rightarrow> SM_VAR) list" where
  "master_SM_steps = [master_SM_init2wait, master_SM_wait2work, master_SM_work2wait, master_SM_work2finish,
    master_SM_anyone2error, master_SM_error2init]"

definition server_SM_steps :: "(SM_VAR \<Rightarrow> SM_VAR) list" where
  "server_SM_steps = [server_SM_init2wait, server_SM_wait2work, server_SM_work2wait, server_SM_wait2finish,
    server_SM_anyone2error, server_SM_error2init]"

subsection \<open>Inputs\<close>

definition SM_C_input :: "sm_codes \<Rightarrow> int \<Rightarrow> SM_VAR \<Rightarrow> SM_VAR" where
  "SM_C_input k ty v =
    (let st = SM_get_state v in
     if st = c_SM_init then
       (let v1 = client_SM_init2wait v in
        if msg_exit k = ty then client_SM_work2finish (client_SM_wait2work v1) else v1)
     else if st = c_SM_wait then
       (if ty = msg_create_file_end k \<or> ty = msg_data_get_end k \<or> ty = msg_data_write_end k
        then client_SM_wait2work v else client_SM_anyone2error v)
     else if st = c_SM_work then
       (if ty = msg_data k \<or> ty = msg_create_file_begin k \<or> ty = msg_data_write_begin k then client_SM_work2wait v
        else if ty = msg_exit k then client_SM_work2finish v
        else client_SM_anyone2error v)
     else v)"

definition SM_M_input :: "sm_codes \<Rightarrow> int \<Rightarrow> SM_VAR \<Rightarrow> SM_VAR" where
  "SM_M_input k ty v =
    (let st = SM_get_state v in
     if st = m_SM_init then
       (let v1 = master_SM_init2wait v in
        if msg_exit k = ty then master_SM_work2finish (master_SM_wait2work v1) else v1)
     else if st = m_SM_wait then master_SM_wait2work v
     else if st = m_SM_work then (if ty = msg_exit k then master_SM_work2finish v else master_SM_work2wait v)
     else v)"

definition SM_S_input :: "sm_codes \<Rightarrow> int \<Rightarrow> SM_VAR \<Rightarrow> SM_VAR" where
  "SM_S_input k ty v =
    (let st = SM_get_state v in
     if st = s_SM_init then
       (let v1 = server_SM_init2wait v in if msg_exit k = ty then server_SM_wait2finish v1 else v1)
     else if st = s_SM_wait then
       (if msg_exit k = ty then server_SM_wait2finish v
        else if ty = msg_data k \<or> ty = msg_create_file_begin k \<or> ty = msg_data_write_begin k then server_SM_wait2work v
        else server_SM_anyone2error v)
     else if st = s_SM_work then
       (if ty = msg_create_file_end k \<or> ty = msg_data_get_end k \<or> ty = msg_data_write_end k then server_SM_work2wait v
        else server_SM_anyone2error v)
     else v)"

section \<open>What the machines promise\<close>

text \<open>The abstract machines: phases, classes of messages, and one step function per kind of process.\<close>

datatype phase = Init | Wait | Work | Finish | Error

datatype msg_class = Exit | Begin | End | Other

definition classify :: "sm_codes \<Rightarrow> int \<Rightarrow> msg_class" where
  "classify k ty =
    (if ty = msg_exit k then Exit
     else if ty \<in> {msg_data k, msg_create_file_begin k, msg_data_write_begin k} then Begin
     else if ty \<in> {msg_create_file_end k, msg_data_get_end k, msg_data_write_end k} then End
     else Other)"

lemma classify_iff:
  assumes "codes_distinct k"
  shows "ty = msg_exit k \<longleftrightarrow> classify k ty = Exit" "msg_exit k = ty \<longleftrightarrow> classify k ty = Exit"
    "ty = msg_data k \<or> ty = msg_create_file_begin k \<or> ty = msg_data_write_begin k \<longleftrightarrow> classify k ty = Begin"
    "ty = msg_create_file_end k \<or> ty = msg_data_get_end k \<or> ty = msg_data_write_end k \<longleftrightarrow> classify k ty = End"
proof -
  show e: "ty = msg_exit k \<longleftrightarrow> classify k ty = Exit" by (simp add: classify_def)
  then show "msg_exit k = ty \<longleftrightarrow> classify k ty = Exit" by metis
  show "ty = msg_data k \<or> ty = msg_create_file_begin k \<or> ty = msg_data_write_begin k \<longleftrightarrow> classify k ty = Begin"
  proof (cases "ty \<in> {msg_data k, msg_create_file_begin k, msg_data_write_begin k}")
    case True
    then have "ty \<noteq> msg_exit k" using assms unfolding codes_distinct_def by auto
    with True show ?thesis by (simp add: classify_def)
  qed (simp add: classify_def)
  show "ty = msg_create_file_end k \<or> ty = msg_data_get_end k \<or> ty = msg_data_write_end k \<longleftrightarrow> classify k ty = End"
  proof (cases "ty \<in> {msg_create_file_end k, msg_data_get_end k, msg_data_write_end k}")
    case True
    then have "ty \<noteq> msg_exit k" "ty \<notin> {msg_data k, msg_create_file_begin k, msg_data_write_begin k}"
      using assms unfolding codes_distinct_def by auto
    with True show ?thesis by (simp add: classify_def)
  qed (simp add: classify_def)
qed

fun client_spec :: "msg_class \<Rightarrow> phase \<Rightarrow> phase" where
  "client_spec m Init = (if m = Exit then Finish else Wait)"
| "client_spec m Wait = (if m = End then Work else Error)"
| "client_spec m Work = (case m of Begin \<Rightarrow> Wait | Exit \<Rightarrow> Finish | _ \<Rightarrow> Error)"
| "client_spec m Finish = Finish"
| "client_spec m Error = Error"

fun master_spec :: "msg_class \<Rightarrow> phase \<Rightarrow> phase" where
  "master_spec m Init = (if m = Exit then Finish else Wait)"
| "master_spec m Wait = Work"
| "master_spec m Work = (if m = Exit then Finish else Wait)"
| "master_spec m Finish = Finish"
| "master_spec m Error = Error"

fun server_spec :: "msg_class \<Rightarrow> phase \<Rightarrow> phase" where
  "server_spec m Init = (if m = Exit then Finish else Wait)"
| "server_spec m Wait = (case m of Exit \<Rightarrow> Finish | Begin \<Rightarrow> Work | _ \<Rightarrow> Error)"
| "server_spec m Work = (if m = End then Wait else Error)"
| "server_spec m Finish = Finish"
| "server_spec m Error = Error"

fun client_code :: "phase \<Rightarrow> u8" where
  "client_code Init = c_SM_init" | "client_code Wait = c_SM_wait" | "client_code Work = c_SM_work"
| "client_code Finish = c_SM_finish" | "client_code Error = c_SM_error"

fun master_code :: "phase \<Rightarrow> u8" where
  "master_code Init = m_SM_init" | "master_code Wait = m_SM_wait" | "master_code Work = m_SM_work"
| "master_code Finish = m_SM_finish" | "master_code Error = m_SM_error"

fun server_code :: "phase \<Rightarrow> u8" where
  "server_code Init = s_SM_init" | "server_code Wait = s_SM_wait" | "server_code Work = s_SM_work"
| "server_code Finish = s_SM_finish" | "server_code Error = s_SM_error"

text \<open>A variable in a phase: a valid rank, the phase's code as its state, and all 256 bytes of the message in place.\<close>

definition in_phase :: "(phase \<Rightarrow> u8) \<Rightarrow> SM_VAR \<Rightarrow> phase \<Rightarrow> bool" where
  "in_phase code v p \<longleftrightarrow> 0 \<le> rank v \<and> state v = code p \<and> length (message v) = 256"

lemma length_strncpy256 [simp]: "length (strncpy256 src) = 256"
  by (simp add: strncpy256_def)

definition run_inputs :: "(int \<Rightarrow> SM_VAR \<Rightarrow> SM_VAR) \<Rightarrow> int list \<Rightarrow> SM_VAR \<Rightarrow> SM_VAR" where
  "run_inputs input ms v = fold input ms v"

definition run_spec :: "(msg_class \<Rightarrow> phase \<Rightarrow> phase) \<Rightarrow> sm_codes \<Rightarrow> int list \<Rightarrow> phase \<Rightarrow> phase" where
  "run_spec spec k ms p = fold spec (map (classify k) ms) p"

text \<open>The contract of an input function, and what follows for runs: it implements its abstract machine.\<close>

locale process_machine =
  fixes input :: "sm_codes \<Rightarrow> int \<Rightarrow> SM_VAR \<Rightarrow> SM_VAR"
    and spec :: "msg_class \<Rightarrow> phase \<Rightarrow> phase"
    and code :: "phase \<Rightarrow> u8"
  assumes step: "codes_distinct k \<Longrightarrow> in_phase code v p \<Longrightarrow> in_phase code (input k ty v) (spec (classify k ty) p)"
    and no_rank: "rank v < 0 \<Longrightarrow> input k ty v = v"
    and absorbing: "spec m Finish = Finish" "spec m Error = Error"
begin

lemma run:
  assumes "codes_distinct k"
  shows "in_phase code v p \<Longrightarrow> in_phase code (run_inputs (input k) ms v) (run_spec spec k ms p)"
  unfolding run_inputs_def run_spec_def
  by (induction ms arbitrary: v p) (use step [OF assms] in auto)

lemma run_no_rank: "rank v < 0 \<Longrightarrow> run_inputs (input k) ms v = v"
  unfolding run_inputs_def by (induction ms) (auto simp: no_rank)

lemma run_final: "p \<in> {Finish, Error} \<Longrightarrow> run_spec spec k ms p = p"
  unfolding run_spec_def by (induction ms) (auto simp: absorbing)

end

lemmas transition_defs = with_note_def
  client_SM_anyone2error_def client_SM_init2wait_def client_SM_wait2work_def client_SM_work2wait_def client_SM_work2finish_def
  master_SM_anyone2error_def master_SM_init2wait_def master_SM_wait2work_def master_SM_work2wait_def master_SM_work2finish_def
  server_SM_anyone2error_def server_SM_init2wait_def server_SM_wait2work_def server_SM_work2wait_def server_SM_wait2finish_def

interpretation cm: process_machine SM_C_input client_spec client_code
proof (unfold_locales, goal_cases)
  case (1 k v p ty)
  show ?case
    using 1(2) unfolding SM_C_input_def Let_def classify_iff [OF 1(1), of ty]
    by (cases p; cases "classify k ty") (simp_all add: SM_get_state_def in_phase_def transition_defs client_codes)
qed (simp_all add: SM_C_input_def SM_get_state_def client_codes)

interpretation mm: process_machine SM_M_input master_spec master_code
proof (unfold_locales, goal_cases)
  case (1 k v p ty)
  show ?case
    using 1(2) unfolding SM_M_input_def Let_def classify_iff [OF 1(1), of ty]
    by (cases p; cases "classify k ty") (simp_all add: SM_get_state_def in_phase_def transition_defs master_codes)
qed (simp_all add: SM_M_input_def SM_get_state_def master_codes)

interpretation sm: process_machine SM_S_input server_spec server_code
proof (unfold_locales, goal_cases)
  case (1 k v p ty)
  show ?case
    using 1(2) unfolding SM_S_input_def Let_def classify_iff [OF 1(1), of ty]
    by (cases p; cases "classify k ty") (simp_all add: SM_get_state_def in_phase_def transition_defs server_codes)
qed (simp_all add: SM_S_input_def SM_get_state_def server_codes)

subsection \<open>Reachable phases\<close>

inductive reachable :: "(msg_class \<Rightarrow> phase \<Rightarrow> phase) \<Rightarrow> phase \<Rightarrow> bool" for spec where
  start: "reachable spec Init"
| message: "reachable spec p \<Longrightarrow> reachable spec (spec m p)"

lemma reachable_run: "reachable spec p \<Longrightarrow> reachable spec (run_spec spec k ms p)"
  unfolding run_spec_def by (induction ms arbitrary: p) (auto intro: reachable.message)

lemma master_no_error: "reachable master_spec p \<Longrightarrow> p \<noteq> Error"
proof (induction rule: reachable.induct)
  case (message p m)
  then show ?case by (cases p) auto
qed simp

lemma lockstep_phases:
  "(c, s) \<in> {(Work, Wait), (Wait, Work), (Finish, Finish), (Error, Error)} \<Longrightarrow>
   (run_spec client_spec k ms c, run_spec server_spec k ms s) \<in> {(Work, Wait), (Wait, Work), (Finish, Finish), (Error, Error)}"
  unfolding run_spec_def
proof (induction ms arbitrary: c s)
  case (Cons m ms)
  have "(client_spec (classify k m) c, server_spec (classify k m) s) \<in> {(Work, Wait), (Wait, Work), (Finish, Finish), (Error, Error)}"
    using Cons.prems by (cases "classify k m") auto
  from Cons.IH [OF this] show ?case by simp
qed simp

subsection \<open>Types\<close>

text \<open>
  The variables of a process live on the heap: \<open>SM_init\<close> makes one and \<open>SM_finilize\<close> deletes it; deleting it twice is \<open>None\<close>. A variable is
  typed when its state is one of the codes of its kind and its array has 256 bytes.
\<close>

definition SM_finilize :: "nat \<Rightarrow> (nat \<rightharpoonup> SM_VAR) \<Rightarrow> (nat \<rightharpoonup> SM_VAR) option" where
  "SM_finilize p h = (if h p = None then None else Some (h(p := None)))"

definition kind_states :: "sm_codes \<Rightarrow> int \<Rightarrow> u8 list" where
  "kind_states k ty =
    (if ty = proc_client k then [c_SM_init, c_SM_work, c_SM_wait, c_SM_finish, c_SM_error]
     else if ty = proc_master k then [m_SM_init, m_SM_wait, m_SM_work, m_SM_finish, m_SM_error]
     else if ty = proc_server k then [s_SM_init, s_SM_wait, s_SM_work, s_SM_finish, s_SM_error]
     else [])"

definition sm_typed :: "sm_codes \<Rightarrow> SM_VAR \<Rightarrow> bool" where
  "sm_typed k v \<longleftrightarrow> state v \<in> set (kind_states k (procs_type v)) \<and> length (message v) = 256"

text \<open>The calls a process may make on its variable: an input function, of whatever kind, or an entry of the table of its own kind.\<close>

datatype sm_call = Input_C int | Input_M int | Input_S int | Table nat

definition own_steps :: "sm_codes \<Rightarrow> SM_VAR \<Rightarrow> (SM_VAR \<Rightarrow> SM_VAR) list" where
  "own_steps k v =
    (if procs_type v = proc_client k then client_SM_steps else if procs_type v = proc_master k then master_SM_steps else server_SM_steps)"

fun apply_call :: "sm_codes \<Rightarrow> sm_call \<Rightarrow> SM_VAR \<Rightarrow> SM_VAR" where
  "apply_call k (Input_C ty) v = SM_C_input k ty v"
| "apply_call k (Input_M ty) v = SM_M_input k ty v"
| "apply_call k (Input_S ty) v = SM_S_input k ty v"
| "apply_call k (Table i) v = (own_steps k v ! (i mod 6)) v"

definition same_owner :: "SM_VAR \<Rightarrow> SM_VAR \<Rightarrow> bool" where
  "same_owner v w \<longleftrightarrow> rank w = rank v \<and> procs_type w = procs_type v"

definition within :: "u8 list \<Rightarrow> SM_VAR \<Rightarrow> SM_VAR \<Rightarrow> bool" where
  "within ss v w \<longleftrightarrow> state w \<in> set ss \<and> same_owner v w \<and> (length (message v) = 256 \<longrightarrow> length (message w) = 256)"

definition client_states :: "u8 list" where
  "client_states = [c_SM_init, c_SM_work, c_SM_wait, c_SM_finish, c_SM_error]"

definition master_states :: "u8 list" where
  "master_states = [m_SM_init, m_SM_wait, m_SM_work, m_SM_finish, m_SM_error]"

definition server_states :: "u8 list" where
  "server_states = [s_SM_init, s_SM_wait, s_SM_work, s_SM_finish, s_SM_error]"

lemmas within_defs = within_def same_owner_def with_note_def client_states_def master_states_def server_states_def

lemma client_steps_within [simp]:
  "within client_states v (client_SM_init2wait v)" "within client_states v (client_SM_wait2work v)" "within client_states v (client_SM_work2wait v)"
  "within client_states v (client_SM_work2finish v)" "within client_states v (client_SM_anyone2error v)" "within client_states v (client_SM_error2init v)"
  by (simp_all add: within_defs transition_defs client_SM_error2init_def)

lemma master_steps_within [simp]:
  "within master_states v (master_SM_init2wait v)" "within master_states v (master_SM_wait2work v)" "within master_states v (master_SM_work2wait v)"
  "within master_states v (master_SM_work2finish v)" "within master_states v (master_SM_anyone2error v)" "within master_states v (master_SM_error2init v)"
  by (simp_all add: within_defs transition_defs master_SM_error2init_def)

lemma server_steps_within [simp]:
  "within server_states v (server_SM_init2wait v)" "within server_states v (server_SM_wait2work v)" "within server_states v (server_SM_work2wait v)"
  "within server_states v (server_SM_wait2finish v)" "within server_states v (server_SM_anyone2error v)" "within server_states v (server_SM_error2init v)"
  by (simp_all add: within_defs transition_defs server_SM_error2init_def)

lemma within_trans: "within ss v u \<Longrightarrow> within ss u w \<Longrightarrow> within ss v w"
  by (simp add: within_def same_owner_def)

lemma client_input_within: "SM_C_input k ty v = v \<or> state v \<in> set client_states \<and> within client_states v (SM_C_input k ty v)"
proof (cases "SM_get_state v \<in> {c_SM_init, c_SM_wait, c_SM_work}")
  case True
  then have st: "state v \<in> set client_states" by (auto simp: SM_get_state_def client_states_def client_codes split: if_splits)
  have chain: "within client_states v (client_SM_work2finish (client_SM_wait2work (client_SM_init2wait v)))"
    by (rule within_trans [OF within_trans]) (rule client_steps_within)+
  have "within client_states v (SM_C_input k ty v)"
    unfolding SM_C_input_def Let_def using True chain by (elim insertE emptyE) (simp_all only: split: if_split, simp_all add: client_codes)
  with st show ?thesis by blast
qed (simp add: SM_C_input_def)

lemma master_input_within: "SM_M_input k ty v = v \<or> state v \<in> set master_states \<and> within master_states v (SM_M_input k ty v)"
proof (cases "SM_get_state v \<in> {m_SM_init, m_SM_wait, m_SM_work}")
  case True
  then have st: "state v \<in> set master_states" by (auto simp: SM_get_state_def master_states_def master_codes split: if_splits)
  have chain: "within master_states v (master_SM_work2finish (master_SM_wait2work (master_SM_init2wait v)))"
    by (rule within_trans [OF within_trans]) (rule master_steps_within)+
  have "within master_states v (SM_M_input k ty v)"
    unfolding SM_M_input_def Let_def using True chain by (elim insertE emptyE) (simp_all only: split: if_split, simp_all add: master_codes)
  with st show ?thesis by blast
qed (simp add: SM_M_input_def)

lemma server_input_within: "SM_S_input k ty v = v \<or> state v \<in> set server_states \<and> within server_states v (SM_S_input k ty v)"
proof (cases "SM_get_state v \<in> {s_SM_init, s_SM_wait, s_SM_work}")
  case True
  then have st: "state v \<in> set server_states" by (auto simp: SM_get_state_def server_states_def server_codes split: if_splits)
  have chain: "within server_states v (server_SM_wait2finish (server_SM_init2wait v))"
    by (rule within_trans) (rule server_steps_within)+
  have "within server_states v (SM_S_input k ty v)"
    unfolding SM_S_input_def Let_def using True chain by (elim insertE emptyE) (simp_all only: split: if_split, simp_all add: server_codes)
  with st show ?thesis by blast
qed (simp add: SM_S_input_def)

lemma kind_states_disjoint:
  "set client_states \<inter> set master_states = {}" "set client_states \<inter> set server_states = {}" "set master_states \<inter> set server_states = {}"
  by (simp_all add: client_states_def master_states_def server_states_def state_codes)

lemma within_typed:
  assumes "sm_typed k v" "state v \<in> set ss" "within ss v w" "ss \<in> {client_states, master_states, server_states}"
  shows "sm_typed k w \<and> same_owner v w"
proof -
  have ks: "kind_states k (procs_type v) \<in> {client_states, master_states, server_states, []}" by (simp add: kind_states_def client_states_def master_states_def server_states_def)
  have "state v \<in> set (kind_states k (procs_type v))" using assms(1) by (simp add: sm_typed_def)
  with assms(2,4) ks kind_states_disjoint have "kind_states k (procs_type v) = ss" by auto
  with assms(1,3) show ?thesis by (simp add: sm_typed_def within_def same_owner_def)
qed

lemma table_step_typed:
  assumes "sm_typed k v" "f \<in> set (own_steps k v)"
  shows "sm_typed k (f v) \<and> same_owner v (f v)"
proof -
  have "within (kind_states k (procs_type v)) v (f v)"
  proof (cases "procs_type v = proc_client k")
    case True
    then show ?thesis using assms(2) by (auto simp: own_steps_def client_SM_steps_def kind_states_def client_states_def [symmetric])
  next
    case nc: False
    show ?thesis
    proof (cases "procs_type v = proc_master k")
      case True
      then show ?thesis using assms(2) nc by (auto simp: own_steps_def master_SM_steps_def kind_states_def master_states_def [symmetric])
    next
      case False
      then have "procs_type v = proc_server k" using assms(1) nc by (auto simp: sm_typed_def kind_states_def split: if_splits)
      then show ?thesis using assms(2) nc False by (auto simp: own_steps_def server_SM_steps_def kind_states_def server_states_def [symmetric])
    qed
  qed
  with assms(1) show ?thesis by (simp add: sm_typed_def within_def same_owner_def)
qed

lemma apply_call_typed:
  assumes "sm_typed k v"
  shows "sm_typed k (apply_call k c v) \<and> same_owner v (apply_call k c v)"
proof (cases c)
  case (Table i)
  have "length (own_steps k v) = 6" by (simp add: own_steps_def client_SM_steps_def master_SM_steps_def server_SM_steps_def)
  then have "own_steps k v ! (i mod 6) \<in> set (own_steps k v)" by simp
  from table_step_typed [OF assms this] show ?thesis by (simp add: Table)
next
  case (Input_C ty)
  with client_input_within [of k ty v] within_typed [OF assms, of client_states] assms show ?thesis by (auto simp: same_owner_def)
next
  case (Input_M ty)
  with master_input_within [of k ty v] within_typed [OF assms, of master_states] assms show ?thesis by (auto simp: same_owner_def)
next
  case (Input_S ty)
  with server_input_within [of k ty v] within_typed [OF assms, of server_states] assms show ?thesis by (auto simp: same_owner_def)
qed

lemma calls_typed:
  "sm_typed k v \<Longrightarrow> sm_typed k (fold (apply_call k) cs v) \<and> same_owner v (fold (apply_call k) cs v)"
proof (induction cs arbitrary: v)
  case (Cons c cs)
  from apply_call_typed [OF Cons.prems, of c] Cons.IH [of "apply_call k c v"] show ?case by (auto simp: same_owner_def)
qed (simp add: same_owner_def)

lemma SM_init_typed: "SM_init k r ty msg = Some v \<Longrightarrow> sm_typed k v \<and> rank v = r \<and> procs_type v = ty"
  by (auto simp: SM_init_def sm_typed_def kind_states_def Let_def split: if_splits)

section \<open>The table-driven machine (\<open>FSM_c.c\<close>)\<close>

definition s_init :: u8 where "s_init = 0"
definition s_count :: u8 where "s_count = 1"
definition s_done :: u8 where "s_done = 2"
definition s_default :: u8 where "s_default = 3"

record SM_CNT =
  cnt :: int
  letter :: u8

text \<open>A line of output: current state, counter, next state.\<close>

datatype sm_line = Line string int string | Wrong_state

type_synonym procedure = "SM_CNT \<Rightarrow> u8 \<times> SM_CNT \<times> sm_line"

definition step_init :: procedure where
  "step_init p = (let p = p\<lparr>cnt := 0\<rparr> in (s_count, p, Line ''init'' (cnt p) ''count''))"

definition step_count :: procedure where
  "step_count p =
    (if cnt p < 3 then (let p = p\<lparr>cnt := cnt p + 1\<rparr> in (s_count, p, Line ''count'' (cnt p) ''count''))
     else (s_done, p, Line ''count'' (cnt p) ''done''))"

definition step_done :: procedure where
  "step_done p = (let p = p\<lparr>cnt := 0\<rparr> in (s_init, p, Line ''done'' (cnt p) ''init''))"

definition step_default :: procedure where
  "step_default p = (s_init, p, Wrong_state)"

definition Steps :: "procedure list" where
  "Steps = [step_init, step_count, step_done, step_default]"

text \<open>\<open>BestSM\<close> on its static variable \<open>NS\<close> and its argument; \<open>None\<close> for an index outside the table.\<close>

definition BestSM :: "u8 \<times> SM_CNT \<Rightarrow> ((u8 \<times> SM_CNT) \<times> sm_line) option" where
  "BestSM x =
    (case x of (NS, v) \<Rightarrow>
       if unat NS < length Steps then (case (Steps ! unat NS) v of (NS', v', out) \<Rightarrow> Some ((NS', v'), out)) else None)"

text \<open>\<open>n\<close> calls, and \<open>main\<close>, whose variable is uninitialised.\<close>

primrec best_runs :: "nat \<Rightarrow> u8 \<times> SM_CNT \<Rightarrow> ((u8 \<times> SM_CNT) \<times> sm_line list) option" where
  "best_runs 0 x = Some (x, [])"
| "best_runs (Suc n) x =
    (case BestSM x of
       None \<Rightarrow> None
     | Some (x', out) \<Rightarrow> (case best_runs n x' of None \<Rightarrow> None | Some (y, outs) \<Rightarrow> Some (y, out # outs)))"

definition fsm_main :: "SM_CNT \<Rightarrow> sm_line list option" where
  "fsm_main var = map_option snd (best_runs 8 (s_init, var))"

definition cycle_lines :: "sm_line list" where
  "cycle_lines = [Line ''init'' 0 ''count'', Line ''count'' 1 ''count'', Line ''count'' 2 ''count'', Line ''count'' 3 ''count'',
    Line ''count'' 3 ''done'', Line ''done'' 0 ''init'']"

lemmas best_defs = BestSM_def Steps_def step_init_def step_count_def step_done_def step_default_def
  s_init_def s_count_def s_done_def s_default_def Let_def

lemma best_steps:
  "BestSM (s_init, v) = Some ((s_count, v\<lparr>cnt := 0\<rparr>), Line ''init'' 0 ''count'')"
  "BestSM (s_count, v) =
    (if cnt v < 3 then Some ((s_count, v\<lparr>cnt := cnt v + 1\<rparr>), Line ''count'' (cnt v + 1) ''count'')
     else Some ((s_done, v), Line ''count'' (cnt v) ''done''))"
  "BestSM (s_done, v) = Some ((s_init, v\<lparr>cnt := 0\<rparr>), Line ''done'' 0 ''init'')"
  by (simp_all add: best_defs)

lemma best_cycle: "best_runs 6 (s_init, v) = Some ((s_init, v\<lparr>cnt := 0\<rparr>), cycle_lines)"
  by (simp add: eval_nat_numeral best_steps cycle_lines_def)

lemma best_runs_add:
  "best_runs (m + n) x =
    (case best_runs m x of None \<Rightarrow> None
     | Some (y, out) \<Rightarrow> (case best_runs n y of None \<Rightarrow> None | Some (z, out') \<Rightarrow> Some (z, out @ out')))"
proof (induction m arbitrary: x)
  case 0
  then show ?case by (simp split: option.splits)
next
  case (Suc m)
  then show ?case by (cases "BestSM x") (auto split: option.splits)
qed

section \<open>Properties\<close>

text \<open>
  C23. The input functions of the three process kinds implement their abstract machines on every sequence of messages: a variable with
  a valid rank that starts in a phase ends in the phase the abstract machine reaches, and its message array keeps its 256 bytes;
  a variable with a negative rank never changes. The finished and the error phase are final.
\<close>

theorem sm_inputs_refine:
  assumes "codes_distinct k"
  shows "(in_phase client_code v p \<longrightarrow> in_phase client_code (run_inputs (SM_C_input k) ms v) (run_spec client_spec k ms p)) \<and>
    (in_phase master_code v p \<longrightarrow> in_phase master_code (run_inputs (SM_M_input k) ms v) (run_spec master_spec k ms p)) \<and>
    (in_phase server_code v p \<longrightarrow> in_phase server_code (run_inputs (SM_S_input k) ms v) (run_spec server_spec k ms p)) \<and>
    (rank v < 0 \<longrightarrow> run_inputs (SM_C_input k) ms v = v \<and> run_inputs (SM_M_input k) ms v = v \<and> run_inputs (SM_S_input k) ms v = v) \<and>
    (p \<in> {Finish, Error} \<longrightarrow> run_spec client_spec k ms p = p \<and> run_spec master_spec k ms p = p \<and> run_spec server_spec k ms p = p)"
  by (intro conjI impI cm.run [OF assms] mm.run [OF assms] sm.run [OF assms] cm.run_no_rank mm.run_no_rank sm.run_no_rank
      cm.run_final mm.run_final sm.run_final)

definition test_codes :: sm_codes where
  "test_codes = \<lparr>proc_client = 1, proc_master = 2, proc_server = 3, msg_exit = 10, msg_data = 11, msg_create_file_begin = 12,
    msg_create_file_end = 13, msg_data_get_end = 14, msg_data_write_begin = 15, msg_data_write_end = 16\<rparr>"

lemma test_codes_distinct: "codes_distinct test_codes"
  by (simp add: codes_distinct_def test_codes_def)

definition test_var :: "u8 \<Rightarrow> SM_VAR" where
  "test_var st = \<lparr>rank = 0, procs_type = 1, state = st, message = replicate 256 0\<rparr>"

theorem sm_inputs_refine_witness:
  "in_phase client_code (run_inputs (SM_C_input test_codes) [11, 13, 10] (test_var c_SM_init)) Finish"
proof -
  have "in_phase client_code (test_var c_SM_init) Init" by (simp add: in_phase_def test_var_def)
  moreover have "run_spec client_spec test_codes [11, 13, 10] Init = Finish"
    by (simp add: run_spec_def classify_def test_codes_def)
  ultimately show ?thesis using sm_inputs_refine [OF test_codes_distinct, of "test_var c_SM_init" Init "[11, 13, 10]"] by simp
qed

text \<open>
  C24. Variables are well typed for their whole life: \<open>SM_init\<close> gives one exactly for the three kinds of processes; whatever calls follow, of the
  input functions of any kind and of the table of its own kind, its state stays one of the five codes of its kind, its rank and kind do not change, and
  its array keeps its 256 bytes; \<open>SM_finilize\<close> deletes it and nothing else.
\<close>

theorem sm_variables_typed:
  "((\<exists>v. SM_init k r ty msg = Some v) \<longleftrightarrow> ty \<in> {proc_client k, proc_master k, proc_server k}) \<and>
   (SM_init k r ty msg = Some v \<and> w = fold (apply_call k) cs v \<longrightarrow>
      sm_typed k w \<and> rank w = r \<and> procs_type w = ty \<and> SM_finilize p (h(p \<mapsto> w)) = Some (h(p := None)))"
proof (intro conjI impI)
  show "(\<exists>v. SM_init k r ty msg = Some v) \<longleftrightarrow> ty \<in> {proc_client k, proc_master k, proc_server k}" by (auto simp: SM_init_def Let_def)
  assume a: "SM_init k r ty msg = Some v \<and> w = fold (apply_call k) cs v"
  with SM_init_typed [of k r ty msg v] calls_typed [of k v cs]
  show "sm_typed k w" "rank w = r" "procs_type w = ty" by (auto simp: same_owner_def)
  show "SM_finilize p (h(p \<mapsto> w)) = Some (h(p := None))" by (simp add: SM_finilize_def)
qed

theorem sm_variables_typed_witness:
  "\<exists>v. SM_init test_codes 7 3 [] = Some v \<and>
    sm_typed test_codes (fold (apply_call test_codes) [Input_S 0, Input_C 11, Input_S 11, Table 5] v)"
proof -
  obtain v where "SM_init test_codes 7 3 [] = Some v" by (auto simp: SM_init_def test_codes_def Let_def)
  with sm_variables_typed [of test_codes 7 3 "[]" v "fold (apply_call test_codes) [Input_S 0, Input_C 11, Input_S 11, Table 5] v"] show ?thesis by blast
qed



text \<open>
  The master process always makes progress to its end: no sequence of messages brings it to the error phase, and from wherever it is,
  two exit messages in a row finish it. One exit message need not: while it waits, an exit only makes it work.
\<close>

theorem master_two_exits_finish:
  assumes "codes_distinct k" "in_phase master_code v Init"
  shows "\<exists>p. in_phase master_code (run_inputs (SM_M_input k) ms v) p \<and> p \<noteq> Error \<and>
    in_phase master_code (run_inputs (SM_M_input k) (ms @ [msg_exit k, msg_exit k]) v) Finish \<and>
    (p = Wait \<longrightarrow> in_phase master_code (run_inputs (SM_M_input k) (ms @ [msg_exit k]) v) Work)"
proof -
  let ?p = "run_spec master_spec k ms Init"
  have ne: "?p \<noteq> Error" by (rule master_no_error [OF reachable_run [OF reachable.start]])
  have e: "classify k (msg_exit k) = Exit" by (simp add: classify_def)
  have r: "run_spec master_spec k (ms @ ns) Init = run_spec master_spec k ns ?p" for ns by (simp add: run_spec_def)
  have 2: "run_spec master_spec k (ms @ [msg_exit k, msg_exit k]) Init = Finish"
    unfolding r using ne by (cases ?p) (simp_all add: run_spec_def e)
  have 1: "?p = Wait \<Longrightarrow> run_spec master_spec k (ms @ [msg_exit k]) Init = Work" unfolding r by (simp add: run_spec_def e)
  note run = mm.run [OF assms]
  show ?thesis using run [of ms] run [of "ms @ [msg_exit k, msg_exit k]"] run [of "ms @ [msg_exit k]"] ne 1 2 by auto
qed

theorem master_two_exits_finish_witness:
  "in_phase master_code (run_inputs (SM_M_input test_codes) ([11, 12, 11] @ [10, 10]) (test_var m_SM_init)) Finish"
proof -
  have i: "in_phase master_code (test_var m_SM_init) Init" by (simp add: in_phase_def test_var_def)
  show ?thesis using master_two_exits_finish [OF test_codes_distinct i, of "[11, 12, 11]"] by (auto simp: test_codes_def)
qed

text \<open>
  The table-driven machine never indexes outside its table and repeats the same six steps for ever: from the initial state, whatever
  its uninitialised variable holds, every six calls print the same six lines and return to the initial state, and the eight
  calls of \<open>main\<close> print these six lines and the first two again.
\<close>

theorem best_sm_cycles:
  "(\<exists>v'. best_runs (6 * n) (s_init, v) = Some ((s_init, v'), concat (replicate n cycle_lines))) \<and>
   fsm_main v = Some (cycle_lines @ take 2 cycle_lines)"
proof
  show "\<exists>v'. best_runs (6 * n) (s_init, v) = Some ((s_init, v'), concat (replicate n cycle_lines))"
  proof (induction n arbitrary: v)
    case (Suc n)
    obtain v' where "best_runs (6 * n) (s_init, v\<lparr>cnt := 0\<rparr>) = Some ((s_init, v'), concat (replicate n cycle_lines))"
      using Suc.IH by blast
    then show ?case using best_runs_add [of 6 "6 * n"] best_cycle [of v] by simp
  qed simp
  have "best_runs 2 (s_init, w) = Some ((s_count, w\<lparr>cnt := 1\<rparr>), take 2 cycle_lines)" for w
    by (simp add: eval_nat_numeral best_steps cycle_lines_def)
  then show "fsm_main v = Some (cycle_lines @ take 2 cycle_lines)"
    using best_runs_add [of 6 2 "(s_init, v)"] best_cycle [of v] by (simp add: fsm_main_def)
qed

end
