(* ===== verification/Kernel_List.thy ===== *)
theory Kernel_List
  imports Prelude "HOL-Library.Monad_Syntax"
begin

text \<open>
  The intrusive circular doubly linked list of \<open>socks5_c-master/list.h\<close>.

  A \<open>list_heap\<close> holds the \<open>next\<close> and \<open>prev\<close> fields of every \<open>struct list_head\<close> of the program, by
  address (any type \<open>'a\<close> of addresses); \<open>None\<close> is \<open>NULL\<close>. Each operation is the sequence of
  pointer assignments of the C code, in its order, so aliasing (a list whose head is its only
  node) is as in the code. An operation that reads a \<open>NULL\<close> link and would dereference it is \<open>None\<close>.

  \<open>clist h head xs\<close> says that the nodes \<open>xs\<close>, in this order, form the list headed by \<open>head\<close>. The lemmas
  show that every operation implements the operation on \<open>xs\<close> that its comment promises, and
  that it writes no node outside the lists it is given. The locale \<open>pushdown_list\<close> is the contract
  the clients rely on.
\<close>

record 'a list_heap =
  lnext :: "'a \<Rightarrow> 'a option"
  lprev :: "'a \<Rightarrow> 'a option"

section \<open>The operations\<close>

definition set_next :: "'a \<Rightarrow> 'a option \<Rightarrow> 'a list_heap \<Rightarrow> 'a list_heap" where
  "set_next p v h = h\<lparr>lnext := (lnext h)(p := v)\<rparr>"

definition set_prev :: "'a \<Rightarrow> 'a option \<Rightarrow> 'a list_heap \<Rightarrow> 'a list_heap" where
  "set_prev p v h = h\<lparr>lprev := (lprev h)(p := v)\<rparr>"

definition INIT_LIST_HEAD :: "'a \<Rightarrow> 'a list_heap \<Rightarrow> 'a list_heap" where
  "INIT_LIST_HEAD p h = set_prev p (Some p) (set_next p (Some p) h)"

text \<open>\<open>__list_add\<close>: the four assignments of the C code, first to last.\<close>

definition raw_list_add :: "'a \<Rightarrow> 'a \<Rightarrow> 'a \<Rightarrow> 'a list_heap \<Rightarrow> 'a list_heap" where
  "raw_list_add new prv nxt h0 =
    (let h1 = set_prev nxt (Some new) h0;
         h2 = set_next new (Some nxt) h1;
         h3 = set_prev new (Some prv) h2
     in set_next prv (Some new) h3)"

definition list_add :: "'a \<Rightarrow> 'a \<Rightarrow> 'a list_heap \<Rightarrow> 'a list_heap option" where
  "list_add new head h = do { nx \<leftarrow> lnext h head; Some (raw_list_add new head nx h) }"

definition list_add_tail :: "'a \<Rightarrow> 'a \<Rightarrow> 'a list_heap \<Rightarrow> 'a list_heap option" where
  "list_add_tail new head h = do { pv \<leftarrow> lprev h head; Some (raw_list_add new pv head h) }"

text \<open>\<open>__list_del\<close>.\<close>

definition raw_list_del :: "'a \<Rightarrow> 'a \<Rightarrow> 'a list_heap \<Rightarrow> 'a list_heap" where
  "raw_list_del prv nxt h = set_next prv (Some nxt) (set_prev nxt (Some prv) h)"

definition list_del :: "'a \<Rightarrow> 'a list_heap \<Rightarrow> 'a list_heap option" where
  "list_del entry h = do {
     pv \<leftarrow> lprev h entry; nx \<leftarrow> lnext h entry;
     Some (set_prev entry None (set_next entry None (raw_list_del pv nx h))) }"

definition list_del_init :: "'a \<Rightarrow> 'a list_heap \<Rightarrow> 'a list_heap option" where
  "list_del_init entry h = do {
     pv \<leftarrow> lprev h entry; nx \<leftarrow> lnext h entry;
     Some (INIT_LIST_HEAD entry (raw_list_del pv nx h)) }"

definition list_move :: "'a \<Rightarrow> 'a \<Rightarrow> 'a list_heap \<Rightarrow> 'a list_heap option" where
  "list_move e head h = do {
     pv \<leftarrow> lprev h e; nx \<leftarrow> lnext h e;
     list_add e head (raw_list_del pv nx h) }"

definition list_move_tail :: "'a \<Rightarrow> 'a \<Rightarrow> 'a list_heap \<Rightarrow> 'a list_heap option" where
  "list_move_tail e head h = do {
     pv \<leftarrow> lprev h e; nx \<leftarrow> lnext h e;
     list_add_tail e head (raw_list_del pv nx h) }"

definition list_empty :: "'a \<Rightarrow> 'a list_heap \<Rightarrow> bool" where
  "list_empty head h \<longleftrightarrow> lnext h head = Some head"

text \<open>\<open>__list_splice\<close>.\<close>

definition raw_list_splice :: "'a \<Rightarrow> 'a \<Rightarrow> 'a list_heap \<Rightarrow> 'a list_heap option" where
  "raw_list_splice l head h = do {
     first \<leftarrow> lnext h l; last \<leftarrow> lprev h l; at \<leftarrow> lnext h head;
     Some (set_prev at (Some last) (set_next last (Some at)
            (set_next head (Some first) (set_prev first (Some head) h)))) }"

definition list_splice :: "'a \<Rightarrow> 'a \<Rightarrow> 'a list_heap \<Rightarrow> 'a list_heap option" where
  "list_splice l head h = (if \<not> list_empty l h then raw_list_splice l head h else Some h)"

definition list_splice_init :: "'a \<Rightarrow> 'a \<Rightarrow> 'a list_heap \<Rightarrow> 'a list_heap option" where
  "list_splice_init l head h =
    (if \<not> list_empty l h then map_option (INIT_LIST_HEAD l) (raw_list_splice l head h) else Some h)"

text \<open>
  The iteration macros: \<open>list_for_each\<close> and \<open>list_for_each_entry\<close> visit the nodes from \<open>pos\<close> on until
  they are back at the head; the result is the sequence of nodes visited. The loop need not end on
  a malformed list, which is the value \<open>None\<close>; so is following a \<open>NULL\<close> link.
\<close>

partial_function (option) each_from ::
    "('a \<Rightarrow> 'a option) \<Rightarrow> 'a \<Rightarrow> 'a \<Rightarrow> 'a list \<Rightarrow> 'a list option" where
  "each_from step head pos seen =
    (if pos = head then Some (rev seen)
     else (case step pos of None \<Rightarrow> None | Some p \<Rightarrow> each_from step head p (pos # seen)))"

definition list_for_each :: "'a \<Rightarrow> 'a list_heap \<Rightarrow> 'a list option" where
  "list_for_each head h =
    (case lnext h head of None \<Rightarrow> None | Some p \<Rightarrow> each_from (lnext h) head p [])"

definition list_for_each_prev :: "'a \<Rightarrow> 'a list_heap \<Rightarrow> 'a list option" where
  "list_for_each_prev head h =
    (case lprev h head of None \<Rightarrow> None | Some p \<Rightarrow> each_from (lprev h) head p [])"

text \<open>
  \<open>list_for_each_safe\<close> and \<open>list_for_each_entry_safe\<close> remember the following node before the body of the loop runs, so that the body may
  remove the node it is given; the body is an argument. The result has the nodes visited and the links at the end.
\<close>

partial_function (option) safe_from ::
    "('a \<Rightarrow> 'a list_heap \<Rightarrow> 'a list_heap option) \<Rightarrow> 'a \<Rightarrow> 'a \<Rightarrow> 'a \<Rightarrow> 'a list_heap \<Rightarrow> 'a list \<Rightarrow> ('a list \<times> 'a list_heap) option" where
  "safe_from body head pos n h seen =
    (if pos = head then Some (rev seen, h)
     else (case body pos h of None \<Rightarrow> None | Some h' \<Rightarrow>
       (case lnext h' n of None \<Rightarrow> None | Some n' \<Rightarrow> safe_from body head n n' h' (pos # seen))))"

definition list_for_each_safe :: "('a \<Rightarrow> 'a list_heap \<Rightarrow> 'a list_heap option) \<Rightarrow> 'a \<Rightarrow> 'a list_heap \<Rightarrow> ('a list \<times> 'a list_heap) option" where
  "list_for_each_safe body head h = do { pos \<leftarrow> lnext h head; n \<leftarrow> lnext h pos; safe_from body head pos n h [] }"

definition del_if :: "('a \<Rightarrow> bool) \<Rightarrow> 'a \<Rightarrow> 'a list_heap \<Rightarrow> 'a list_heap option" where
  "del_if P x h = (if P x then list_del x h else Some h)"

lemmas list_ops [op_defs] =
  set_next_def set_prev_def INIT_LIST_HEAD_def raw_list_add_def list_add_def list_add_tail_def
  raw_list_del_def list_del_def list_del_init_def list_move_def list_move_tail_def

section \<open>The representation predicate\<close>

fun dlinked :: "'a list_heap \<Rightarrow> 'a list \<Rightarrow> bool" where
  "dlinked h (a # b # zs) \<longleftrightarrow> lnext h a = Some b \<and> lprev h b = Some a \<and> dlinked h (b # zs)"
| "dlinked h _ \<longleftrightarrow> True"

definition clist :: "'a list_heap \<Rightarrow> 'a \<Rightarrow> 'a list \<Rightarrow> bool" where
  "clist h head xs \<longleftrightarrow> distinct (head # xs) \<and> dlinked h (head # xs @ [head])"

text \<open>The nodes a list owns, and two heaps that agree outside a set of nodes.\<close>

abbreviation nodes :: "'a \<Rightarrow> 'a list \<Rightarrow> 'a set" where
  "nodes head xs \<equiv> insert head (set xs)"

definition agree_off :: "'a set \<Rightarrow> 'a list_heap \<Rightarrow> 'a list_heap \<Rightarrow> bool" where
  "agree_off A h h' \<longleftrightarrow> (\<forall>a. a \<notin> A \<longrightarrow> lnext h' a = lnext h a \<and> lprev h' a = lprev h a)"

lemma dlinked_append:
  "dlinked h (xs @ a # ys) \<longleftrightarrow> dlinked h (xs @ [a]) \<and> dlinked h (a # ys)"
  by (induction h xs rule: dlinked.induct) (auto simp: neq_Nil_conv elim: dlinked.elims)


lemma dlinked_cong:
  "(\<And>a. a \<in> set (butlast xs) \<Longrightarrow> lnext h' a = lnext h a) \<Longrightarrow>
   (\<And>a. a \<in> set (tl xs) \<Longrightarrow> lprev h' a = lprev h a) \<Longrightarrow>
   dlinked h xs \<Longrightarrow> dlinked h' xs"
  by (induction h xs rule: dlinked.induct) (auto split: if_splits)

lemma clist_frame:
  assumes "clist h head xs" and "agree_off A h h'" and "A \<inter> nodes head xs = {}"
  shows "clist h' head xs"
proof -
  have "lnext h' a = lnext h a \<and> lprev h' a = lprev h a" if "a \<in> nodes head xs" for a
    using that assms(2,3) unfolding agree_off_def by blast
  then show ?thesis using assms(1) unfolding clist_def
    by (auto intro!: dlinked_cong [of _ h' h])
qed

lemma agree_off_trans:
  "agree_off A h h1 \<Longrightarrow> agree_off B h1 h2 \<Longrightarrow> A \<subseteq> C \<Longrightarrow> B \<subseteq> C \<Longrightarrow> agree_off C h h2"
  unfolding agree_off_def by (metis subsetD)

lemma agree_off_mono: "agree_off A h h' \<Longrightarrow> A \<subseteq> B \<Longrightarrow> agree_off B h h'"
  by (auto simp: agree_off_def)

lemma clist_next_prev:
  assumes "clist h head xs"
  shows "lnext h head = Some (List.hd (xs @ [head]))" "lprev h head = Some (last (head # xs))"
proof -
  obtain n zs where n: "xs @ [head] = n # zs" by (rule snoc_cases)
  with assms show "lnext h head = Some (List.hd (xs @ [head]))"
    by (auto simp: clist_def)
  obtain p ys where p: "head # xs = ys @ [p]" by (rule cons_cases)
  then have "head # xs @ [head] = ys @ p # [head]"
    by (metis append_Cons append_Nil append_assoc)
  with assms have "dlinked h (ys @ p # [head])" by (simp add: clist_def)
  then have "dlinked h (p # [head])" using dlinked_append [of h ys p "[head]"] by blast
  with p show "lprev h head = Some (last (head # xs))" by (metis dlinked.simps(1) last_snoc)
qed

section \<open>Insertion\<close>

text \<open>
  Insertion between two consecutive nodes of the chain \<open>qs @ [p]\<close>, \<open>n # zs\<close>: the shape both
  \<open>list_add\<close> and \<open>list_add_tail\<close> instantiate.
\<close>

lemma raw_list_add_dlinked:
  assumes "dlinked h (qs @ [p])" "dlinked h (n # zs)"
    and "new \<notin> set (qs @ [p]) \<union> set (n # zs)"
    and "p \<notin> set qs" "p \<notin> set (butlast (n # zs))"
    and "n \<notin> set zs" "n \<notin> set (tl (qs @ [p]))"
  shows "dlinked (raw_list_add new p n h) (qs @ p # new # n # zs)"
proof -
  let ?h = "raw_list_add new p n h"
  have "new \<notin> set (tl (qs @ [p]))" using assms(3) by (auto dest: in_set_tlD)
  then have 1: "dlinked ?h (qs @ [p])" and 2: "dlinked ?h (n # zs)"
    using assms(3-)
    by (auto intro!: dlinked_cong [OF _ _ assms(1)] dlinked_cong [OF _ _ assms(2)]
        simp: op_defs Let_def dest: in_set_butlastD in_set_tlD split: if_splits)
  have "lnext ?h p = Some new" "lprev ?h new = Some p" "lnext ?h new = Some n" "lprev ?h n = Some new"
    using assms(3) by (auto simp: op_defs Let_def)
  with 1 2 show ?thesis using dlinked_append [of ?h qs p "new # n # zs"] by simp
qed

lemma raw_list_add_agree: "agree_off {new, p, n} h (raw_list_add new p n h)"
  by (auto simp: agree_off_def op_defs Let_def)

lemma list_add_clist:
  assumes "clist h head xs" "new \<notin> nodes head xs"
  obtains h' where "list_add new head h = Some h'" "clist h' head (new # xs)"
    "agree_off (nodes head (new # xs)) h h'"
proof -
  obtain n zs where n: "xs @ [head] = n # zs" by (rule snoc_cases)
  let ?h = "raw_list_add new head n h"
  have "set (butlast (n # zs)) = set xs" using n by (metis butlast_snoc)
  moreover have "distinct (n # zs)" using assms(1) n by (metis clist_def distinct.simps(2) distinct1_rotate rotate1.simps(2))
  moreover have "set (n # zs) = nodes head xs" using n by (metis Un_insert_right list.simps(15) set_append sup_bot_right empty_set)
  ultimately have "dlinked ?h ([] @ head # new # n # zs)"
    using assms n by (intro raw_list_add_dlinked) (auto simp: clist_def)
  then have "clist ?h head (new # xs)" using assms n by (auto simp: clist_def)
  moreover have "list_add new head h = Some ?h"
    using clist_next_prev(1) [OF assms(1)] n by (simp add: list_add_def)
  moreover have "agree_off (nodes head (new # xs)) h ?h"
    by (rule agree_off_mono [OF raw_list_add_agree]) (use \<open>set (n # zs) = nodes head xs\<close> in auto)
  ultimately show thesis using that by blast
qed


lemma list_add_tail_clist:
  assumes "clist h head xs" "new \<notin> nodes head xs"
  obtains h' where "list_add_tail new head h = Some h'" "clist h' head (xs @ [new])"
    "agree_off (nodes head (new # xs)) h h'"
proof -
  obtain p qs where p: "head # xs = qs @ [p]" by (rule cons_cases)
  let ?h = "raw_list_add new p head h"
  have chain: "head # xs @ [head] = qs @ p # [head]"
    using p by (metis append_Cons append_Nil append_assoc)
  have "set (tl (qs @ [p])) = set xs" using p by (metis list.sel(3))
  moreover have "distinct (qs @ [p])" using assms(1) p by (simp add: clist_def)
  moreover have "set (qs @ [p]) = nodes head xs" using p by (metis list.simps(15))
  moreover have "dlinked h (qs @ p # [head])" using assms(1) chain by (simp add: clist_def)
  ultimately have "dlinked ?h (qs @ p # new # head # [])"
    using assms dlinked_append [of h qs p "[head]"]
    by (intro raw_list_add_dlinked) (auto simp: clist_def)
  moreover have "head # (xs @ [new]) @ [head] = qs @ p # new # head # []"
    using p by (metis append_Cons append_Nil append_assoc)
  moreover have "distinct (head # xs @ [new])" using assms by (auto simp: clist_def)
  ultimately have "clist ?h head (xs @ [new])" unfolding clist_def by (metis append_assoc)
  moreover have "list_add_tail new head h = Some ?h"
    using clist_next_prev(2) [OF assms(1)] p by (simp add: list_add_tail_def)
  moreover have "agree_off (nodes head (new # xs)) h ?h"
    by (rule agree_off_mono [OF raw_list_add_agree]) (use \<open>set (qs @ [p]) = nodes head xs\<close> in auto)
  ultimately show thesis using that by blast
qed

section \<open>Removal\<close>

lemma raw_list_del_dlinked:
  assumes "dlinked h (qs @ [p])" "dlinked h (n # zs)"
    and "p \<notin> set qs" "p \<notin> set (butlast (n # zs))"
    and "n \<notin> set zs" "n \<notin> set (tl (qs @ [p]))"
  shows "dlinked (raw_list_del p n h) (qs @ p # n # zs)"
proof -
  let ?h = "raw_list_del p n h"
  have 1: "dlinked ?h (qs @ [p])" and 2: "dlinked ?h (n # zs)"
    using assms(3-)
    by (auto intro!: dlinked_cong [OF _ _ assms(1)] dlinked_cong [OF _ _ assms(2)]
        simp: op_defs Let_def dest: in_set_butlastD in_set_tlD split: if_splits)
  have "lnext ?h p = Some n" "lprev ?h n = Some p"
    by (auto simp: op_defs)
  with 1 2 show ?thesis using dlinked_append [of ?h qs p "n # zs"] by simp
qed

text \<open>
  Unlinking a node, the step that \<open>list_del\<close>, \<open>list_del_init\<close>, \<open>list_move\<close> and \<open>list_move_tail\<close> share.
\<close>

lemma unlink_clist:
  assumes "clist h head (as @ e # bs)"
  obtains p n where "lprev h e = Some p" "lnext h e = Some n"
    "p \<in> nodes head as" "n \<in> nodes head bs"
    "clist (raw_list_del p n h) head (as @ bs)"
proof -
  obtain p qs where p: "head # as = qs @ [p]" by (rule cons_cases)
  obtain n zs where n: "bs @ [head] = n # zs" by (rule snoc_cases)
  have chain: "head # (as @ e # bs) @ [head] = qs @ p # e # n # zs"
    using p n by (metis append_Cons append_Nil append_assoc)
  with assms have d: "dlinked h (qs @ p # e # n # zs)" by (simp add: clist_def)
  have dist: "distinct (head # as @ e # bs)" using assms by (simp add: clist_def)
  have ps: "set (qs @ [p]) = nodes head as" "set (tl (qs @ [p])) = set as" "distinct (qs @ [p])"
    using p dist by (metis list.simps(15), metis list.sel(3), metis distinct.simps(2) distinct_append Un_iff set_append)
  have ns: "set (n # zs) = nodes head bs" "set (butlast (n # zs)) = set bs" "distinct (n # zs)"
    using n dist by (metis Un_insert_right list.simps(15) set_append sup_bot_right empty_set, metis butlast_snoc,
       metis distinct.simps(2) distinct1_rotate rotate1.simps(2) distinct_append Un_iff list.set_intros(2) set_append)
  have links: "lprev h e = Some p" "lnext h e = Some n" "dlinked h (qs @ [p])" "dlinked h (n # zs)"
    using d dlinked_append [of h qs p "e # n # zs"] by simp_all
  have "dlinked (raw_list_del p n h) (qs @ p # n # zs)"
    by (rule raw_list_del_dlinked) (use links ps ns dist in \<open>auto simp del: butlast.simps\<close>)
  moreover have "head # (as @ bs) @ [head] = qs @ p # n # zs"
    using p n by (metis append_Cons append_Nil append_assoc)
  ultimately have "clist (raw_list_del p n h) head (as @ bs)"
    using dist by (auto simp: clist_def)
  moreover have "p \<in> nodes head as" "n \<in> nodes head bs" using ps(1) ns(1) by auto
  ultimately show thesis using that links by blast
qed


lemma raw_list_del_agree: "agree_off {p, n} h (raw_list_del p n h)"
  by (auto simp: agree_off_def op_defs)

lemma agree_off_set_links:
  "agree_off {e} h (set_next e v h)" "agree_off {e} h (set_prev e v h)" "agree_off {e} h (INIT_LIST_HEAD e h)"
  by (auto simp: agree_off_def op_defs)

lemma list_del_clist:
  assumes "clist h head xs" "e \<in> set xs"
  obtains h' where "list_del e h = Some h'" "clist h' head (remove1 e xs)"
    "lnext h' e = None" "lprev h' e = None" "agree_off (nodes head xs) h h'"
proof -
  from assms(2) obtain as bs where xs: "xs = as @ e # bs" and e: "e \<notin> set as"
    by (metis split_list_first)
  obtain p n where pn: "lprev h e = Some p" "lnext h e = Some n" "p \<in> nodes head as" "n \<in> nodes head bs"
    and c: "clist (raw_list_del p n h) head (as @ bs)"
    using assms(1) unlink_clist [of h head as e bs] xs by blast
  let ?h = "set_prev e None (set_next e None (raw_list_del p n h))"
  have ag: "agree_off {e} (raw_list_del p n h) ?h"
    by (auto simp: agree_off_def op_defs)
  have "e \<notin> nodes head (as @ bs)" using assms(1) by (auto simp: xs clist_def)
  then have "clist ?h head (remove1 e xs)"
    using clist_frame [OF c ag] e by (auto simp: xs remove1_append)
  moreover have "agree_off (nodes head xs) h ?h"
    by (rule agree_off_trans [OF raw_list_del_agree ag]) (use pn in \<open>auto simp: xs\<close>)
  moreover have "list_del e h = Some ?h" using pn by (simp add: list_del_def)
  moreover have "lnext ?h e = None" "lprev ?h e = None" by (auto simp: op_defs)
  ultimately show thesis using that by blast
qed

lemma list_del_init_clist:
  assumes "clist h head xs" "e \<in> set xs"
  obtains h' where "list_del_init e h = Some h'" "clist h' head (remove1 e xs)" "clist h' e []"
    "agree_off (nodes head xs) h h'"
proof -
  from assms(2) obtain as bs where xs: "xs = as @ e # bs" and e: "e \<notin> set as"
    by (metis split_list_first)
  obtain p n where pn: "lprev h e = Some p" "lnext h e = Some n" "p \<in> nodes head as" "n \<in> nodes head bs"
    and c: "clist (raw_list_del p n h) head (as @ bs)"
    using assms(1) unlink_clist [of h head as e bs] xs by blast
  let ?h = "INIT_LIST_HEAD e (raw_list_del p n h)"
  have "e \<notin> nodes head (as @ bs)" using assms(1) by (auto simp: xs clist_def)
  then have "clist ?h head (remove1 e xs)"
    using clist_frame [OF c agree_off_set_links(3)] e by (auto simp: xs remove1_append)
  moreover have "agree_off (nodes head xs) h ?h"
    by (rule agree_off_trans [OF raw_list_del_agree agree_off_set_links(3)]) (use pn in \<open>auto simp: xs\<close>)
  moreover have "list_del_init e h = Some ?h" using pn by (simp add: list_del_init_def)
  moreover have "clist ?h e []" by (auto simp: op_defs clist_def)
  ultimately show thesis using that by blast
qed

section \<open>Moving a node between lists\<close>

text \<open>
  The node leaves its list \<open>xs\<close> and enters the disjoint list \<open>ys\<close>, at the front for \<open>list_move\<close> and at
  the back for \<open>list_move_tail\<close>.
\<close>

lemma unlink_two:
  assumes "clist h hx xs" "clist h hy ys" "nodes hx xs \<inter> nodes hy ys = {}" "e \<in> set xs"
  obtains p n where "lprev h e = Some p" "lnext h e = Some n"
    "clist (raw_list_del p n h) hx (remove1 e xs)" "clist (raw_list_del p n h) hy ys"
    "e \<notin> nodes hx (remove1 e xs)" "e \<notin> nodes hy ys"
proof -
  from assms(4) obtain as bs where xs: "xs = as @ e # bs" and e: "e \<notin> set as"
    by (metis split_list_first)
  obtain p n where pn: "lprev h e = Some p" "lnext h e = Some n" "p \<in> nodes hx as" "n \<in> nodes hx bs"
    and c: "clist (raw_list_del p n h) hx (as @ bs)"
    using assms(1) unlink_clist [of h hx as e bs] xs by blast
  moreover have "clist (raw_list_del p n h) hy ys"
    by (rule clist_frame [OF assms(2) raw_list_del_agree]) (use pn assms(3) in \<open>auto simp: xs\<close>)
  moreover have "remove1 e xs = as @ bs" using e by (simp add: xs remove1_append)
  ultimately show thesis using that assms by (auto simp: clist_def xs)
qed

lemma list_move_clist:
  assumes "clist h hx xs" "clist h hy ys" "nodes hx xs \<inter> nodes hy ys = {}" "e \<in> set xs"
  obtains h' where "list_move e hy h = Some h'" "clist h' hx (remove1 e xs)" "clist h' hy (e # ys)"
proof -
  obtain p n where u: "lprev h e = Some p" "lnext h e = Some n"
    "clist (raw_list_del p n h) hx (remove1 e xs)" "clist (raw_list_del p n h) hy ys"
    "e \<notin> nodes hx (remove1 e xs)" "e \<notin> nodes hy ys"
    using unlink_two [OF assms] by blast
  obtain h' where h': "list_add e hy (raw_list_del p n h) = Some h'" "clist h' hy (e # ys)"
    "agree_off (nodes hy (e # ys)) (raw_list_del p n h) h'"
    using list_add_clist [OF u(4,6)] by blast
  have "clist h' hx (remove1 e xs)"
    by (rule clist_frame [OF u(3) h'(3)]) (use u(5) assms(3) in \<open>auto dest: notin_set_remove1 set_remove1_subset [THEN subsetD]\<close>)
  with h' u that show thesis by (simp add: list_move_def)
qed

lemma list_move_tail_clist:
  assumes "clist h hx xs" "clist h hy ys" "nodes hx xs \<inter> nodes hy ys = {}" "e \<in> set xs"
  obtains h' where "list_move_tail e hy h = Some h'" "clist h' hx (remove1 e xs)" "clist h' hy (ys @ [e])"
proof -
  obtain p n where u: "lprev h e = Some p" "lnext h e = Some n"
    "clist (raw_list_del p n h) hx (remove1 e xs)" "clist (raw_list_del p n h) hy ys"
    "e \<notin> nodes hx (remove1 e xs)" "e \<notin> nodes hy ys"
    using unlink_two [OF assms] by blast
  obtain h' where h': "list_add_tail e hy (raw_list_del p n h) = Some h'" "clist h' hy (ys @ [e])"
    "agree_off (nodes hy (e # ys)) (raw_list_del p n h) h'"
    using list_add_tail_clist [OF u(4,6)] by blast
  have "clist h' hx (remove1 e xs)"
    by (rule clist_frame [OF u(3) h'(3)]) (use u(5) assms(3) in \<open>auto dest: notin_set_remove1 set_remove1_subset [THEN subsetD]\<close>)
  with h' u that show thesis by (simp add: list_move_tail_def)
qed


section \<open>Splicing\<close>

lemma dlinked_join:
  "xs \<noteq> [] \<Longrightarrow> dlinked h (xs @ y # ys) \<longleftrightarrow>
    dlinked h xs \<and> lnext h (last xs) = Some y \<and> lprev h y = Some (last xs) \<and> dlinked h (y # ys)"
  by (induction h xs rule: dlinked.induct) auto

lemma raw_list_splice_clist:
  assumes "clist h l xs" "xs \<noteq> []" "clist h head ys" "nodes l xs \<inter> nodes head ys = {}"
  obtains h' where "raw_list_splice l head h = Some h'" "clist h' head (xs @ ys)"
    "agree_off (set xs \<union> nodes head ys) h h'"
proof -
  obtain f xs' where xs: "xs = f # xs'" using assms(2) by (cases xs) auto
  obtain at zs where at: "ys @ [head] = at # zs" by (rule snoc_cases)
  let ?h = "set_prev at (Some (last xs)) (set_next (last xs) (Some at)
            (set_next head (Some f) (set_prev f (Some head) h)))"
  have dx: "dlinked h xs" "lnext h l = Some f"
    using assms(1,2) dlinked_join [of xs h l "[]"] by (auto simp: clist_def xs)
  have da: "dlinked h (at # zs)" "lnext h head = Some at"
    using assms(3) at by (auto simp: clist_def)
  have atset: "set (at # zs) = nodes head ys" "set (butlast (at # zs)) = set ys" "distinct (at # zs)"
    using at assms(3) by (metis Un_insert_right list.simps(15) set_append sup_bot_right empty_set, metis butlast_snoc,
       metis clist_def distinct.simps(2) distinct1_rotate rotate1.simps(2))
  have dist: "distinct xs" "last xs \<in> set xs" "last xs \<notin> set (butlast xs)"
    using assms(1,2) append_butlast_last_id [OF assms(2)] unfolding clist_def
    by (auto, metis distinct_append not_distinct_conv_prefix)
  have 1: "dlinked ?h xs"
    by (rule dlinked_cong [OF _ _ dx(1)])
      (use assms(4) atset dist in \<open>auto simp: xs op_defs split: if_splits dest: in_set_butlastD\<close>)
  have 2: "dlinked ?h (at # zs)"
    by (rule dlinked_cong [OF _ _ da(1)])
      (use assms(3,4) atset dist in \<open>auto simp: xs op_defs clist_def simp del: butlast.simps\<close>)
  have "lnext ?h head = Some f" "lprev ?h f = Some head" "lnext ?h (last xs) = Some at" "lprev ?h at = Some (last xs)"
    using assms(4) atset dist by (auto simp: op_defs xs)
  with 1 2 have "dlinked ?h (head # xs @ at # zs)"
    using dlinked_join [of xs ?h at zs] by (auto simp: xs)
  then have "clist ?h head (xs @ ys)"
    using assms at by (auto simp: clist_def)
  moreover have "lprev h l = Some (last xs)"
    using clist_next_prev(2) [OF assms(1)] assms(2) by simp
  then have "raw_list_splice l head h = Some ?h"
    using dx da by (simp add: raw_list_splice_def)
  moreover have "agree_off (set xs \<union> nodes head ys) h ?h"
    using dist atset by (auto simp: agree_off_def op_defs xs)
  ultimately show thesis using that by blast
qed

lemma list_empty_clist: "clist h head xs \<Longrightarrow> list_empty head h \<longleftrightarrow> xs = []"
  by (cases xs) (auto simp: list_empty_def clist_def)

lemma list_splice_init_clist:
  assumes "clist h l xs" "clist h head ys" "nodes l xs \<inter> nodes head ys = {}"
  obtains h' where "list_splice_init l head h = Some h'" "clist h' head (xs @ ys)" "clist h' l []"
proof (cases "xs = []")
  case True
  with assms that show thesis by (simp add: list_splice_init_def list_empty_clist)
next
  case False
  obtain h1 where h1: "raw_list_splice l head h = Some h1" "clist h1 head (xs @ ys)"
    using raw_list_splice_clist [OF assms(1) False assms(2,3)] by blast
  have "clist (INIT_LIST_HEAD l h1) head (xs @ ys)"
    by (rule clist_frame [OF h1(2) agree_off_set_links(3)])
      (use assms in \<open>auto simp: clist_def\<close>)
  moreover have "clist (INIT_LIST_HEAD l h1) l []" by (simp add: clist_def op_defs)
  ultimately show thesis
    using that h1 False assms(1) by (simp add: list_splice_init_def list_empty_clist)
qed

section \<open>Iteration\<close>

lemma each_from_chain:
  assumes "dlinked h (ys @ [head])" "head \<notin> set ys"
  shows "each_from (lnext h) head (List.hd (ys @ [head])) seen = Some (rev seen @ ys)"
  using assms
proof (induction ys arbitrary: seen)
  case Nil
  then show ?case by (simp add: each_from.simps)
next
  case (Cons y ys)
  obtain n zs where n: "ys @ [head] = n # zs" by (rule snoc_cases)
  with Cons.prems have y: "lnext h y = Some n" "dlinked h (ys @ [head])" by auto
  then have "each_from (lnext h) head (List.hd (ys @ [head])) (y # seen) = Some (rev (y # seen) @ ys)"
    using Cons by simp
  with y n Cons.prems show ?case by (subst each_from.simps) auto
qed

lemma list_for_each_clist: "clist h head xs \<Longrightarrow> list_for_each head h = Some xs"
proof -
  assume c: "clist h head xs"
  then have "dlinked h (xs @ [head])" "head \<notin> set xs"
    by (auto simp: clist_def intro: snoc_cases [of xs head])
  with each_from_chain [of h xs head "[]"] clist_next_prev(1) [OF c] show ?thesis
    by (simp add: list_for_each_def)
qed

lemma clist_next:
  assumes "clist h head (ys @ x # zs)"
  shows "lnext h x = Some (List.hd (zs @ [head]))"
proof -
  from assms have "dlinked h ((head # ys) @ x # (zs @ [head]))" by (simp add: clist_def)
  then have "dlinked h (x # (zs @ [head]))" using dlinked_append [of h "head # ys" x "zs @ [head]"] by blast
  then show ?thesis by (cases zs) auto
qed

lemma del_if_clist:
  assumes "clist h head (ys @ x # zs)"
  obtains h' where "del_if P x h = Some h'" "clist h' head ((ys @ (if P x then [] else [x])) @ zs)" "agree_off (nodes head (ys @ x # zs)) h h'"
proof (cases "P x")
  case True
  from assms have "x \<notin> set ys" by (auto simp: clist_def)
  then show ?thesis using list_del_clist [OF assms, of x] that True by (auto simp: del_if_def remove1_append)
qed (use assms that in \<open>auto simp: del_if_def agree_off_def\<close>)

lemma safe_from_removes:
  assumes "clist h head (ys @ zs)" "zs \<noteq> [] \<longrightarrow> n = List.hd (tl zs @ [head])"
  shows "\<exists>h'. safe_from (del_if P) head (List.hd (zs @ [head])) n h seen = Some (rev seen @ zs, h') \<and>
    clist h' head (ys @ filter (\<lambda>z. \<not> P z) zs) \<and> agree_off (nodes head (ys @ zs)) h h'"
  using assms
proof (induction zs arbitrary: ys h n seen)
  case Nil
  then show ?case by (simp add: safe_from.simps agree_off_def)
next
  case (Cons z zs)
  let ?ys = "ys @ (if P z then [] else [z])"
  have n: "n = List.hd (zs @ [head])" using Cons.prems(2) by simp
  from Cons.prems(1) have "z \<noteq> head" by (auto simp: clist_def)
  obtain h1 where h1: "del_if P z h = Some h1" "clist h1 head (?ys @ zs)" "agree_off (nodes head (ys @ z # zs)) h h1"
    using del_if_clist [OF Cons.prems(1)] by blast
  obtain n' where n': "lnext h1 n = Some n'" "zs \<noteq> [] \<longrightarrow> n' = List.hd (tl zs @ [head])"
  proof (cases zs)
    case Nil
    then show ?thesis using that clist_next_prev(1) [OF h1(2)] n by simp
  next
    case (Cons y zs')
    then show ?thesis using that clist_next [of h1 head ?ys y zs'] h1(2) n by simp
  qed
  from Cons.IH [where seen = "z # seen", OF h1(2) n'(2)]
  obtain h' where h': "safe_from (del_if P) head (List.hd (zs @ [head])) n' h1 (z # seen) = Some (rev (z # seen) @ zs, h')"
    "clist h' head (?ys @ filter (\<lambda>z. \<not> P z) zs)" "agree_off (nodes head (?ys @ zs)) h1 h'" by blast
  have "safe_from (del_if P) head z n h seen = Some (rev seen @ z # zs, h')"
    using h'(1) h1(1) n'(1) n \<open>z \<noteq> head\<close> by (subst safe_from.simps) simp
  moreover have "agree_off (nodes head (ys @ z # zs)) h h'"
    by (rule agree_off_trans [OF h1(3) h'(3)]) auto
  ultimately show ?case using h'(2) by auto
qed

lemma list_for_each_safe_clist:
  assumes "clist h head xs"
  shows "\<exists>h'. list_for_each_safe (del_if P) head h = Some (xs, h') \<and> clist h' head (filter (\<lambda>x. \<not> P x) xs) \<and> agree_off (nodes head xs) h h'"
proof -
  obtain n where n: "lnext h (List.hd (xs @ [head])) = Some n" "xs \<noteq> [] \<longrightarrow> n = List.hd (tl xs @ [head])"
  proof (cases xs)
    case Nil
    then show ?thesis using that clist_next_prev(1) [OF assms] by simp
  next
    case (Cons z zs)
    then show ?thesis using that clist_next [of h head "[]" z zs] assms by simp
  qed
  from safe_from_removes [of h head "[]" xs n P "[]"] assms n clist_next_prev(1) [OF assms]
  show ?thesis by (auto simp: list_for_each_safe_def)
qed

text \<open>Backwards iteration is forward iteration over the heap with the two links exchanged.\<close>

definition flip_links :: "'a list_heap \<Rightarrow> 'a list_heap" where
  "flip_links h = \<lparr>lnext = lprev h, lprev = lnext h\<rparr>"

lemma flip_links_simps [simp]:
  "lnext (flip_links h) = lprev h" "lprev (flip_links h) = lnext h"
  by (simp_all add: flip_links_def)

lemma dlinked_flip: "dlinked (flip_links h) (rev xs) \<longleftrightarrow> dlinked h xs"
proof (induction h xs rule: dlinked.induct)
  case (1 h a b zs)
  have "rev (a # b # zs) = rev zs @ b # [a]" by simp
  then have "dlinked (flip_links h) (rev (a # b # zs)) \<longleftrightarrow>
      dlinked (flip_links h) (rev (b # zs)) \<and> dlinked (flip_links h) [b, a]"
    using dlinked_append [of "flip_links h" "rev zs" b "[a]"] by simp
  with 1 show ?case by auto
qed simp_all

lemma clist_flip: "clist h head xs \<Longrightarrow> clist (flip_links h) head (rev xs)"
  using dlinked_flip [of h "head # xs @ [head]"] by (auto simp: clist_def)

lemma list_for_each_prev_clist: "clist h head xs \<Longrightarrow> list_for_each_prev head h = Some (rev xs)"
  using list_for_each_clist [OF clist_flip, of h head xs]
  by (simp add: list_for_each_def list_for_each_prev_def cong: option.case_cong)


section \<open>The contract of a list that clients push to and delete from\<close>

text \<open>
  What the clients of the list (the connection and remote lists of the SOCKS server, the stream list
  of the HTTP/2 server) rely on: \<open>push\<close> puts a fresh node in front, \<open>del\<close> takes a node out,
  \<open>walk\<close> visits the nodes in order, and an operation on one list leaves every list it shares no node with.
\<close>

datatype 'a list_op = Push 'a | Del 'a

fun abs_op :: "'a list_op \<Rightarrow> 'a list \<Rightarrow> 'a list" where
  "abs_op (Push a) xs = a # xs"
| "abs_op (Del a) xs = remove1 a xs"

fun op_ok :: "'a \<Rightarrow> 'a list_op \<Rightarrow> 'a list \<Rightarrow> bool" where
  "op_ok head (Push a) xs \<longleftrightarrow> a \<notin> nodes head xs"
| "op_ok head (Del a) xs \<longleftrightarrow> a \<in> set xs"

fun ops_ok :: "'a \<Rightarrow> 'a list_op list \<Rightarrow> 'a list \<Rightarrow> bool" where
  "ops_ok head [] xs \<longleftrightarrow> True"
| "ops_ok head (x # ops) xs \<longleftrightarrow> op_ok head x xs \<and> ops_ok head ops (abs_op x xs)"

fun run_list_ops ::
    "('a \<Rightarrow> 'a \<Rightarrow> 'h \<Rightarrow> 'h option) \<Rightarrow> ('a \<Rightarrow> 'h \<Rightarrow> 'h option) \<Rightarrow> 'a \<Rightarrow> 'a list_op list \<Rightarrow> 'h \<Rightarrow> 'h option" where
  "run_list_ops push del head [] h = Some h"
| "run_list_ops push del head (Push a # ops) h = do { h' \<leftarrow> push a head h; run_list_ops push del head ops h' }"
| "run_list_ops push del head (Del a # ops) h = do { h' \<leftarrow> del a h; run_list_ops push del head ops h' }"

locale pushdown_list =
  fixes rep :: "'h \<Rightarrow> 'a \<Rightarrow> 'a list \<Rightarrow> bool"
    and push :: "'a \<Rightarrow> 'a \<Rightarrow> 'h \<Rightarrow> 'h option"
    and del :: "'a \<Rightarrow> 'h \<Rightarrow> 'h option"
    and walk :: "'a \<Rightarrow> 'h \<Rightarrow> 'a list option"
    and same_off :: "'a set \<Rightarrow> 'h \<Rightarrow> 'h \<Rightarrow> bool"
  assumes push: "rep h head xs \<Longrightarrow> a \<notin> nodes head xs \<Longrightarrow>
      \<exists>h'. push a head h = Some h' \<and> rep h' head (a # xs) \<and> same_off (nodes head (a # xs)) h h'"
    and del: "rep h head xs \<Longrightarrow> a \<in> set xs \<Longrightarrow>
      \<exists>h'. del a h = Some h' \<and> rep h' head (remove1 a xs) \<and> same_off (nodes head xs) h h'"
    and walk: "rep h head xs \<Longrightarrow> walk head h = Some xs"
    and frame: "rep h head xs \<Longrightarrow> same_off A h h' \<Longrightarrow> A \<inter> nodes head xs = {} \<Longrightarrow> rep h' head xs"
begin

lemma run_refines:
  assumes "rep h head xs" "ops_ok head ops xs"
  shows "\<exists>h'. run_list_ops push del head ops h = Some h' \<and> rep h' head (fold abs_op ops xs)"
  using assms
proof (induction ops arbitrary: h xs)
  case Nil
  then show ?case by simp
next
  case (Cons x ops)
  then have "\<exists>h'. (case x of Push a \<Rightarrow> push a head h | Del a \<Rightarrow> del a h) = Some h' \<and> rep h' head (abs_op x xs)"
    using push del by (cases x) fastforce+
  then obtain h' where "(case x of Push a \<Rightarrow> push a head h | Del a \<Rightarrow> del a h) = Some h'" "rep h' head (abs_op x xs)"
    by blast
  with Cons show ?case by (cases x) auto
qed

lemma push_beside:
  assumes "rep h head xs" "rep h other ys" "nodes head xs \<inter> nodes other ys = {}"
    and "a \<notin> nodes head xs" "a \<notin> nodes other ys"
  obtains h' where "push a head h = Some h'" "rep h' head (a # xs)" "rep h' other ys"
  using push [OF assms(1,4)] frame [OF assms(2)] assms(3,5) by (metis Int_insert_left insert_commute list.simps(15))

lemma del_beside:
  assumes "rep h head xs" "rep h other ys" "nodes head xs \<inter> nodes other ys = {}" "a \<in> set xs"
  obtains h' where "del a h = Some h'" "rep h' head (remove1 a xs)" "rep h' other ys"
  using del [OF assms(1,4)] frame [OF assms(2)] assms(3) by metis

end

interpretation kl: pushdown_list clist list_add list_del list_for_each agree_off
  by unfold_locales (metis list_add_clist, metis list_del_clist, erule list_for_each_clist, erule (2) clist_frame)

section \<open>Properties\<close>

text \<open>
  C5. Any sequence of \<open>list_add\<close> and \<open>list_del\<close> that adds only nodes not in the list and deletes only
  nodes of the list runs without a NULL dereference, and a \<open>list_for_each\<close> afterwards visits exactly the
  nodes, in the order, that the same pushes and removals give on a functional list: the pointer code
  refines the abstract list, whatever the order of the operations.
\<close>

theorem list_ops_refine:
  assumes "clist h head xs" and "ops_ok head ops xs"
  shows "\<exists>h'. run_list_ops list_add list_del head ops h = Some h' \<and>
    list_for_each head h' = Some (fold abs_op ops xs) \<and>
    list_for_each_prev head h' = Some (rev (fold abs_op ops xs))"
  using kl.run_refines [OF assms] list_for_each_clist list_for_each_prev_clist by metis

definition null_heap :: "nat list_heap" where
  "null_heap = \<lparr>lnext = (\<lambda>_. None), lprev = (\<lambda>_. None)\<rparr>"

theorem list_ops_refine_witness:
  "\<exists>h'. run_list_ops list_add list_del 0 [Push 1, Push 2, Push (3::nat), Del 2, Push 4] (INIT_LIST_HEAD 0 null_heap) = Some h' \<and>
    list_for_each 0 h' = Some [4, 3, 1] \<and> list_for_each_prev 0 h' = Some [1, 3, 4]"
  using list_ops_refine [of "INIT_LIST_HEAD 0 null_heap" 0 "[]" "[Push 1, Push 2, Push (3::nat), Del 2, Push 4]"]
  by (simp add: clist_def op_defs)

text \<open>
  \<open>list_splice_init\<close> moves all the nodes of one list, in order, to the front of another disjoint list
  and leaves the emptied list as a well-formed empty list, whether or not it was empty before.
\<close>

theorem list_splice_init_moves_all:
  assumes "clist h l xs" and "clist h head ys" and "nodes l xs \<inter> nodes head ys = {}"
  shows "\<exists>h'. list_splice_init l head h = Some h' \<and> list_for_each head h' = Some (xs @ ys) \<and>
    list_empty l h' \<and> clist h' l [] \<and> clist h' head (xs @ ys)"
  using list_splice_init_clist [OF assms] list_for_each_clist list_empty_clist by metis

theorem list_splice_init_moves_all_witness:
  "\<exists>h'. list_splice_init 0 10 (\<lparr>lnext = [0 \<mapsto> 1, 1 \<mapsto> 2, 2 \<mapsto> 0, 10 \<mapsto> 11, 11 \<mapsto> 10],
      lprev = [0 \<mapsto> 2, 2 \<mapsto> 1, 1 \<mapsto> 0, 10 \<mapsto> 11, 11 \<mapsto> 10]\<rparr> :: nat list_heap) = Some h' \<and>
    list_for_each 10 h' = Some [1, 2, 11] \<and> list_empty 0 h'"
  using list_splice_init_moves_all [of "\<lparr>lnext = [0 \<mapsto> 1, 1 \<mapsto> 2, 2 \<mapsto> 0, 10 \<mapsto> 11, 11 \<mapsto> 10],
      lprev = [0 \<mapsto> 2, 2 \<mapsto> 1, 1 \<mapsto> 0, 10 \<mapsto> 11, 11 \<mapsto> 10]\<rparr> :: nat list_heap" 0 "[1, 2]" 10 "[11]"]
  by (auto simp: clist_def)

text \<open>
  C6. \<open>list_for_each_safe\<close> with a body that removes the nodes it chooses visits every node once, in order, follows no link of a removed node, ends, leaves
  exactly the other nodes in their order, and writes no node outside the list.
\<close>

theorem list_for_each_safe_removes:
  assumes "clist h head xs"
  shows "\<exists>h'. list_for_each_safe (del_if P) head h = Some (xs, h') \<and> list_for_each head h' = Some (filter (\<lambda>x. \<not> P x) xs) \<and>
    agree_off (nodes head xs) h h'"
  using list_for_each_safe_clist [OF assms] list_for_each_clist by metis

theorem list_for_each_safe_removes_witness:
  "\<exists>h'. list_for_each_safe (del_if odd) 0 (\<lparr>lnext = [0 \<mapsto> 1, 1 \<mapsto> 2, 2 \<mapsto> 3, 3 \<mapsto> 0], lprev = [0 \<mapsto> 3, 3 \<mapsto> 2, 2 \<mapsto> 1, 1 \<mapsto> 0]\<rparr> :: nat list_heap)
      = Some ([1, 2, 3], h') \<and> list_for_each 0 h' = Some [2]"
  using list_for_each_safe_removes [of "\<lparr>lnext = [0 \<mapsto> 1, 1 \<mapsto> 2, 2 \<mapsto> 3, 3 \<mapsto> 0], lprev = [0 \<mapsto> 3, 3 \<mapsto> 2, 2 \<mapsto> 1, 1 \<mapsto> 0]\<rparr> :: nat list_heap"
      0 "[1, 2, 3]" odd]
  by (auto simp: clist_def)

end
