(* ===== verification/Cipher.thy ===== *)
theory Cipher
  imports Prelude "HOL-Library.Monad_Syntax"
begin

text \<open>
  The stream ciphers of the SOCKS proxy: \<open>xor.c\<close>, \<open>rc4.c\<close> and the tagged union over them in \<open>encrypt.c\<close>.

  A cipher takes its state and a buffer and gives the transformed buffer and the advanced state.
  Out-of-range reads and the division by zero that an empty key causes are \<open>None\<close>. Sizes are \<open>nat\<close>:
  every sum the C code forms of two of them (\<open>i + *loc\<close>, \<open>buf_len + *loc\<close>) is of a buffer index and a key
  index, both below the size of an object in memory, so the 64-bit \<open>size_t\<close> does not wrap.

  The locale \<open>stream_cipher\<close> is the contract the proxy relies on; \<open>xor_encrypt\<close>, \<open>rc4_crypt\<close>, \<open>ss_encrypt\<close>
  and \<open>ss_decrypt\<close> are interpretations of it.
\<close>

section \<open>XOR (\<open>xor.c\<close>)\<close>

text \<open>
  The loop of \<open>xor_encrypt\<close> from index \<open>i\<close> on; \<open>key\<close> is the memory that may be read from the key pointer on,
  \<open>key_len\<close> the length the modulus uses.
\<close>

fun xor_loop :: "nat \<Rightarrow> u8 list \<Rightarrow> u8 list \<Rightarrow> nat \<Rightarrow> nat \<Rightarrow> u8 list option" where
  "xor_loop i [] key key_len loc = Some []"
| "xor_loop i (b # bs) key key_len loc =
    (let k = (i + loc) mod key_len in
     if k < length key
     then do { out \<leftarrow> xor_loop (Suc i) bs key key_len loc; Some ((b XOR key ! k) # out) }
     else None)"

definition xor_encrypt :: "u8 list \<Rightarrow> u8 list \<Rightarrow> nat \<Rightarrow> nat \<Rightarrow> (u8 list \<times> nat) option" where
  "xor_encrypt buf key key_len loc =
    (if key_len = 0 then None
     else do { out \<leftarrow> xor_loop 0 buf key key_len loc; Some (out, (length buf + loc) mod key_len) })"

definition xor_decrypt :: "u8 list \<Rightarrow> u8 list \<Rightarrow> nat \<Rightarrow> nat \<Rightarrow> (u8 list \<times> nat) option" where
  "xor_decrypt buf key key_len loc = xor_encrypt buf key key_len loc"

section \<open>RC4 (\<open>rc4.c\<close>)\<close>

record rc4_state =
  perm :: "u8 list"
  index1 :: u8
  index2 :: u8

definition swap_bytes :: "nat \<Rightarrow> nat \<Rightarrow> u8 list \<Rightarrow> u8 list" where
  "swap_bytes a b p = (let temp = p ! a in (p[a := p ! b])[b := temp])"

text \<open>One turn of the key-scheduling loop: \<open>j\<close> is an \<open>u_char\<close>, its sum wraps at 256.\<close>

definition rc4_mix :: "u8 list \<Rightarrow> nat \<Rightarrow> u8 \<times> u8 list \<Rightarrow> nat \<Rightarrow> u8 \<times> u8 list" where
  "rc4_mix key keylen = (\<lambda>(j, p) i.
     let j' = j + p ! i + key ! (i mod keylen) in (j', swap_bytes i (unat j') p))"

definition rc4_init :: "u8 list \<Rightarrow> nat \<Rightarrow> rc4_state option" where
  "rc4_init key keylen =
    (if keylen = 0 \<or> length key < min keylen 256 then None
     else let p0 = map of_nat [0..<256];
              (j, p) = foldl (rc4_mix key keylen) (0, p0) [0..<256]
          in Some \<lparr>perm = p, index1 = 0, index2 = 0\<rparr>)"

text \<open>One turn of the loop of \<open>rc4_crypt\<close>: the new state and the key-stream byte.\<close>

definition rc4_next :: "rc4_state \<Rightarrow> u8 \<times> rc4_state" where
  "rc4_next s =
    (let i1 = index1 s + 1;
         i2 = index2 s + perm s ! unat i1;
         p = swap_bytes (unat i1) (unat i2) (perm s);
         j = p ! unat i1 + p ! unat i2
     in (p ! unat j, \<lparr>perm = p, index1 = i1, index2 = i2\<rparr>))"

fun rc4_crypt :: "rc4_state \<Rightarrow> u8 list \<Rightarrow> u8 list \<times> rc4_state" where
  "rc4_crypt s [] = ([], s)"
| "rc4_crypt s (b # bs) =
    (let (k, s') = rc4_next s; (out, s'') = rc4_crypt s' bs in ((b XOR k) # out, s''))"

section \<open>The encryptor (\<open>encrypt.h\<close>, \<open>encrypt.c\<close>)\<close>

datatype ss_encrypt_method = NO_ENCRYPT | XOR_METHOD | RC4_METHOD

text \<open>
  \<open>key\<close> is the memory that may be read from the flexible array member \<open>key[0]\<close> on.
\<close>

record xor_encryptor =
  encry_loc :: nat
  decry_loc :: nat
  xor_key_len :: nat
  xor_key :: "u8 list"

record rc4_encryptor =
  en_state :: rc4_state
  de_state :: rc4_state
  rc4_key_len :: nat
  rc4_key :: "u8 list"

text \<open>\<open>struct ss_encryptor\<close>: the tag \<open>enc_method\<close> and the union are one datatype.\<close>

datatype ss_encryptor = Xor_enc xor_encryptor | Rc4_enc rc4_encryptor

fun enc_method :: "ss_encryptor \<Rightarrow> ss_encrypt_method" where
  "enc_method (Xor_enc x) = XOR_METHOD"
| "enc_method (Rc4_enc r) = RC4_METHOD"

text \<open>
  The layout of \<open>struct ss_encryptor\<close> on LP64: the union starts at byte 8 and holds two \<open>rc4_state\<close>s of 258 bytes,
  padding to 520, and a \<open>size_t\<close>, 528 bytes in all; \<open>xor_enc.key\<close> starts after three \<open>size_t\<close>s, at byte 32.
  So 504 bytes of the structure follow the start of the XOR key and none that of the RC4 key.
\<close>

definition sizeof_ss_encryptor :: nat where "sizeof_ss_encryptor = 536"
definition offsetof_xor_key :: nat where "offsetof_xor_key = 32"
definition offsetof_rc4_key :: nat where "offsetof_rc4_key = 536"

definition xor_key_room :: nat where
  "xor_key_room = sizeof_ss_encryptor - offsetof_xor_key"

datatype creation = Created ss_encryptor | Died | Undef

text \<open>
  \<open>ss_create_encryptor\<close>: \<open>mem\<close> says whether \<open>calloc\<close> succeeds; its result is not checked, so a failure is a
  NULL dereference. The block is zeroed and \<open>key_len\<close> bytes longer than the structure.
\<close>

definition ss_create_encryptor :: "bool \<Rightarrow> ss_encrypt_method \<Rightarrow> u8 list \<Rightarrow> nat \<Rightarrow> creation" where
  "ss_create_encryptor mem method key key_len =
    (case method of
       XOR_METHOD \<Rightarrow>
         if \<not> mem \<or> length key < key_len then Undef
         else Created (Xor_enc \<lparr>encry_loc = 0, decry_loc = 0, xor_key_len = key_len,
                                xor_key = take key_len key @ replicate xor_key_room 0\<rparr>)
     | RC4_METHOD \<Rightarrow>
         if \<not> mem \<or> length key < key_len then Undef
         else (case (rc4_init key key_len, rc4_init key key_len) of
                 (Some en, Some de) \<Rightarrow>
                   Created (Rc4_enc \<lparr>en_state = en, de_state = de, rc4_key_len = key_len,
                                     rc4_key = take key_len key\<rparr>)
               | _ \<Rightarrow> Undef)
     | NO_ENCRYPT \<Rightarrow> Died)"

text \<open>
  \<open>ss_encrypt\<close> and \<open>ss_decrypt\<close>. The branch for \<open>dest != src\<close> copies the source first and then works in place on the
  copy: both branches compute the same bytes.
\<close>

fun ss_encrypt :: "ss_encryptor \<Rightarrow> u8 list \<Rightarrow> (u8 list \<times> ss_encryptor) option" where
  "ss_encrypt (Xor_enc x) src = do {
     (out, loc) \<leftarrow> xor_encrypt src (xor_key x) (xor_key_len x) (encry_loc x);
     Some (out, Xor_enc (x\<lparr>encry_loc := loc\<rparr>)) }"
| "ss_encrypt (Rc4_enc r) src =
     (let (out, s) = rc4_crypt (en_state r) src in Some (out, Rc4_enc (r\<lparr>en_state := s\<rparr>)))"

fun ss_decrypt :: "ss_encryptor \<Rightarrow> u8 list \<Rightarrow> (u8 list \<times> ss_encryptor) option" where
  "ss_decrypt (Xor_enc x) src = do {
     (out, loc) \<leftarrow> xor_decrypt src (xor_key x) (xor_key_len x) (decry_loc x);
     Some (out, Xor_enc (x\<lparr>decry_loc := loc\<rparr>)) }"
| "ss_decrypt (Rc4_enc r) src =
     (let (out, s) = rc4_crypt (de_state r) src in Some (out, Rc4_enc (r\<lparr>de_state := s\<rparr>)))"

text \<open>
  The per-connection copy in \<open>ss_server_add_conn\<close>: \<open>malloc\<close> and \<open>memcpy\<close> of \<open>sizeof(struct ss_encryptor)\<close> bytes,
  which does not include the part of the key that lies behind the structure.
\<close>

fun copy_encryptor :: "ss_encryptor \<Rightarrow> ss_encryptor" where
  "copy_encryptor (Xor_enc x) = Xor_enc (x\<lparr>xor_key := take xor_key_room (xor_key x)\<rparr>)"
| "copy_encryptor (Rc4_enc r) = Rc4_enc (r\<lparr>rc4_key := take (sizeof_ss_encryptor - offsetof_rc4_key) (rc4_key r)\<rparr>)"

section \<open>The contract of a stream cipher\<close>

text \<open>
  From an acceptable state a stream cipher transforms every buffer, byte for byte; transforming a buffer in
  two parts is transforming it at once; and transforming twice from the same state gives the buffer back.
\<close>

locale stream_cipher =
  fixes crypt :: "'s \<Rightarrow> u8 list \<Rightarrow> (u8 list \<times> 's) option"
    and ok :: "'s \<Rightarrow> bool"
  assumes total: "ok s \<Longrightarrow> \<exists>out s'. crypt s xs = Some (out, s') \<and> ok s' \<and> length out = length xs"
    and append: "ok s \<Longrightarrow> crypt s xs = Some (out, s') \<Longrightarrow> crypt s' ys = Some (out', s'') \<Longrightarrow>
      crypt s (xs @ ys) = Some (out @ out', s'')"
    and involutive: "ok s \<Longrightarrow> crypt s xs = Some (out, s') \<Longrightarrow> crypt s out = Some (xs, s')"

fun crypt_chunks :: "('s \<Rightarrow> u8 list \<Rightarrow> (u8 list \<times> 's) option) \<Rightarrow> 's \<Rightarrow> u8 list list \<Rightarrow> (u8 list list \<times> 's) option" where
  "crypt_chunks crypt s [] = Some ([], s)"
| "crypt_chunks crypt s (c # cs) = do {
     (out, s') \<leftarrow> crypt s c; (outs, s'') \<leftarrow> crypt_chunks crypt s' cs; Some (out # outs, s'') }"

context stream_cipher
begin

lemma stepE:
  assumes "ok s"
  obtains out s' where "crypt s xs = Some (out, s')" "ok s'" "length out = length xs"
  using total [OF assms] by blast

lemma ok_step: "ok s \<Longrightarrow> crypt s xs = Some (out, s') \<Longrightarrow> ok s' \<and> length out = length xs"
  using total [of s xs] by auto

lemma crypt_Nil_cases:
  assumes "ok s" obtains s' where "crypt s [] = Some ([], s')" "ok s'"
  using stepE [OF assms, of "[]"] by auto

lemma chunks_concat:
  assumes "ok s" "crypt_chunks crypt s (c # cs) = Some (outs, s')"
  shows "crypt s (concat (c # cs)) = Some (concat outs, s')"
  using assms
proof (induction cs arbitrary: c s outs)
  case Nil
  then show ?case by auto
next
  case (Cons d cs)
  from Cons.prems obtain out s1 outs' where
    1: "crypt s c = Some (out, s1)" and 2: "crypt_chunks crypt s1 (d # cs) = Some (outs', s')"
    and o: "outs = out # outs'" by auto
  have "crypt s1 (concat (d # cs)) = Some (concat outs', s')"
    using ok_step [OF Cons.prems(1) 1] 2 by (intro Cons.IH) simp_all
  from append [OF Cons.prems(1) 1 this] show ?case by (simp add: o)
qed

lemma chunks_total:
  "ok s \<Longrightarrow> \<exists>outs s'. crypt_chunks crypt s cs = Some (outs, s') \<and> ok s' \<and> map length outs = map length cs"
proof (induction cs arbitrary: s)
  case (Cons c cs)
  obtain out s1 where 1: "crypt s c = Some (out, s1)" "ok s1" "length out = length c"
    using stepE [OF Cons.prems] by blast
  with Cons.IH [OF 1(2)] show ?case by auto
qed simp

text \<open>
  The boundaries at which a byte stream is cut do not matter: the sender transforms it in the pieces it sends,
  the receiver in the pieces it happens to read, and the receiver ends up with the sender's bytes.
\<close>

lemma chunks_decrypt:
  assumes "ok s" "crypt_chunks crypt s (c # cs) = Some (sent, s1)"
    and "concat (r # rs) = concat sent"
    and "crypt_chunks crypt s (r # rs) = Some (got, s2)"
  shows "concat got = concat (c # cs) \<and> s2 = s1"
proof -
  from chunks_concat [OF assms(1,2)] have "crypt s (concat sent) = Some (concat (c # cs), s1)"
    by (rule involutive [OF assms(1)])
  moreover have "crypt s (concat sent) = Some (concat got, s2)"
    using chunks_concat [OF assms(1,4)] assms(3) by simp
  ultimately show ?thesis by simp
qed

end


section \<open>XOR is a stream cipher\<close>

definition xor_crypt :: "u8 list \<Rightarrow> nat \<Rightarrow> nat \<Rightarrow> u8 list \<Rightarrow> (u8 list \<times> nat) option" where
  "xor_crypt key key_len loc buf = xor_encrypt buf key key_len loc"

lemma xor_loop_total:
  "0 < key_len \<Longrightarrow> key_len \<le> length key \<Longrightarrow>
   xor_loop i buf key key_len loc =
     Some (map (\<lambda>n. buf ! n XOR key ! ((i + n + loc) mod key_len)) [0..<length buf])"
proof (induction buf arbitrary: i)
  case (Cons b bs)
  then have "(i + loc) mod key_len < length key" by (meson less_le_trans mod_less_divisor)
  with Cons show ?case
    by (auto simp: Let_def map_upt_Suc simp del: upt_Suc)
qed simp

lemma xor_encrypt_eq:
  "0 < key_len \<Longrightarrow> key_len \<le> length key \<Longrightarrow>
   xor_encrypt buf key key_len loc =
     Some (map (\<lambda>n. buf ! n XOR key ! ((n + loc) mod key_len)) [0..<length buf], (length buf + loc) mod key_len)"
  by (simp add: xor_encrypt_def xor_loop_total)

lemma xor_index_shift:
  "\<not> i < l \<Longrightarrow> (i - l + (l + s) mod k) mod k = (i + s) mod (k :: nat)"
proof -
  assume "\<not> i < l"
  then have "i - l + (l + s) = i + s" by simp
  then show ?thesis by (metis mod_add_right_eq)
qed

interpretation xc: stream_cipher "xor_crypt key key_len" "\<lambda>_. 0 < key_len \<and> key_len \<le> length key" for key key_len
proof (unfold_locales, goal_cases)
  case (1 s xs)
  then show ?case by (simp add: xor_crypt_def xor_encrypt_eq)
next
  case (2 s xs out s' ys out' s'')
  then show ?case
    by (auto simp: xor_crypt_def xor_encrypt_eq nth_append xor_index_shift mod_simps add.commute add.left_commute
        intro!: nth_equalityI)
next
  case (3 s xs out s')
  then show ?case
    by (auto simp: xor_crypt_def xor_encrypt_eq intro!: nth_equalityI)
qed

section \<open>RC4 is a stream cipher\<close>

definition rc4_stream :: "rc4_state \<Rightarrow> u8 list \<Rightarrow> (u8 list \<times> rc4_state) option" where
  "rc4_stream s buf = Some (rc4_crypt s buf)"

lemma rc4_crypt_Cons:
  "rc4_crypt s (b # bs) = ((b XOR fst (rc4_next s)) # fst (rc4_crypt (snd (rc4_next s)) bs),
     snd (rc4_crypt (snd (rc4_next s)) bs))"
  by (simp add: case_prod_beta Let_def)

declare rc4_crypt.simps(2) [simp del] rc4_crypt_Cons [simp]

lemma rc4_crypt_append:
  "rc4_crypt s (xs @ ys) =
    (fst (rc4_crypt s xs) @ fst (rc4_crypt (snd (rc4_crypt s xs)) ys), snd (rc4_crypt (snd (rc4_crypt s xs)) ys))"
  by (induction xs arbitrary: s) auto

lemma rc4_crypt_involutive: "rc4_crypt s (fst (rc4_crypt s xs)) = (xs, snd (rc4_crypt s xs))"
  by (induction xs arbitrary: s) auto

lemma length_rc4_crypt: "length (fst (rc4_crypt s xs)) = length xs"
  by (induction xs arbitrary: s) auto

interpretation rc: stream_cipher rc4_stream "\<lambda>_. True"
proof (unfold_locales, goal_cases)
  case (1 s xs)
  then show ?case using length_rc4_crypt [of s xs] by (cases "rc4_crypt s xs") (auto simp: rc4_stream_def)
next
  case (2 s xs out s' ys out' s'')
  then show ?case by (simp add: rc4_stream_def rc4_crypt_append)
next
  case (3 s xs out s')
  then show ?case using rc4_crypt_involutive [of s xs] by (simp add: rc4_stream_def)
qed

text \<open>
  The state of RC4 is always a permutation of the 256 byte values, so every access to \<open>perm\<close>
  is within the array.
\<close>

definition rc4_ok :: "rc4_state \<Rightarrow> bool" where
  "rc4_ok s \<longleftrightarrow> length (perm s) = 256 \<and> distinct (perm s)"

lemma swap_bytes_props:
  assumes "a < length p" "b < length p"
  shows "length (swap_bytes a b p) = length p" "distinct (swap_bytes a b p) = distinct p"
    "set (swap_bytes a b p) = set p"
proof -
  have "swap_bytes a b p = p[a := p ! b, b := p ! a]" by (simp add: swap_bytes_def Let_def)
  then show "length (swap_bytes a b p) = length p" "distinct (swap_bytes a b p) = distinct p"
    "set (swap_bytes a b p) = set p"
    using assms by (simp_all add: distinct_swap set_swap)
qed

lemma rc4_next_ok: "rc4_ok s \<Longrightarrow> rc4_ok (snd (rc4_next s))"
  using swap_bytes_props [of "unat (index1 s + 1)" "perm s"] unat_u8_less
  by (simp add: rc4_ok_def rc4_next_def Let_def)

lemma rc4_crypt_ok: "rc4_ok s \<Longrightarrow> rc4_ok (snd (rc4_crypt s xs))"
  by (induction xs arbitrary: s) (auto simp: rc4_next_ok)

lemma rc4_mix_ok:
  "length p = 256 \<Longrightarrow> distinct p \<Longrightarrow> i < 256 \<Longrightarrow> rc4_mix key keylen (j, p) i = (j', p') \<Longrightarrow>
   length p' = 256 \<and> distinct p'"
  using swap_bytes_props [of i p] by (auto simp: rc4_mix_def Let_def)

lemma rc4_mix_foldl_ok:
  "length p = 256 \<Longrightarrow> distinct p \<Longrightarrow> \<forall>i \<in> set is. i < 256 \<Longrightarrow>
   foldl (rc4_mix key keylen) (j, p) is = (j', p') \<Longrightarrow> length p' = 256 \<and> distinct p'"
proof (induction "is" arbitrary: j p)
  case (Cons i "is")
  obtain j1 p1 where 1: "rc4_mix key keylen (j, p) i = (j1, p1)" by fastforce
  have "length p1 = 256 \<and> distinct p1" by (rule rc4_mix_ok [OF _ _ _ 1]) (use Cons.prems in auto)
  moreover have "foldl (rc4_mix key keylen) (j1, p1) is = (j', p')" using Cons.prems(4) 1 by simp
  ultimately show ?case using Cons.IH [of p1 j1] Cons.prems(3) by simp
qed simp

lemma distinct_all_u8: "distinct (map of_nat [0..<256] :: u8 list)"
  by (auto simp: distinct_map inj_on_def word_of_nat_eq_iff take_bit_eq_mod)

lemma rc4_init_ok: "rc4_init key keylen = Some s \<Longrightarrow> rc4_ok s"
  using rc4_mix_foldl_ok [of "map of_nat [0..<256]" "[0..<256]" key keylen 0] distinct_all_u8
  by (auto simp: rc4_init_def rc4_ok_def Let_def split: if_splits prod.splits)


section \<open>The encryptor is a stream cipher in both directions\<close>

fun enc_ok :: "ss_encryptor \<Rightarrow> bool" where
  "enc_ok (Xor_enc x) \<longleftrightarrow> 0 < xor_key_len x \<and> xor_key_len x \<le> length (xor_key x)"
| "enc_ok (Rc4_enc r) \<longleftrightarrow> rc4_ok (en_state r) \<and> rc4_ok (de_state r)"

lemma xor_decrypt_crypt: "xor_decrypt buf key key_len loc = xor_crypt key key_len loc buf"
  by (simp add: xor_decrypt_def xor_crypt_def)

lemma xor_encrypt_crypt: "xor_encrypt buf key key_len loc = xor_crypt key key_len loc buf"
  by (simp add: xor_crypt_def)

lemma ss_encrypt_Rc4:
  "ss_encrypt (Rc4_enc r) src = Some (fst (rc4_crypt (en_state r) src), Rc4_enc (r\<lparr>en_state := snd (rc4_crypt (en_state r) src)\<rparr>))"
  "ss_decrypt (Rc4_enc r) src = Some (fst (rc4_crypt (de_state r) src), Rc4_enc (r\<lparr>de_state := snd (rc4_crypt (de_state r) src)\<rparr>))"
  by (simp_all add: case_prod_beta Let_def)

declare ss_encrypt.simps(2) [simp del] ss_decrypt.simps(2) [simp del]

lemmas ss_crypt_simps = ss_encrypt_Rc4 ss_encrypt.simps(1) ss_decrypt.simps(1)
  xor_decrypt_crypt xor_encrypt_crypt

interpretation ec: stream_cipher ss_encrypt enc_ok
proof (unfold_locales, goal_cases)
  case (1 s xs)
  then show ?case
  proof (cases s)
    case (Xor_enc x)
    with 1 show ?thesis using xc.total [where key_len = "xor_key_len x" and key = "xor_key x" and xs = xs and s = "encry_loc x"]
      by (fastforce simp: ss_crypt_simps)
  qed (auto simp: ss_crypt_simps length_rc4_crypt rc4_crypt_ok)
next
  case (2 s xs out s' ys out' s'')
  then show ?case
    by (cases s) (auto simp: ss_crypt_simps rc4_crypt_append, metis xc.append)
next
  case (3 s xs out s')
  then show ?case
    by (cases s) (auto simp: ss_crypt_simps rc4_crypt_involutive intro: xc.involutive)
qed

interpretation dc: stream_cipher ss_decrypt enc_ok
proof (unfold_locales, goal_cases)
  case (1 s xs)
  then show ?case
  proof (cases s)
    case (Xor_enc x)
    with 1 show ?thesis using xc.total [where key_len = "xor_key_len x" and key = "xor_key x" and xs = xs and s = "decry_loc x"]
      by (fastforce simp: ss_crypt_simps)
  qed (auto simp: ss_crypt_simps length_rc4_crypt rc4_crypt_ok)
next
  case (2 s xs out s' ys out' s'')
  then show ?case
    by (cases s) (auto simp: ss_crypt_simps rc4_crypt_append, metis xc.append)
next
  case (3 s xs out s')
  then show ?case
    by (cases s) (auto simp: ss_crypt_simps rc4_crypt_involutive intro: xc.involutive)
qed

text \<open>
  \<open>ss_encrypt\<close> and \<open>ss_decrypt\<close> are the same transformation on the two independent halves of the state:
  exchanging the halves exchanges the operations.
\<close>

fun mirror :: "ss_encryptor \<Rightarrow> ss_encryptor" where
  "mirror (Xor_enc x) = Xor_enc (x\<lparr>encry_loc := decry_loc x, decry_loc := encry_loc x\<rparr>)"
| "mirror (Rc4_enc r) = Rc4_enc (r\<lparr>en_state := de_state r, de_state := en_state r\<rparr>)"

lemma ss_encrypt_mirror:
  "ss_encrypt e buf = map_option (\<lambda>(out, e'). (out, mirror e')) (ss_decrypt (mirror e) buf)"
proof (cases e)
  case (Xor_enc x)
  then show ?thesis by (cases "xor_crypt (xor_key x) (xor_key_len x) (encry_loc x) buf") (auto simp: ss_crypt_simps)
qed (simp add: ss_crypt_simps)

lemma chunks_mirror:
  "crypt_chunks ss_encrypt e cs = map_option (\<lambda>(outs, e'). (outs, mirror e')) (crypt_chunks ss_decrypt (mirror e) cs)"
proof (induction cs arbitrary: e)
  case Nil
  have "mirror (mirror e) = e" by (cases e) auto
  then show ?case by simp
next
  case (Cons c cs)
  have m: "mirror (mirror x) = x" for x by (cases x) auto
  show ?case
  proof (cases "ss_decrypt (mirror e) c")
    case None
    then show ?thesis by (simp add: ss_encrypt_mirror [of e c])
  next
    case (Some r)
    then show ?thesis
      by (cases r, cases "crypt_chunks ss_decrypt (snd r) cs") (auto simp: ss_encrypt_mirror [of e c] Cons.IH m)
  qed
qed

lemma created_ok:
  assumes "ss_create_encryptor mem m key len = Created e" "0 < len"
  shows "enc_ok e" "mirror e = e"
  using assms rc4_init_ok
  by (auto simp: ss_create_encryptor_def xor_key_room_def sizeof_ss_encryptor_def offsetof_xor_key_def
      split: ss_encrypt_method.splits if_splits option.splits)

context stream_cipher
begin

lemma chunks_roundtrip:
  assumes "ok s" "crypt_chunks crypt s cs = Some (sent, s1)" "concat rs = concat sent"
  obtains got s2 where "crypt_chunks crypt s rs = Some (got, s2)" "concat got = concat cs"
proof -
  obtain got s2 where got: "crypt_chunks crypt s rs = Some (got, s2)" "map length got = map length rs"
    using chunks_total [OF assms(1)] by blast
  have lens: "map length sent = map length cs" using chunks_total [OF assms(1), of cs] assms(2) by auto
  have "concat got = concat cs"
  proof (cases "cs = [] \<or> rs = []")
    case True
    then have "concat sent = []" using assms(3) lens by auto
    moreover have "length (concat cs) = length (concat sent)" using lens by (simp only: length_concat)
    ultimately have "concat rs = []" "concat cs = []" using assms(3) by (metis, metis length_0_conv)
    moreover have "length (concat got) = length (concat rs)" using got(2) by (simp only: length_concat)
    ultimately show ?thesis by (metis length_0_conv)
  next
    case False
    then obtain c cs' r rs' where "cs = c # cs'" "rs = r # rs'" by (metis neq_Nil_conv)
    then show ?thesis using chunks_decrypt assms got(1) by blast
  qed
  with got(1) that show thesis by blast
qed

end

section \<open>Properties\<close>



text \<open>
  C8. Every RC4 state the program reaches, from key scheduling on and after any number of encrypted bytes, holds
  a permutation of all 256 byte values: each byte occurs exactly once in \<open>perm\<close>, and all array accesses are in range.
\<close>

theorem rc4_perm_is_permutation:
  assumes "rc4_init key keylen = Some s"
  shows "let p = perm (snd (rc4_crypt s buf)) in length p = 256 \<and> distinct p \<and> set p = UNIV"
proof -
  let ?p = "perm (snd (rc4_crypt s buf))"
  have p: "length ?p = 256" "distinct ?p"
    using rc4_crypt_ok [OF rc4_init_ok [OF assms], of buf] by (simp_all add: rc4_ok_def)
  moreover have "set ?p = UNIV"
    using p by (intro card_subset_eq) (auto simp: distinct_card card_word)
  ultimately show ?thesis by (simp add: Let_def)
qed

theorem rc4_perm_is_permutation_witness:
  "\<exists>s. rc4_init [1] 1 = Some s \<and>
    (let p = perm (snd (rc4_crypt s [1, 2, 3])) in length p = 256 \<and> distinct p \<and> set p = UNIV)"
proof -
  obtain s where s: "rc4_init [1] 1 = Some s" by (simp add: rc4_init_def case_prod_beta Let_def)
  show ?thesis using s rc4_perm_is_permutation [OF s, of "[1, 2, 3]"] by blast
qed

section \<open>The copy of a connection\<close>

lemma xor_loop_take:
  "(\<And>k. k < key_len \<Longrightarrow> k < length key' \<and> k < length key \<and> key' ! k = key ! k) \<Longrightarrow> 0 < key_len \<Longrightarrow>
   xor_loop i buf key' key_len loc = xor_loop i buf key key_len loc"
  by (induction i buf key key_len loc rule: xor_loop.induct) (auto simp: Let_def)

lemma xor_crypt_take:
  "key_len \<le> n \<Longrightarrow> key_len \<le> length key \<Longrightarrow> xor_crypt (take n key) key_len loc buf = xor_crypt key key_len loc buf"
  using xor_loop_take [of key_len "take n key" key 0 buf loc]
  by (simp add: xor_crypt_def xor_encrypt_def)

lemma xor_loop_past_end:
  "(i + n + loc) mod key_len \<ge> length key \<Longrightarrow> n < length buf \<Longrightarrow> xor_loop i buf key key_len loc = None"
proof (induction i buf key key_len loc arbitrary: n rule: xor_loop.induct)
  case (2 i b bs key key_len loc)
  then show ?case by (cases n) (auto simp: Let_def)
qed simp

fun fits_copy :: "ss_encryptor \<Rightarrow> bool" where
  "fits_copy (Xor_enc x) \<longleftrightarrow> xor_key_len x \<le> 504"
| "fits_copy (Rc4_enc r) \<longleftrightarrow> True"

lemmas room_defs = xor_key_room_def sizeof_ss_encryptor_def offsetof_xor_key_def

lemma decrypt_copy_fits:
  assumes "enc_ok e" "fits_copy e"
  shows "ss_decrypt (copy_encryptor e) buf = map_option (\<lambda>(out, e'). (out, copy_encryptor e')) (ss_decrypt e buf)"
proof (cases e)
  case (Xor_enc x)
  with assms show ?thesis
    by (cases "xor_crypt (xor_key x) (xor_key_len x) (decry_loc x) buf")
      (auto simp: ss_crypt_simps xor_crypt_take room_defs)
qed (simp add: ss_crypt_simps)

lemma fits_copy_step: "ss_decrypt e buf = Some (out, e') \<Longrightarrow> fits_copy e' = fits_copy e"
  by (cases e) (auto simp: ss_crypt_simps)

lemma chunks_copy_fits:
  "enc_ok e \<Longrightarrow> fits_copy e \<Longrightarrow>
   map_option fst (crypt_chunks ss_decrypt (copy_encryptor e) cs) = map_option fst (crypt_chunks ss_decrypt e cs)"
proof (induction cs arbitrary: e)
  case (Cons c cs)
  obtain out e' where 1: "ss_decrypt e c = Some (out, e')" "enc_ok e'"
    using dc.stepE [OF Cons.prems(1)] by blast
  then have "map_option fst (crypt_chunks ss_decrypt (copy_encryptor e') cs) = map_option fst (crypt_chunks ss_decrypt e' cs)"
    using Cons fits_copy_step by blast
  with 1 Cons.prems show ?case
    by (cases "crypt_chunks ss_decrypt e' cs"; cases "crypt_chunks ss_decrypt (copy_encryptor e') cs")
      (auto simp: decrypt_copy_fits)
qed simp

text \<open>
  The copy of the encryptor that each connection gets behaves as the server's own encryptor, on every sequence of
  buffers, as long as the XOR key has at most 504 bytes (RC4 keys are not limited); with a longer XOR key it still
  reads the key at the full length, past the end of the copied block, at the latest in the 505th byte.
\<close>

theorem connection_copy_of_encryptor:
  assumes "ss_create_encryptor mem m key len = Created e" and "0 < len"
  shows "(m = RC4_METHOD \<or> len \<le> 504 \<longrightarrow>
      map_option fst (crypt_chunks ss_decrypt (copy_encryptor e) cs) = map_option fst (crypt_chunks ss_decrypt e cs)) \<and>
    (m = XOR_METHOD \<and> 504 < len \<and> 504 < length buf \<longrightarrow> ss_decrypt (copy_encryptor e) buf = None)"
proof (intro conjI impI)
  assume "m = RC4_METHOD \<or> len \<le> 504"
  then have "fits_copy e" using assms
    by (auto simp: ss_create_encryptor_def split: ss_encrypt_method.splits if_splits option.splits)
  then show "map_option fst (crypt_chunks ss_decrypt (copy_encryptor e) cs) = map_option fst (crypt_chunks ss_decrypt e cs)"
    by (rule chunks_copy_fits [OF created_ok(1) [OF assms]])
next
  assume "m = XOR_METHOD \<and> 504 < len \<and> 504 < length buf"
  then show "ss_decrypt (copy_encryptor e) buf = None" using assms xor_loop_past_end [of _ 0 504 0 len buf]
    by (auto simp: ss_create_encryptor_def xor_decrypt_def xor_encrypt_def room_defs split: if_splits)
qed

theorem connection_copy_of_encryptor_witness:
  "\<exists>e e'. ss_create_encryptor True XOR_METHOD (bytes ''test'') 4 = Created e \<and>
    map_option fst (crypt_chunks ss_decrypt (copy_encryptor e) [bytes ''a'', bytes ''b'']) =
      map_option fst (crypt_chunks ss_decrypt e [bytes ''a'', bytes ''b'']) \<and>
    ss_create_encryptor True XOR_METHOD (replicate 600 7) 600 = Created e' \<and>
    ss_decrypt (copy_encryptor e') (replicate 505 0) = None"
proof -
  obtain e where e: "ss_create_encryptor True XOR_METHOD (bytes ''test'') 4 = Created e"
    by (simp add: ss_create_encryptor_def)
  obtain e' where e': "ss_create_encryptor True XOR_METHOD (replicate 600 7) 600 = Created e'"
    by (simp add: ss_create_encryptor_def)
  show ?thesis
    using e e' connection_copy_of_encryptor [OF e, of "[bytes ''a'', bytes ''b'']"]
      connection_copy_of_encryptor [OF e', of _ "replicate 505 0"] by simp
qed

end
