(* ===== verification/Buffer.thy ===== *)
theory Buffer
  imports Prelude "HOL-Library.Monad_Syntax"
begin

text \<open>
  The growable byte buffer of \<open>socks5_c-master/buffer.c\<close>.

  \<open>data\<close> is the block behind the data pointer, \<open>None\<close> once it has been freed. An operation is \<open>None\<close> when it
  would pass a freed pointer to the allocator or fail an assertion. Whether an allocation succeeds is an argument (\<open>mem\<close>).
  Sizes are 64-bit words, so doubling them wraps.
\<close>

type_synonym size_t = "64 word"

record buf =
  buf_max :: size_t
  used :: size_t
  data :: "u8 list option"

text \<open>\<open>Some None\<close> is the result \<open>NULL\<close>.\<close>

definition buf_create :: "bool \<Rightarrow> bool \<Rightarrow> size_t \<Rightarrow> buf option option" where
  "buf_create mem mem_data init_size =
    (if \<not> 0 < init_size then None
     else if \<not> mem then Some None
     else if \<not> mem_data then Some None
     else Some (Some \<lparr>buf_max = init_size, used = 0, data = Some (replicate (unat init_size) 0)\<rparr>))"

definition buf_release :: "buf \<Rightarrow> unit option" where
  "buf_release b = do { _ \<leftarrow> data b; Some () }"

text \<open>
  \<open>realloc\<close>: the common prefix is kept, new bytes are arbitrary (\<open>fill\<close>). A size of zero frees the block and
  returns \<open>NULL\<close>.
\<close>

definition resized :: "u8 list \<Rightarrow> nat \<Rightarrow> u8 \<Rightarrow> u8 list" where
  "resized d n fill = take n d @ replicate (n - length d) fill"

definition realloc :: "bool \<Rightarrow> u8 \<Rightarrow> u8 list option \<Rightarrow> size_t \<Rightarrow> (u8 list option \<times> u8 list option) option" where
  "realloc mem fill ptr n = do {
     d \<leftarrow> ptr;
     Some (if n = 0 then (None, None)
           else if \<not> mem then (None, Some d)
           else (Some (resized d (unat n) fill), Some (resized d (unat n) fill))) }"

text \<open>The first component of \<open>realloc\<close> is the returned pointer, the second what the old pointer now refers to.\<close>

definition buf_grow :: "bool \<Rightarrow> u8 \<Rightarrow> buf \<Rightarrow> (int \<times> buf) option" where
  "buf_grow mem fill b = do {
     let new_size = (if buf_max b = 0 then 1 else buf_max b * 2);
     (new_ptr, old) \<leftarrow> realloc mem fill (data b) new_size;
     Some (case new_ptr of
             None \<Rightarrow> (-1, b\<lparr>data := old\<rparr>)
           | Some d \<Rightarrow> (0, b\<lparr>data := Some d, buf_max := new_size\<rparr>)) }"

definition buf_resize :: "bool \<Rightarrow> u8 \<Rightarrow> buf \<Rightarrow> size_t \<Rightarrow> (int \<times> buf) option" where
  "buf_resize mem fill b new_size =
    (if new_size = 0 then do { _ \<leftarrow> data b; Some (0, b\<lparr>data := None, buf_max := 0\<rparr>) }
     else do {
       (new_ptr, old) \<leftarrow> realloc mem fill (data b) new_size;
       Some (case new_ptr of
               None \<Rightarrow> (-1, b\<lparr>data := old\<rparr>)
             | Some d \<Rightarrow> (0, b\<lparr>data := Some d, buf_max := new_size\<rparr>)) })"

section \<open>Well-formed buffers\<close>

text \<open>The block has the recorded size.\<close>

definition buf_ok :: "buf \<Rightarrow> bool" where
  "buf_ok b \<longleftrightarrow> (\<exists>d. data b = Some d \<and> length d = unat (buf_max b))"

definition content :: "buf \<Rightarrow> u8 list" where
  "content b = (case data b of None \<Rightarrow> [] | Some d \<Rightarrow> d)"

lemma length_resized: "length (resized d n fill) = n"
  by (simp add: resized_def)

lemma take_resized: "m \<le> n \<Longrightarrow> m \<le> length d \<Longrightarrow> take m (resized d n fill) = take m d"
  by (simp add: resized_def min_def)

lemma realloc_step:
  assumes "data b = Some d" "n \<noteq> 0"
  shows "Option.bind (realloc mem fill (data b) n) (\<lambda>(new_ptr, old).
      Some (case new_ptr of None \<Rightarrow> (-1, b\<lparr>data := old\<rparr>) | Some d \<Rightarrow> (0, b\<lparr>data := Some d, buf_max := n\<rparr>))) =
    Some (if mem then (0, b\<lparr>data := Some (resized d (unat n) fill), buf_max := n\<rparr>) else (-1, b))"
  using assms by (auto simp: realloc_def)

lemma grow_size:
  fixes m :: size_t
  assumes "unat m < 2 ^ 63"
  defines "g \<equiv> if m = 0 then 1 else m * 2"
  shows "g \<noteq> 0" "unat g = (if m = 0 then 1 else 2 * unat m)"
proof -
  have 2: "unat (m * 2) = 2 * unat m" using assms(1) by (simp add: unat_word_ariths)
  show "unat g = (if m = 0 then 1 else 2 * unat m)" by (simp add: g_def 2)
  then have "unat g \<noteq> 0" using unat_gt_0 [of m] by simp
  then show "g \<noteq> 0" by (simp add: unat_eq_zero)
qed

section \<open>Properties\<close>

text \<open>
  C33. Growing a well-formed buffer of less than \<open>2^63\<close> bytes and resizing it to a positive size never touch freed memory:
  on success the buffer is well formed, has the new size and keeps the bytes that fit, and on failure nothing changes.
\<close>

theorem buf_ops_keep_content:
  assumes "buf_ok b" "unat (buf_max b) < 2 ^ 63" "n \<noteq> 0"
  shows "(\<exists>rv b'. buf_grow mem fill b = Some (rv, b') \<and> buf_ok b' \<and>
      (if mem then rv = 0 \<and> unat (buf_max b') = (if buf_max b = 0 then 1 else 2 * unat (buf_max b)) \<and>
         take (unat (buf_max b)) (content b') = content b
       else rv = -1 \<and> b' = b)) \<and>
    (\<exists>rv b'. buf_resize mem fill b n = Some (rv, b') \<and> buf_ok b' \<and>
      (if mem then rv = 0 \<and> buf_max b' = n \<and>
         take (min (unat n) (unat (buf_max b))) (content b') = take (unat n) (content b)
       else rv = -1 \<and> b' = b))"
proof -
  obtain d where d: "data b = Some d" "length d = unat (buf_max b)" using assms(1) by (auto simp: buf_ok_def)
  define g where "g = (if buf_max b = 0 then 1 else buf_max b * 2)"
  have g: "g \<noteq> 0" "unat g = (if buf_max b = 0 then 1 else 2 * unat (buf_max b))"
    unfolding g_def by (rule grow_size [OF assms(2)])+
  have t: "take (unat (buf_max b)) (resized d (unat g) fill) = d"
    using take_resized [of "unat (buf_max b)" "unat g" d fill] g(2) d(2) by (simp split: if_splits)
  have grow: "buf_grow mem fill b = Some (if mem then (0, b\<lparr>data := Some (resized d (unat g) fill), buf_max := g\<rparr>) else (-1, b))"
    unfolding buf_grow_def g_def [symmetric] Let_def by (rule realloc_step [OF d(1) g(1)])
  have resize: "buf_resize mem fill b n = Some (if mem then (0, b\<lparr>data := Some (resized d (unat n) fill), buf_max := n\<rparr>) else (-1, b))"
    using realloc_step [OF d(1) assms(3)] assms(3) by (simp only: buf_resize_def if_False)
  have tn: "take (min (unat n) (unat (buf_max b))) (resized d (unat n) fill) = take (unat n) d"
    using take_resized [of "min (unat n) (unat (buf_max b))" "unat n" d fill] d(2) by (simp add: min_def)
  show ?thesis unfolding grow resize using d g(2) t tn
    by (cases mem) (simp_all add: buf_ok_def content_def length_resized)
qed

theorem buf_ops_keep_content_witness:
  "\<exists>b'. buf_grow True 7 \<lparr>buf_max = 2, used = 0, data = Some [1, 2]\<rparr> = Some (0, b') \<and> take 2 (content b') = [1, 2]"
  using buf_ops_keep_content [of "\<lparr>buf_max = 2, used = 0, data = Some [1, 2]\<rparr>" 1 True 7]
  by (auto simp: buf_ok_def content_def)

text \<open>
  Resizing to zero frees the block but keeps the pointer: every later growth, resizing or release of the
  buffer passes a freed pointer to the allocator.
\<close>

theorem buf_resize_zero_dangles:
  assumes "buf_ok b"
  shows "\<exists>b'. buf_resize mem fill b 0 = Some (0, b') \<and>
    buf_grow mem' fill' b' = None \<and> buf_resize mem' fill' b' n = None \<and> buf_release b' = None"
  using assms by (auto simp: buf_ok_def buf_resize_def buf_grow_def buf_release_def realloc_def Let_def)

theorem buf_resize_zero_dangles_witness:
  "\<exists>b'. buf_resize True 0 \<lparr>buf_max = 1, used = 0, data = Some [9]\<rparr> 0 = Some (0, b') \<and> buf_release b' = None"
  using buf_resize_zero_dangles [of "\<lparr>buf_max = 1, used = 0, data = Some [9]\<rparr>" True 0 True 0 0] by (auto simp: buf_ok_def)

end
