(* ===== verification/Socks.thy ===== *)
theory Socks
  imports Kernel_List Cipher Buffer
begin

text \<open>
  The core of the SOCKS5 proxy pair, \<open>socks5_c-master/socks.c\<close> with \<open>socks.h\<close>, \<open>socks5_protocol.h\<close> and \<open>socket_wrap.c\<close>:
  the contexts of a server, the SOCKS requests, and the \<open>select\<close> loop. The handlers of the two programs are in
  \<open>Socks_Apps\<close>.

  The state \<open>ss_server_ctx\<close> is the server structure together with the blocks that hang on it: the connection and
  remote contexts by address, the links of the two intrusive rings (\<open>Kernel_List\<close>) and the bytes of the shared buffer.
  There is one server per process, so the back pointers \<open>server_entry\<close> are left out. The operating system is a record of
  functions on an abstract world, \<open>os\<close>. \<open>log\<close> records the system calls, and \<open>leaked\<close> counts the blocks to which the last
  pointer is lost.

  A function is \<open>None\<close> when the C code would follow a \<open>NULL\<close> or freed pointer, or leave an array or a descriptor set.
\<close>

section \<open>Data\<close>

definition AE_NONE :: u32 where "AE_NONE = 0"
definition AE_READABLE :: u32 where "AE_READABLE = 1"
definition AE_WRITABLE :: u32 where "AE_WRITABLE = 2"
definition FD_SETSIZE :: int where "FD_SETSIZE = 1024"

datatype ss_state = OPENING | CONNECTING | CONNECTED

record conn_info =
  ip :: "u8 list"
  info_port :: u16

text \<open>The functions that are installed as \<open>rfileproc\<close> or \<open>wfileproc\<close>; \<open>No_proc\<close> is \<open>NULL\<close>.\<close>

datatype ss_ioproc = No_proc | Accept_handle | Io_handle | Remote_io_handle

record io_event =
  ev_mask :: u32
  rfileproc :: ss_ioproc
  wfileproc :: ss_ioproc

datatype ctx_ptr = SS_SERVER_CTX | SS_CONN_CTX nat | SS_REMOTE_CTX nat

record ss_remote_ctx =
  remote_fd :: int
  conn_entry :: "nat option"
  remote_mask :: u32
  remote_proc :: io_event

record ss_conn_ctx =
  conn_fd :: int
  conn_mask :: u32
  ss_conn_state :: ss_state
  ss_conn_info :: conn_info
  conn_proc :: io_event
  remote_count :: int
  remote :: "nat option"
  conn_encryptor :: "ss_encryptor option"

text \<open>The list nodes: the heads, and the member \<open>list\<close> of each context.\<close>

datatype node = Conn_head | Remote_head | Conn_node nat | Remote_node nat

datatype sys_call = Opened int | Closed int | Received int "u8 list" | Sent int "u8 list"

record 'w ss_server_ctx =
  sock_fd :: int
  fd_mask :: u32
  conn_count :: int
  io_proc :: io_event
  buf_bytes :: "u8 list"
  max_fd :: int
  rfds :: "int set"
  wfds :: "int set"
  encryptor :: "ss_encryptor option"
  ciphered :: bool
  conns :: "nat \<Rightarrow> ss_conn_ctx option"
  remotes :: "nat \<Rightarrow> ss_remote_ctx option"
  rings :: "node list_heap"
  next_block :: nat
  leaked :: nat
  sys :: 'w
  log :: "sys_call list"

datatype setup_call = Get_flags | Set_nonblock | Set_cloexec | Set_reuseaddr | Bind_any u16 | Listen nat

record 'w os =
  os_recv :: "'w \<Rightarrow> int \<Rightarrow> nat \<Rightarrow> u8 list option \<times> 'w"
  os_send :: "'w \<Rightarrow> int \<Rightarrow> u8 list \<Rightarrow> int \<times> bool \<times> 'w"
  os_accept :: "'w \<Rightarrow> int \<Rightarrow> int \<times> conn_info \<times> 'w"
  os_socket :: "'w \<Rightarrow> int \<times> 'w"
  os_inet_aton :: "u8 list \<Rightarrow> u8 list option"
  os_gethostbyname :: "'w \<Rightarrow> u8 list \<Rightarrow> (bool \<times> u8 list list) option \<times> 'w"
  os_connect :: "'w \<Rightarrow> int \<Rightarrow> u8 list \<Rightarrow> u16 \<Rightarrow> bool \<times> 'w"
  os_close :: "'w \<Rightarrow> int \<Rightarrow> 'w"
  os_calloc :: "'w \<Rightarrow> bool \<times> 'w"
  os_select :: "'w \<Rightarrow> int \<Rightarrow> int set \<Rightarrow> int set \<Rightarrow> int \<times> int set \<times> 'w"
  os_setup :: "'w \<Rightarrow> int \<Rightarrow> setup_call \<Rightarrow> bool \<times> 'w"

text \<open>
  \<open>os_recv\<close> returns the bytes received, \<open>Some []\<close> at the end of the stream and \<open>None\<close> for the error -1; \<open>os_send\<close> the
  number of bytes sent or -1, and whether \<open>errno\<close> is then \<open>EAGAIN\<close>; \<open>os_gethostbyname\<close> whether the addresses are of family
  \<open>AF_INET\<close>, and the addresses; \<open>os_select\<close> its result and the readable descriptors; \<open>os_setup\<close> whether one of the calls that prepare the
  listening socket succeeds; \<open>os_calloc\<close> whether an allocation succeeds.
\<close>

section \<open>Descriptor sets\<close>

definition ss_fd_set_add_fd :: "int \<Rightarrow> u32 \<Rightarrow> 'w ss_server_ctx \<Rightarrow> 'w ss_server_ctx option" where
  "ss_fd_set_add_fd fd msk s =
    (if (msk AND AE_READABLE \<noteq> 0 \<or> msk AND AE_WRITABLE \<noteq> 0) \<and> \<not> (0 \<le> fd \<and> fd < FD_SETSIZE) then None
     else Some (s\<lparr>rfds := (if msk AND AE_READABLE \<noteq> 0 then insert fd (rfds s) else rfds s),
                  wfds := (if msk AND AE_WRITABLE \<noteq> 0 then insert fd (wfds s) else wfds s)\<rparr>))"

definition ss_fd_set_del_fd :: "int \<Rightarrow> u32 \<Rightarrow> 'w ss_server_ctx \<Rightarrow> 'w ss_server_ctx option" where
  "ss_fd_set_del_fd fd msk s =
    (if (msk AND AE_READABLE \<noteq> 0 \<or> msk AND AE_WRITABLE \<noteq> 0) \<and> \<not> (0 \<le> fd \<and> fd < FD_SETSIZE) then None
     else Some (s\<lparr>rfds := (if msk AND AE_READABLE \<noteq> 0 then rfds s - {fd} else rfds s),
                  wfds := (if msk AND AE_WRITABLE \<noteq> 0 then wfds s - {fd} else wfds s)\<rparr>))"

section \<open>Receiving and sending\<close>

definition plain_recv :: "'w os \<Rightarrow> int \<Rightarrow> nat \<Rightarrow> 'w ss_server_ctx \<Rightarrow> u8 list option \<times> 'w ss_server_ctx" where
  "plain_recv os fd n s =
    (case os_recv os (sys s) fd n of
       (None, w) \<Rightarrow> (None, s\<lparr>sys := w\<rparr>)
     | (Some bs, w) \<Rightarrow> (Some bs, s\<lparr>sys := w, log := log s @ [Received fd bs]\<rparr>))"

definition plain_send :: "'w os \<Rightarrow> int \<Rightarrow> u8 list \<Rightarrow> 'w ss_server_ctx \<Rightarrow> int \<times> bool \<times> 'w ss_server_ctx" where
  "plain_send os fd bs s =
    (case os_send os (sys s) fd bs of
       (n, again, w) \<Rightarrow> (n, again, s\<lparr>sys := w, log := log s @ [Sent fd (take (nat n) bs)]\<rparr>))"

text \<open>\<open>ss_decrypt(conn->encryptor, ...)\<close>: the connection's encryptor transforms the bytes and moves on.\<close>

definition conn_crypt :: "nat \<Rightarrow> u8 list \<Rightarrow> 'w ss_server_ctx \<Rightarrow> (u8 list \<times> 'w ss_server_ctx) option" where
  "conn_crypt c bs s = do {
     d \<leftarrow> conns s c;
     e \<leftarrow> conn_encryptor d;
     (out, e') \<leftarrow> ss_decrypt e bs;
     Some (out, s\<lparr>conns := (conns s)(c \<mapsto> d\<lparr>conn_encryptor := Some e'\<rparr>)\<rparr>) }"

definition decry_recv :: "'w os \<Rightarrow> nat \<Rightarrow> int \<Rightarrow> nat \<Rightarrow> 'w ss_server_ctx \<Rightarrow> (u8 list option \<times> 'w ss_server_ctx) option" where
  "decry_recv os c fd n s =
    (case plain_recv os fd n s of
       (None, s1) \<Rightarrow> Some (None, s1)
     | (Some bs, s1) \<Rightarrow>
         if bs = [] then Some (Some [], s1)
         else do { (out, s2) \<leftarrow> conn_crypt c bs s1; Some (Some out, s2) })"

text \<open>Bytes written to the start of the shared buffer. \<open>encry_send\<close> transforms its bytes in place, and they always stand there.\<close>

definition fill_buf :: "u8 list \<Rightarrow> 'w ss_server_ctx \<Rightarrow> 'w ss_server_ctx" where
  "fill_buf bs s = s\<lparr>buf_bytes := bs @ drop (length bs) (buf_bytes s)\<rparr>"

definition encry_send :: "'w os \<Rightarrow> nat \<Rightarrow> int \<Rightarrow> u8 list \<Rightarrow> 'w ss_server_ctx \<Rightarrow> (int \<times> bool \<times> 'w ss_server_ctx) option" where
  "encry_send os c fd bs s = do {
     (out, s1) \<leftarrow> conn_crypt c bs s;
     Some (plain_send os fd out (fill_buf out s1)) }"

text \<open>The function pointers \<open>ss_recv\<close> and \<open>ss_send\<close> of the server.\<close>

definition ss_recv :: "'w os \<Rightarrow> nat \<Rightarrow> int \<Rightarrow> nat \<Rightarrow> 'w ss_server_ctx \<Rightarrow> (u8 list option \<times> 'w ss_server_ctx) option" where
  "ss_recv os c fd n s = (if ciphered s then decry_recv os c fd n s else Some (plain_recv os fd n s))"

definition ss_send :: "'w os \<Rightarrow> nat \<Rightarrow> int \<Rightarrow> u8 list \<Rightarrow> 'w ss_server_ctx \<Rightarrow> (int \<times> bool \<times> 'w ss_server_ctx) option" where
  "ss_send os c fd bs s = (if ciphered s then encry_send os c fd bs s else Some (plain_send os fd bs s))"

section \<open>Contexts\<close>

definition close_fd :: "'w os \<Rightarrow> int \<Rightarrow> 'w ss_server_ctx \<Rightarrow> 'w ss_server_ctx" where
  "close_fd os fd s = s\<lparr>sys := os_close os (sys s) fd, log := log s @ [Closed fd]\<rparr>"

definition null_event :: io_event where
  "null_event = \<lparr>ev_mask = 0, rfileproc = No_proc, wfileproc = No_proc\<rparr>"

text \<open>\<open>create_server_socket\<close>: \<open>None\<close> when one of the calls fails and the program exits.\<close>

primrec setup_calls :: "'w os \<Rightarrow> int \<Rightarrow> setup_call list \<Rightarrow> 'w \<Rightarrow> bool \<times> 'w" where
  "setup_calls os fd [] w = (True, w)"
| "setup_calls os fd (c # cs) w =
    (case os_setup os w fd c of (ok, w') \<Rightarrow> if ok then setup_calls os fd cs w' else (False, w'))"

definition fd_set_noblock :: "setup_call list" where
  "fd_set_noblock = [Get_flags, Set_nonblock]"

definition bind_server :: "u16 \<Rightarrow> setup_call list" where
  "bind_server prt = [Bind_any prt]"

definition create_server_socket :: "'w os \<Rightarrow> u16 \<Rightarrow> 'w \<Rightarrow> int option \<times> 'w" where
  "create_server_socket os prt w =
    (case os_socket os w of (fd, w1) \<Rightarrow>
       if fd < 0 then (None, w1)
       else (case setup_calls os fd (fd_set_noblock @ [Set_cloexec, Set_reuseaddr] @ bind_server prt @ [Listen 100]) w1 of
               (ok, w2) \<Rightarrow> (if ok then Some fd else None, w2)))"

text \<open>\<open>ss_fd_set_init\<close>, for the two sets that are kept between calls of \<open>select\<close>.\<close>

definition ss_fd_set_init :: "(int set \<times> int set)" where
  "ss_fd_set_init = ({}, {})"

primrec allocs :: "'w os \<Rightarrow> nat \<Rightarrow> 'w \<Rightarrow> bool \<times> 'w" where
  "allocs os 0 w = (True, w)"
| "allocs os (Suc n) w = (case os_calloc os w of (ok, w') \<Rightarrow> if ok then allocs os n w' else (False, w'))"

text \<open>
  \<open>ss_create_server\<close>: \<open>Not_created\<close> is the result \<open>NULL\<close>, \<open>Exited\<close> a \<open>DIE\<close>, \<open>Crashed\<close> an unchecked failure. \<open>key\<close> is the key
  given on the command line, if any.
\<close>

datatype 'w start = Running "'w ss_server_ctx" | Not_created | Exited | Crashed

definition server_ctx :: "'w \<Rightarrow> int \<Rightarrow> u8 list \<Rightarrow> 'w ss_server_ctx" where
  "server_ctx w fd bs =
    \<lparr>sock_fd = fd, fd_mask = AE_READABLE, conn_count = 0, io_proc = null_event, buf_bytes = bs, max_fd = fd,
     rfds = fst ss_fd_set_init, wfds = snd ss_fd_set_init, encryptor = None, ciphered = False, conns = (\<lambda>_. None), remotes = (\<lambda>_. None),
     rings = INIT_LIST_HEAD Remote_head (INIT_LIST_HEAD Conn_head \<lparr>lnext = (\<lambda>_. None), lprev = (\<lambda>_. None)\<rparr>),
     next_block = 0, leaked = 0, sys = w, log = [Opened fd]\<rparr>"

definition install_cipher :: "'w os \<Rightarrow> ss_encrypt_method \<Rightarrow> u8 list option \<Rightarrow> 'w ss_server_ctx \<Rightarrow> 'w start" where
  "install_cipher os method key s =
    (case key of
       None \<Rightarrow> Running (s\<lparr>ciphered := False\<rparr>)
     | Some k \<Rightarrow>
         (case os_calloc os (sys s) of (ok, w) \<Rightarrow>
           (case ss_create_encryptor ok method k (length k) of
              Created e \<Rightarrow> Running (s\<lparr>sys := w, encryptor := Some e, ciphered := True\<rparr>)
            | Died \<Rightarrow> Exited
            | Undef \<Rightarrow> Crashed)))"

definition ss_create_server :: "'w os \<Rightarrow> u16 \<Rightarrow> ss_encrypt_method \<Rightarrow> u8 list option \<Rightarrow> 'w \<Rightarrow> 'w start" where
  "ss_create_server os prt method key w =
    (case os_calloc os w of (ok1, w1) \<Rightarrow>
     if \<not> ok1 then Not_created
     else (case os_calloc os w1 of (ok2, w2) \<Rightarrow> case (if ok2 then os_calloc os w2 else (False, w2)) of (ok3, w3) \<Rightarrow>
       (case buf_create ok2 ok3 4096 of
          Some (Some b) \<Rightarrow>
            (case create_server_socket os prt w3 of
               (None, w4) \<Rightarrow> Exited
             | (Some fd, w4) \<Rightarrow>
                 (case allocs os 1 w4 of (ok5, w5) \<Rightarrow>
                  if \<not> ok5 then Exited
                  else (case ss_fd_set_add_fd fd AE_READABLE (server_ctx w5 fd (content b)) of
                          None \<Rightarrow> Crashed
                        | Some s \<Rightarrow>
                            (case allocs os 2 (sys s) of (ok6, w6) \<Rightarrow>
                               if \<not> ok6 then Exited else install_cipher os method key (s\<lparr>sys := w6\<rparr>)))))
        | _ \<Rightarrow> Exited)))"

text \<open>
  \<open>ss_server_add_conn\<close>: the address of the new context, \<open>None\<close> for the result \<open>NULL\<close>. The copy of the encryptor is made
  with a \<open>malloc\<close> that is not checked.
\<close>

definition ss_server_add_conn ::
    "'w os \<Rightarrow> int \<Rightarrow> u32 \<Rightarrow> conn_info \<Rightarrow> 'w ss_server_ctx \<Rightarrow> (nat option \<times> 'w ss_server_ctx) option" where
  "ss_server_add_conn os fd msk info s =
    (case os_calloc os (sys s) of (ok, w) \<Rightarrow>
       if \<not> ok then Some (None, s\<lparr>sys := w\<rparr>)
       else do {
         let a = next_block s;
         h \<leftarrow> list_add (Conn_node a) Conn_head (rings s);
         let d = \<lparr>conn_fd = fd, conn_mask = msk, ss_conn_state = OPENING,
                  ss_conn_info = \<lparr>ip = take 127 (ip info), info_port = info_port info\<rparr>, conn_proc = null_event,
                  remote_count = 0, remote = None, conn_encryptor = None\<rparr>;
         s1 \<leftarrow> ss_fd_set_add_fd fd msk
                (s\<lparr>sys := w, next_block := a + 1, rings := h, conn_count := conn_count s + 1, max_fd := max fd (max_fd s)\<rparr>);
         (case encryptor s1 of
            None \<Rightarrow> Some (Some a, s1\<lparr>conns := (conns s1)(a \<mapsto> d)\<rparr>)
          | Some e \<Rightarrow>
              (case os_calloc os (sys s1) of (ok', w') \<Rightarrow>
                 if \<not> ok' then None
                 else Some (Some a, s1\<lparr>sys := w', conns := (conns s1)(a \<mapsto> d\<lparr>conn_encryptor := Some (copy_encryptor e)\<rparr>)\<rparr>))) })"

definition ss_conn_set_handle :: "nat \<Rightarrow> u32 \<Rightarrow> ss_ioproc \<Rightarrow> ss_ioproc \<Rightarrow> 'w ss_server_ctx \<Rightarrow> 'w ss_server_ctx option" where
  "ss_conn_set_handle c msk r_callback w_callback s = do {
     d \<leftarrow> conns s c;
     Some (s\<lparr>conns := (conns s)(c \<mapsto> d\<lparr>conn_proc := \<lparr>ev_mask = msk, rfileproc = r_callback, wfileproc = w_callback\<rparr>\<rparr>)\<rparr>) }"

definition ss_server_set_handle :: "u32 \<Rightarrow> ss_ioproc \<Rightarrow> ss_ioproc \<Rightarrow> 'w ss_server_ctx \<Rightarrow> 'w ss_server_ctx" where
  "ss_server_set_handle msk r_callback w_callback s =
    s\<lparr>io_proc := \<lparr>ev_mask = msk, rfileproc = r_callback, wfileproc = w_callback\<rparr>\<rparr>"

text \<open>\<open>client_connect\<close>: the connected descriptor or -1. A successful look-up without address would be a \<open>NULL\<close> dereference.\<close>

definition resolve_target :: "'w os \<Rightarrow> u8 list \<Rightarrow> 'w ss_server_ctx \<Rightarrow> (u8 list option \<times> 'w ss_server_ctx) option" where
  "resolve_target os addr s =
    (case os_inet_aton os addr of
       Some a \<Rightarrow> Some (Some a, s)
     | None \<Rightarrow> (case os_gethostbyname os (sys s) addr of
         (None, w) \<Rightarrow> Some (None, s\<lparr>sys := w\<rparr>)
       | (Some (_, as), w) \<Rightarrow> if as = [] then None else Some (Some (as ! 0), s\<lparr>sys := w\<rparr>)))"

definition client_connect :: "'w os \<Rightarrow> u8 list \<Rightarrow> u16 \<Rightarrow> 'w ss_server_ctx \<Rightarrow> (int \<times> 'w ss_server_ctx) option" where
  "client_connect os addr prt s =
    (case os_socket os (sys s) of (fd, w) \<Rightarrow>
       if fd < 0 then Some (-1, s\<lparr>sys := w\<rparr>)
       else do {
         (target, s2) \<leftarrow> resolve_target os addr (s\<lparr>sys := w, log := log s @ [Opened fd]\<rparr>);
         (case target of
            None \<Rightarrow> Some (-1, close_fd os fd s2)
          | Some a \<Rightarrow>
              (case os_connect os (sys s2) fd a prt of (ok, w3) \<Rightarrow>
                 Some (if \<not> ok then (-1, close_fd os fd (s2\<lparr>sys := w3\<rparr>)) else (fd, s2\<lparr>sys := w3\<rparr>)))) })"

definition ss_conn_add_remote ::
    "'w os \<Rightarrow> nat \<Rightarrow> u32 \<Rightarrow> conn_info \<Rightarrow> io_event \<Rightarrow> 'w ss_server_ctx \<Rightarrow> (nat option \<times> 'w ss_server_ctx) option" where
  "ss_conn_add_remote os c msk info event s = do {
     _ \<leftarrow> conns s c;
     (case os_calloc os (sys s) of (ok, w) \<Rightarrow>
        if \<not> ok then Some (None, s\<lparr>sys := w\<rparr>)
        else do {
          (fd, s1) \<leftarrow> client_connect os (ip info) (info_port info) (s\<lparr>sys := w\<rparr>);
          if fd < 0 then Some (None, s1\<lparr>leaked := leaked s1 + 1\<rparr>)
          else do {
            let r = next_block s1;
            d \<leftarrow> conns s1 c;
            let s2 = s1\<lparr>next_block := r + 1, conns := (conns s1)(c \<mapsto> d\<lparr>remote := Some r, remote_count := remote_count d + 1\<rparr>),
                        remotes := (remotes s1)(r \<mapsto> \<lparr>remote_fd = fd, conn_entry = Some c, remote_mask = msk, remote_proc = event\<rparr>),
                        max_fd := max fd (max_fd s1)\<rparr>;
            s3 \<leftarrow> ss_fd_set_add_fd fd msk s2;
            h \<leftarrow> list_add (Remote_node r) Remote_head (rings s3);
            Some (Some r, s3\<lparr>rings := h\<rparr>) } }) }"

definition ss_server_del_conn :: "'w os \<Rightarrow> nat \<Rightarrow> 'w ss_server_ctx \<Rightarrow> 'w ss_server_ctx option" where
  "ss_server_del_conn os c s = do {
     d \<leftarrow> conns s c;
     s1 \<leftarrow> (case remote d of
             None \<Rightarrow> Some s
           | Some r \<Rightarrow> do { rd \<leftarrow> remotes s r; Some (s\<lparr>remotes := (remotes s)(r \<mapsto> rd\<lparr>conn_entry := None\<rparr>)\<rparr>) });
     s2 \<leftarrow> ss_fd_set_del_fd (conn_fd d) (conn_mask d) s1;
     h \<leftarrow> list_del (Conn_node c) (rings s2);
     let s3 = close_fd os (conn_fd d) (s2\<lparr>conn_count := conn_count s2 - 1, rings := h\<rparr>);
     Some (s3\<lparr>conns := (conns s3)(c := None),
              leaked := leaked s3 + (if conn_encryptor d = None then 0 else 1)\<rparr>) }"

definition ss_del_remote :: "'w os \<Rightarrow> nat \<Rightarrow> 'w ss_server_ctx \<Rightarrow> 'w ss_server_ctx option" where
  "ss_del_remote os r s = do {
     rd \<leftarrow> remotes s r;
     s1 \<leftarrow> (case conn_entry rd of
             None \<Rightarrow> Some s
           | Some c \<Rightarrow> do { d \<leftarrow> conns s c; Some (s\<lparr>conns := (conns s)(c \<mapsto> d\<lparr>remote := None\<rparr>)\<rparr>) });
     s2 \<leftarrow> ss_fd_set_del_fd (remote_fd rd) (remote_mask rd) s1;
     let s3 = close_fd os (remote_fd rd) s2;
     h \<leftarrow> list_del (Remote_node r) (rings s3);
     Some (s3\<lparr>rings := h, remotes := (remotes s3)(r := None)\<rparr>) }"

definition set_state :: "nat \<Rightarrow> ss_state \<Rightarrow> 'w ss_server_ctx \<Rightarrow> 'w ss_server_ctx option" where
  "set_state c st s = do { d \<leftarrow> conns s c; Some (s\<lparr>conns := (conns s)(c \<mapsto> d\<lparr>ss_conn_state := st\<rparr>)\<rparr>) }"

definition ss_accept :: "'w os \<Rightarrow> int \<Rightarrow> 'w ss_server_ctx \<Rightarrow> int \<times> conn_info \<times> 'w ss_server_ctx" where
  "ss_accept os fd s =
    (case os_accept os (sys s) fd of (cfd, info, w) \<Rightarrow>
       if cfd < 0 then (-1, info, s\<lparr>sys := w\<rparr>) else (cfd, info, s\<lparr>sys := w, log := log s @ [Opened cfd]\<rparr>))"

section \<open>The SOCKS protocol\<close>

text \<open>\<open>ss_handshake_handle\<close>: the result 0 or -1; on failure the connection has been deleted.\<close>

definition ss_handshake_handle :: "'w os \<Rightarrow> nat \<Rightarrow> 'w ss_server_ctx \<Rightarrow> (int \<times> 'w ss_server_ctx) option" where
  "ss_handshake_handle os c s = do {
     d \<leftarrow> conns s c;
     let fail = (\<lambda>s'. do { s'' \<leftarrow> ss_server_del_conn os c s'; Some (-1, s'') });
     (case plain_recv os (conn_fd d) 262 s of
        (None, s1) \<Rightarrow> fail s1
      | (Some bs, s1) \<Rightarrow>
          if bs = [] then fail s1
          else let s2 = fill_buf bs s1 in
            if buf_bytes s2 ! 0 \<noteq> 0x05 then fail s2
            else let s3 = fill_buf [0x05, 0x00] s2 in
              (case plain_send os (conn_fd d) (take 2 (buf_bytes s3)) s3 of (n, _, s4) \<Rightarrow>
                 if n \<noteq> 2 then fail s4
                 else do { s5 \<leftarrow> set_state c CONNECTING s4; Some (0, s5) })) }"

text \<open>
  A request. \<open>dst\<close> are the 258 bytes of \<open>dst_addr\<close> and \<open>dst_port\<close>, which are adjacent; initially arbitrary.
\<close>

record ss_requests_frame =
  ver :: u8
  cmd :: u8
  rsv :: u8
  atyp :: u8
  dst :: "u8 list"

definition put_bytes :: "nat \<Rightarrow> u8 list \<Rightarrow> u8 list \<Rightarrow> u8 list option" where
  "put_bytes i bs mem =
    (if i + length bs \<le> length mem then Some (take i mem @ bs @ drop (i + length bs) mem) else None)"

text \<open>A field of \<open>n\<close> bytes is received to offset \<open>i\<close> of \<open>dst\<close>; \<open>Inl\<close> is the early return of \<open>NULL\<close>.\<close>

definition recv_field :: "'w os \<Rightarrow> nat \<Rightarrow> int \<Rightarrow> nat \<Rightarrow> nat \<Rightarrow> u8 list \<Rightarrow> 'w ss_server_ctx \<Rightarrow>
    ('w ss_server_ctx + (u8 list \<times> 'w ss_server_ctx)) option" where
  "recv_field os c fd i n mem s = do {
     (r, s1) \<leftarrow> ss_recv os c fd n s;
     (case r of
        None \<Rightarrow> Some (Inl s1)
      | Some bs \<Rightarrow> do {
          mem' \<leftarrow> put_bytes i bs mem;
          Some (if length bs \<noteq> n then Inl s1 else Inr (mem', s1)) }) }"

definition recv_addr :: "'w os \<Rightarrow> nat \<Rightarrow> int \<Rightarrow> u8 \<Rightarrow> u8 list \<Rightarrow> 'w ss_server_ctx \<Rightarrow>
    ('w ss_server_ctx + (u8 list \<times> 'w ss_server_ctx)) option" where
  "recv_addr os c fd kind mem s =
    (if kind = 0x01 then do {
       r \<leftarrow> recv_field os c fd 0 4 mem s;
       (case r of
          Inl s1 \<Rightarrow> Some (Inl s1)
        | Inr (mem1, s1) \<Rightarrow> do { mem2 \<leftarrow> put_bytes 4 [0] mem1; Some (Inr (mem2, s1)) }) }
     else if kind = 0x03 then do {
       r \<leftarrow> recv_field os c fd 0 1 mem s;
       (case r of
          Inl s1 \<Rightarrow> Some (Inl s1)
        | Inr (mem1, s1) \<Rightarrow> do {
            r' \<leftarrow> recv_field os c fd 1 (unat (mem1 ! 0)) mem1 s1;
            (case r' of
               Inl s2 \<Rightarrow> Some (Inl s2)
             | Inr (mem2, s2) \<Rightarrow> do { mem3 \<leftarrow> put_bytes (unat (mem2 ! 0) + 1) [0] mem2; Some (Inr (mem3, s2)) }) }) }
     else if kind = 0x04 then recv_field os c fd 0 16 mem s
     else Some (Inl s))"

definition ss_get_requests :: "'w os \<Rightarrow> nat \<Rightarrow> u8 list \<Rightarrow> 'w ss_server_ctx \<Rightarrow> (ss_requests_frame option \<times> 'w ss_server_ctx) option" where
  "ss_get_requests os c junk s = do {
     d \<leftarrow> conns s c;
     (r, s1) \<leftarrow> ss_recv os c (conn_fd d) 4 s;
     (case r of
        None \<Rightarrow> Some (None, s1)
      | Some bs \<Rightarrow>
          let s2 = fill_buf bs s1; b = buf_bytes s2 in
          if length bs \<noteq> 4 then Some (None, s2)
          else if b ! 0 \<noteq> 0x05 \<or> b ! 2 \<noteq> 0 then Some (None, s2)
          else if b ! 1 \<noteq> 0x01 then Some (None, s2)
          else do {
            r2 \<leftarrow> recv_addr os c (conn_fd d) (b ! 3) junk s2;
            (case r2 of
               Inl s3 \<Rightarrow> Some (None, s3)
             | Inr (mem, s3) \<Rightarrow> do {
                 r3 \<leftarrow> recv_field os c (conn_fd d) 256 2 mem s3;
                 (case r3 of
                    Inl s4 \<Rightarrow> Some (None, s4)
                  | Inr (mem', s4) \<Rightarrow> Some (Some \<lparr>ver = 0x05, cmd = 0x01, rsv = 0, atyp = b ! 3, dst = mem'\<rparr>, s4)) }) }) }"

definition inet_ntoa :: "u8 list \<Rightarrow> u8 list" where
  "inet_ntoa a =
    dec_digits (unat (a ! 0)) @ [46] @ dec_digits (unat (a ! 1)) @ [46] @ dec_digits (unat (a ! 2)) @ [46] @ dec_digits (unat (a ! 3))"

text \<open>\<open>get_addr_info\<close>: \<open>info\<close> is the structure to be filled, initially arbitrary.\<close>

definition get_addr_info :: "'w os \<Rightarrow> ss_requests_frame \<Rightarrow> conn_info \<Rightarrow> 'w ss_server_ctx \<Rightarrow> conn_info option \<times> 'w ss_server_ctx" where
  "get_addr_info os req info s =
    (let prt = word_cat (dst req ! 256) (dst req ! 257) in
     if atyp req = 0x01 then (Some \<lparr>ip = inet_ntoa (take 4 (dst req)), info_port = prt\<rparr>, s)
     else if atyp req = 0x03 then
       (case os_gethostbyname os (sys s) (takeWhile (\<lambda>b. b \<noteq> 0) (slice (dst req) 1 (unat (dst req ! 0)))) of
          (None, w) \<Rightarrow> (None, s\<lparr>sys := w\<rparr>)
        | (Some (af_inet, as), w) \<Rightarrow>
            (Some \<lparr>ip = (if af_inet then foldl (\<lambda>_ a. inet_ntoa a) (ip info) as else ip info), info_port = prt\<rparr>, s\<lparr>sys := w\<rparr>))
     else if atyp req = 0x04 then (Some (info\<lparr>info_port := prt\<rparr>), s)
     else (None, s))"

text \<open>
  \<open>ss_request_handle\<close>: 0 and the address to connect to, or -1. The address in the reply comes from the result 1 of
  \<open>inet_aton\<close> in network byte order, with its first byte overwritten.
\<close>

definition ss_request_handle ::
    "'w os \<Rightarrow> nat \<Rightarrow> u8 list \<Rightarrow> conn_info \<Rightarrow> 'w ss_server_ctx \<Rightarrow> (conn_info option \<times> 'w ss_server_ctx) option" where
  "ss_request_handle os c junk info s = do {
     (req, s1) \<leftarrow> ss_get_requests os c junk s;
     (case req of
        None \<Rightarrow> Some (None, s1)
      | Some req \<Rightarrow>
          (case get_addr_info os req info s1 of
             (None, s2) \<Rightarrow> Some (None, s2)
           | (Some info', s2) \<Rightarrow> do {
               d \<leftarrow> conns s2 c;
               let s3 = fill_buf [0x05, 0x00, 0x00, 0x01, 0x01, 0x00, 0x00, 0x01, 0x19, 0x19] s2;
               (n, _, s4) \<leftarrow> ss_send os c (conn_fd d) (take 10 (buf_bytes s3)) s3;
               Some (if n \<noteq> 10 then None else Some info', s4) })) }"

section \<open>The event loop\<close>

primrec conn_events :: "int set \<Rightarrow> node list \<Rightarrow> 'w ss_server_ctx \<Rightarrow> (ctx_ptr list \<times> 'w ss_server_ctx) option" where
  "conn_events ready [] s = Some ([], s)"
| "conn_events ready (x # xs) s =
    (case x of
       Conn_node a \<Rightarrow> do {
         d \<leftarrow> conns s a;
         if conn_mask d AND AE_READABLE \<noteq> 0 \<and> conn_fd d \<in> ready then do {
           let p = conn_proc d;
           (evs, s') \<leftarrow> conn_events ready xs
              (s\<lparr>conns := (conns s)(a \<mapsto> d\<lparr>conn_proc := p\<lparr>ev_mask := ev_mask p OR AE_READABLE\<rparr>\<rparr>)\<rparr>);
           Some (SS_CONN_CTX a # evs, s') }
         else conn_events ready xs s }
     | _ \<Rightarrow> None)"

primrec remote_events :: "int set \<Rightarrow> node list \<Rightarrow> 'w ss_server_ctx \<Rightarrow> (ctx_ptr list \<times> 'w ss_server_ctx) option" where
  "remote_events ready [] s = Some ([], s)"
| "remote_events ready (x # xs) s =
    (case x of
       Remote_node a \<Rightarrow> do {
         d \<leftarrow> remotes s a;
         if remote_mask d AND AE_READABLE \<noteq> 0 \<and> remote_fd d \<in> ready then do {
           let p = remote_proc d;
           (evs, s') \<leftarrow> remote_events ready xs
              (s\<lparr>remotes := (remotes s)(a \<mapsto> d\<lparr>remote_proc := p\<lparr>ev_mask := ev_mask p OR AE_READABLE\<rparr>\<rparr>)\<rparr>);
           Some (SS_REMOTE_CTX a # evs, s') }
         else remote_events ready xs s }
     | _ \<Rightarrow> None)"

text \<open>The array \<open>fd_state\<close> has 10240 entries.\<close>

definition ss_poll :: "'w os \<Rightarrow> 'w ss_server_ctx \<Rightarrow> (ctx_ptr list \<times> 'w ss_server_ctx) option" where
  "ss_poll os s =
    (case os_select os (sys s) (max_fd s + 1) (rfds s) (wfds s) of (rv, ready, w) \<Rightarrow>
       let s0 = s\<lparr>sys := w\<rparr> in
       if rv \<le> 0 then Some ([], s0)
       else do {
         let accepting = sock_fd s0 \<in> ready;
         let p = io_proc s0;
         let s1 = (if accepting then s0\<lparr>io_proc := p\<lparr>ev_mask := ev_mask p OR AE_READABLE\<rparr>\<rparr> else s0);
         cs \<leftarrow> list_for_each Conn_head (rings s1);
         (evs1, s2) \<leftarrow> conn_events ready cs s1;
         rs \<leftarrow> list_for_each Remote_head (rings s2);
         (evs2, s3) \<leftarrow> remote_events ready rs s2;
         let evs = (if accepting then [SS_SERVER_CTX] else []) @ evs1 @ evs2;
         if length evs > 1024 * 10 then None else Some (evs, s3) })"

type_synonym 'w handler = "ss_ioproc \<Rightarrow> ctx_ptr \<Rightarrow> int \<Rightarrow> 'w ss_server_ctx \<Rightarrow> 'w ss_server_ctx option"

definition ss_dispatch :: "'w handler \<Rightarrow> ctx_ptr \<Rightarrow> 'w ss_server_ctx \<Rightarrow> 'w ss_server_ctx option" where
  "ss_dispatch h ptr s = do {
     (event, fd) \<leftarrow>
       (case ptr of
          SS_SERVER_CTX \<Rightarrow> Some (io_proc s, sock_fd s)
        | SS_CONN_CTX a \<Rightarrow> do { d \<leftarrow> conns s a; Some (conn_proc d, conn_fd d) }
        | SS_REMOTE_CTX a \<Rightarrow> do { d \<leftarrow> remotes s a; Some (remote_proc d, remote_fd d) });
     if ev_mask event AND AE_READABLE \<noteq> 0 \<and> rfileproc event \<noteq> No_proc then h (rfileproc event) ptr fd s else Some s }"

primrec dispatch_all :: "'w handler \<Rightarrow> ctx_ptr list \<Rightarrow> 'w ss_server_ctx \<Rightarrow> 'w ss_server_ctx option" where
  "dispatch_all h [] s = Some s"
| "dispatch_all h (p # ps) s = do { s' \<leftarrow> ss_dispatch h p s; dispatch_all h ps s' }"

text \<open>\<open>n\<close> rounds of the endless loop.\<close>

primrec ss_loop :: "'w os \<Rightarrow> 'w handler \<Rightarrow> nat \<Rightarrow> 'w ss_server_ctx \<Rightarrow> 'w ss_server_ctx option" where
  "ss_loop os h 0 s = Some s"
| "ss_loop os h (Suc n) s = do {
     (evs, s1) \<leftarrow> ss_poll os s;
     s2 \<leftarrow> dispatch_all h evs s1;
     ss_loop os h n s2 }"

section \<open>Release\<close>

text \<open>The blocks that are reachable from the server, and those that \<open>ss_release_server\<close> gives to \<open>free\<close>, in this order; \<open>free (NULL)\<close> does nothing.\<close>

datatype server_block = Server_block | Buf_block | Buf_data | Allfd_block | Encryptor_block | List_block node
  | Conn_block nat | Conn_encryptor nat | Remote_block nat

definition ss_blocks :: "'w ss_server_ctx \<Rightarrow> server_block set" where
  "ss_blocks s = {Server_block, Buf_block, Buf_data, Allfd_block, List_block Conn_head, List_block Remote_head} \<union>
    (if encryptor s = None then {} else {Encryptor_block}) \<union> Conn_block ` dom (conns s) \<union>
    Conn_encryptor ` {c. \<exists>d. conns s c = Some d \<and> conn_encryptor d \<noteq> None} \<union> Remote_block ` dom (remotes s)"

definition ss_release_server :: "'w ss_server_ctx \<Rightarrow> server_block list" where
  "ss_release_server s = (if encryptor s = None then [] else [Encryptor_block]) @ [Allfd_block, Buf_data, Buf_block, Server_block]"

end
