(* ===== verification/Socks_Inv.thy ===== *)
theory Socks_Inv
  imports Socks
begin

text \<open>
  The invariant of the proxy server's state and what the functions of \<open>Socks\<close> do to it.

  \<open>ss_inv\<close> says that the two lists hold exactly the allocated contexts, that the pointers between a connection and its
  remote are mutual, that every open descriptor outside \<open>B\<close> has one owner, is watched by \<open>select\<close> and is at most \<open>max_fd\<close>,
  and that the encryptors are usable. \<open>B\<close> are the descriptors that do not belong to the server, such as standard output. \<open>os_laws\<close> is what is assumed of the operating system; \<open>live\<close> maps its state to the set of
  open descriptors.
\<close>

section \<open>Assumptions on the operating system\<close>

definition new_fd :: "('w \<Rightarrow> int set) \<Rightarrow> 'w \<Rightarrow> int \<Rightarrow> 'w \<Rightarrow> bool" where
  "new_fd live w fd w' \<longleftrightarrow>
    (if fd < 0 then live w' = live w
     else fd \<notin> live w \<and> fd < FD_SETSIZE \<and> live w' = insert fd (live w))"

definition os_laws :: "'w os \<Rightarrow> ('w \<Rightarrow> int set) \<Rightarrow> bool" where
  "os_laws os live \<longleftrightarrow>
    (\<forall>w fd n. live (snd (os_recv os w fd n)) = live w) \<and>
    (\<forall>w fd n bs. fst (os_recv os w fd n) = Some bs \<longrightarrow> length bs \<le> n) \<and>
    (\<forall>w fd bs. live (snd (snd (os_send os w fd bs))) = live w) \<and>
    (\<forall>w fd. new_fd live w (fst (os_accept os w fd)) (snd (snd (os_accept os w fd)))) \<and>
    (\<forall>w. new_fd live w (fst (os_socket os w)) (snd (os_socket os w))) \<and>
    (\<forall>w name. live (snd (os_gethostbyname os w name)) = live w) \<and>
    (\<forall>w name f as. fst (os_gethostbyname os w name) = Some (f, as) \<longrightarrow> as \<noteq> []) \<and>
    (\<forall>w fd a prt. live (snd (os_connect os w fd a prt)) = live w) \<and>
    (\<forall>w fd. live (os_close os w fd) = live w - {fd}) \<and>
    (\<forall>w. live (snd (os_calloc os w)) = live w \<and> fst (os_calloc os w)) \<and>
    (\<forall>w fd c. live (snd (os_setup os w fd c)) = live w) \<and>
    (\<forall>w n rs ws rv ready w'. os_select os w n rs ws = (rv, ready, w') \<longrightarrow> live w' = live w \<and> ready \<subseteq> rs)"

lemma os_lawsD:
  assumes "os_laws os live"
  shows "os_recv os w fd n = (r, w') \<Longrightarrow> live w' = live w"
    "os_recv os w fd n = (Some bs, w') \<Longrightarrow> length bs \<le> n"
    "os_send os w fd cs = (m, b, w') \<Longrightarrow> live w' = live w"
    "os_accept os w fd = (cfd, info, w') \<Longrightarrow> new_fd live w cfd w'"
    "os_socket os w = (cfd, w') \<Longrightarrow> new_fd live w cfd w'"
    "os_gethostbyname os w name = (h, w') \<Longrightarrow> live w' = live w"
    "os_gethostbyname os w name = (Some (f, as), w') \<Longrightarrow> as \<noteq> []"
    "os_connect os w fd a prt = (ok, w') \<Longrightarrow> live w' = live w"
    "live (os_close os w fd) = live w - {fd}"
    "os_calloc os w = (ok, w') \<Longrightarrow> ok \<and> live w' = live w"
    "os_select os w k rs ws = (rv, ready, w') \<Longrightarrow> live w' = live w \<and> ready \<subseteq> rs"
    "os_setup os w fd c = (ok, w') \<Longrightarrow> live w' = live w"
  using assms unfolding os_laws_def by (metis fst_conv snd_conv)+

section \<open>The invariant\<close>

primrec owns :: "'w ss_server_ctx \<Rightarrow> ctx_ptr \<Rightarrow> int \<Rightarrow> bool" where
  "owns s SS_SERVER_CTX fd \<longleftrightarrow> sock_fd s = fd"
| "owns s (SS_CONN_CTX a) fd \<longleftrightarrow> map_option conn_fd (conns s a) = Some fd"
| "owns s (SS_REMOTE_CTX a) fd \<longleftrightarrow> map_option remote_fd (remotes s a) = Some fd"

definition fds_ok :: "(ctx_ptr \<Rightarrow> int \<Rightarrow> bool) \<Rightarrow> int set \<Rightarrow> int \<Rightarrow> int set \<Rightarrow> int set \<Rightarrow> bool" where
  "fds_ok own rd bound B open_fds \<longleftrightarrow>
    (\<forall>p q fd. own p fd \<and> own q fd \<longrightarrow> p = q) \<and> (\<forall>fd. fd \<in> rd \<longleftrightarrow> (\<exists>p. own p fd)) \<and>
    (\<forall>p fd. own p fd \<longrightarrow> 0 \<le> fd \<and> fd < FD_SETSIZE \<and> fd \<le> bound) \<and> open_fds = B \<union> rd \<and> B \<inter> rd = {}"

definition lists_ok :: "nat list \<Rightarrow> nat list \<Rightarrow> 'w ss_server_ctx \<Rightarrow> bool" where
  "lists_ok cs rs s \<longleftrightarrow>
    clist (rings s) Conn_head (map Conn_node cs) \<and> clist (rings s) Remote_head (map Remote_node rs) \<and>
    dom (conns s) = set cs \<and> dom (remotes s) = set rs \<and> (\<forall>a \<in> set cs \<union> set rs. a < next_block s) \<and>
    conn_count s = int (length cs)"

definition links_ok :: "(nat \<Rightarrow> ss_conn_ctx option) \<Rightarrow> (nat \<Rightarrow> ss_remote_ctx option) \<Rightarrow> bool" where
  "links_ok cm rm \<longleftrightarrow>
    (\<forall>c d r. cm c = Some d \<and> remote d = Some r \<longrightarrow> (\<exists>rd. rm r = Some rd \<and> conn_entry rd = Some c)) \<and>
    (\<forall>r rd c. rm r = Some rd \<and> conn_entry rd = Some c \<longrightarrow> (\<exists>d. cm c = Some d \<and> remote d = Some r))"

definition conn_ok :: "bool \<Rightarrow> ss_conn_ctx \<Rightarrow> bool" where
  "conn_ok ciph d \<longleftrightarrow>
    conn_mask d = AE_READABLE \<and> rfileproc (conn_proc d) \<in> {No_proc, Io_handle} \<and>
    (ciph \<longrightarrow> (\<exists>e. conn_encryptor d = Some e \<and> enc_ok e)) \<and> (ss_conn_state d = OPENING \<longrightarrow> remote d = None)"

definition remote_ok :: "ss_remote_ctx \<Rightarrow> bool" where
  "remote_ok rd \<longleftrightarrow> remote_mask rd = AE_READABLE \<and> rfileproc (remote_proc rd) \<in> {No_proc, Remote_io_handle}"

definition ctxs_ok :: "'w ss_server_ctx \<Rightarrow> bool" where
  "ctxs_ok s \<longleftrightarrow>
    (\<forall>c d. conns s c = Some d \<longrightarrow> conn_ok (ciphered s) d) \<and> (\<forall>r rd. remotes s r = Some rd \<longrightarrow> remote_ok rd) \<and>
    rfileproc (io_proc s) \<in> {No_proc, Accept_handle} \<and> length (buf_bytes s) = 4096 \<and>
    (ciphered s \<longleftrightarrow> encryptor s \<noteq> None) \<and> (\<forall>e. encryptor s = Some e \<longrightarrow> enc_ok (copy_encryptor e))"

definition ss_inv_at :: "('w \<Rightarrow> int set) \<Rightarrow> int set \<Rightarrow> nat list \<Rightarrow> nat list \<Rightarrow> 'w ss_server_ctx \<Rightarrow> bool" where
  "ss_inv_at live B cs rs s \<longleftrightarrow>
    lists_ok cs rs s \<and> links_ok (conns s) (remotes s) \<and> ctxs_ok s \<and> fds_ok (owns s) (rfds s) (max_fd s) B (live (sys s))"

definition ss_inv :: "('w \<Rightarrow> int set) \<Rightarrow> int set \<Rightarrow> 'w ss_server_ctx \<Rightarrow> bool" where
  "ss_inv live B s \<longleftrightarrow> (\<exists>cs rs. ss_inv_at live B cs rs s)"

text \<open>Which contexts a step keeps: all but those in \<open>C\<close> and \<open>R\<close>.\<close>

definition keeps :: "nat set \<Rightarrow> nat set \<Rightarrow> 'w ss_server_ctx \<Rightarrow> 'w ss_server_ctx \<Rightarrow> bool" where
  "keeps C R s s' \<longleftrightarrow> dom (conns s) - C \<subseteq> dom (conns s') \<and> dom (remotes s) - R \<subseteq> dom (remotes s')"

lemma keeps_refl [simp]: "keeps C R s s"
  by (simp add: keeps_def)

lemma keeps_trans: "keeps C R s s1 \<Longrightarrow> keeps C R s1 s2 \<Longrightarrow> keeps C R s s2"
  unfolding keeps_def by blast

lemma keeps_after: "keeps {} {} s s1 \<Longrightarrow> keeps C R s1 s2 \<Longrightarrow> keeps C R s s2"
  unfolding keeps_def by blast

lemma readable_masks [simp]:
  "AE_READABLE AND AE_READABLE = AE_READABLE" "AE_READABLE AND AE_WRITABLE = 0" "AE_READABLE \<noteq> 0"
  by (simp_all add: AE_READABLE_def AE_WRITABLE_def)

lemma ss_invI:
  "lists_ok cs rs s \<Longrightarrow> links_ok (conns s) (remotes s) \<Longrightarrow> ctxs_ok s \<Longrightarrow>
   fds_ok (owns s) (rfds s) (max_fd s) B (live (sys s)) \<Longrightarrow> ss_inv live B s"
  by (auto simp: ss_inv_def ss_inv_at_def)

lemma ss_invE:
  assumes "ss_inv live B s"
  obtains cs rs where "lists_ok cs rs s" "links_ok (conns s) (remotes s)" "ctxs_ok s"
    "fds_ok (owns s) (rfds s) (max_fd s) B (live (sys s))"
  using assms by (auto simp: ss_inv_def ss_inv_at_def)

lemma links_okD:
  assumes "links_ok cm rm"
  shows "cm c = Some d \<Longrightarrow> remote d = Some r \<Longrightarrow> \<exists>rd. rm r = Some rd \<and> conn_entry rd = Some c"
    and "rm r = Some rd \<Longrightarrow> conn_entry rd = Some c \<Longrightarrow> \<exists>d. cm c = Some d \<and> remote d = Some r"
  using assms unfolding links_ok_def by blast+

lemma links_okI:
  assumes "\<And>c d r. cm c = Some d \<Longrightarrow> remote d = Some r \<Longrightarrow> \<exists>rd. rm r = Some rd \<and> conn_entry rd = Some c"
    and "\<And>r rd c. rm r = Some rd \<Longrightarrow> conn_entry rd = Some c \<Longrightarrow> \<exists>d. cm c = Some d \<and> remote d = Some r"
  shows "links_ok cm rm"
  using assms unfolding links_ok_def by blast

section \<open>Changes that keep the shape\<close>

lemma owns_eqI:
  assumes "sock_fd s' = sock_fd s" "map_option conn_fd \<circ> conns s' = map_option conn_fd \<circ> conns s"
    and "map_option remote_fd \<circ> remotes s' = map_option remote_fd \<circ> remotes s"
  shows "owns s' = owns s"
proof (intro ext)
  fix p fd
  have "map_option conn_fd (conns s' a) = map_option conn_fd (conns s a)"
    "map_option remote_fd (remotes s' a) = map_option remote_fd (remotes s a)" for a
    using assms(2,3) by (metis comp_apply)+
  then show "owns s' p fd = owns s p fd" using assms(1) by (cases p) (simp_all del: map_option_eq_Some)
qed

lemma ss_inv_sys:
  assumes "ss_inv live B s" "live w = live (sys s)" "length b = 4096"
  shows "ss_inv live B (s\<lparr>sys := w, log := l, buf_bytes := b, leaked := k\<rparr>)"
proof -
  let ?s = "s\<lparr>sys := w, log := l, buf_bytes := b, leaked := k\<rparr>"
  have o: "owns ?s = owns s" by (rule owns_eqI) auto
  show ?thesis using assms(1)
    by (rule ss_invE, intro ss_invI) (use o assms(2,3) in \<open>auto simp: lists_ok_def ctxs_ok_def\<close>)
qed

lemma links_ok_conn_upd:
  assumes "links_ok cm rm" "cm c = Some d" "remote d' = remote d"
  shows "links_ok (cm(c \<mapsto> d')) rm"
proof (rule links_okI)
  fix c' d'' r assume "(cm(c \<mapsto> d')) c' = Some d''" "remote d'' = Some r"
  then obtain d0 where "cm c' = Some d0" "remote d0 = Some r" using assms(2,3) by (cases "c' = c") auto
  then show "\<exists>rd. rm r = Some rd \<and> conn_entry rd = Some c'" by (rule links_okD(1) [OF assms(1)])
next
  fix r rd c' assume "rm r = Some rd" "conn_entry rd = Some c'"
  from links_okD(2) [OF assms(1) this] assms(2,3) show "\<exists>d. (cm(c \<mapsto> d')) c' = Some d \<and> remote d = Some r" by auto
qed

lemma links_ok_remote_upd:
  assumes "links_ok cm rm" "rm r = Some rd" "conn_entry rd' = conn_entry rd"
  shows "links_ok cm (rm(r \<mapsto> rd'))"
proof (rule links_okI)
  fix c d r' assume "cm c = Some d" "remote d = Some r'"
  from links_okD(1) [OF assms(1) this] assms(2,3) show "\<exists>rd. (rm(r \<mapsto> rd')) r' = Some rd \<and> conn_entry rd = Some c" by auto
next
  fix r' rd'' c assume "(rm(r \<mapsto> rd')) r' = Some rd''" "conn_entry rd'' = Some c"
  then obtain rd0 where "rm r' = Some rd0" "conn_entry rd0 = Some c" using assms(2,3) by (cases "r' = r") auto
  then show "\<exists>d. cm c = Some d \<and> remote d = Some r'" by (rule links_okD(2) [OF assms(1)])
qed

lemma ss_inv_conn_upd:
  assumes "ss_inv live B s" "conns s c = Some d" "conn_fd d' = conn_fd d" "remote d' = remote d" "conn_ok (ciphered s) d'"
  shows "ss_inv live B (s\<lparr>conns := (conns s)(c \<mapsto> d')\<rparr>)"
proof -
  let ?s = "s\<lparr>conns := (conns s)(c \<mapsto> d')\<rparr>"
  have o: "owns ?s = owns s" by (rule owns_eqI) (use assms(2,3) in \<open>auto simp: fun_eq_iff\<close>)
  have dm: "dom (conns ?s) = dom (conns s)" using assms(2) by auto
  obtain cs rs where i: "lists_ok cs rs s" "links_ok (conns s) (remotes s)" "ctxs_ok s"
    "fds_ok (owns s) (rfds s) (max_fd s) B (live (sys s))" using assms(1) by (rule ss_invE)
  show ?thesis
  proof (rule ss_invI)
    show "lists_ok cs rs ?s" using i(1) dm by (simp add: lists_ok_def)
    show "links_ok (conns ?s) (remotes ?s)" using links_ok_conn_upd [OF i(2) assms(2,4)] by simp
    show "ctxs_ok ?s" using i(3) assms(5) unfolding ctxs_ok_def by (auto split: if_splits)
  qed (use i(4) o in simp)
qed

lemma ss_inv_remote_upd:
  assumes "ss_inv live B s" "remotes s r = Some rd" "remote_fd rd' = remote_fd rd" "conn_entry rd' = conn_entry rd" "remote_ok rd'"
  shows "ss_inv live B (s\<lparr>remotes := (remotes s)(r \<mapsto> rd')\<rparr>)"
proof -
  let ?s = "s\<lparr>remotes := (remotes s)(r \<mapsto> rd')\<rparr>"
  have o: "owns ?s = owns s" by (rule owns_eqI) (use assms(2,3) in \<open>auto simp: fun_eq_iff\<close>)
  have dm: "dom (remotes ?s) = dom (remotes s)" using assms(2) by auto
  obtain cs rs where i: "lists_ok cs rs s" "links_ok (conns s) (remotes s)" "ctxs_ok s"
    "fds_ok (owns s) (rfds s) (max_fd s) B (live (sys s))" using assms(1) by (rule ss_invE)
  show ?thesis
  proof (rule ss_invI)
    show "lists_ok cs rs ?s" using i(1) dm by (simp add: lists_ok_def)
    show "links_ok (conns ?s) (remotes ?s)" using links_ok_remote_upd [OF i(2) assms(2,4)] by simp
    show "ctxs_ok ?s" using i(3) assms(5) unfolding ctxs_ok_def by (auto split: if_splits)
  qed (use i(4) o in simp)
qed

lemma ss_inv_conn: "ss_inv live B s \<Longrightarrow> conns s c = Some d \<Longrightarrow> conn_ok (ciphered s) d"
  by (auto simp: ss_inv_def ss_inv_at_def ctxs_ok_def)

lemma ss_inv_remote: "ss_inv live B s \<Longrightarrow> remotes s r = Some rd \<Longrightarrow> remote_ok rd"
  by (auto simp: ss_inv_def ss_inv_at_def ctxs_ok_def)

lemma ss_inv_buf: "ss_inv live B s \<Longrightarrow> length (buf_bytes s) = 4096"
  by (auto simp: ss_inv_def ss_inv_at_def ctxs_ok_def)

lemma ss_inv_links: "ss_inv live B s \<Longrightarrow> links_ok (conns s) (remotes s)"
  by (auto simp: ss_inv_def ss_inv_at_def)


section \<open>Input and output\<close>

definition io_same :: "'w ss_server_ctx \<Rightarrow> 'w ss_server_ctx \<Rightarrow> bool" where
  "io_same s s' \<longleftrightarrow> remotes s' = remotes s \<and> sock_fd s' = sock_fd s \<and> ciphered s' = ciphered s \<and>
    (\<forall>c. map_option (\<lambda>d. (conn_fd d, remote d)) (conns s' c) = map_option (\<lambda>d. (conn_fd d, remote d)) (conns s c))"

lemma io_same_refl [simp]: "io_same s s"
  by (simp add: io_same_def)

lemma io_same_trans [trans]: "io_same s s1 \<Longrightarrow> io_same s1 s2 \<Longrightarrow> io_same s s2"
  by (simp add: io_same_def)

lemma io_sameD:
  assumes "io_same s s'"
  shows "conns s c = Some d \<Longrightarrow> \<exists>d'. conns s' c = Some d' \<and> conn_fd d' = conn_fd d \<and> remote d' = remote d"
    and "remotes s' = remotes s" "ciphered s' = ciphered s" "sock_fd s' = sock_fd s"
proof -
  have *: "map_option (\<lambda>d. (conn_fd d, remote d)) (conns s' c) = map_option (\<lambda>d. (conn_fd d, remote d)) (conns s c)"
    using assms by (simp add: io_same_def)
  then show "conns s c = Some d \<Longrightarrow> \<exists>d'. conns s' c = Some d' \<and> conn_fd d' = conn_fd d \<and> remote d' = remote d" by auto
qed (use assms in \<open>simp_all add: io_same_def\<close>)

lemma io_same_dom:
  assumes "io_same s s'"
  shows "dom (conns s') = dom (conns s)"
proof (rule set_eqI)
  fix c
  have "map_option (\<lambda>d. (conn_fd d, remote d)) (conns s' c) = map_option (\<lambda>d. (conn_fd d, remote d)) (conns s c)"
    using assms by (simp add: io_same_def)
  then have "conns s' c = None \<longleftrightarrow> conns s c = None" by (cases "conns s' c"; cases "conns s c") simp_all
  then show "c \<in> dom (conns s') \<longleftrightarrow> c \<in> dom (conns s)" unfolding domIff by simp
qed

lemma io_same_keeps: "io_same s s' \<Longrightarrow> keeps C R s s'"
  unfolding keeps_def by (simp only: io_same_dom io_sameD(2) Diff_subset simp_thms)

lemma plain_recv_ok:
  assumes "os_laws os live" "ss_inv live B s" "plain_recv os fd n s = (r, s')"
  shows "ss_inv live B s'" "io_same s s'" "r = Some bs \<Longrightarrow> length bs \<le> n" "conns s' = conns s"
proof -
  obtain r0 w where w: "os_recv os (sys s) fd n = (r0, w)" by (cases "os_recv os (sys s) fd n")
  have l: "live w = live (sys s)" by (rule os_lawsD(1) [OF assms(1) w])
  have "r = r0 \<and> (\<exists>l. s' = s\<lparr>sys := w, log := l, buf_bytes := buf_bytes s, leaked := leaked s\<rparr>)"
    using assms(3) w by (auto simp: plain_recv_def split: option.splits) (rule exI [of _ "log s"], simp)
  then obtain lg where s': "r = r0" "s' = s\<lparr>sys := w, log := lg, buf_bytes := buf_bytes s, leaked := leaked s\<rparr>" by blast
  show "ss_inv live B s'" unfolding s'(2) by (rule ss_inv_sys [OF assms(2) l ss_inv_buf [OF assms(2)]])
  show "io_same s s'" "conns s' = conns s" using s'(2) by (simp_all add: io_same_def)
  show "r = Some bs \<Longrightarrow> length bs \<le> n" using os_lawsD(2) [OF assms(1), of "sys s" fd n bs w] w s'(1) by simp
qed

lemma plain_send_ok:
  assumes "os_laws os live" "ss_inv live B s" "plain_send os fd bs s = (m, again, s')"
  shows "ss_inv live B s'" "io_same s s'"
proof -
  obtain m0 a w where w: "os_send os (sys s) fd bs = (m0, a, w)" by (cases "os_send os (sys s) fd bs")
  have l: "live w = live (sys s)" by (rule os_lawsD(3) [OF assms(1) w])
  have s': "s' = s\<lparr>sys := w, log := log s @ [Sent fd (take (nat m0) bs)], buf_bytes := buf_bytes s, leaked := leaked s\<rparr>"
    using assms(3) w by (auto simp: plain_send_def)
  show "ss_inv live B s'" unfolding s' by (rule ss_inv_sys [OF assms(2) l ss_inv_buf [OF assms(2)]])
  show "io_same s s'" using s' by (simp add: io_same_def)
qed

lemma fill_buf_ok:
  assumes "ss_inv live B s" "length bs \<le> 4096"
  shows "ss_inv live B (fill_buf bs s)" "io_same s (fill_buf bs s)"
proof -
  have eq: "fill_buf bs s = s\<lparr>sys := sys s, log := log s, buf_bytes := bs @ drop (length bs) (buf_bytes s), leaked := leaked s\<rparr>"
    by (simp add: fill_buf_def)
  show "ss_inv live B (fill_buf bs s)"
    unfolding eq by (rule ss_inv_sys [OF assms(1)]) (use assms ss_inv_buf [OF assms(1)] in simp_all)
  show "io_same s (fill_buf bs s)" by (simp add: io_same_def fill_buf_def)
qed

lemma conn_crypt_ok:
  assumes "ss_inv live B s" "conns s c = Some d" "ciphered s"
  shows "\<exists>out s'. conn_crypt c bs s = Some (out, s') \<and> length out = length bs \<and> ss_inv live B s' \<and> io_same s s'"
proof -
  have k: "conn_ok (ciphered s) d" by (rule ss_inv_conn [OF assms(1,2)])
  with assms(3) obtain e where e: "conn_encryptor d = Some e" "enc_ok e" by (auto simp: conn_ok_def)
  obtain out e' where x: "ss_decrypt e bs = Some (out, e')" "enc_ok e'" "length out = length bs"
    using dc.total [OF e(2), of bs] by blast
  let ?d = "d\<lparr>conn_encryptor := Some e'\<rparr>"
  let ?s = "s\<lparr>conns := (conns s)(c \<mapsto> ?d)\<rparr>"
  have "ss_inv live B ?s"
    by (rule ss_inv_conn_upd [OF assms(1,2)]) (use k x(2) in \<open>simp_all add: conn_ok_def\<close>)
  moreover have "io_same s ?s" using assms(2) by (simp add: io_same_def)
  moreover have "conn_crypt c bs s = Some (out, ?s)" using assms(2) e(1) x(1) by (simp add: conn_crypt_def)
  ultimately show ?thesis using x(3) by blast
qed

lemma ss_recv_ok:
  assumes "os_laws os live" "ss_inv live B s" "conns s c = Some d"
  shows "\<exists>r s'. ss_recv os c fd n s = Some (r, s') \<and> ss_inv live B s' \<and> io_same s s' \<and> (\<forall>bs. r = Some bs \<longrightarrow> length bs \<le> n)"
proof -
  obtain r s1 where 1: "plain_recv os fd n s = (r, s1)" by (cases "plain_recv os fd n s")
  note ok = plain_recv_ok [OF assms(1,2) 1]
  show ?thesis
  proof (cases "ciphered s \<and> (\<exists>b bs. r = Some (b # bs))")
    case True
    then obtain b bs where r: "r = Some (b # bs)" by blast
    have "conns s1 c = Some d" "ciphered s1" using ok(4) io_sameD(3) [OF ok(2)] assms(3) True by auto
    from conn_crypt_ok [OF ok(1) this, of "b # bs"] obtain out s2 where
      "conn_crypt c (b # bs) s1 = Some (out, s2)" "length out = length (b # bs)" "ss_inv live B s2" "io_same s1 s2" by blast
    with True r 1 ok(2,3) show ?thesis
      by (auto simp: ss_recv_def decry_recv_def intro: io_same_trans)
  next
    case False
    then have "ss_recv os c fd n s = Some (r, s1)"
      using 1 by (cases r) (auto simp: ss_recv_def decry_recv_def neq_Nil_conv split: if_splits)
    with ok show ?thesis by blast
  qed
qed

lemma ss_send_ok:
  assumes "os_laws os live" "ss_inv live B s" "conns s c = Some d" "length bs \<le> 4096"
  shows "\<exists>m again s'. ss_send os c fd bs s = Some (m, again, s') \<and> ss_inv live B s' \<and> io_same s s'"
proof (cases "ciphered s")
  case True
  from conn_crypt_ok [OF assms(2,3) True, of bs] obtain out s1 where
    1: "conn_crypt c bs s = Some (out, s1)" "length out = length bs" "ss_inv live B s1" "io_same s s1" by blast
  have f: "ss_inv live B (fill_buf out s1)" "io_same s (fill_buf out s1)"
    using fill_buf_ok [OF 1(3), of out] 1(2) assms(4) io_same_trans [OF 1(4)] by auto
  obtain m again s2 where 2: "plain_send os fd out (fill_buf out s1) = (m, again, s2)" by (cases "plain_send os fd out (fill_buf out s1)")
  from plain_send_ok [OF assms(1) f(1) 2] 1 2 True io_same_trans [OF f(2)] show ?thesis
    by (auto simp: ss_send_def encry_send_def)
next
  case False
  obtain m again s2 where 2: "plain_send os fd bs s = (m, again, s2)" by (cases "plain_send os fd bs s")
  from plain_send_ok [OF assms(1,2) 2] 2 False show ?thesis by (auto simp: ss_send_def)
qed

section \<open>Descriptors\<close>

lemma fds_okD:
  assumes "fds_ok own rd bound B op"
  shows "own p fd \<Longrightarrow> own q fd \<Longrightarrow> p = q" "fd \<in> rd \<longleftrightarrow> (\<exists>p. own p fd)"
    "own p fd \<Longrightarrow> 0 \<le> fd \<and> fd < FD_SETSIZE \<and> fd \<le> bound" "op = B \<union> rd" "B \<inter> rd = {}"
  using assms unfolding fds_ok_def by blast+

lemma fds_ok_add:
  assumes "fds_ok own rd bound (insert fd B) op" "fd \<notin> B" "0 \<le> fd" "fd < FD_SETSIZE"
    and "\<And>p f. own' p f \<longleftrightarrow> own p f \<or> (p = q \<and> f = fd)"
  shows "fds_ok own' (insert fd rd) (max fd bound) B op"
proof -
  note d = fds_okD [OF assms(1)]
  have n: "\<not> own p fd" for p using d(2) [of fd] d(5) by auto
  show ?thesis unfolding fds_ok_def
  proof (intro conjI allI impI)
    fix p r f assume "own' p f \<and> own' r f"
    then show "p = r" using d(1) [of p f r] n assms(5) by auto
  next
    fix f show "f \<in> insert fd rd \<longleftrightarrow> (\<exists>p. own' p f)" using d(2) [of f] assms(5) by auto
  next
    fix p f assume "own' p f"
    then show "0 \<le> f" "f < FD_SETSIZE" "f \<le> max fd bound" using d(3) [of p f] assms(3-5) by auto
  next
    show "op = B \<union> insert fd rd" using d(4) by simp
    show "B \<inter> insert fd rd = {}" using d(5) assms(2) by auto
  qed
qed

lemma fds_ok_del:
  assumes "fds_ok own rd bound B op" "own q fd" "\<And>f. own q f \<Longrightarrow> f = fd" "\<And>p f. own' p f \<longleftrightarrow> own p f \<and> p \<noteq> q"
  shows "fds_ok own' (rd - {fd}) bound B (op - {fd})"
proof -
  note d = fds_okD [OF assms(1)]
  have fd: "fd \<in> rd" using d(2) assms(2) by blast
  have *: "own' p f \<longleftrightarrow> own p f \<and> f \<noteq> fd" for p f using assms(2-4) d(1) [OF assms(2), of p] by blast
  show ?thesis unfolding fds_ok_def
  proof (intro conjI allI impI)
    fix p r f assume "own' p f \<and> own' r f"
    then show "p = r" using d(1) [of p f r] * by auto
  next
    fix f show "f \<in> rd - {fd} \<longleftrightarrow> (\<exists>p. own' p f)" using d(2) [of f] * by auto
  next
    fix p f assume "own' p f"
    then show "0 \<le> f" "f < FD_SETSIZE" "f \<le> bound" using d(3) [of p f] * by auto
  qed (use d(4,5) fd in auto)
qed

lemma ss_inv_fds: "ss_inv live B s \<Longrightarrow> fds_ok (owns s) (rfds s) (max_fd s) B (live (sys s))"
  by (auto simp: ss_inv_def ss_inv_at_def)

text \<open>A descriptor is opened, or one that no context owns is closed.\<close>

lemma ss_inv_stray:
  assumes "ss_inv live B s" "live w = B' \<union> rfds s" "B' \<inter> rfds s = {}"
  shows "ss_inv live B' (s\<lparr>sys := w, log := l\<rparr>)"
proof -
  let ?s = "s\<lparr>sys := w, log := l\<rparr>"
  have o: "owns ?s = owns s" by (rule owns_eqI) auto
  show ?thesis using assms(1)
    by (rule ss_invE, intro ss_invI) (use o assms(2,3) in \<open>auto simp: lists_ok_def ctxs_ok_def fds_ok_def\<close>)
qed

lemma ss_inv_open:
  assumes "ss_inv live B s" "new_fd live (sys s) fd w" "0 \<le> fd"
  shows "ss_inv live (insert fd B) (s\<lparr>sys := w, log := l\<rparr>)" "fd \<notin> B" "fd < FD_SETSIZE"
proof -
  have d: "live (sys s) = B \<union> rfds s" "B \<inter> rfds s = {}" using fds_okD(4,5) [OF ss_inv_fds [OF assms(1)]] by simp_all
  have n: "fd \<notin> live (sys s)" "fd < FD_SETSIZE" "live w = insert fd (live (sys s))"
    using assms(2,3) by (simp_all add: new_fd_def)
  show "ss_inv live (insert fd B) (s\<lparr>sys := w, log := l\<rparr>)"
    by (rule ss_inv_stray [OF assms(1)]) (use d n in auto)
  show "fd \<notin> B" "fd < FD_SETSIZE" using n d by auto
qed

lemma ss_inv_close:
  assumes "os_laws os live" "ss_inv live (insert fd B) s" "fd \<notin> B"
  shows "ss_inv live B (close_fd os fd s)"
proof -
  have d: "live (sys s) = insert fd B \<union> rfds s" "insert fd B \<inter> rfds s = {}"
    using fds_okD(4,5) [OF ss_inv_fds [OF assms(2)]] by simp_all
  show ?thesis unfolding close_fd_def
    by (rule ss_inv_stray [OF assms(2)]) (use d assms(3) os_lawsD(9) [OF assms(1)] in auto)
qed

section \<open>New and deleted contexts\<close>

lemma nodes_disjoint:
  "nodes Conn_head (map Conn_node cs) \<inter> nodes Remote_head (map Remote_node rs) = {}"
  "nodes Remote_head (map Remote_node rs) \<inter> nodes Conn_head (map Conn_node cs) = {}"
  by auto

lemma lists_ok_add:
  assumes "lists_ok cs rs s"
  obtains h h' where "list_add (Conn_node (next_block s)) Conn_head (rings s) = Some h"
      "clist h Conn_head (map Conn_node (next_block s # cs))" "clist h Remote_head (map Remote_node rs)"
    and "list_add (Remote_node (next_block s)) Remote_head (rings s) = Some h'"
      "clist h' Conn_head (map Conn_node cs)" "clist h' Remote_head (map Remote_node (next_block s # rs))"
proof -
  have k: "clist (rings s) Conn_head (map Conn_node cs)" "clist (rings s) Remote_head (map Remote_node rs)"
    "next_block s \<notin> set cs \<union> set rs" using assms unfolding lists_ok_def by blast+
  obtain h where h: "list_add (Conn_node (next_block s)) Conn_head (rings s) = Some h"
      "clist h Conn_head (Conn_node (next_block s) # map Conn_node cs)" "clist h Remote_head (map Remote_node rs)"
    by (rule kl.push_beside [OF k(1,2) nodes_disjoint(1), of "Conn_node (next_block s)"]) (use k(3) in auto)
  obtain h' where h': "list_add (Remote_node (next_block s)) Remote_head (rings s) = Some h'"
      "clist h' Remote_head (Remote_node (next_block s) # map Remote_node rs)" "clist h' Conn_head (map Conn_node cs)"
    by (rule kl.push_beside [OF k(2,1) nodes_disjoint(2), of "Remote_node (next_block s)"]) (use k(3) in auto)
  show thesis by (rule that [of h h']) (use h h' in simp_all)
qed

lemma remove1_map_inj: "inj f \<Longrightarrow> remove1 (f a) (map f xs) = map f (remove1 a xs)"
  by (induction xs) (auto simp: inj_eq)

lemma lists_ok_del_conn:
  assumes "lists_ok cs rs s" "c \<in> set cs"
  obtains h where "list_del (Conn_node c) (rings s) = Some h"
      "clist h Conn_head (map Conn_node (remove1 c cs))" "clist h Remote_head (map Remote_node rs)"
proof -
  have k: "clist (rings s) Conn_head (map Conn_node cs)" "clist (rings s) Remote_head (map Remote_node rs)"
    using assms unfolding lists_ok_def by blast+
  obtain h where "list_del (Conn_node c) (rings s) = Some h"
      "clist h Conn_head (remove1 (Conn_node c) (map Conn_node cs))" "clist h Remote_head (map Remote_node rs)"
    by (rule kl.del_beside [OF k nodes_disjoint(1), of "Conn_node c"]) (use assms(2) in auto)
  then show thesis by (intro that [of h]) (simp_all add: remove1_map_inj inj_def)
qed

lemma lists_ok_del_remote:
  assumes "lists_ok cs rs s" "r \<in> set rs"
  obtains h where "list_del (Remote_node r) (rings s) = Some h"
      "clist h Conn_head (map Conn_node cs)" "clist h Remote_head (map Remote_node (remove1 r rs))"
proof -
  have k: "clist (rings s) Conn_head (map Conn_node cs)" "clist (rings s) Remote_head (map Remote_node rs)"
    using assms unfolding lists_ok_def by blast+
  obtain h where "list_del (Remote_node r) (rings s) = Some h"
      "clist h Remote_head (remove1 (Remote_node r) (map Remote_node rs))" "clist h Conn_head (map Conn_node cs)"
    by (rule kl.del_beside [OF k(2,1) nodes_disjoint(2), of "Remote_node r"]) (use assms(2) in auto)
  then show thesis by (intro that [of h]) (simp_all add: remove1_map_inj inj_def)
qed

lemma lists_ok_distinct: "lists_ok cs rs s \<Longrightarrow> distinct cs \<and> distinct rs"
  by (auto simp: lists_ok_def clist_def distinct_map)

text \<open>The new connection context, by the descriptor and the encryptor it is given.\<close>

lemma add_conn_links:
  assumes "links_ok cm rm" "cm a = None" "remote d = None"
  shows "links_ok (cm(a \<mapsto> d)) rm"
proof (rule links_okI)
  fix c e r assume "(cm(a \<mapsto> d)) c = Some e" "remote e = Some r"
  then have "cm c = Some e" "remote e = Some r" using assms(3) by (auto split: if_splits)
  from links_okD(1) [OF assms(1) this] show "\<exists>rd. rm r = Some rd \<and> conn_entry rd = Some c" .
next
  fix r rd c assume "rm r = Some rd" "conn_entry rd = Some c"
  then have "\<exists>e. cm c = Some e \<and> remote e = Some r" by (rule links_okD(2) [OF assms(1)])
  with assms(2) show "\<exists>e. (cm(a \<mapsto> d)) c = Some e \<and> remote e = Some r" by auto
qed

lemma ss_server_add_conn_ok:
  assumes "os_laws os live" "ss_inv live (insert fd B) s" "fd \<notin> B" "0 \<le> fd" "fd < FD_SETSIZE"
  shows "\<exists>a d s'. ss_server_add_conn os fd AE_READABLE info s = Some (Some a, s') \<and> ss_inv live B s' \<and> keeps {} {} s s' \<and>
    conns s' a = Some d \<and> conn_fd d = fd \<and> ss_conn_state d = OPENING \<and> remote d = None"
proof -
  obtain cs rs where i: "lists_ok cs rs s" "links_ok (conns s) (remotes s)" "ctxs_ok s"
    "fds_ok (owns s) (rfds s) (max_fd s) (insert fd B) (live (sys s))" using assms(2) by (rule ss_invE)
  let ?a = "next_block s"
  have fresh: "conns s ?a = None" using i(1) by (auto simp: lists_ok_def domIff)
  obtain h h' where h: "list_add (Conn_node ?a) Conn_head (rings s) = Some h"
      "clist h Conn_head (map Conn_node (?a # cs))" "clist h Remote_head (map Remote_node rs)"
    using i(1) by (rule lists_ok_add)
  obtain w where w: "os_calloc os (sys s) = (True, w)" "live w = live (sys s)"
    using os_lawsD(10) [OF assms(1)] by (metis surj_pair)
  obtain w' where w': "os_calloc os w = (True, w')" "live w' = live w"
    using os_lawsD(10) [OF assms(1)] by (metis surj_pair)
  define d where "d = \<lparr>conn_fd = fd, conn_mask = AE_READABLE, ss_conn_state = OPENING,
    ss_conn_info = \<lparr>ip = take 127 (ip info), info_port = info_port info\<rparr>, conn_proc = null_event, remote_count = 0,
    remote = None, conn_encryptor = map_option copy_encryptor (encryptor s)\<rparr>"
  define w2 where "w2 = (if encryptor s = None then w else w')"
  define s' where "s' = s\<lparr>sys := w2, next_block := ?a + 1, rings := h, conn_count := conn_count s + 1,
    max_fd := max fd (max_fd s), rfds := insert fd (rfds s), conns := (conns s)(?a \<mapsto> d)\<rparr>"
  have "ss_server_add_conn os fd AE_READABLE info s = Some (Some ?a, s')"
    using w(1) w'(1) h(1) assms(4,5)
    by (cases "encryptor s") (simp_all add: ss_server_add_conn_def ss_fd_set_add_fd_def Let_def s'_def d_def w2_def)
  moreover have "ss_inv live B s'"
  proof (rule ss_invI)
    show "lists_ok (?a # cs) rs s'" using i(1) h(2,3) by (auto simp: lists_ok_def s'_def less_Suc_eq)
    show "links_ok (conns s') (remotes s')"
      using add_conn_links [OF i(2) fresh, of d] by (simp add: s'_def d_def)
    have "conn_ok (ciphered s) d" using i(3) by (auto simp: conn_ok_def ctxs_ok_def d_def null_event_def)
    with i(3) show "ctxs_ok s'" unfolding ctxs_ok_def by (auto simp: s'_def)
    have "live (sys s') = live (sys s)" using w(2) w'(2) by (simp add: s'_def w2_def)
    moreover have "fds_ok (owns s') (insert fd (rfds s)) (max fd (max_fd s)) B (live (sys s))"
    proof (rule fds_ok_add [OF i(4) assms(3-5), where q = "SS_CONN_CTX ?a"])
      fix p f show "owns s' p f = (owns s p f \<or> p = SS_CONN_CTX ?a \<and> f = fd)"
        using fresh by (cases p) (auto simp: s'_def d_def)
    qed
    ultimately show "fds_ok (owns s') (rfds s') (max_fd s') B (live (sys s'))" by (simp add: s'_def)
  qed
  moreover have "keeps {} {} s s'" by (auto simp: keeps_def s'_def)
  moreover have "conns s' ?a = Some d" "conn_fd d = fd" "ss_conn_state d = OPENING" "remote d = None"
    by (simp_all add: s'_def d_def)
  ultimately show ?thesis by blast
qed

lemma resolve_target_ok:
  assumes "os_laws os live" "ss_inv live B s"
  shows "\<exists>a w. resolve_target os addr s = Some (a, s\<lparr>sys := w\<rparr>) \<and> live w = live (sys s)"
proof (cases "os_inet_aton os addr")
  case None
  obtain h w where w: "os_gethostbyname os (sys s) addr = (h, w)" by (cases "os_gethostbyname os (sys s) addr")
  have l: "live w = live (sys s)" by (rule os_lawsD(6) [OF assms(1) w])
  show ?thesis
  proof (cases h)
    case (Some fa)
    obtain f as where fa: "fa = (f, as)" by (cases fa)
    have "as \<noteq> []" using w Some fa by (intro os_lawsD(7) [OF assms(1), of "sys s" addr f as w]) simp
    then show ?thesis using None w l Some fa
      by (intro exI [of _ "Some (as ! 0)"] exI [of _ w]) (simp add: resolve_target_def)
  next
    case None': None
    show ?thesis using None w l None' by (intro exI [of _ None] exI [of _ w]) (simp add: resolve_target_def)
  qed
next
  case (Some a)
  then show ?thesis by (intro exI [of _ "Some a"] exI [of _ "sys s"]) (simp add: resolve_target_def)
qed

text \<open>\<open>client_connect\<close> returns a fresh open descriptor, or -1 and has closed what it opened.\<close>

lemma sys_log_sys: "s\<lparr>sys := w, log := l\<rparr>\<lparr>sys := w'\<rparr> = s\<lparr>sys := w', log := l\<rparr>"
  by (cases s) simp

lemma sys_sys: "s\<lparr>sys := w, sys := w', log := l\<rparr> = s\<lparr>sys := w', log := l\<rparr>"
  by simp

lemma log_sys: "s\<lparr>log := l, sys := w\<rparr> = s\<lparr>sys := w, log := l\<rparr>"
  by (cases s) simp

lemma client_connect_ok:
  assumes "os_laws os live" "ss_inv live B s"
  shows "\<exists>fd w l. client_connect os addr prt s = Some (fd, s\<lparr>sys := w, log := l\<rparr>) \<and>
    (if fd < 0 then ss_inv live B (s\<lparr>sys := w, log := l\<rparr>)
     else fd \<notin> B \<and> fd < FD_SETSIZE \<and> ss_inv live (insert fd B) (s\<lparr>sys := w, log := l\<rparr>))"
proof -
  obtain fd w where w: "os_socket os (sys s) = (fd, w)" by (cases "os_socket os (sys s)")
  have n: "new_fd live (sys s) fd w" by (rule os_lawsD(5) [OF assms(1) w])
  show ?thesis
  proof (cases "fd < 0")
    case True
    then have "ss_inv live B (s\<lparr>sys := w, log := log s, buf_bytes := buf_bytes s, leaked := leaked s\<rparr>)"
      using n by (intro ss_inv_sys [OF assms(2)] ss_inv_buf [OF assms(2)]) (simp add: new_fd_def)
    with w True show ?thesis by (intro exI [of _ "-1"] exI [of _ w] exI [of _ "log s"]) (simp add: client_connect_def)
  next
    case False
    let ?s1 = "s\<lparr>sys := w, log := log s @ [Opened fd]\<rparr>"
    have o: "ss_inv live (insert fd B) ?s1" "fd \<notin> B" "fd < FD_SETSIZE" using ss_inv_open [OF assms(2) n] False by auto
    obtain a w2 where r: "resolve_target os addr ?s1 = Some (a, s\<lparr>sys := w2, log := log s @ [Opened fd]\<rparr>)" "live w2 = live (sys ?s1)"
      using resolve_target_ok [OF assms(1) o(1)] unfolding sys_log_sys by blast
    have *: "ss_inv live (insert fd B) (s\<lparr>sys := w', log := log s @ [Opened fd]\<rparr>)" if "live w' = live (sys ?s1)" for w'
      using ss_inv_sys [OF o(1) that ss_inv_buf [OF o(1)], where l = "log ?s1" and k = "leaked s"] by simp
    show ?thesis
    proof (cases a)
      case None
      have "ss_inv live B (close_fd os fd (s\<lparr>sys := w2, log := log s @ [Opened fd]\<rparr>))" by (rule ss_inv_close [OF assms(1) * [OF r(2)] o(2)])
      with w False r(1) None show ?thesis
        by (intro exI [of _ "-1"] exI [of _ "os_close os w2 fd"] exI [of _ "log s @ [Opened fd, Closed fd]"])
          (simp add: client_connect_def close_fd_def)
    next
      case (Some t)
      obtain ok w3 where c: "os_connect os w2 fd t prt = (ok, w3)" by (cases "os_connect os w2 fd t prt")
      have l: "live w3 = live (sys ?s1)" using os_lawsD(8) [OF assms(1) c] r(2) by simp
      have cl: "ss_inv live B (close_fd os fd (s\<lparr>sys := w3, log := log s @ [Opened fd]\<rparr>))" by (rule ss_inv_close [OF assms(1) * [OF l] o(2)])
      show ?thesis
      proof (cases ok)
        case True
        with w False r(1) Some c o(2,3) * [OF l] show ?thesis
          by (intro exI [of _ fd] exI [of _ w3] exI [of _ "log s @ [Opened fd]"])
            (simp add: client_connect_def log_sys)
      next
        case no: False
        with w False r(1) Some c cl show ?thesis
          by (intro exI [of _ "-1"] exI [of _ "os_close os w3 fd"] exI [of _ "log s @ [Opened fd, Closed fd]"])
            (simp add: client_connect_def close_fd_def)
      qed
    qed
  qed
qed

text \<open>
  \<open>ss_conn_add_remote\<close> for a connection without remote, with the change of state that follows it in both programs. When
  no remote is added, only a block is lost.
\<close>

lemma add_remote_links:
  assumes "links_ok cm rm" "cm c = Some d" "remote d = None" "rm r = None" "remote d' = Some r" "conn_entry rd = Some c"
  shows "links_ok (cm(c \<mapsto> d')) (rm(r \<mapsto> rd))"
proof (rule links_okI)
  fix c' e r' assume a: "(cm(c \<mapsto> d')) c' = Some e" "remote e = Some r'"
  show "\<exists>rd'. (rm(r \<mapsto> rd)) r' = Some rd' \<and> conn_entry rd' = Some c'"
  proof (cases "c' = c")
    case False
    with a links_okD(1) [OF assms(1), of c' e r'] assms(4) show ?thesis by auto
  qed (use a assms(5,6) in auto)
next
  fix r' rd' c' assume a: "(rm(r \<mapsto> rd)) r' = Some rd'" "conn_entry rd' = Some c'"
  show "\<exists>e. (cm(c \<mapsto> d')) c' = Some e \<and> remote e = Some r'"
  proof (cases "r' = r")
    case False
    with a links_okD(2) [OF assms(1), of r' rd' c'] assms(2,3) show ?thesis by auto
  qed (use a assms(5,6) in auto)
qed

lemma attach_remote_ok:
  assumes "ss_inv live (insert fd B) s" "fd \<notin> B" "0 \<le> fd" "fd < FD_SETSIZE" "conns s c = Some d" "remote d = None"
    and "conn_fd d' = conn_fd d" "remote d' = Some (next_block s)" "conn_ok (ciphered s) d'"
    and "list_add (Remote_node (next_block s)) Remote_head (rings s) = Some h"
    and "rd = \<lparr>remote_fd = fd, conn_entry = Some c, remote_mask = AE_READABLE, remote_proc = event\<rparr>"
    and "rfileproc event = Remote_io_handle"
    and s': "s' = s\<lparr>next_block := next_block s + 1, conns := (conns s)(c \<mapsto> d'), remotes := (remotes s)(next_block s \<mapsto> rd),
      max_fd := max fd (max_fd s), rfds := insert fd (rfds s), rings := h\<rparr>"
  shows "ss_inv live B s'"
proof -
  obtain cs rs where i: "lists_ok cs rs s" "links_ok (conns s) (remotes s)" "ctxs_ok s"
    "fds_ok (owns s) (rfds s) (max_fd s) (insert fd B) (live (sys s))" using assms(1) by (rule ss_invE)
  have fresh: "remotes s (next_block s) = None" using i(1) by (auto simp: lists_ok_def domIff)
  obtain h0 h' where h: "list_add (Remote_node (next_block s)) Remote_head (rings s) = Some h'"
      "clist h' Conn_head (map Conn_node cs)" "clist h' Remote_head (map Remote_node (next_block s # rs))"
    using i(1) by (rule lists_ok_add)
  have hh: "h' = h" using h(1) assms(10) by simp
  show ?thesis
  proof (rule ss_invI)
    have "dom (conns s') = dom (conns s)" using assms(5) s' by auto
    then show "lists_ok cs (next_block s # rs) s'" using i(1) h(2,3) hh s' by (auto simp: lists_ok_def less_Suc_eq)
    show "links_ok (conns s') (remotes s')"
      using add_remote_links [OF i(2) assms(5,6) fresh assms(8), of rd] assms(11) s' by simp
    have "remote_ok rd" using assms(11,12) by (simp add: remote_ok_def)
    with i(3) assms(9) show "ctxs_ok s'" unfolding ctxs_ok_def s' by auto
    have "fds_ok (owns s') (insert fd (rfds s)) (max fd (max_fd s)) B (live (sys s))"
    proof (rule fds_ok_add [OF i(4) assms(2-4), where q = "SS_REMOTE_CTX (next_block s)"])
      fix p f show "owns s' p f = (owns s p f \<or> p = SS_REMOTE_CTX (next_block s) \<and> f = fd)"
        using fresh assms(5,7,11) by (cases p) (auto simp: s')
    qed
    then show "fds_ok (owns s') (rfds s') (max_fd s') B (live (sys s'))" by (simp add: s')
  qed
qed

lemma ss_inv_leak:
  assumes "ss_inv live B s"
  shows "ss_inv live B (s\<lparr>leaked := k\<rparr>)"
  using ss_inv_sys [OF assms refl ss_inv_buf [OF assms], where l = "log s" and k = k] by simp

lemma ss_inv_world:
  assumes "ss_inv live B s" "live w = live (sys s)"
  shows "ss_inv live B (s\<lparr>sys := w\<rparr>)"
  using ss_inv_sys [OF assms ss_inv_buf [OF assms(1)], where l = "log s" and k = "leaked s"] by simp

lemma add_remote_ok:
  assumes "os_laws os live" "ss_inv live B s" "conns s c = Some d" "remote d = None" "rfileproc event = Remote_io_handle"
  shows "\<exists>r s1. ss_conn_add_remote os c AE_READABLE info event s = Some (r, s1) \<and> keeps {} {} s s1 \<and>
    (case r of None \<Rightarrow> ss_inv live B s1 | Some _ \<Rightarrow> \<exists>s2. set_state c CONNECTING s1 = Some s2 \<and> ss_inv live B s2 \<and> keeps {} {} s s2)"
proof -
  obtain w where w: "os_calloc os (sys s) = (True, w)" "live w = live (sys s)"
    using os_lawsD(10) [OF assms(1)] by (metis surj_pair)
  have i0: "ss_inv live B (s\<lparr>sys := w\<rparr>)" by (rule ss_inv_world [OF assms(2) w(2)])
  obtain fd w1 l where cc: "client_connect os (ip info) (info_port info) (s\<lparr>sys := w\<rparr>) = Some (fd, s\<lparr>sys := w1, log := l\<rparr>)"
    and ok: "if fd < 0 then ss_inv live B (s\<lparr>sys := w1, log := l\<rparr>)
      else fd \<notin> B \<and> fd < FD_SETSIZE \<and> ss_inv live (insert fd B) (s\<lparr>sys := w1, log := l\<rparr>)"
    using client_connect_ok [OF assms(1) i0, of "ip info" "info_port info"] unfolding sys_sys by blast
  let ?s = "s\<lparr>sys := w1, log := l\<rparr>"
  show ?thesis
  proof (cases "fd < 0")
    case True
    have "ss_inv live B (?s\<lparr>leaked := leaked s + 1\<rparr>)" using ss_inv_leak ok True by (metis (full_types))
    moreover have "keeps {} {} s (?s\<lparr>leaked := leaked s + 1\<rparr>)" by (simp add: keeps_def)
    moreover have "ss_conn_add_remote os c AE_READABLE info event s = Some (None, ?s\<lparr>leaked := leaked s + 1\<rparr>)"
      using assms(3) w(1) cc True by (simp add: ss_conn_add_remote_def)
    ultimately show ?thesis by fastforce
  next
    case False
    then have fd: "0 \<le> fd" "fd \<notin> B" "fd < FD_SETSIZE" "ss_inv live (insert fd B) ?s" using ok by simp_all
    obtain cs rs where "lists_ok cs rs ?s" using fd(4) by (rule ss_invE)
    then obtain h' h where h: "list_add (Remote_node (next_block s)) Remote_head (rings s) = Some h"
      by (rule lists_ok_add) simp
    define rd where "rd = \<lparr>remote_fd = fd, conn_entry = Some c, remote_mask = AE_READABLE, remote_proc = event\<rparr>"
    define d1 where "d1 = d\<lparr>remote := Some (next_block s), remote_count := remote_count d + 1\<rparr>"
    define st where "st = (\<lambda>e. ?s\<lparr>next_block := next_block s + 1, conns := (conns s)(c \<mapsto> e),
      remotes := (remotes s)(next_block s \<mapsto> rd), max_fd := max fd (max_fd s), rfds := insert fd (rfds s), rings := h\<rparr>)"
    let ?d2 = "d1\<lparr>ss_conn_state := CONNECTING\<rparr>"
    have "ss_conn_add_remote os c AE_READABLE info event s = Some (Some (next_block s), st d1)"
      using assms(3) w(1) cc False h fd(3)
      by (simp add: ss_conn_add_remote_def ss_fd_set_add_fd_def Let_def st_def rd_def d1_def)
    moreover have "set_state c CONNECTING (st d1) = Some (st ?d2)" by (simp add: set_state_def st_def)
    moreover have "ss_inv live B (st ?d2)"
    proof (rule attach_remote_ok [OF fd(4,2,1,3)])
      show "conn_ok (ciphered ?s) ?d2" using ss_inv_conn [OF assms(2,3)] by (simp add: conn_ok_def d1_def)
      show "st ?d2 = ?s\<lparr>next_block := next_block ?s + 1, conns := (conns ?s)(c \<mapsto> ?d2),
        remotes := (remotes ?s)(next_block ?s \<mapsto> rd), max_fd := max fd (max_fd ?s), rfds := insert fd (rfds ?s), rings := h\<rparr>"
        by (simp add: st_def)
    qed (use assms(3-5) h in \<open>simp_all add: d1_def rd_def\<close>)
    moreover have "keeps {} {} s (st e)" for e by (auto simp: keeps_def st_def)
    ultimately show ?thesis by auto
  qed
qed

lemma remote_ok_entry: "remote_ok (rd\<lparr>conn_entry := x\<rparr>) \<longleftrightarrow> remote_ok rd"
  by (simp add: remote_ok_def)

lemma conn_ok_detach: "conn_ok ciph d \<Longrightarrow> conn_ok ciph (d\<lparr>remote := None\<rparr>)"
  by (simp add: conn_ok_def)

lemma del_conn_links:
  assumes "links_ok cm rm" "cm c = Some d"
    and "rm' = (case remote d of None \<Rightarrow> rm | Some r \<Rightarrow> (case rm r of None \<Rightarrow> rm | Some rd \<Rightarrow> rm(r \<mapsto> rd\<lparr>conn_entry := None\<rparr>)))"
  shows "links_ok (cm(c := None)) rm'"
proof (rule links_okI)
  fix c' e r' assume a: "(cm(c := None)) c' = Some e" "remote e = Some r'"
  then have a': "c' \<noteq> c" "cm c' = Some e" by (auto split: if_splits)
  obtain rd where rd: "rm r' = Some rd" "conn_entry rd = Some c'" using links_okD(1) [OF assms(1) a'(2) a(2)] by blast
  have "remote d \<noteq> Some r'" using links_okD(1) [OF assms(1,2), of r'] rd a'(1) by auto
  with rd show "\<exists>rd. rm' r' = Some rd \<and> conn_entry rd = Some c'"
    unfolding assms(3) by (auto split: option.splits)
next
  fix r' rd c' assume a: "rm' r' = Some rd" "conn_entry rd = Some c'"
  then have a': "rm r' = Some rd" "remote d \<noteq> Some r'" unfolding assms(3) by (auto split: option.splits if_splits)
  obtain e where e: "cm c' = Some e" "remote e = Some r'" using links_okD(2) [OF assms(1) a'(1) a(2)] by blast
  with a'(2) assms(2) show "\<exists>e. (cm(c := None)) c' = Some e \<and> remote e = Some r'" by auto
qed

text \<open>The remotes without the pointer of a connection that goes, and what \<open>ss_server_del_conn\<close> computes.\<close>

definition detach_conn :: "ss_conn_ctx \<Rightarrow> (nat \<rightharpoonup> ss_remote_ctx) \<Rightarrow> nat \<rightharpoonup> ss_remote_ctx" where
  "detach_conn d rm = (case remote d of None \<Rightarrow> rm
    | Some r \<Rightarrow> (case rm r of None \<Rightarrow> rm | Some rd \<Rightarrow> rm(r \<mapsto> rd\<lparr>conn_entry := None\<rparr>)))"

lemma ss_server_del_conn_result:
  assumes "links_ok (conns s) (remotes s)" "conns s c = Some d" "list_del (Conn_node c) (rings s) = Some h"
    and "conn_mask d = AE_READABLE" "0 \<le> conn_fd d" "conn_fd d < FD_SETSIZE"
  shows "ss_server_del_conn os c s = Some (s\<lparr>remotes := detach_conn d (remotes s), rfds := rfds s - {conn_fd d}, conn_count := conn_count s - 1, rings := h,
    sys := os_close os (sys s) (conn_fd d), log := log s @ [Closed (conn_fd d)], conns := (conns s)(c := None),
    leaked := leaked s + (if conn_encryptor d = None then 0 else 1)\<rparr>)"
proof (cases "remote d")
  case None
  then show ?thesis using assms(2-) by (simp add: ss_server_del_conn_def ss_fd_set_del_fd_def close_fd_def Let_def detach_conn_def)
next
  case (Some r)
  then obtain rd where "remotes s r = Some rd" using links_okD(1) [OF assms(1,2)] by blast
  then show ?thesis using Some assms(2-)
    by (simp add: ss_server_del_conn_def ss_fd_set_del_fd_def close_fd_def Let_def detach_conn_def)
qed

lemma ss_server_del_conn_ok:
  assumes "os_laws os live" "ss_inv live B s" "conns s c = Some d"
  shows "\<exists>s'. ss_server_del_conn os c s = Some s' \<and> ss_inv live B s' \<and> keeps {c} {} s s' \<and> conns s' c = None \<and>
    leaked s' = leaked s + (if conn_encryptor d = None then 0 else 1)"
proof -
  obtain cs rs where i: "lists_ok cs rs s" "links_ok (conns s) (remotes s)" "ctxs_ok s"
    "fds_ok (owns s) (rfds s) (max_fd s) B (live (sys s))" using assms(2) by (rule ss_invE)
  have k: "conn_mask d = AE_READABLE" using ss_inv_conn [OF assms(2,3)] by (simp add: conn_ok_def)
  have own: "owns s (SS_CONN_CTX c) (conn_fd d)" using assms(3) by simp
  have fd: "0 \<le> conn_fd d" "conn_fd d < FD_SETSIZE" using fds_okD(3) [OF i(4) own] by simp_all
  have c: "c \<in> set cs" using i(1) assms(3) by (auto simp: lists_ok_def)
  obtain h where h: "list_del (Conn_node c) (rings s) = Some h" "clist h Conn_head (map Conn_node (remove1 c cs))"
    "clist h Remote_head (map Remote_node rs)" by (rule lists_ok_del_conn [OF i(1) c])
  define rm where "rm = detach_conn d (remotes s)"
  define s' where "s' = s\<lparr>remotes := rm, rfds := rfds s - {conn_fd d}, conn_count := conn_count s - 1, rings := h,
    sys := os_close os (sys s) (conn_fd d), log := log s @ [Closed (conn_fd d)], conns := (conns s)(c := None),
    leaked := leaked s + (if conn_encryptor d = None then 0 else 1)\<rparr>"
  have rmD: "map_option remote_fd (rm r) = map_option remote_fd (remotes s r)" for r
    by (auto simp: rm_def detach_conn_def split: option.splits)
  have "ss_server_del_conn os c s = Some s'"
    unfolding s'_def rm_def by (rule ss_server_del_conn_result [OF i(2) assms(3) h(1) k fd])
  moreover have "ss_inv live B s'"
  proof (rule ss_invI)
    have "dom rm = dom (remotes s)" by (auto simp: rm_def detach_conn_def split: option.splits)
    moreover have "set (remove1 c cs) = set cs - {c}" "int (length (remove1 c cs)) = int (length cs) - 1"
      using lists_ok_distinct [OF i(1)] c length_pos_if_in_set [OF c] by (auto simp: length_remove1 of_nat_diff Suc_leI)
    ultimately show "lists_ok (remove1 c cs) rs s'" using i(1) h(2,3) by (auto simp: lists_ok_def s'_def)
    show "links_ok (conns s') (remotes s')" using del_conn_links [OF i(2) assms(3) rm_def [unfolded detach_conn_def]] by (simp add: s'_def)
    have "remote_ok rd" if "rm r = Some rd" for r rd
      using that ss_inv_remote [OF assms(2)] by (auto simp: rm_def detach_conn_def remote_ok_entry split: option.splits if_splits)
    with i(3) show "ctxs_ok s'" unfolding ctxs_ok_def by (auto simp: s'_def)
    have "fds_ok (owns s') (rfds s - {conn_fd d}) (max_fd s) B (live (sys s) - {conn_fd d})"
    proof (rule fds_ok_del [OF i(4) own])
      fix p f show "owns s' p f = (owns s p f \<and> p \<noteq> SS_CONN_CTX c)"
        by (cases p) (simp_all add: s'_def rmD del: map_option_eq_Some)
    qed (use assms(3) in simp)
    then show "fds_ok (owns s') (rfds s') (max_fd s') B (live (sys s'))"
      by (simp add: s'_def os_lawsD(9) [OF assms(1)])
  qed
  moreover have "keeps {c} {} s s'" by (auto simp: keeps_def s'_def rm_def detach_conn_def split: option.splits)
  moreover have "conns s' c = None" "leaked s' = leaked s + (if conn_encryptor d = None then 0 else 1)" by (simp_all add: s'_def)
  ultimately show ?thesis by blast
qed

lemma del_remote_links:
  assumes "links_ok cm rm" "rm r = Some rd"
    and "cm' = (case conn_entry rd of None \<Rightarrow> cm | Some c \<Rightarrow> (case cm c of None \<Rightarrow> cm | Some d \<Rightarrow> cm(c \<mapsto> d\<lparr>remote := None\<rparr>)))"
  shows "links_ok cm' (rm(r := None))"
proof (rule links_okI)
  fix c e r' assume a: "cm' c = Some e" "remote e = Some r'"
  then have a': "cm c = Some e" "conn_entry rd \<noteq> Some c" unfolding assms(3) by (auto split: option.splits if_splits)
  obtain rd' where "rm r' = Some rd'" "conn_entry rd' = Some c" using links_okD(1) [OF assms(1) a'(1) a(2)] by blast
  with a'(2) assms(2) show "\<exists>rd. (rm(r := None)) r' = Some rd \<and> conn_entry rd = Some c" by auto
next
  fix r' rd' c assume a: "(rm(r := None)) r' = Some rd'" "conn_entry rd' = Some c"
  then have a': "r' \<noteq> r" "rm r' = Some rd'" by (auto split: if_splits)
  obtain e where e: "cm c = Some e" "remote e = Some r'" using links_okD(2) [OF assms(1) a'(2) a(2)] by blast
  have "conn_entry rd \<noteq> Some c" using links_okD(2) [OF assms(1,2), of c] e a'(1) by auto
  with e show "\<exists>d. cm' c = Some d \<and> remote d = Some r'" unfolding assms(3) by (auto split: option.splits)
qed

definition detach_remote :: "ss_remote_ctx \<Rightarrow> (nat \<rightharpoonup> ss_conn_ctx) \<Rightarrow> nat \<rightharpoonup> ss_conn_ctx" where
  "detach_remote rd cm = (case conn_entry rd of None \<Rightarrow> cm
    | Some c \<Rightarrow> (case cm c of None \<Rightarrow> cm | Some d \<Rightarrow> cm(c \<mapsto> d\<lparr>remote := None\<rparr>)))"

lemma ss_del_remote_result:
  assumes "links_ok (conns s) (remotes s)" "remotes s r = Some rd" "list_del (Remote_node r) (rings s) = Some h"
    and "remote_mask rd = AE_READABLE" "0 \<le> remote_fd rd" "remote_fd rd < FD_SETSIZE"
  shows "ss_del_remote os r s = Some (s\<lparr>conns := detach_remote rd (conns s), rfds := rfds s - {remote_fd rd}, rings := h,
    sys := os_close os (sys s) (remote_fd rd), log := log s @ [Closed (remote_fd rd)], remotes := (remotes s)(r := None)\<rparr>)"
proof (cases "conn_entry rd")
  case None
  then show ?thesis using assms(2-) by (simp add: ss_del_remote_def ss_fd_set_del_fd_def close_fd_def Let_def detach_remote_def)
next
  case (Some c)
  then obtain d where "conns s c = Some d" using links_okD(2) [OF assms(1,2)] by blast
  then show ?thesis using Some assms(2-)
    by (simp add: ss_del_remote_def ss_fd_set_del_fd_def close_fd_def Let_def detach_remote_def)
qed

lemma ss_del_remote_ok:
  assumes "os_laws os live" "ss_inv live B s" "remotes s r = Some rd"
  shows "\<exists>s'. ss_del_remote os r s = Some s' \<and> ss_inv live B s' \<and> keeps {} {r} s s' \<and> remotes s' r = None \<and> leaked s' = leaked s"
proof -
  obtain cs rs where i: "lists_ok cs rs s" "links_ok (conns s) (remotes s)" "ctxs_ok s"
    "fds_ok (owns s) (rfds s) (max_fd s) B (live (sys s))" using assms(2) by (rule ss_invE)
  have k: "remote_mask rd = AE_READABLE" using ss_inv_remote [OF assms(2,3)] by (simp add: remote_ok_def)
  have own: "owns s (SS_REMOTE_CTX r) (remote_fd rd)" using assms(3) by simp
  have fd: "0 \<le> remote_fd rd" "remote_fd rd < FD_SETSIZE" using fds_okD(3) [OF i(4) own] by simp_all
  have r: "r \<in> set rs" using i(1) assms(3) by (auto simp: lists_ok_def)
  obtain h where h: "list_del (Remote_node r) (rings s) = Some h" "clist h Conn_head (map Conn_node cs)"
    "clist h Remote_head (map Remote_node (remove1 r rs))" by (rule lists_ok_del_remote [OF i(1) r])
  define cm where "cm = detach_remote rd (conns s)"
  define s' where "s' = s\<lparr>conns := cm, rfds := rfds s - {remote_fd rd}, rings := h,
    sys := os_close os (sys s) (remote_fd rd), log := log s @ [Closed (remote_fd rd)], remotes := (remotes s)(r := None)\<rparr>"
  have cmD: "map_option conn_fd (cm c) = map_option conn_fd (conns s c)" for c
    by (auto simp: cm_def detach_remote_def split: option.splits)
  have "ss_del_remote os r s = Some s'"
    unfolding s'_def cm_def by (rule ss_del_remote_result [OF i(2) assms(3) h(1) k fd])
  moreover have "ss_inv live B s'"
  proof (rule ss_invI)
    have "dom cm = dom (conns s)" by (auto simp: cm_def detach_remote_def split: option.splits)
    moreover have "set (remove1 r rs) = set rs - {r}" using lists_ok_distinct [OF i(1)] by simp
    ultimately show "lists_ok cs (remove1 r rs) s'" using i(1) h(2,3) by (auto simp: lists_ok_def s'_def)
    show "links_ok (conns s') (remotes s')" using del_remote_links [OF i(2) assms(3) cm_def [unfolded detach_remote_def]] by (simp add: s'_def)
    have "conn_ok (ciphered s) d" if "cm c = Some d" for c d
      using that ss_inv_conn [OF assms(2)] by (auto simp: cm_def detach_remote_def intro: conn_ok_detach split: option.splits if_splits)
    with i(3) show "ctxs_ok s'" unfolding ctxs_ok_def by (auto simp: s'_def)
    have "fds_ok (owns s') (rfds s - {remote_fd rd}) (max_fd s) B (live (sys s) - {remote_fd rd})"
    proof (rule fds_ok_del [OF i(4) own])
      fix p f show "owns s' p f = (owns s p f \<and> p \<noteq> SS_REMOTE_CTX r)"
        by (cases p) (simp_all add: s'_def cmD del: map_option_eq_Some)
    qed (use assms(3) in simp)
    then show "fds_ok (owns s') (rfds s') (max_fd s') B (live (sys s'))"
      by (simp add: s'_def os_lawsD(9) [OF assms(1)])
  qed
  moreover have "keeps {} {r} s s'" by (auto simp: keeps_def s'_def cm_def detach_remote_def split: option.splits)
  moreover have "remotes s' r = None" "leaked s' = leaked s" by (simp_all add: s'_def)
  ultimately show ?thesis by blast
qed

section \<open>The protocol steps\<close>

lemma set_state_ok:
  assumes "ss_inv live B s" "conns s c = Some d" "st \<noteq> OPENING"
  shows "\<exists>s'. set_state c st s = Some s' \<and> ss_inv live B s' \<and> io_same s s'"
proof -
  let ?d = "d\<lparr>ss_conn_state := st\<rparr>"
  have "ss_inv live B (s\<lparr>conns := (conns s)(c \<mapsto> ?d)\<rparr>)"
    by (rule ss_inv_conn_upd [OF assms(1,2)]) (use ss_inv_conn [OF assms(1,2)] assms(3) in \<open>simp_all add: conn_ok_def\<close>)
  moreover have "io_same s (s\<lparr>conns := (conns s)(c \<mapsto> ?d)\<rparr>)" using assms(2) by (simp add: io_same_def)
  ultimately show ?thesis using assms(2) by (simp add: set_state_def)
qed

text \<open>Where a function fails it deletes the connection; otherwise it has only done input and output.\<close>

definition done_or_deleted :: "('w \<Rightarrow> int set) \<Rightarrow> int set \<Rightarrow> nat \<Rightarrow> 'w ss_server_ctx \<Rightarrow> (int \<times> 'w ss_server_ctx) option \<Rightarrow> bool" where
  "done_or_deleted live B c s x \<longleftrightarrow>
    (\<exists>rv s'. x = Some (rv, s') \<and> ss_inv live B s' \<and> (if rv = 0 then io_same s s' else rv = -1 \<and> keeps {c} {} s s' \<and> conns s' c = None))"

lemma deleted_ok:
  assumes "os_laws os live" "ss_inv live B s1" "io_same s s1" "conns s c = Some d"
  shows "done_or_deleted live B c s (do { s'' \<leftarrow> ss_server_del_conn os c s1; Some (-1, s'') })"
proof -
  obtain d1 where "conns s1 c = Some d1" using io_sameD(1) [OF assms(3,4)] by blast
  from ss_server_del_conn_ok [OF assms(1,2) this] obtain s' where
    "ss_server_del_conn os c s1 = Some s'" "ss_inv live B s'" "keeps {c} {} s1 s'" "conns s' c = None" by blast
  then show ?thesis using keeps_trans [OF io_same_keeps [OF assms(3)]] by (auto simp: done_or_deleted_def)
qed

lemma ss_handshake_handle_ok:
  assumes "os_laws os live" "ss_inv live B s" "conns s c = Some d"
  shows "done_or_deleted live B c s (ss_handshake_handle os c s)"
proof -
  obtain r s1 where 1: "plain_recv os (conn_fd d) 262 s = (r, s1)" by (cases "plain_recv os (conn_fd d) 262 s")
  note r1 = plain_recv_ok [OF assms(1,2) 1]
  show ?thesis
  proof (cases "r = None \<or> r = Some []")
    case True
    then show ?thesis using deleted_ok [OF assms(1) r1(1,2) assms(3)] assms(3) 1
      by (auto simp: ss_handshake_handle_def Let_def)
  next
    case False
    then obtain bs where bs: "r = Some bs" "bs \<noteq> []" by auto
    define s2 where "s2 = fill_buf bs s1"
    have "length bs \<le> 262" by (rule r1(3) [OF bs(1)])
    then have f2: "ss_inv live B s2" "io_same s s2"
      using fill_buf_ok [OF r1(1), of bs] io_same_trans [OF r1(2)] by (auto simp: s2_def)
    define s3 where "s3 = fill_buf [0x05, 0x00] s2"
    have f3: "ss_inv live B s3" "io_same s s3"
      using fill_buf_ok [OF f2(1), of "[0x05, 0x00]"] io_same_trans [OF f2(2)] by (auto simp: s3_def)
    obtain n again s4 where 4: "plain_send os (conn_fd d) (take 2 (buf_bytes s3)) s3 = (n, again, s4)"
      by (cases "plain_send os (conn_fd d) (take 2 (buf_bytes s3)) s3")
    have f4: "ss_inv live B s4" "io_same s s4"
      using plain_send_ok [OF assms(1) f3(1) 4] io_same_trans [OF f3(2)] by auto
    obtain d4 where d4: "conns s4 c = Some d4" using io_sameD(1) [OF f4(2) assms(3)] by blast
    obtain s5 where s5: "set_state c CONNECTING s4 = Some s5" "ss_inv live B s5" "io_same s4 s5"
      using set_state_ok [OF f4(1) d4, of CONNECTING] by auto
    have x: "ss_handshake_handle os c s =
      (if buf_bytes s2 ! 0 \<noteq> 0x05 then do { s'' \<leftarrow> ss_server_del_conn os c s2; Some (-1, s'') }
       else if n \<noteq> 2 then do { s'' \<leftarrow> ss_server_del_conn os c s4; Some (-1, s'') } else Some (0, s5))"
      using assms(3) 1 bs 4 s5(1) by (simp add: ss_handshake_handle_def Let_def s2_def s3_def)
    have "done_or_deleted live B c s (Some (0, s5))" using s5 io_same_trans [OF f4(2)] by (simp add: done_or_deleted_def)
    then show ?thesis unfolding x
      using deleted_ok [OF assms(1) f2 assms(3)] deleted_ok [OF assms(1) f4 assms(3)] by (simp split: if_splits)
  qed
qed

lemma put_bytes_ok:
  "i + length bs \<le> length mem \<Longrightarrow> \<exists>mem'. put_bytes i bs mem = Some mem' \<and> length mem' = length mem"
  by (simp add: put_bytes_def)

definition field_ok :: "('w \<Rightarrow> int set) \<Rightarrow> int set \<Rightarrow> nat \<Rightarrow> 'w ss_server_ctx \<Rightarrow>
    ('w ss_server_ctx + (u8 list \<times> 'w ss_server_ctx)) option \<Rightarrow> bool" where
  "field_ok live B k s x \<longleftrightarrow>
    (case x of None \<Rightarrow> False
     | Some (Inl s1) \<Rightarrow> ss_inv live B s1 \<and> io_same s s1
     | Some (Inr (mem, s1)) \<Rightarrow> ss_inv live B s1 \<and> io_same s s1 \<and> length mem = k)"

lemma field_okE:
  assumes "field_ok live B k s x"
  obtains s1 where "x = Some (Inl s1)" "ss_inv live B s1" "io_same s s1"
  | mem s1 where "x = Some (Inr (mem, s1))" "ss_inv live B s1" "io_same s s1" "length mem = k"
  using assms by (auto simp: field_ok_def split: option.splits sum.splits)

lemma field_ok_mono: "field_ok live B k s1 x \<Longrightarrow> io_same s s1 \<Longrightarrow> field_ok live B k s x"
  by (auto simp: field_ok_def split: option.splits sum.splits intro: io_same_trans)

lemma recv_field_ok:
  assumes "os_laws os live" "ss_inv live B s" "conns s c = Some d" "i + n \<le> length mem"
  shows "field_ok live B (length mem) s (recv_field os c fd i n mem s)"
proof -
  obtain r s1 where r: "ss_recv os c fd n s = Some (r, s1)" "ss_inv live B s1" "io_same s s1"
    "\<And>bs. r = Some bs \<Longrightarrow> length bs \<le> n"
    using ss_recv_ok [OF assms(1-3), of fd n] by blast
  show ?thesis
  proof (cases r)
    case None
    with r show ?thesis by (simp add: recv_field_def field_ok_def)
  next
    case (Some bs)
    then obtain mem' where "put_bytes i bs mem = Some mem'" "length mem' = length mem"
      using put_bytes_ok [of i bs mem] r(4) [of bs] assms(4) by auto
    with r Some show ?thesis by (simp add: recv_field_def field_ok_def)
  qed
qed

lemma recv_addr_ok:
  assumes "os_laws os live" "ss_inv live B s" "conns s c = Some d" "length mem = 258"
  shows "field_ok live B 258 s (recv_addr os c fd kind mem s)"
proof -
  have 4: "field_ok live B 258 s (recv_field os c fd 0 n mem s)" if "n \<le> 258" for n
    using recv_field_ok [OF assms(1-3), of 0 n mem fd] that assms(4) by simp
  consider "kind = 1" | "kind = 3" | "kind \<noteq> 1" "kind \<noteq> 3" by blast
  then show ?thesis
  proof cases
    case 1
    from 4 [of 4, simplified] show ?thesis
      by (rule field_okE) (use 1 in \<open>simp_all add: recv_addr_def field_ok_def put_bytes_def\<close>)
  next
    case 2
    have "field_ok live B 258 s (recv_field os c fd 0 1 mem s)" by (rule 4) simp
    then show ?thesis
    proof (rule field_okE)
      fix m1 s1 assume a: "recv_field os c fd 0 1 mem s = Some (Inr (m1, s1))" "ss_inv live B s1" "io_same s s1" "length m1 = 258"
      obtain d1 where d1: "conns s1 c = Some d1" using io_sameD(1) [OF a(3) assms(3)] by blast
      have l: "unat (b :: u8) \<le> 255" for b using unat_u8_less [of b] by linarith
      have "field_ok live B 258 s1 (recv_field os c fd 1 (unat (m1 ! 0)) m1 s1)"
        using recv_field_ok [OF assms(1) a(2) d1, of 1 "unat (m1 ! 0)" m1 fd] l [of "m1 ! 0"] a(4) by simp
      from field_ok_mono [OF this a(3)] show ?thesis
      proof (rule field_okE)
        fix m2 s2 assume "recv_field os c fd 1 (unat (m1 ! 0)) m1 s1 = Some (Inr (m2, s2))" "ss_inv live B s2" "io_same s s2" "length m2 = 258"
        then show ?thesis using 2 a(1) l [of "m2 ! 0"] by (simp add: recv_addr_def field_ok_def put_bytes_def)
      qed (use 2 a(1) in \<open>simp add: recv_addr_def field_ok_def\<close>)
    qed (use 2 in \<open>simp add: recv_addr_def field_ok_def\<close>)
  next
    case 3
    then show ?thesis using 4 [of 16] assms(2) by (auto simp: recv_addr_def field_ok_def)
  qed
qed

lemma ss_get_requests_ok:
  assumes "os_laws os live" "ss_inv live B s" "conns s c = Some d" "length junk = 258"
  shows "\<exists>req s'. ss_get_requests os c junk s = Some (req, s') \<and> ss_inv live B s' \<and> io_same s s'"
proof -
  let ?fd = "conn_fd d"
  obtain r s1 where r: "ss_recv os c ?fd 4 s = Some (r, s1)" "ss_inv live B s1" "io_same s s1"
    "\<And>bs. r = Some bs \<Longrightarrow> length bs \<le> 4"
    using ss_recv_ok [OF assms(1-3), of ?fd 4] by blast
  show ?thesis
  proof (cases r)
    case None
    with r assms(3) show ?thesis by (auto simp: ss_get_requests_def)
  next
    case (Some bs)
    define s2 where "s2 = fill_buf bs s1"
    have 2: "ss_inv live B s2" "io_same s s2"
      using fill_buf_ok [OF r(2), of bs] io_same_trans [OF r(3)] r(4) [OF Some] by (auto simp: s2_def)
    obtain d2 where d2: "conns s2 c = Some d2" using io_sameD(1) [OF 2(2) assms(3)] by blast
    let ?kind = "buf_bytes s2 ! 3"
    note x = ss_get_requests_def [of os c junk s] assms(3) r(1) Some s2_def [symmetric]
    show ?thesis
    proof (cases "length bs = 4 \<and> buf_bytes s2 ! 0 = 5 \<and> buf_bytes s2 ! 2 = 0 \<and> buf_bytes s2 ! 1 = 1")
      case False
      then have "ss_get_requests os c junk s = Some (None, s2)" by (auto simp: x Let_def)
      with 2 show ?thesis by blast
    next
      case True
      from field_ok_mono [OF recv_addr_ok [OF assms(1) 2(1) d2 assms(4), of ?fd ?kind] 2(2)] show ?thesis
      proof (rule field_okE)
        fix s3 assume "recv_addr os c ?fd ?kind junk s2 = Some (Inl s3)" "ss_inv live B s3" "io_same s s3"
        then show ?thesis using True by (auto simp: x Let_def)
      next
        fix m s3 assume a: "recv_addr os c ?fd ?kind junk s2 = Some (Inr (m, s3))" "ss_inv live B s3" "io_same s s3" "length m = 258"
        obtain d3 where d3: "conns s3 c = Some d3" using io_sameD(1) [OF a(3) assms(3)] by blast
        have "field_ok live B 258 s (recv_field os c ?fd 256 2 m s3)"
          using field_ok_mono [OF recv_field_ok [OF assms(1) a(2) d3, of 256 2 m ?fd] a(3)] a(4) by simp
        then show ?thesis
          by (rule field_okE) (use True a(1) in \<open>auto simp: x Let_def\<close>)
      qed
    qed
  qed
qed

lemma get_addr_info_ok:
  assumes "os_laws os live" "ss_inv live B s" "get_addr_info os req info s = (r, s')"
  shows "ss_inv live B s'" "io_same s s'"
proof -
  have "\<exists>w. s' = s\<lparr>sys := w\<rparr> \<and> live w = live (sys s)"
  proof (cases "atyp req = 0x03")
    case True
    let ?name = "takeWhile (\<lambda>b. b \<noteq> 0) (slice (dst req) 1 (unat (dst req ! 0)))"
    obtain h w where w: "os_gethostbyname os (sys s) ?name = (h, w)" by (cases "os_gethostbyname os (sys s) ?name")
    have "live w = live (sys s)" by (rule os_lawsD(6) [OF assms(1) w])
    moreover have "s' = s\<lparr>sys := w\<rparr>" using assms(3) True w by (cases h) (auto simp: get_addr_info_def Let_def)
    ultimately show ?thesis by blast
  next
    case False
    then have "s' = s\<lparr>sys := sys s\<rparr>" using assms(3) by (auto simp: get_addr_info_def Let_def split: if_splits)
    then show ?thesis by blast
  qed
  then obtain w where w: "s' = s\<lparr>sys := w\<rparr>" "live w = live (sys s)" by blast
  then show "ss_inv live B s'" using ss_inv_world [OF assms(2)] by blast
  show "io_same s s'" using w(1) by (simp add: io_same_def)
qed

lemma ss_request_handle_ok:
  assumes "os_laws os live" "ss_inv live B s" "conns s c = Some d" "length junk = 258"
  shows "\<exists>r s'. ss_request_handle os c junk info s = Some (r, s') \<and> ss_inv live B s' \<and> io_same s s'"
proof -
  obtain req s1 where 1: "ss_get_requests os c junk s = Some (req, s1)" "ss_inv live B s1" "io_same s s1"
    using ss_get_requests_ok [OF assms] by blast
  show ?thesis
  proof (cases req)
    case None
    with 1 show ?thesis by (auto simp: ss_request_handle_def)
  next
    case (Some q)
    obtain i s2 where 2: "get_addr_info os q info s1 = (i, s2)" by (cases "get_addr_info os q info s1")
    have i2: "ss_inv live B s2" "io_same s s2"
      using get_addr_info_ok [OF assms(1) 1(2) 2] io_same_trans [OF 1(3)] by auto
    show ?thesis
    proof (cases i)
      case None
      with 1 2 Some i2 show ?thesis by (auto simp: ss_request_handle_def)
    next
      case i: (Some info')
      let ?reply = "[0x05, 0x00, 0x00, 0x01, 0x01, 0x00, 0x00, 0x01, 0x19, 0x19] :: u8 list"
      define s3 where "s3 = fill_buf ?reply s2"
      have i3: "ss_inv live B s3" "io_same s s3"
        using fill_buf_ok [OF i2(1), of ?reply] io_same_trans [OF i2(2)] by (auto simp: s3_def)
      obtain d2 where d2: "conns s2 c = Some d2" using io_sameD(1) [OF i2(2) assms(3)] by blast
      obtain d3 where d3: "conns s3 c = Some d3" using io_sameD(1) [OF i3(2) assms(3)] by blast
      obtain m again s4 where 4: "ss_send os c (conn_fd d2) (take 10 (buf_bytes s3)) s3 = Some (m, again, s4)"
          "ss_inv live B s4" "io_same s3 s4"
        using ss_send_ok [OF assms(1) i3(1) d3, where bs = "take 10 (buf_bytes s3)" and fd = "conn_fd d2"] ss_inv_buf [OF i3(1)] by auto
      with 1(1) 2 Some i d2 io_same_trans [OF i3(2)] show ?thesis
        by (auto simp: ss_request_handle_def Let_def s3_def [symmetric])
    qed
  qed
qed

end
