(* ===== verification/Socks_Loop.thy ===== *)
theory Socks_Loop
  imports Socks_Inv
begin

text \<open>
  The \<open>select\<close> loop of \<open>socks.c\<close>: \<open>ss_poll\<close> reports exactly the contexts whose descriptor is ready, and a loop over handlers
  that free nothing but their own context never follows a dangling pointer. The contract of such handlers is the locale
  \<open>ss_program\<close>, which \<open>Socks_Apps\<close> interprets for the two programs.
\<close>

section \<open>Polling\<close>

primrec alive :: "'w ss_server_ctx \<Rightarrow> ctx_ptr \<Rightarrow> bool" where
  "alive s SS_SERVER_CTX \<longleftrightarrow> True"
| "alive s (SS_CONN_CTX c) \<longleftrightarrow> c \<in> dom (conns s)"
| "alive s (SS_REMOTE_CTX r) \<longleftrightarrow> r \<in> dom (remotes s)"

definition is_ready :: "int set \<Rightarrow> 'w ss_server_ctx \<Rightarrow> ctx_ptr \<Rightarrow> bool" where
  "is_ready ready s p \<longleftrightarrow> (\<exists>fd \<in> ready. owns s p fd)"

lemma is_ready_simps [simp]:
  "is_ready ready s SS_SERVER_CTX \<longleftrightarrow> sock_fd s \<in> ready"
  "conns s c = Some d \<Longrightarrow> is_ready ready s (SS_CONN_CTX c) \<longleftrightarrow> conn_fd d \<in> ready"
  "remotes s r = Some rd \<Longrightarrow> is_ready ready s (SS_REMOTE_CTX r) \<longleftrightarrow> remote_fd rd \<in> ready"
  by (auto simp: is_ready_def)

lemma is_ready_alive: "is_ready ready s p \<Longrightarrow> alive s p"
  by (cases p) (auto simp: is_ready_def)

lemma io_same_owns:
  assumes "io_same s s'"
  shows "owns s' = owns s"
proof (rule owns_eqI)
  show "map_option conn_fd \<circ> conns s' = map_option conn_fd \<circ> conns s"
  proof (rule ext)
    fix c
    have "map_option (\<lambda>d. (conn_fd d, remote d)) (conns s' c) = map_option (\<lambda>d. (conn_fd d, remote d)) (conns s c)"
      using assms by (simp add: io_same_def)
    then show "(map_option conn_fd \<circ> conns s') c = (map_option conn_fd \<circ> conns s) c"
      by (cases "conns s' c"; cases "conns s c") simp_all
  qed
qed (use io_sameD(2,4) [OF assms] in simp_all)

lemma conn_events_ok:
  "ss_inv live B s \<Longrightarrow> set as \<subseteq> dom (conns s) \<Longrightarrow>
   \<exists>s'. conn_events ready (map Conn_node as) s =
       Some (map SS_CONN_CTX (filter (\<lambda>a. is_ready ready s (SS_CONN_CTX a)) as), s') \<and>
     ss_inv live B s' \<and> io_same s s' \<and> rings s' = rings s"
proof (induction as arbitrary: s)
  case (Cons a as)
  then obtain d where d: "conns s a = Some d" by auto
  have k: "conn_ok (ciphered s) d" by (rule ss_inv_conn [OF Cons.prems(1) d])
  then have m: "conn_mask d = AE_READABLE" by (simp add: conn_ok_def)
  define s1 where "s1 = (if conn_fd d \<in> ready
    then s\<lparr>conns := (conns s)(a \<mapsto> d\<lparr>conn_proc := (conn_proc d)\<lparr>ev_mask := ev_mask (conn_proc d) OR AE_READABLE\<rparr>\<rparr>)\<rparr> else s)"
  have "ss_inv live B s1" unfolding s1_def
    using ss_inv_conn_upd [OF Cons.prems(1) d] Cons.prems(1) k by (simp add: conn_ok_def)
  moreover have s1: "io_same s s1" "rings s1 = rings s" using d by (simp_all add: s1_def io_same_def)
  ultimately obtain s' where "conn_events ready (map Conn_node as) s1 =
      Some (map SS_CONN_CTX (filter (\<lambda>a. is_ready ready s1 (SS_CONN_CTX a)) as), s')"
    "ss_inv live B s'" "io_same s1 s'" "rings s' = rings s1"
    using Cons.IH [of s1] Cons.prems(2) io_same_dom [OF s1(1)] by auto
  moreover have "is_ready ready s1 = is_ready ready s" unfolding is_ready_def io_same_owns [OF s1(1)] ..
  ultimately show ?case using d m s1 io_same_trans [OF s1(1)] by (auto simp: s1_def Let_def split: if_splits)
qed simp

lemma remote_events_ok:
  "ss_inv live B s \<Longrightarrow> set as \<subseteq> dom (remotes s) \<Longrightarrow>
   \<exists>s'. remote_events ready (map Remote_node as) s =
       Some (map SS_REMOTE_CTX (filter (\<lambda>a. is_ready ready s (SS_REMOTE_CTX a)) as), s') \<and>
     ss_inv live B s' \<and> owns s' = owns s"
proof (induction as arbitrary: s)
  case (Cons a as)
  then obtain d where d: "remotes s a = Some d" by auto
  have k: "remote_ok d" by (rule ss_inv_remote [OF Cons.prems(1) d])
  then have m: "remote_mask d = AE_READABLE" by (simp add: remote_ok_def)
  define s1 where "s1 = (if remote_fd d \<in> ready
    then s\<lparr>remotes := (remotes s)(a \<mapsto> d\<lparr>remote_proc := (remote_proc d)\<lparr>ev_mask := ev_mask (remote_proc d) OR AE_READABLE\<rparr>\<rparr>)\<rparr> else s)"
  have "ss_inv live B s1" unfolding s1_def
    using ss_inv_remote_upd [OF Cons.prems(1) d] Cons.prems(1) k by (simp add: remote_ok_def)
  moreover have o: "owns s1 = owns s" by (rule owns_eqI) (use d in \<open>auto simp: s1_def fun_eq_iff\<close>)
  moreover have "dom (remotes s1) = dom (remotes s)" using d by (auto simp: s1_def)
  ultimately obtain s' where "remote_events ready (map Remote_node as) s1 =
      Some (map SS_REMOTE_CTX (filter (\<lambda>a. is_ready ready s1 (SS_REMOTE_CTX a)) as), s')"
    "ss_inv live B s'" "owns s' = owns s1"
    using Cons.IH [of s1] Cons.prems(2) by auto
  moreover have "is_ready ready s1 = is_ready ready s" unfolding is_ready_def o ..
  ultimately show ?case using d m o by (auto simp: s1_def Let_def split: if_splits)
qed simp

lemma alive_owns: "alive s p \<longleftrightarrow> (\<exists>fd. owns s p fd)"
  by (cases p) (auto simp: dom_def)

text \<open>Distinct contexts have distinct descriptors below \<open>FD_SETSIZE\<close>, so the array of events never overflows.\<close>

lemma events_bounded:
  assumes "ss_inv live B s" "distinct evs" "\<And>p. p \<in> set evs \<Longrightarrow> alive s p"
  shows "length evs \<le> 1024"
proof -
  note d = fds_okD [OF ss_inv_fds [OF assms(1)]]
  define f where "f p = (SOME fd. owns s p fd)" for p
  have own: "owns s p (f p)" if "p \<in> set evs" for p
    using assms(3) [OF that] unfolding alive_owns f_def by (rule someI_ex)
  have "inj_on f (set evs)"
  proof (rule inj_onI)
    fix p q assume "p \<in> set evs" "q \<in> set evs" "f p = f q"
    then show "p = q" using own [of p] own [of q] d(1) [of p "f p" q] by simp
  qed
  moreover have "f ` set evs \<subseteq> {0..<1024}" using own d(3) by (fastforce simp: FD_SETSIZE_def)
  ultimately have "card (set evs) \<le> card {0..<1024 :: int}" by (intro card_inj_on_le) auto
  then show ?thesis using distinct_card [OF assms(2)] by simp
qed

text \<open>The events that \<open>ss_poll\<close> reports for the two lists: each ready context once.\<close>

definition ready_events :: "int set \<Rightarrow> 'w ss_server_ctx \<Rightarrow> nat list \<Rightarrow> nat list \<Rightarrow> ctx_ptr list" where
  "ready_events ready s cs rs = (if sock_fd s \<in> ready then [SS_SERVER_CTX] else []) @
    map SS_CONN_CTX (filter (\<lambda>a. is_ready ready s (SS_CONN_CTX a)) cs) @
    map SS_REMOTE_CTX (filter (\<lambda>a. is_ready ready s (SS_REMOTE_CTX a)) rs)"

lemma ready_events_ok:
  assumes "lists_ok cs rs s1" "owns s1 = owns s"
  shows "distinct (ready_events ready s cs rs)" "set (ready_events ready s cs rs) = {p. is_ready ready s p}"
proof -
  show "distinct (ready_events ready s cs rs)" using lists_ok_distinct [OF assms(1)] by (auto simp: ready_events_def distinct_map inj_on_def)
  have al: "alive s p \<longleftrightarrow> alive s1 p" for p unfolding alive_owns assms(2) ..
  show "set (ready_events ready s cs rs) = {p. is_ready ready s p}"
  proof (rule set_eqI)
    fix p show "p \<in> set (ready_events ready s cs rs) \<longleftrightarrow> p \<in> {p. is_ready ready s p}"
      using is_ready_alive [of ready s p] al [of p] assms(1) unfolding lists_ok_def by (cases p) (auto simp: ready_events_def)
  qed
qed

lemma ss_poll_ok:
  assumes "os_laws os live" "ss_inv live B s" "os_select os (sys s) (max_fd s + 1) (rfds s) (wfds s) = (rv, ready, w)"
  shows "\<exists>evs s'. ss_poll os s = Some (evs, s') \<and> ss_inv live B s' \<and> owns s' = owns s \<and> distinct evs \<and>
    set evs = (if rv \<le> 0 then {} else {p. is_ready ready s p})"
proof -
  define s0 where "s0 = s\<lparr>sys := w\<rparr>"
  have lv: "live w = live (sys s)" using os_lawsD(11) [OF assms(1) assms(3)] by simp
  have 0: "ss_inv live B s0" unfolding s0_def by (rule ss_inv_world [OF assms(2) lv])
  have o0: "owns s0 = owns s" by (rule owns_eqI) (simp_all add: s0_def)
  show ?thesis
  proof (cases "rv \<le> 0")
    case True
    then show ?thesis using 0 o0 assms(3) by (simp add: ss_poll_def s0_def)
  next
    case False
    define s1 where "s1 = (if sock_fd s0 \<in> ready
      then s0\<lparr>io_proc := (io_proc s0)\<lparr>ev_mask := ev_mask (io_proc s0) OR AE_READABLE\<rparr>\<rparr> else s0)"
    have o1: "owns s1 = owns s" unfolding o0 [symmetric] by (rule owns_eqI) (simp_all add: s1_def)
    have 1: "ss_inv live B s1" using 0
      by (rule ss_invE, intro ss_invI) (auto simp: s1_def o0 o1 [unfolded s1_def] lists_ok_def ctxs_ok_def)
    obtain cs rs where l: "lists_ok cs rs s1" using 1 by (rule ss_invE)
    note l' = l [unfolded lists_ok_def]
    obtain s2 where 2: "conn_events ready (map Conn_node cs) s1 =
        Some (map SS_CONN_CTX (filter (\<lambda>a. is_ready ready s1 (SS_CONN_CTX a)) cs), s2)"
      "ss_inv live B s2" "io_same s1 s2" "rings s2 = rings s1"
      using conn_events_ok [OF 1, of cs ready] l' by auto
    obtain s3 where 3: "remote_events ready (map Remote_node rs) s2 =
        Some (map SS_REMOTE_CTX (filter (\<lambda>a. is_ready ready s2 (SS_REMOTE_CTX a)) rs), s3)"
      "ss_inv live B s3" "owns s3 = owns s2"
      using remote_events_ok [OF 2(2), of rs ready] l' io_sameD(2) [OF 2(3)] by auto
    have o2: "owns s2 = owns s" using io_same_owns [OF 2(3)] o1 by simp
    have rd: "is_ready ready s1 = is_ready ready s" "is_ready ready s2 = is_ready ready s"
      unfolding is_ready_def o1 o2 by simp_all
    let ?evs = "ready_events ready s cs rs"
    have w1: "list_for_each Conn_head (rings s1) = Some (map Conn_node cs)"
      "list_for_each Remote_head (rings s2) = Some (map Remote_node rs)"
      unfolding 2(4) using l' by (intro kl.walk; simp)+
    note ev = ready_events_ok [OF l o1, of ready]
    have len: "length ?evs \<le> 1024"
      by (rule events_bounded [OF assms(2) ev(1)]) (use ev(2) is_ready_alive in auto)
    have sf: "sock_fd s0 = sock_fd s" by (simp add: s0_def)
    have "ss_poll os s = Some (?evs, s3)"
      unfolding ss_poll_def assms(3) prod.case Let_def s0_def [symmetric] s1_def [symmetric]
      using False 2(1) 3(1) w1 len by (simp add: rd ready_events_def sf del: bind_Some_iff)
    with 3(2,3) o2 ev False show ?thesis by auto
  qed
qed

section \<open>Dispatching\<close>

text \<open>
  The contract of a program's handlers. \<open>cfg\<close> says that its options are acceptable. Whatever the system calls return, a handler
  ends, keeps the invariant and frees at most the context it is called for.
\<close>

locale ss_program =
  fixes cfg :: bool
    and handler :: "'w os \<Rightarrow> 'w handler"
  assumes accept_ok: "cfg \<Longrightarrow> os_laws os live \<Longrightarrow> ss_inv live B s \<Longrightarrow>
      \<exists>s'. handler os Accept_handle SS_SERVER_CTX (sock_fd s) s = Some s' \<and> ss_inv live B s' \<and> keeps {} {} s s'"
    and io_ok: "cfg \<Longrightarrow> os_laws os live \<Longrightarrow> ss_inv live B s \<Longrightarrow> conns s c = Some d \<Longrightarrow>
      \<exists>s'. handler os Io_handle (SS_CONN_CTX c) (conn_fd d) s = Some s' \<and> ss_inv live B s' \<and> keeps {c} {} s s'"
    and remote_io_ok: "cfg \<Longrightarrow> os_laws os live \<Longrightarrow> ss_inv live B s \<Longrightarrow> remotes s r = Some rd \<Longrightarrow>
      \<exists>s'. handler os Remote_io_handle (SS_REMOTE_CTX r) (remote_fd rd) s = Some s' \<and> ss_inv live B s' \<and> keeps {} {r} s s'"
begin

lemma dispatch_ok:
  assumes "cfg" "os_laws os live" "ss_inv live B s" "alive s p"
  shows "\<exists>s'. ss_dispatch (handler os) p s = Some s' \<and> ss_inv live B s' \<and> (\<forall>q. q \<noteq> p \<longrightarrow> alive s q \<longrightarrow> alive s' q)"
proof (cases p)
  case SS_SERVER_CTX
  have "rfileproc (io_proc s) = No_proc \<or> rfileproc (io_proc s) = Accept_handle"
    using assms(3) by (auto simp: ss_inv_def ss_inv_at_def ctxs_ok_def)
  moreover obtain s' where "handler os Accept_handle SS_SERVER_CTX (sock_fd s) s = Some s'" "ss_inv live B s'" "keeps {} {} s s'"
    using accept_ok [OF assms(1-3)] by blast
  moreover from this(3) have "alive s q \<Longrightarrow> alive s' q" for q by (cases q) (auto simp: keeps_def)
  ultimately show ?thesis using SS_SERVER_CTX assms(3) by (auto simp: ss_dispatch_def)
next
  case (SS_CONN_CTX c)
  then obtain d where d: "conns s c = Some d" using assms(4) by auto
  have "rfileproc (conn_proc d) = No_proc \<or> rfileproc (conn_proc d) = Io_handle"
    using ss_inv_conn [OF assms(3) d] by (auto simp: conn_ok_def)
  moreover obtain s' where "handler os Io_handle (SS_CONN_CTX c) (conn_fd d) s = Some s'" "ss_inv live B s'" "keeps {c} {} s s'"
    using io_ok [OF assms(1-3) d] by blast
  moreover from this(3) have "q \<noteq> p \<Longrightarrow> alive s q \<Longrightarrow> alive s' q" for q using SS_CONN_CTX by (cases q) (auto simp: keeps_def)
  ultimately show ?thesis using SS_CONN_CTX d assms(3) by (auto simp: ss_dispatch_def)
next
  case (SS_REMOTE_CTX r)
  then obtain rd where rd: "remotes s r = Some rd" using assms(4) by auto
  have "rfileproc (remote_proc rd) = No_proc \<or> rfileproc (remote_proc rd) = Remote_io_handle"
    using ss_inv_remote [OF assms(3) rd] by (auto simp: remote_ok_def)
  moreover obtain s' where "handler os Remote_io_handle (SS_REMOTE_CTX r) (remote_fd rd) s = Some s'" "ss_inv live B s'" "keeps {} {r} s s'"
    using remote_io_ok [OF assms(1-3) rd] by blast
  moreover from this(3) have "q \<noteq> p \<Longrightarrow> alive s q \<Longrightarrow> alive s' q" for q using SS_REMOTE_CTX by (cases q) (auto simp: keeps_def)
  ultimately show ?thesis using SS_REMOTE_CTX rd assms(3) by (auto simp: ss_dispatch_def)
qed

lemma dispatch_all_ok:
  assumes "cfg" "os_laws os live"
  shows "ss_inv live B s \<Longrightarrow> distinct ps \<Longrightarrow> \<forall>p \<in> set ps. alive s p \<Longrightarrow>
    \<exists>s'. dispatch_all (handler os) ps s = Some s' \<and> ss_inv live B s'"
proof (induction ps arbitrary: s)
  case (Cons p ps)
  from Cons.prems have a: "alive s p" by simp
  obtain s1 where 1: "ss_dispatch (handler os) p s = Some s1" "ss_inv live B s1" "\<forall>q. q \<noteq> p \<longrightarrow> alive s q \<longrightarrow> alive s1 q"
    using dispatch_ok [OF assms Cons.prems(1) a] by blast
  have "\<forall>q \<in> set ps. alive s1 q" using 1(3) Cons.prems(2,3) by auto
  from Cons.IH [OF 1(2) _ this] Cons.prems(2) 1(1) show ?case by auto
qed simp

lemma round_ok:
  assumes "cfg" "os_laws os live" "ss_inv live B s"
  shows "\<exists>evs s1 s'. ss_poll os s = Some (evs, s1) \<and> dispatch_all (handler os) evs s1 = Some s' \<and> ss_inv live B s'"
proof -
  obtain rv ready w where sel: "os_select os (sys s) (max_fd s + 1) (rfds s) (wfds s) = (rv, ready, w)"
    by (cases "os_select os (sys s) (max_fd s + 1) (rfds s) (wfds s)")
  obtain evs s1 where 1: "ss_poll os s = Some (evs, s1)" "ss_inv live B s1" "owns s1 = owns s" "distinct evs"
      "set evs = (if rv \<le> 0 then {} else {p. is_ready ready s p})"
    using ss_poll_ok [OF assms(2,3) sel] by blast
  have "\<forall>p \<in> set evs. alive s1 p"
    using 1(3,5) is_ready_alive [of ready s] unfolding alive_owns by (auto split: if_splits)
  then show ?thesis using dispatch_all_ok [OF assms(1,2) 1(2,4)] 1(1) by blast
qed

lemma loop_ok:
  assumes "cfg" "os_laws os live"
  shows "ss_inv live B s \<Longrightarrow> \<exists>s'. ss_loop os (handler os) n s = Some s' \<and> ss_inv live B s'"
proof (induction n arbitrary: s)
  case (Suc n)
  obtain evs s1 s2 where "ss_poll os s = Some (evs, s1)" "dispatch_all (handler os) evs s1 = Some s2" "ss_inv live B s2"
    using round_ok [OF assms Suc.prems] by blast
  then show ?case using Suc.IH [of s2] by auto
qed simp

end

end
