(* ===== verification/Socks_Apps.thy ===== *)
theory Socks_Apps
  imports Socks_Loop
begin

text \<open>
  The two programs of the proxy pair: the handlers and the start-up of \<open>socks5_c-master/server.c\<close> (prefix \<open>srv\<close>) and \<open>local.c\<close>
  (prefix \<open>loc\<close>), and the properties of the whole programs.

  \<open>stack_bytes\<close> and \<open>stack_info\<close> give the contents of the uninitialised local variables \<open>requests\<close> and \<open>remote_info\<close>, which
  the code partly reads.
\<close>

section \<open>Handlers of the server\<close>

definition remote_event :: io_event where
  "remote_event = \<lparr>ev_mask = AE_READABLE, rfileproc = Remote_io_handle, wfileproc = No_proc\<rparr>"

text \<open>The end of each relay step: a failed \<open>send\<close> that is not \<open>EAGAIN\<close> deletes the context, a short one is ignored.\<close>

definition after_send :: "('w ss_server_ctx \<Rightarrow> 'w ss_server_ctx option) \<Rightarrow> nat \<Rightarrow> int \<times> bool \<times> 'w ss_server_ctx \<Rightarrow> 'w ss_server_ctx option" where
  "after_send del readed x =
    (case x of (ret, again, s) \<Rightarrow> if ret \<noteq> int readed \<and> ret = -1 \<and> \<not> again then del s else Some s)"

definition srv_remote_io_handle :: "'w os \<Rightarrow> nat \<Rightarrow> int \<Rightarrow> 'w ss_server_ctx \<Rightarrow> 'w ss_server_ctx option" where
  "srv_remote_io_handle os r fd s = do {
     rd \<leftarrow> remotes s r;
     (case conn_entry rd of
        None \<Rightarrow> ss_del_remote os r s
      | Some c \<Rightarrow>
          (case plain_recv os fd (length (buf_bytes s)) s of
             (None, s1) \<Rightarrow> ss_del_remote os r s1
           | (Some bs, s1) \<Rightarrow>
               if bs = [] then ss_del_remote os r s1
               else do {
                 let s2 = fill_buf bs s1;
                 d \<leftarrow> conns s2 c;
                 x \<leftarrow> ss_send os c (conn_fd d) (take (length bs) (buf_bytes s2)) s2;
                 after_send (ss_del_remote os r) (length bs) x })) }"

definition srv_client_to_remote :: "'w os \<Rightarrow> nat \<Rightarrow> 'w ss_server_ctx \<Rightarrow> 'w ss_server_ctx option" where
  "srv_client_to_remote os c s = do {
     d \<leftarrow> conns s c;
     (case remote d of
        None \<Rightarrow> ss_server_del_conn os c s
      | Some _ \<Rightarrow> do {
          (ret, s1) \<leftarrow> ss_recv os c (conn_fd d) (length (buf_bytes s)) s;
          (case ret of
             None \<Rightarrow> ss_server_del_conn os c s1
           | Some bs \<Rightarrow>
               if bs = [] then ss_server_del_conn os c s1
               else do {
                 let s2 = fill_buf bs s1;
                 d2 \<leftarrow> conns s2 c;
                 r \<leftarrow> remote d2;
                 rd \<leftarrow> remotes s2 r;
                 after_send (ss_server_del_conn os c) (length bs)
                   (plain_send os (remote_fd rd) (take (length bs) (buf_bytes s2)) s2) }) }) }"

definition srv_io_handle ::
    "('w \<Rightarrow> nat \<Rightarrow> u8) \<Rightarrow> ('w \<Rightarrow> conn_info) \<Rightarrow> 'w os \<Rightarrow> nat \<Rightarrow> 'w ss_server_ctx \<Rightarrow> 'w ss_server_ctx option" where
  "srv_io_handle stack_bytes stack_info os c s = do {
     d \<leftarrow> conns s c;
     (case ss_conn_state d of
        OPENING \<Rightarrow> do {
          (ret, s1) \<leftarrow> ss_request_handle os c (map (stack_bytes (sys s)) [0..<258]) (stack_info (sys s)) s;
          (case ret of
             None \<Rightarrow> ss_server_del_conn os c s1
           | Some remote_info \<Rightarrow> do {
               (nr, s2) \<leftarrow> ss_conn_add_remote os c AE_READABLE remote_info remote_event s1;
               (case nr of
                  None \<Rightarrow> ss_server_del_conn os c s2
                | Some _ \<Rightarrow> set_state c CONNECTING s2) }) }
      | CONNECTING \<Rightarrow> srv_client_to_remote os c s
      | CONNECTED \<Rightarrow> ss_server_del_conn os c s) }"

text \<open>\<open>ss_accept_handle\<close>, the same in both programs. The new descriptor is lost when \<open>ss_server_add_conn\<close> fails.\<close>

definition ss_accept_handle :: "'w os \<Rightarrow> int \<Rightarrow> 'w ss_server_ctx \<Rightarrow> 'w ss_server_ctx option" where
  "ss_accept_handle os fd s =
    (case ss_accept os fd s of (cfd, info, s1) \<Rightarrow>
       if cfd < 0 then Some s1
       else do {
         (nc, s2) \<leftarrow> ss_server_add_conn os cfd AE_READABLE info s1;
         (case nc of
            None \<Rightarrow> Some s2
          | Some c \<Rightarrow> ss_conn_set_handle c AE_READABLE Io_handle No_proc s2) })"

definition srv_handler :: "('w \<Rightarrow> nat \<Rightarrow> u8) \<Rightarrow> ('w \<Rightarrow> conn_info) \<Rightarrow> 'w os \<Rightarrow> 'w handler" where
  "srv_handler stack_bytes stack_info os pr ptr fd s =
    (case (pr, ptr) of
       (Accept_handle, SS_SERVER_CTX) \<Rightarrow> ss_accept_handle os fd s
     | (Io_handle, SS_CONN_CTX c) \<Rightarrow> srv_io_handle stack_bytes stack_info os c s
     | (Remote_io_handle, SS_REMOTE_CTX r) \<Rightarrow> srv_remote_io_handle os r fd s
     | _ \<Rightarrow> None)"

section \<open>Handlers of the local program\<close>

definition loc_remote_io_handle :: "'w os \<Rightarrow> nat \<Rightarrow> int \<Rightarrow> 'w ss_server_ctx \<Rightarrow> 'w ss_server_ctx option" where
  "loc_remote_io_handle os r fd s = do {
     rd \<leftarrow> remotes s r;
     (case conn_entry rd of
        None \<Rightarrow> ss_del_remote os r s
      | Some c \<Rightarrow> do {
          (ret, s1) \<leftarrow> ss_recv os c fd (length (buf_bytes s)) s;
          (case ret of
             None \<Rightarrow> ss_del_remote os r s1
           | Some bs \<Rightarrow>
               if bs = [] then ss_del_remote os r s1
               else do {
                 let s2 = fill_buf bs s1;
                 d \<leftarrow> conns s2 c;
                 after_send (ss_del_remote os r) (length bs)
                   (plain_send os (conn_fd d) (take (length bs) (buf_bytes s2)) s2) }) }) }"

definition loc_client_to_remote :: "'w os \<Rightarrow> nat \<Rightarrow> 'w ss_server_ctx \<Rightarrow> 'w ss_server_ctx option" where
  "loc_client_to_remote os c s = do {
     d \<leftarrow> conns s c;
     (case remote d of
        None \<Rightarrow> ss_server_del_conn os c s
      | Some r \<Rightarrow>
          (case plain_recv os (conn_fd d) (length (buf_bytes s)) s of
             (None, s1) \<Rightarrow> ss_server_del_conn os c s1
           | (Some bs, s1) \<Rightarrow>
               if bs = [] then ss_server_del_conn os c s1
               else do {
                 let s2 = fill_buf bs s1;
                 rd \<leftarrow> remotes s2 r;
                 x \<leftarrow> ss_send os c (remote_fd rd) (take (length bs) (buf_bytes s2)) s2;
                 after_send (ss_server_del_conn os c) (length bs) x })) }"

text \<open>\<open>remote_info\<close> is filled with \<open>strncpy\<close>: an address of 128 bytes or more is left without terminator.\<close>

definition loc_remote_info :: "u8 list \<Rightarrow> u16 \<Rightarrow> conn_info option" where
  "loc_remote_info remote_ip remote_port =
    (if length remote_ip < 128 then Some \<lparr>ip = remote_ip, info_port = remote_port\<rparr> else None)"

definition loc_io_handle :: "u8 list \<Rightarrow> u16 \<Rightarrow> 'w os \<Rightarrow> nat \<Rightarrow> 'w ss_server_ctx \<Rightarrow> 'w ss_server_ctx option" where
  "loc_io_handle remote_ip remote_port os c s = do {
     d \<leftarrow> conns s c;
     (case ss_conn_state d of
        OPENING \<Rightarrow> do {
          (ret, s1) \<leftarrow> ss_handshake_handle os c s;
          if ret < 0 then Some s1
          else do {
            info \<leftarrow> loc_remote_info remote_ip remote_port;
            (nr, s2) \<leftarrow> ss_conn_add_remote os c AE_READABLE info remote_event s1;
            (case nr of
               None \<Rightarrow> ss_server_del_conn os c s2
             | Some _ \<Rightarrow> set_state c CONNECTING s2) } }
      | CONNECTING \<Rightarrow> loc_client_to_remote os c s
      | CONNECTED \<Rightarrow> loc_client_to_remote os c s) }"

definition loc_handler :: "u8 list \<Rightarrow> u16 \<Rightarrow> 'w os \<Rightarrow> 'w handler" where
  "loc_handler remote_ip remote_port os pr ptr fd s =
    (case (pr, ptr) of
       (Accept_handle, SS_SERVER_CTX) \<Rightarrow> ss_accept_handle os fd s
     | (Io_handle, SS_CONN_CTX c) \<Rightarrow> loc_io_handle remote_ip remote_port os c s
     | (Remote_io_handle, SS_REMOTE_CTX r) \<Rightarrow> loc_remote_io_handle os r fd s
     | _ \<Rightarrow> None)"

section \<open>The handlers meet the contract\<close>

definition step_ok :: "('w \<Rightarrow> int set) \<Rightarrow> int set \<Rightarrow> nat set \<Rightarrow> nat set \<Rightarrow> 'w ss_server_ctx \<Rightarrow> 'w ss_server_ctx option \<Rightarrow> bool" where
  "step_ok live B C R s x \<longleftrightarrow> (\<exists>s'. x = Some s' \<and> ss_inv live B s' \<and> keeps C R s s')"

lemma step_stays: "ss_inv live B s1 \<Longrightarrow> io_same s s1 \<Longrightarrow> step_ok live B C R s (Some s1)"
  by (simp add: step_ok_def io_same_keeps)

lemma step_del_conn:
  assumes "os_laws os live" "ss_inv live B s1" "keeps {} {} s s1" "conns s c = Some d"
  shows "step_ok live B {c} {} s (ss_server_del_conn os c s1)"
proof -
  obtain d1 where "conns s1 c = Some d1" using assms(3,4) by (auto simp: keeps_def)
  from ss_server_del_conn_ok [OF assms(1,2) this] keeps_after [OF assms(3)] show ?thesis
    unfolding step_ok_def by blast
qed

lemma step_del_remote:
  assumes "os_laws os live" "ss_inv live B s1" "keeps {} {} s s1" "remotes s r = Some rd"
  shows "step_ok live B {} {r} s (ss_del_remote os r s1)"
proof -
  obtain d1 where "remotes s1 r = Some d1" using assms(3,4) by (auto simp: keeps_def)
  from ss_del_remote_ok [OF assms(1,2) this] keeps_after [OF assms(3)] show ?thesis
    unfolding step_ok_def by blast
qed

lemma step_after_send:
  assumes "ss_inv live B s1" "io_same s s1" "step_ok live B C R s (del s1)"
  shows "step_ok live B C R s (after_send del n (ret, again, s1))"
  using assms step_stays [OF assms(1,2)] by (simp add: after_send_def)

text \<open>Bytes received into the shared buffer, and the prefix of the buffer that is sent on.\<close>

lemma fill_buf_recv:
  assumes "ss_inv live B s1" "io_same s s1" "length bs \<le> 4096"
  shows "ss_inv live B (fill_buf bs s1)" "io_same s (fill_buf bs s1)" "take (length bs) (buf_bytes (fill_buf bs s1)) = bs"
  using fill_buf_ok [OF assms(1,3)] io_same_trans [OF assms(2)] by (auto simp: fill_buf_def)

lemma srv_remote_io_ok:
  assumes "os_laws os live" "ss_inv live B s" "remotes s r = Some rd"
  shows "step_ok live B {} {r} s (srv_remote_io_handle os r fd s)"
proof (cases "conn_entry rd")
  case None
  then show ?thesis using step_del_remote [OF assms(1,2) keeps_refl assms(3)] assms(3) by (simp add: srv_remote_io_handle_def)
next
  case (Some c)
  then obtain d where d: "conns s c = Some d" using links_okD(2) [OF ss_inv_links [OF assms(2)] assms(3)] by blast
  obtain ret s1 where 1: "plain_recv os fd (length (buf_bytes s)) s = (ret, s1)" by (cases "plain_recv os fd (length (buf_bytes s)) s")
  note r1 = plain_recv_ok [OF assms(1,2) 1]
  show ?thesis
  proof (cases "ret = None \<or> ret = Some []")
    case True
    then show ?thesis
      using step_del_remote [OF assms(1) r1(1) io_same_keeps [OF r1(2)] assms(3)] assms(3) Some 1 by (auto simp: srv_remote_io_handle_def)
  next
    case False
    then obtain bs where bs: "ret = Some bs" "bs \<noteq> []" by auto
    have len: "length bs \<le> 4096" using r1(3) [OF bs(1)] ss_inv_buf [OF assms(2)] by simp
    note f = fill_buf_recv [OF r1(1,2) len]
    obtain d2 where d2: "conns (fill_buf bs s1) c = Some d2" using io_sameD(1) [OF f(2) d] by blast
    obtain m again s3 where 3: "ss_send os c (conn_fd d2) bs (fill_buf bs s1) = Some (m, again, s3)" "ss_inv live B s3" "io_same s s3"
      using ss_send_ok [OF assms(1) f(1) d2 len, of "conn_fd d2"] io_same_trans [OF f(2)] by blast
    have "srv_remote_io_handle os r fd s = after_send (ss_del_remote os r) (length bs) (m, again, s3)"
      using assms(3) Some 1 bs d2 3(1) f(3) by (simp add: srv_remote_io_handle_def Let_def)
    then show ?thesis
      by (simp only:) (rule step_after_send [OF 3(2,3)], rule step_del_remote [OF assms(1) 3(2) io_same_keeps [OF 3(3)] assms(3)])
  qed
qed

lemma srv_client_to_remote_ok:
  assumes "os_laws os live" "ss_inv live B s" "conns s c = Some d"
  shows "step_ok live B {c} {} s (srv_client_to_remote os c s)"
proof (cases "remote d")
  case None
  then show ?thesis using step_del_conn [OF assms(1,2) keeps_refl assms(3)] assms(3) by (simp add: srv_client_to_remote_def)
next
  case (Some r)
  let ?n = "length (buf_bytes s)"
  obtain ret s1 where r1: "ss_recv os c (conn_fd d) ?n s = Some (ret, s1)" "ss_inv live B s1" "io_same s s1"
      "\<And>bs. ret = Some bs \<Longrightarrow> length bs \<le> ?n"
    using ss_recv_ok [OF assms, of "conn_fd d" ?n] by blast
  show ?thesis
  proof (cases "ret = None \<or> ret = Some []")
    case True
    then show ?thesis
      using step_del_conn [OF assms(1) r1(2) io_same_keeps [OF r1(3)] assms(3)] assms(3) Some r1(1) by (auto simp: srv_client_to_remote_def)
  next
    case False
    then obtain bs where bs: "ret = Some bs" "bs \<noteq> []" by auto
    have len: "length bs \<le> 4096" using r1(4) [OF bs(1)] ss_inv_buf [OF assms(2)] by simp
    note f = fill_buf_recv [OF r1(2,3) len]
    obtain d2 where d2: "conns (fill_buf bs s1) c = Some d2" "remote d2 = Some r" using io_sameD(1) [OF f(2) assms(3)] Some by auto
    obtain rd where rd: "remotes (fill_buf bs s1) r = Some rd" using links_okD(1) [OF ss_inv_links [OF f(1)] d2] by blast
    obtain m again s3 where 3: "plain_send os (remote_fd rd) bs (fill_buf bs s1) = (m, again, s3)"
      by (cases "plain_send os (remote_fd rd) bs (fill_buf bs s1)")
    have i3: "ss_inv live B s3" "io_same s s3" using plain_send_ok [OF assms(1) f(1) 3] io_same_trans [OF f(2)] by auto
    have "srv_client_to_remote os c s = after_send (ss_server_del_conn os c) (length bs) (m, again, s3)"
      using assms(3) Some r1(1) bs d2 rd 3(1) f(3) by (simp add: srv_client_to_remote_def Let_def)
    then show ?thesis
      by (simp only:) (rule step_after_send [OF i3], rule step_del_conn [OF assms(1) i3(1) io_same_keeps [OF i3(2)] assms(3)])
  qed
qed

text \<open>The end of the opening phase, common to both programs.\<close>

lemma step_connect:
  assumes "os_laws os live" "ss_inv live B s1" "io_same s s1" "conns s c = Some d" "remote d = None"
  shows "step_ok live B {c} {} s (do {
    (nr, s2) \<leftarrow> ss_conn_add_remote os c AE_READABLE info remote_event s1;
    (case nr of None \<Rightarrow> ss_server_del_conn os c s2 | Some _ \<Rightarrow> set_state c CONNECTING s2) })"
proof -
  obtain d1 where d1: "conns s1 c = Some d1" "remote d1 = None" using io_sameD(1) [OF assms(3,4)] assms(5) by auto
  obtain nr s2 where 2: "ss_conn_add_remote os c AE_READABLE info remote_event s1 = Some (nr, s2)" "keeps {} {} s1 s2"
      "case nr of None \<Rightarrow> ss_inv live B s2 | Some _ \<Rightarrow> \<exists>s3. set_state c CONNECTING s2 = Some s3 \<and> ss_inv live B s3 \<and> keeps {} {} s1 s3"
    using add_remote_ok [OF assms(1,2) d1, of remote_event info] by (auto simp: remote_event_def)
  have k: "keeps {} {} s s2" using keeps_trans [OF io_same_keeps [OF assms(3)] 2(2)] .
  show ?thesis
  proof (cases nr)
    case None
    with 2 step_del_conn [OF assms(1) _ k assms(4)] show ?thesis by simp
  next
    case (Some r)
    with 2 obtain s3 where 3: "set_state c CONNECTING s2 = Some s3" "ss_inv live B s3" "keeps {} {} s1 s3" by auto
    have "keeps {} {} s s3" using keeps_trans [OF io_same_keeps [OF assms(3)] 3(3)] .
    then have "keeps {c} {} s s3" unfolding keeps_def by blast
    with 2(1) 3 Some show ?thesis by (simp add: step_ok_def)
  qed
qed

lemma srv_io_ok:
  assumes "os_laws os live" "ss_inv live B s" "conns s c = Some d"
  shows "step_ok live B {c} {} s (srv_io_handle sb si os c s)"
proof (cases "ss_conn_state d")
  case OPENING
  obtain ret s1 where 1: "ss_request_handle os c (map (sb (sys s)) [0..<258]) (si (sys s)) s = Some (ret, s1)"
      "ss_inv live B s1" "io_same s s1"
    using ss_request_handle_ok [OF assms, of "map (sb (sys s)) [0..<258]" "si (sys s)"] by auto
  have n: "remote d = None" using ss_inv_conn [OF assms(2,3)] OPENING by (simp add: conn_ok_def)
  show ?thesis
  proof (cases ret)
    case None
    then show ?thesis using step_del_conn [OF assms(1) 1(2) io_same_keeps [OF 1(3)] assms(3)] OPENING assms(3) 1(1)
      by (simp add: srv_io_handle_def)
  next
    case (Some info)
    then show ?thesis using step_connect [OF assms(1) 1(2,3) assms(3) n, of info] OPENING assms(3) 1(1)
      by (simp add: srv_io_handle_def)
  qed
next
  case CONNECTING
  then show ?thesis using srv_client_to_remote_ok [OF assms] assms(3) by (simp add: srv_io_handle_def)
next
  case CONNECTED
  then show ?thesis using step_del_conn [OF assms(1,2) keeps_refl assms(3)] assms(3) by (simp add: srv_io_handle_def)
qed

lemma ss_accept_handle_ok:
  assumes "os_laws os live" "ss_inv live B s"
  shows "step_ok live B {} {} s (ss_accept_handle os fd s)"
proof -
  obtain cfd info w where a: "os_accept os (sys s) fd = (cfd, info, w)" by (cases "os_accept os (sys s) fd")
  have n: "new_fd live (sys s) cfd w" by (rule os_lawsD(4) [OF assms(1) a])
  show ?thesis
  proof (cases "cfd < 0")
    case True
    then have "ss_inv live B (s\<lparr>sys := w\<rparr>)" using n ss_inv_world [OF assms(2)] by (simp add: new_fd_def)
    then show ?thesis using True a by (simp add: ss_accept_handle_def ss_accept_def step_ok_def keeps_def)
  next
    case False
    let ?s1 = "s\<lparr>sys := w, log := log s @ [Opened cfd]\<rparr>"
    have 1: "ss_inv live (insert cfd B) ?s1" "cfd \<notin> B" "cfd < FD_SETSIZE" "0 \<le> cfd" using ss_inv_open [OF assms(2) n] False by auto
    obtain c d s2 where 2: "ss_server_add_conn os cfd AE_READABLE info ?s1 = Some (Some c, s2)" "ss_inv live B s2"
        "keeps {} {} ?s1 s2" "conns s2 c = Some d"
      using ss_server_add_conn_ok [OF assms(1) 1(1,2,4,3)] by blast
    define s3 where "s3 = s2\<lparr>conns := (conns s2)(c \<mapsto> d\<lparr>conn_proc := \<lparr>ev_mask = AE_READABLE, rfileproc = Io_handle, wfileproc = No_proc\<rparr>\<rparr>)\<rparr>"
    have "ss_inv live B s3" unfolding s3_def
      by (rule ss_inv_conn_upd [OF 2(2,4)]) (use ss_inv_conn [OF 2(2,4)] in \<open>simp_all add: conn_ok_def\<close>)
    moreover have "ss_accept_handle os fd s = Some s3"
      using a False 2(1,4) by (simp add: ss_accept_handle_def ss_accept_def ss_conn_set_handle_def s3_def)
    moreover have "keeps {} {} s s3" using 2(3,4) by (auto simp: keeps_def s3_def)
    ultimately show ?thesis by (simp add: step_ok_def)
  qed
qed

interpretation srv: ss_program True "srv_handler sb si" for sb si
  by unfold_locales
    (use ss_accept_handle_ok srv_io_ok srv_remote_io_ok in \<open>fastforce simp: srv_handler_def step_ok_def\<close>)+

lemma loc_remote_io_ok:
  assumes "os_laws os live" "ss_inv live B s" "remotes s r = Some rd"
  shows "step_ok live B {} {r} s (loc_remote_io_handle os r fd s)"
proof (cases "conn_entry rd")
  case None
  then show ?thesis using step_del_remote [OF assms(1,2) keeps_refl assms(3)] assms(3) by (simp add: loc_remote_io_handle_def)
next
  case (Some c)
  then obtain d where d: "conns s c = Some d" using links_okD(2) [OF ss_inv_links [OF assms(2)] assms(3)] by blast
  let ?n = "length (buf_bytes s)"
  obtain ret s1 where r1: "ss_recv os c fd ?n s = Some (ret, s1)" "ss_inv live B s1" "io_same s s1"
      "\<And>bs. ret = Some bs \<Longrightarrow> length bs \<le> ?n"
    using ss_recv_ok [OF assms(1,2) d, of fd ?n] by blast
  show ?thesis
  proof (cases "ret = None \<or> ret = Some []")
    case True
    then show ?thesis
      using step_del_remote [OF assms(1) r1(2) io_same_keeps [OF r1(3)] assms(3)] assms(3) Some r1(1) by (auto simp: loc_remote_io_handle_def)
  next
    case False
    then obtain bs where bs: "ret = Some bs" "bs \<noteq> []" by auto
    have len: "length bs \<le> 4096" using r1(4) [OF bs(1)] ss_inv_buf [OF assms(2)] by simp
    note f = fill_buf_recv [OF r1(2,3) len]
    obtain d2 where d2: "conns (fill_buf bs s1) c = Some d2" using io_sameD(1) [OF f(2) d] by blast
    obtain m again s3 where 3: "plain_send os (conn_fd d2) bs (fill_buf bs s1) = (m, again, s3)"
      by (cases "plain_send os (conn_fd d2) bs (fill_buf bs s1)")
    have i3: "ss_inv live B s3" "io_same s s3" using plain_send_ok [OF assms(1) f(1) 3] io_same_trans [OF f(2)] by auto
    have "loc_remote_io_handle os r fd s = after_send (ss_del_remote os r) (length bs) (m, again, s3)"
      using assms(3) Some r1(1) bs d2 3(1) f(3) by (simp add: loc_remote_io_handle_def Let_def)
    then show ?thesis
      by (simp only:) (rule step_after_send [OF i3], rule step_del_remote [OF assms(1) i3(1) io_same_keeps [OF i3(2)] assms(3)])
  qed
qed

lemma loc_client_to_remote_ok:
  assumes "os_laws os live" "ss_inv live B s" "conns s c = Some d"
  shows "step_ok live B {c} {} s (loc_client_to_remote os c s)"
proof (cases "remote d")
  case None
  then show ?thesis using step_del_conn [OF assms(1,2) keeps_refl assms(3)] assms(3) by (simp add: loc_client_to_remote_def)
next
  case (Some r)
  obtain ret s1 where 1: "plain_recv os (conn_fd d) (length (buf_bytes s)) s = (ret, s1)"
    by (cases "plain_recv os (conn_fd d) (length (buf_bytes s)) s")
  note r1 = plain_recv_ok [OF assms(1,2) 1]
  show ?thesis
  proof (cases "ret = None \<or> ret = Some []")
    case True
    then show ?thesis
      using step_del_conn [OF assms(1) r1(1) io_same_keeps [OF r1(2)] assms(3)] assms(3) Some 1 by (auto simp: loc_client_to_remote_def)
  next
    case False
    then obtain bs where bs: "ret = Some bs" "bs \<noteq> []" by auto
    have len: "length bs \<le> 4096" using r1(3) [OF bs(1)] ss_inv_buf [OF assms(2)] by simp
    note f = fill_buf_recv [OF r1(1,2) len]
    obtain d2 where d2: "conns (fill_buf bs s1) c = Some d2" "remote d2 = Some r" using io_sameD(1) [OF f(2) assms(3)] Some by auto
    obtain rd where rd: "remotes (fill_buf bs s1) r = Some rd" using links_okD(1) [OF ss_inv_links [OF f(1)] d2] by blast
    obtain m again s3 where 3: "ss_send os c (remote_fd rd) bs (fill_buf bs s1) = Some (m, again, s3)" "ss_inv live B s3" "io_same s s3"
      using ss_send_ok [OF assms(1) f(1) d2(1) len, of "remote_fd rd"] io_same_trans [OF f(2)] by blast
    have "loc_client_to_remote os c s = after_send (ss_server_del_conn os c) (length bs) (m, again, s3)"
      using assms(3) Some 1 bs rd 3(1) f(3) by (simp add: loc_client_to_remote_def Let_def)
    then show ?thesis
      by (simp only:) (rule step_after_send [OF 3(2,3)], rule step_del_conn [OF assms(1) 3(2) io_same_keeps [OF 3(3)] assms(3)])
  qed
qed

lemma loc_io_ok:
  assumes "length rip < 128" "os_laws os live" "ss_inv live B s" "conns s c = Some d"
  shows "step_ok live B {c} {} s (loc_io_handle rip rport os c s)"
proof (cases "ss_conn_state d = OPENING")
  case False
  then show ?thesis using loc_client_to_remote_ok [OF assms(2-4)] assms(4)
    by (cases "ss_conn_state d") (simp_all add: loc_io_handle_def)
next
  case True
  have n: "remote d = None" using ss_inv_conn [OF assms(3,4)] True by (simp add: conn_ok_def)
  obtain rv s1 where 1: "ss_handshake_handle os c s = Some (rv, s1)" "ss_inv live B s1"
      "if rv = 0 then io_same s s1 else rv = -1 \<and> keeps {c} {} s s1 \<and> conns s1 c = None"
    using ss_handshake_handle_ok [OF assms(2-4)] by (auto simp: done_or_deleted_def)
  show ?thesis
  proof (cases "rv = 0")
    case True': True
    then show ?thesis
      using step_connect [OF assms(2) 1(2) _ assms(4) n, of "\<lparr>ip = rip, info_port = rport\<rparr>"] True assms(1,4) 1(1,3)
      by (simp add: loc_io_handle_def loc_remote_info_def)
  next
    case False
    then show ?thesis using True assms(4) 1 by (simp add: loc_io_handle_def step_ok_def)
  qed
qed

interpretation loc: ss_program "length rip < 128" "loc_handler rip rport" for rip rport
  by unfold_locales
    (use ss_accept_handle_ok loc_io_ok loc_remote_io_ok in \<open>fastforce simp: loc_handler_def step_ok_def\<close>)+

end
