(* ===== verification/Socks_Main.thy ===== *)
theory Socks_Main
  imports Socks_Apps
begin

text \<open>
  The start-up of the two proxy programs, \<open>main\<close> of \<open>socks5_c-master/server.c\<close> and \<open>local.c\<close>, and the theorems about whole
  runs. \<open>getopt\<close> is the list of its results, pairs of an option character and its argument; an option character outside the
  option string makes the programs print their usage and exit.
\<close>

section \<open>Options\<close>

definition isspace :: "u8 \<Rightarrow> bool" where
  "isspace b \<longleftrightarrow> b = 32 \<or> (9 \<le> b \<and> b \<le> 13)"

fun digits_value :: "int \<Rightarrow> u8 list \<Rightarrow> int" where
  "digits_value v [] = v"
| "digits_value v (b # bs) = (if 48 \<le> b \<and> b \<le> 57 then digits_value (10 * v + (uint b - 48)) bs else v)"

text \<open>\<open>atoi\<close>; \<open>None\<close> when the value is no \<open>int\<close>.\<close>

definition atoi :: "u8 list \<Rightarrow> int option" where
  "atoi str =
    (let v = (case dropWhile isspace str of
                [] \<Rightarrow> 0
              | b # bs \<Rightarrow> if b = 45 then - digits_value 0 bs else if b = 43 then digits_value 0 bs else digits_value 0 (b # bs))
     in if - (2 ^ 31) \<le> v \<and> v < 2 ^ 31 then Some v else None)"

definition port_option :: "u8 list \<Rightarrow> u16 option" where
  "port_option str = map_option word_of_int (atoi str)"

record options =
  remote_ip :: "u8 list"
  remote_port :: u16
  listen_port :: u16
  encry_method :: ss_encrypt_method
  key_arg :: "u8 list option"

definition method_option :: "u8 list \<Rightarrow> ss_encrypt_method \<Rightarrow> ss_encrypt_method" where
  "method_option str m = (if str = bytes ''xor'' then XOR_METHOD else if str = bytes ''rc4'' then RC4_METHOD else m)"

text \<open>The options both programs have; the key is copied to a block whose allocation is not checked.\<close>

definition common_option :: "'w os \<Rightarrow> char \<Rightarrow> u8 list \<Rightarrow> options \<times> 'w \<Rightarrow> 'w start + (options \<times> 'w)" where
  "common_option os c str x =
    (case x of (opts, w) \<Rightarrow>
       if c = CHR ''m'' then Inr (opts\<lparr>encry_method := method_option str (encry_method opts)\<rparr>, w)
       else if c = CHR ''e'' then
         (case os_calloc os w of (ok, w') \<Rightarrow> if ok then Inr (opts\<lparr>key_arg := Some str\<rparr>, w') else Inl Crashed)
       else Inl Exited)"

definition srv_option :: "'w os \<Rightarrow> char \<Rightarrow> u8 list \<Rightarrow> options \<times> 'w \<Rightarrow> 'w start + (options \<times> 'w)" where
  "srv_option os c str x =
    (if c = CHR ''p'' then
       (case port_option str of None \<Rightarrow> Inl Crashed | Some prt \<Rightarrow> Inr ((fst x)\<lparr>listen_port := prt\<rparr>, snd x))
     else common_option os c str x)"

definition loc_option :: "'w os \<Rightarrow> char \<Rightarrow> u8 list \<Rightarrow> options \<times> 'w \<Rightarrow> 'w start + (options \<times> 'w)" where
  "loc_option os c str x =
    (if c = CHR ''l'' then Inr ((fst x)\<lparr>remote_ip := str\<rparr>, snd x)
     else if c = CHR ''p'' then
       (case port_option str of None \<Rightarrow> Inl Crashed | Some prt \<Rightarrow> Inr ((fst x)\<lparr>remote_port := prt\<rparr>, snd x))
     else if c = CHR ''s'' then
       (case port_option str of None \<Rightarrow> Inl Crashed | Some prt \<Rightarrow> Inr ((fst x)\<lparr>listen_port := prt\<rparr>, snd x))
     else common_option os c str x)"

fun parse_options :: "(char \<Rightarrow> u8 list \<Rightarrow> options \<times> 'w \<Rightarrow> 'w start + (options \<times> 'w)) \<Rightarrow> (char \<times> u8 list) list \<Rightarrow>
    options \<times> 'w \<Rightarrow> 'w start + (options \<times> 'w)" where
  "parse_options opt [] x = Inr x"
| "parse_options opt ((c, str) # args) x = (case opt c str x of Inl e \<Rightarrow> Inl e | Inr x' \<Rightarrow> parse_options opt args x')"

definition srv_defaults :: options where
  "srv_defaults = \<lparr>remote_ip = [], remote_port = 0, listen_port = 1984, encry_method = NO_ENCRYPT, key_arg = None\<rparr>"

definition loc_defaults :: options where
  "loc_defaults = \<lparr>remote_ip = bytes ''127.0.0.1'', remote_port = 1984, listen_port = 2080, encry_method = NO_ENCRYPT, key_arg = None\<rparr>"

section \<open>The programs\<close>

text \<open>The server created for the options, with the accept handler; then \<open>n\<close> rounds of its endless loop.\<close>

definition serve :: "'w os \<Rightarrow> (options \<Rightarrow> 'w os \<Rightarrow> 'w handler) \<Rightarrow> options \<times> 'w \<Rightarrow> nat \<Rightarrow> 'w start" where
  "serve os handler x n =
    (case x of (opts, w) \<Rightarrow>
      (case ss_create_server os (listen_port opts) (encry_method opts) (key_arg opts) w of
         Running s \<Rightarrow>
           (case ss_loop os (handler opts os) n (ss_server_set_handle AE_READABLE Accept_handle No_proc s) of
              None \<Rightarrow> Crashed
            | Some s' \<Rightarrow> Running s')
       | Not_created \<Rightarrow> Exited
       | r \<Rightarrow> r))"

definition srv_main :: "('w \<Rightarrow> nat \<Rightarrow> u8) \<Rightarrow> ('w \<Rightarrow> conn_info) \<Rightarrow> 'w os \<Rightarrow> (char \<times> u8 list) list \<Rightarrow> 'w \<Rightarrow> nat \<Rightarrow> 'w start" where
  "srv_main stack_bytes stack_info os args w n =
    (case parse_options (srv_option os) args (srv_defaults, w) of
       Inl e \<Rightarrow> e
     | Inr x \<Rightarrow> serve os (\<lambda>_. srv_handler stack_bytes stack_info) x n)"

definition loc_main :: "'w os \<Rightarrow> (char \<times> u8 list) list \<Rightarrow> 'w \<Rightarrow> nat \<Rightarrow> 'w start" where
  "loc_main os args w n =
    (case parse_options (loc_option os) args (loc_defaults, w) of
       Inl e \<Rightarrow> e
     | Inr x \<Rightarrow> serve os (\<lambda>opts. loc_handler (remote_ip opts) (remote_port opts)) x n)"

section \<open>The initial state\<close>

text \<open>A key the ciphers can work with: not empty, and short enough for the copy that each connection gets.\<close>

definition key_ok :: "ss_encrypt_method \<Rightarrow> u8 list option \<Rightarrow> bool" where
  "key_ok m key \<longleftrightarrow> (\<forall>k. key = Some k \<longrightarrow> k \<noteq> [] \<and> (m = XOR_METHOD \<longrightarrow> length k \<le> 504))"

lemma created_copy_ok:
  assumes "ss_create_encryptor mem m k (length k) = Created e" "key_ok m (Some k)"
  shows "enc_ok (copy_encryptor e)"
proof -
  have "enc_ok e" using created_ok(1) [OF assms(1)] assms(2) by (simp add: key_ok_def)
  with assms show ?thesis
    by (cases m) (auto simp: ss_create_encryptor_def key_ok_def room_defs split: if_splits option.splits)
qed

lemma setup_calls_live: "os_laws os live \<Longrightarrow> setup_calls os fd cs w = (ok, w') \<Longrightarrow> live w' = live w"
  by (induction cs arbitrary: w) (auto dest: os_lawsD(12) split: prod.splits if_splits)

lemma allocs_ok: "os_laws os live \<Longrightarrow> allocs os n w = (ok, w') \<Longrightarrow> ok \<and> live w' = live w"
  by (induction n arbitrary: w) (auto dest: os_lawsD(10) split: prod.splits if_splits)

lemma init_lists: "lists_ok [] [] (server_ctx w fd bs)"
  by (auto simp: lists_ok_def server_ctx_def clist_def op_defs)

lemma initial_inv:
  assumes "fd \<notin> live w" "0 \<le> fd" "fd < FD_SETSIZE" "live w' = insert fd (live w)" "length bs = 4096"
    and "\<And>e. enc = Some e \<Longrightarrow> enc_ok (copy_encryptor e)"
    and "s = (server_ctx w0 fd bs)\<lparr>rfds := {fd}, sys := w', encryptor := enc, ciphered := (enc \<noteq> None)\<rparr>"
  shows "ss_inv live (live w) (ss_server_set_handle AE_READABLE Accept_handle No_proc s)"
proof (rule ss_invI)
  let ?s = "ss_server_set_handle AE_READABLE Accept_handle No_proc s"
  note d = assms(7) ss_server_set_handle_def server_ctx_def
  show "lists_ok [] [] ?s" using init_lists [of w0 fd bs] by (simp add: lists_ok_def d)
  show "links_ok (conns ?s) (remotes ?s)" by (simp add: links_ok_def d)
  show "ctxs_ok ?s" using assms(5,6) by (auto simp: ctxs_ok_def d)
  have "owns ?s p f \<longleftrightarrow> p = SS_SERVER_CTX \<and> f = fd" for p f by (cases p) (auto simp: d)
  then show "fds_ok (owns ?s) (rfds ?s) (max_fd ?s) (live w) (live (sys ?s))"
    using assms(1-4) by (auto simp: fds_ok_def d)
qed

lemma ss_create_server_inv:
  assumes "os_laws os live" "ss_create_server os prt m key w = Running s" "key_ok m key"
  shows "ss_inv live (live w) (ss_server_set_handle AE_READABLE Accept_handle No_proc s)"
proof -
  have al: "\<exists>w'. os_calloc os v = (True, w') \<and> live w' = live v" for v
    using os_lawsD(10) [OF assms(1), of v] by (metis surj_pair)
  obtain w1 where 1: "os_calloc os w = (True, w1)" "live w1 = live w" using al by blast
  obtain w2 where 2: "os_calloc os w1 = (True, w2)" "live w2 = live w1" using al by blast
  obtain w3 where 3: "os_calloc os w2 = (True, w3)" "live w3 = live w2" using al by blast
  define bs where "bs = replicate 4096 (0 :: u8)"
  have b: "buf_create True True 4096 = Some (Some \<lparr>buf_max = 4096, used = 0, data = Some bs\<rparr>)"
    by (simp add: buf_create_def bs_def)
  obtain f w4 where 4: "create_server_socket os prt w3 = (f, w4)" by (cases "create_server_socket os prt w3")
  obtain fd wa where a: "os_socket os w3 = (fd, wa)" by (cases "os_socket os w3")
  obtain w5 where 5: "allocs os 1 w4 = (True, w5)" "live w5 = live w4"
    using allocs_ok [OF assms(1), of 1 w4] by (metis surj_pair)
  obtain w6 where 6: "allocs os 2 w5 = (True, w6)" "live w6 = live w5"
    using allocs_ok [OF assms(1), of 2 w5] by (metis surj_pair)
  obtain w7 where 7: "os_calloc os w6 = (True, w7)" "live w7 = live w6" using al by blast
  obtain fd' where fd': "f = Some fd'" using assms(2) 1 2 3 b 4 by (cases f) (simp_all add: ss_create_server_def)
  have n: "new_fd live w3 fd wa" by (rule os_lawsD(5) [OF assms(1) a])
  have fd: "fd' = fd" "0 \<le> fd" "live w4 = live wa"
    using 4 a fd' setup_calls_live [OF assms(1)] by (auto simp: create_server_socket_def split: if_splits prod.splits)
  then have n': "fd \<notin> live w" "fd < FD_SETSIZE" "live w4 = insert fd (live w)"
    using n 1(2) 2(2) 3(2) by (auto simp: new_fd_def)
  let ?s5 = "(server_ctx w5 fd bs)\<lparr>rfds := {fd}\<rparr>"
  have add: "ss_fd_set_add_fd fd AE_READABLE (server_ctx w5 fd bs) = Some ?s5"
    using fd(2) n'(2) by (simp add: ss_fd_set_add_fd_def server_ctx_def ss_fd_set_init_def)
  have sy: "sys ?s5 = w5" by (simp add: server_ctx_def)
  have cr: "ss_create_server os prt m key w = install_cipher os m key (?s5\<lparr>sys := w6\<rparr>)"
    unfolding ss_create_server_def 1(1) 2(1) 3(1) prod.case
    using b 4 fd' fd(1) 5(1) 6(1) add sy by (simp add: content_def del: One_nat_def)
  show ?thesis
  proof (cases key)
    case None
    then have "s = ?s5\<lparr>sys := w6, encryptor := None, ciphered := (None \<noteq> (None :: ss_encryptor option))\<rparr>"
      using cr assms(2) by (auto simp: install_cipher_def server_ctx_def)
    then show ?thesis using n' fd(2) 5(2) 6(2)
      by (intro initial_inv [where w' = w6 and bs = bs and enc = None]) (simp_all add: bs_def)
  next
    case (Some k)
    then obtain e where e: "ss_create_encryptor True m k (length k) = Created e"
      using cr assms(2) 7(1) by (auto simp: install_cipher_def server_ctx_def split: creation.splits)
    have "s = ?s5\<lparr>sys := w7, encryptor := Some e, ciphered := (Some e \<noteq> None)\<rparr>"
      using cr assms(2) Some e 7(1) by (auto simp: install_cipher_def server_ctx_def)
    then show ?thesis using n' fd(2) 5(2) 6(2) 7(2) created_copy_ok [OF e] assms(3) Some
      by (intro initial_inv [where w' = w7 and bs = bs and enc = "Some e"]) (simp_all add: bs_def)
  qed
qed

lemma rc4_init_total: "k \<noteq> [] \<Longrightarrow> rc4_init k (length k) \<noteq> None"
  by (simp add: rc4_init_def case_prod_beta Let_def)

lemma create_encryptor_total: "key_ok m (Some k) \<Longrightarrow> ss_create_encryptor True m k (length k) \<noteq> Undef"
  using rc4_init_total [of k]
  by (cases m) (auto simp: ss_create_encryptor_def key_ok_def split: option.splits)

lemma ss_create_server_total:
  assumes "os_laws os live" "key_ok m key"
  shows "ss_create_server os prt m key w \<noteq> Crashed"
proof
  assume c: "ss_create_server os prt m key w = Crashed"
  have al: "\<exists>w'. os_calloc os v = (True, w')" for v
    using os_lawsD(10) [OF assms(1), of v] by (metis surj_pair)
  have fd: "0 \<le> fd \<and> fd < FD_SETSIZE" if s: "create_server_socket os prt v = (Some fd, v')" for fd v v'
  proof -
    obtain f va where a: "os_socket os v = (f, va)" by (cases "os_socket os v")
    with s have "f = fd" "0 \<le> fd" by (auto simp: create_server_socket_def split: if_splits prod.splits)
    with os_lawsD(5) [OF assms(1) a] show ?thesis by (auto simp: new_fd_def)
  qed
  have i: "install_cipher os m key s \<noteq> Crashed" for s
    using al [of "sys s"] create_encryptor_total [of m] assms(2)
    by (cases key) (auto simp: install_cipher_def split: creation.splits)
  show False using c al [of w]
    by (auto simp: ss_create_server_def ss_fd_set_add_fd_def i dest!: fd split: prod.splits option.splits if_splits)
qed

lemma serve_ok:
  assumes "os_laws os live" "key_ok (encry_method opts) (key_arg opts)"
    and "\<And>s. ss_inv live (live w) s \<Longrightarrow> \<exists>s'. ss_loop os (handler opts os) n s = Some s' \<and> ss_inv live (live w) s'"
  shows "serve os handler (opts, w) n \<noteq> Crashed" "serve os handler (opts, w) n = Running s \<Longrightarrow> ss_inv live (live w) s"
proof -
  let ?c = "ss_create_server os (listen_port opts) (encry_method opts) (key_arg opts) w"
  have *: "\<exists>s'. ss_loop os (handler opts os) n (ss_server_set_handle AE_READABLE Accept_handle No_proc s0) = Some s' \<and>
      ss_inv live (live w) s'" if "?c = Running s0" for s0
    by (rule assms(3)) (rule ss_create_server_inv [OF assms(1) that assms(2)])
  show "serve os handler (opts, w) n \<noteq> Crashed"
    using * ss_create_server_total [OF assms(1,2), of "listen_port opts" w]
    by (cases ?c) (auto simp: serve_def split: option.splits)
  show "serve os handler (opts, w) n = Running s \<Longrightarrow> ss_inv live (live w) s"
    using * by (cases ?c) (auto simp: serve_def split: option.splits)
qed

lemma common_option_live:
  "os_laws os live \<Longrightarrow> common_option os c str x = Inr y \<Longrightarrow> live (snd y) = live (snd x)"
  by (auto simp: common_option_def dest: os_lawsD(10) split: prod.splits if_splits)

lemma parse_options_live:
  assumes "\<And>c str x y. opt c str x = Inr y \<Longrightarrow> live (snd y) = live (snd x)"
  shows "parse_options opt args x = Inr y \<Longrightarrow> live (snd y) = live (snd x)"
proof (induction args arbitrary: x)
  case (Cons a args)
  obtain c str where a: "a = (c, str)" by (cases a)
  with Cons.prems obtain x' where x': "opt c str x = Inr x'" "parse_options opt args x' = Inr y"
    by (cases "opt c str x") auto
  show ?case using Cons.IH [OF x'(2)] assms [OF x'(1)] by simp
qed simp

lemma srv_options_live:
  assumes "os_laws os live" "parse_options (srv_option os) args x = Inr y"
  shows "live (snd y) = live (snd x)"
  using assms(2)
proof (rule parse_options_live [rotated])
  fix c str x y assume "srv_option os c str x = Inr y"
  then show "live (snd y) = live (snd x)"
    using common_option_live [OF assms(1), of c str x y] by (auto simp: srv_option_def split: if_splits option.splits)
qed

lemma loc_options_live:
  assumes "os_laws os live" "parse_options (loc_option os) args x = Inr y"
  shows "live (snd y) = live (snd x)"
  using assms(2)
proof (rule parse_options_live [rotated])
  fix c str x y assume "loc_option os c str x = Inr y"
  then show "live (snd y) = live (snd x)"
    using common_option_live [OF assms(1), of c str x y] by (auto simp: loc_option_def split: if_splits option.splits)
qed

lemma srv_main_ok:
  assumes "os_laws os live" "parse_options (srv_option os) args (srv_defaults, w) = Inr (opts, w0)"
    and "key_ok (encry_method opts) (key_arg opts)"
  shows "srv_main sb si os args w n \<noteq> Crashed" "srv_main sb si os args w n = Running s \<Longrightarrow> ss_inv live (live w) s"
proof -
  have l: "live w0 = live w" using srv_options_live [OF assms(1,2)] by simp
  note s = serve_ok [OF assms(1,3), where w = w0 and handler = "\<lambda>_. srv_handler sb si" and n = n,
      OF srv.loop_ok [OF TrueI assms(1)]]
  show "srv_main sb si os args w n \<noteq> Crashed" using s(1) assms(2) by (simp add: srv_main_def)
  show "srv_main sb si os args w n = Running s \<Longrightarrow> ss_inv live (live w) s"
    using s(2) [of s] assms(2) l by (simp add: srv_main_def)
qed

lemma loc_main_ok:
  assumes "os_laws os live" "parse_options (loc_option os) args (loc_defaults, w) = Inr (opts, w0)"
    and "key_ok (encry_method opts) (key_arg opts)" "length (remote_ip opts) < 128"
  shows "loc_main os args w n \<noteq> Crashed" "loc_main os args w n = Running s \<Longrightarrow> ss_inv live (live w) s"
proof -
  have l: "live w0 = live w" using loc_options_live [OF assms(1,2)] by simp
  note s = serve_ok [OF assms(1,3), where w = w0 and handler = "\<lambda>opts. loc_handler (remote_ip opts) (remote_port opts)" and n = n,
      OF loc.loop_ok [OF assms(4,1)]]
  show "loc_main os args w n \<noteq> Crashed" using s(1) assms(2) by (simp add: loc_main_def)
  show "loc_main os args w n = Running s \<Longrightarrow> ss_inv live (live w) s"
    using s(2) [of s] assms(2) l by (simp add: loc_main_def)
qed

section \<open>A small operating system\<close>

text \<open>
  For concrete runs: descriptors are numbered upwards, every descriptor has a queue of bytes to receive, a client waits as long
  as \<open>waiting\<close> is positive, and everything that is sent arrives.
\<close>

record test_world =
  open_fds :: "int set"
  fresh_fd :: int
  inbox :: "int \<Rightarrow> u8 list"
  waiting :: nat

definition test_open :: "test_world \<Rightarrow> int \<times> test_world" where
  "test_open w =
    (if 0 \<le> fresh_fd w \<and> fresh_fd w < FD_SETSIZE \<and> fresh_fd w \<notin> open_fds w
     then (fresh_fd w, w\<lparr>open_fds := insert (fresh_fd w) (open_fds w), fresh_fd := fresh_fd w + 1\<rparr>) else (-1, w))"

definition test_os :: "test_world os" where
  "test_os =
    \<lparr>os_recv = (\<lambda>w fd n. (Some (take n (inbox w fd)), w\<lparr>inbox := (inbox w)(fd := drop n (inbox w fd))\<rparr>)),
     os_send = (\<lambda>w fd bs. (int (length bs), False, w)),
     os_accept = (\<lambda>w fd. if waiting w = 0 then (-1, \<lparr>ip = [], info_port = 0\<rparr>, w)
        else (case test_open w of (fd', w') \<Rightarrow> (fd', \<lparr>ip = bytes ''10.0.0.1'', info_port = 4000\<rparr>, w'\<lparr>waiting := waiting w - 1\<rparr>))),
     os_socket = test_open,
     os_inet_aton = (\<lambda>a. if length a < 16 then Some [127, 0, 0, 1] else None),
     os_gethostbyname = (\<lambda>w a. (Some (True, [[127, 0, 0, 1]]), w)),
     os_connect = (\<lambda>w fd a prt. (True, w)),
     os_close = (\<lambda>w fd. w\<lparr>open_fds := open_fds w - {fd}\<rparr>),
     os_calloc = (\<lambda>w. (True, w)),
     os_select = (\<lambda>w k rs ws. (1, {fd \<in> rs. inbox w fd \<noteq> [] \<or> (fd = 3 \<and> 0 < waiting w)}, w)),
     os_setup = (\<lambda>w fd c. (True, w))\<rparr>"

definition test_start :: "test_world" where
  "test_start = \<lparr>open_fds = {0, 1, 2}, fresh_fd = 3, inbox = (\<lambda>_. []), waiting = 1\<rparr>"

lemma test_open_new: "new_fd open_fds w (fst (test_open w)) (snd (test_open w))"
  by (auto simp: test_open_def new_fd_def)

lemma test_os_laws: "os_laws test_os open_fds"
proof -
  have a: "new_fd open_fds w (fst (os_accept test_os w fd)) (snd (snd (os_accept test_os w fd)))" for w fd
  proof (cases "waiting w = 0")
    case False
    then show ?thesis using test_open_new [of w] by (simp add: test_os_def new_fd_def case_prod_beta)
  qed (simp add: test_os_def new_fd_def)
  have s: "new_fd open_fds w (fst (os_socket test_os w)) (snd (os_socket test_os w))" for w
    using test_open_new [of w] by (simp add: test_os_def)
  show ?thesis unfolding os_laws_def
    by (intro conjI allI a s) (auto simp: test_os_def)
qed

section \<open>Properties of whole runs\<close>

definition test_args :: "(char \<times> u8 list) list" where
  "test_args = [(CHR ''p'', bytes ''8080''), (CHR ''m'', bytes ''xor''), (CHR ''e'', bytes ''key'')]"

lemma test_srv_options:
  "parse_options (srv_option test_os) test_args (srv_defaults, test_start) =
    Inr (srv_defaults\<lparr>listen_port := 8080, encry_method := XOR_METHOD, key_arg := Some (bytes ''key'')\<rparr>, test_start)"
  by (simp add: test_args_def srv_option_def common_option_def srv_defaults_def test_os_def method_option_def port_option_def
      atoi_def isspace_def bytes_def)

lemma test_loc_options:
  "parse_options (loc_option test_os) test_args (loc_defaults, test_start) =
    Inr (loc_defaults\<lparr>remote_port := 8080, encry_method := XOR_METHOD, key_arg := Some (bytes ''key'')\<rparr>, test_start)"
  by (simp add: test_args_def loc_option_def common_option_def loc_defaults_def test_os_def method_option_def port_option_def
      atoi_def isspace_def bytes_def)

lemma test_os_calls:
  "os_calloc test_os w = (True, w)" "os_setup test_os w fd c = (True, w)" "os_socket test_os w = test_open w"
  by (simp_all add: test_os_def)

lemma test_allocs: "allocs test_os n w = (True, w)"
  by (induction n) (simp_all add: test_os_calls)

lemma test_create: "\<exists>s. ss_create_server test_os prt XOR_METHOD (Some (bytes ''key'')) test_start = Running s"
  by (simp add: ss_create_server_def test_os_calls test_start_def buf_create_def create_server_socket_def test_open_def
      fd_set_noblock_def bind_server_def FD_SETSIZE_def ss_fd_set_add_fd_def server_ctx_def install_cipher_def
      ss_create_encryptor_def content_def test_allocs)

lemma test_srv_running: "\<exists>s. srv_main sb si test_os test_args test_start n = Running s"
proof -
  have "srv_main sb si test_os test_args test_start n \<noteq> Crashed"
    by (rule srv_main_ok(1) [OF test_os_laws test_srv_options]) (simp add: key_ok_def bytes_def)
  with test_create [of 8080] show ?thesis
    by (auto simp: srv_main_def test_srv_options serve_def split: option.splits)
qed

lemma test_loc_running: "\<exists>s. loc_main test_os test_args test_start n = Running s"
proof -
  have "loc_main test_os test_args test_start n \<noteq> Crashed"
    by (rule loc_main_ok(1) [OF test_os_laws test_loc_options]) (simp_all add: key_ok_def bytes_def loc_defaults_def)
  with test_create [of "listen_port loc_defaults"] show ?thesis
    by (auto simp: loc_main_def test_loc_options serve_def split: option.splits)
qed









section \<open>Release\<close>

text \<open>
  The call of \<open>ss_release_server\<close> behind the loop would free only blocks that exist, each once, but leave the contexts, their encryptors and the two list heads
  allocated, and every descriptor of the server open.
\<close>

lemma ss_release_server_leaves:
  "set (ss_release_server s) \<subseteq> ss_blocks s" "distinct (ss_release_server s)"
  "ss_blocks s - set (ss_release_server s) = {List_block Conn_head, List_block Remote_head} \<union> Conn_block ` dom (conns s) \<union>
    Conn_encryptor ` {c. \<exists>d. conns s c = Some d \<and> conn_encryptor d \<noteq> None} \<union> Remote_block ` dom (remotes s)"
  by (auto simp: ss_blocks_def ss_release_server_def)

text \<open>In the enciphered server every connection has an encryptor, so the blocks left behind are two for each connection, one for each remote and two.\<close>

lemma ss_release_server_count:
  assumes "ss_inv live B s" "ciphered s"
  shows "card (ss_blocks s - set (ss_release_server s)) = 2 + 2 * card (dom (conns s)) + card (dom (remotes s))"
proof -
  from assms(1) obtain cs rs where l: "lists_ok cs rs s" by (rule ss_invE)
  then have f: "finite (dom (conns s))" "finite (dom (remotes s))" by (simp_all add: lists_ok_def)
  have e: "{c. \<exists>d. conns s c = Some d \<and> conn_encryptor d \<noteq> None} = dom (conns s)"
    using ss_inv_conn [OF assms(1)] assms(2) by (force simp: conn_ok_def)
  let ?A = "{List_block Conn_head, List_block Remote_head}" and ?B = "Conn_block ` dom (conns s)" and ?C = "Conn_encryptor ` dom (conns s)"
    and ?D = "Remote_block ` dom (remotes s)"
  have "?A \<inter> ?B = {}" "(?A \<union> ?B) \<inter> ?C = {}" "(?A \<union> ?B \<union> ?C) \<inter> ?D = {}" by auto
  then have "card (?A \<union> ?B \<union> ?C \<union> ?D) = card ?A + card ?B + card ?C + card ?D"
    using f by (simp only: card_Un_disjoint finite_UnI finite_imageI finite.intros)
  then show ?thesis unfolding ss_release_server_leaves(3) e by (simp add: card_image inj_on_def)
qed

end
