(* ===== verification/Socks_Protocol.thy ===== *)
theory Socks_Protocol
  imports Socks_Main
begin

text \<open>
  What the proxy's protocol code does with the bytes: requests that a SOCKS5 client encodes are decoded to the address it
  meant, in the clear or enciphered, and the two programs relay bytes unchanged as long as the two directions take turns.
\<close>

section \<open>A stream of incoming bytes\<close>

text \<open>
  \<open>delivers\<close>: the bytes \<open>inp\<close> that are to arrive on a descriptor are handed out in order, as many as asked for. \<open>upcoming\<close> are
  these bytes as the program will see them, deciphered with the connection's encryptor.
\<close>

definition delivers :: "'w os \<Rightarrow> int \<Rightarrow> ('w \<Rightarrow> u8 list) \<Rightarrow> bool" where
  "delivers os fd inp \<longleftrightarrow> (\<forall>w n. n \<le> length (inp w) \<longrightarrow>
    (\<exists>w'. os_recv os w fd n = (Some (take n (inp w)), w') \<and> inp w' = drop n (inp w)))"

definition conn_enc :: "'w ss_server_ctx \<Rightarrow> nat \<Rightarrow> ss_encryptor option" where
  "conn_enc s c = (if ciphered s then Option.bind (conns s c) conn_encryptor else None)"

definition decipher :: "ss_encryptor option \<Rightarrow> u8 list \<Rightarrow> u8 list" where
  "decipher k bs = (case k of None \<Rightarrow> bs | Some e \<Rightarrow> (case ss_decrypt e bs of None \<Rightarrow> [] | Some (out, _) \<Rightarrow> out))"

definition upcoming :: "('w \<Rightarrow> u8 list) \<Rightarrow> nat \<Rightarrow> 'w ss_server_ctx \<Rightarrow> u8 list" where
  "upcoming inp c s = decipher (conn_enc s c) (inp (sys s))"

definition view_ok :: "nat \<Rightarrow> int \<Rightarrow> 'w ss_server_ctx \<Rightarrow> bool" where
  "view_ok c fd s \<longleftrightarrow> (\<exists>d. conns s c = Some d \<and> conn_fd d = fd \<and> (ciphered s \<longrightarrow> (\<exists>e. conn_encryptor d = Some e \<and> enc_ok e)))"

lemma length_decipher: "(\<And>e. k = Some e \<Longrightarrow> enc_ok e) \<Longrightarrow> length (decipher k bs) = length bs"
proof (cases k)
  case (Some e)
  assume "\<And>e. k = Some e \<Longrightarrow> enc_ok e"
  with Some obtain out e' where "ss_decrypt e bs = Some (out, e')" "length out = length bs" using dc.stepE by blast
  with Some show ?thesis by (simp add: decipher_def)
qed (simp add: decipher_def)

lemma decipher_split:
  assumes "enc_ok e" "ss_decrypt e (take n xs) = Some (out, e')" "n \<le> length xs"
  shows "take n (decipher (Some e) xs) = out" "drop n (decipher (Some e) xs) = decipher (Some e') (drop n xs)"
proof -
  have e': "enc_ok e'" "length out = length (take n xs)" using dc.ok_step [OF assms(1,2)] by simp_all
  obtain out' e'' where 2: "ss_decrypt e' (drop n xs) = Some (out', e'')" "length out' = length (drop n xs)"
    using dc.stepE [OF e'(1)] by blast
  have "ss_decrypt e xs = Some (out @ out', e'')" using dc.append [OF assms(1,2) 2(1)] by simp
  then show "take n (decipher (Some e) xs) = out" "drop n (decipher (Some e) xs) = decipher (Some e') (drop n xs)"
    using 2 e'(2) assms(3) by (auto simp: decipher_def)
qed

lemma upcoming_length: "view_ok c fd s \<Longrightarrow> length (upcoming inp c s) = length (inp (sys s))"
  unfolding upcoming_def by (rule length_decipher) (auto simp: view_ok_def conn_enc_def split: if_splits)

lemma ss_recv_stream:
  assumes "delivers os fd inp" "view_ok c fd s" "n \<le> length (upcoming inp c s)"
  obtains s' where "ss_recv os c fd n s = Some (Some (take n (upcoming inp c s)), s')" "view_ok c fd s'"
    "upcoming inp c s' = drop n (upcoming inp c s)" "buf_bytes s' = buf_bytes s" "ciphered s' = ciphered s"
proof -
  have n: "n \<le> length (inp (sys s))" using assms(2,3) upcoming_length by metis
  obtain w' where w': "os_recv os (sys s) fd n = (Some (take n (inp (sys s))), w')" "inp w' = drop n (inp (sys s))"
    using assms(1) n unfolding delivers_def by blast
  let ?bs = "take n (inp (sys s))"
  define s1 where "s1 = s\<lparr>sys := w', log := log s @ [Received fd ?bs]\<rparr>"
  have r: "plain_recv os fd n s = (Some ?bs, s1)" using w'(1) by (simp add: plain_recv_def s1_def)
  obtain d where d: "conns s c = Some d" "conn_fd d = fd" "ciphered s \<longrightarrow> (\<exists>e. conn_encryptor d = Some e \<and> enc_ok e)"
    using assms(2) by (auto simp: view_ok_def)
  show thesis
  proof (cases "ciphered s \<and> ?bs \<noteq> []")
    case False
    have "ss_recv os c fd n s = Some (Some (take n (upcoming inp c s)), s1) \<and> upcoming inp c s1 = drop n (upcoming inp c s)"
    proof (cases "ciphered s")
      case True
      with False have z: "?bs = []" by simp
      then have z': "n = 0 \<or> inp (sys s) = []" by auto
      have "take n (upcoming inp c s) = []"
        using z' upcoming_length [OF assms(2), of inp] by auto
      moreover have "upcoming inp c s1 = drop n (upcoming inp c s)"
        using z' w'(2) upcoming_length [OF assms(2), of inp] n
        by (auto simp: upcoming_def conn_enc_def s1_def)
      ultimately show ?thesis using True z r by (simp add: ss_recv_def decry_recv_def)
    next
      case no: False
      then show ?thesis using r w'(2) by (simp add: ss_recv_def upcoming_def conn_enc_def decipher_def s1_def)
    qed
    then show thesis using d by (intro that [of s1]) (auto simp: view_ok_def s1_def)
  next
    case True
    then obtain e where e: "conn_encryptor d = Some e" "enc_ok e" using d(3) by blast
    obtain out e' where x: "ss_decrypt e ?bs = Some (out, e')" "enc_ok e'" using dc.stepE [OF e(2)] by blast
    define s2 where "s2 = s1\<lparr>conns := (conns s1)(c \<mapsto> d\<lparr>conn_encryptor := Some e'\<rparr>)\<rparr>"
    have "conn_crypt c ?bs s1 = Some (out, s2)" using d(1) e(1) x(1) by (simp add: conn_crypt_def s1_def s2_def)
    then have "ss_recv os c fd n s = Some (Some out, s2)" using True r by (simp add: ss_recv_def decry_recv_def)
    moreover have k: "conn_enc s c = Some e" "conn_enc s2 c = Some e'" "inp (sys s2) = drop n (inp (sys s))"
      using True d(1) e(1) w'(2) by (simp_all add: conn_enc_def s1_def s2_def)
    ultimately show thesis
      using decipher_split [OF e(2) x(1) n] d x(2) True
      by (intro that [of s2]) (auto simp: upcoming_def view_ok_def s1_def s2_def)
  qed
qed

lemma view_ok_fill [simp]: "view_ok c fd (fill_buf bs s) = view_ok c fd s"
  by (simp add: view_ok_def fill_buf_def)

lemma upcoming_fill [simp]: "upcoming inp c (fill_buf bs s) = upcoming inp c s"
  by (simp add: upcoming_def conn_enc_def fill_buf_def)

lemma recv_field_stream:
  assumes "delivers os fd inp" "view_ok c fd s" "n \<le> length (upcoming inp c s)" "i + n \<le> length mem"
  obtains s' where "recv_field os c fd i n mem s = Some (Inr (take i mem @ take n (upcoming inp c s) @ drop (i + n) mem, s'))"
    "view_ok c fd s'" "upcoming inp c s' = drop n (upcoming inp c s)"
proof -
  obtain s' where "ss_recv os c fd n s = Some (Some (take n (upcoming inp c s)), s')" "view_ok c fd s'"
    "upcoming inp c s' = drop n (upcoming inp c s)" by (rule ss_recv_stream [OF assms(1-3)])
  with assms(3,4) show thesis by (intro that [of s']) (simp_all add: recv_field_def put_bytes_def)
qed

section \<open>Requests\<close>

text \<open>The request of a SOCKS5 client, as RFC 1928 encodes it.\<close>

datatype address = IPv4 u8 u8 u8 u8 | Domain "u8 list" | IPv6 "u8 list"

primrec address_type :: "address \<Rightarrow> u8" where
  "address_type (IPv4 a b c d) = 1" | "address_type (Domain name) = 3" | "address_type (IPv6 bs) = 4"

primrec address_bytes :: "address \<Rightarrow> u8 list" where
  "address_bytes (IPv4 a b c d) = [a, b, c, d]"
| "address_bytes (Domain name) = of_nat (length name) # name"
| "address_bytes (IPv6 bs) = bs"

primrec address_ok :: "address \<Rightarrow> bool" where
  "address_ok (IPv4 a b c d) \<longleftrightarrow> True" | "address_ok (Domain name) \<longleftrightarrow> length name < 256" | "address_ok (IPv6 bs) \<longleftrightarrow> length bs = 16"

definition port_bytes :: "u16 \<Rightarrow> u8 list" where
  "port_bytes p = [ucast (drop_bit 8 p), ucast p]"

definition encode_request :: "address \<Rightarrow> u16 \<Rightarrow> u8 list" where
  "encode_request addr p = [0x05, 0x01, 0x00, address_type addr] @ address_bytes addr @ port_bytes p"

lemma recv_addr_stream:
  assumes "delivers os fd inp" "view_ok c fd s" "address_ok addr" "upcoming inp c s = address_bytes addr @ rest" "length mem = 258"
  obtains mem' s' where "recv_addr os c fd (address_type addr) mem s = Some (Inr (mem', s'))" "view_ok c fd s'"
    "upcoming inp c s' = rest" "take (length (address_bytes addr)) mem' = address_bytes addr" "length mem' = 258"
proof (cases addr)
  case (IPv4 a b c' d)
  obtain s' where "recv_field os c fd 0 4 mem s = Some (Inr (take 0 mem @ take 4 (upcoming inp c s) @ drop (0 + 4) mem, s'))"
    "view_ok c fd s'" "upcoming inp c s' = drop 4 (upcoming inp c s)"
    by (rule recv_field_stream [OF assms(1,2), of 4 0 mem]) (use assms(4,5) IPv4 in simp_all)
  then show thesis using IPv4 assms(4,5)
    by (intro that [of "take 4 ([a, b, c', d] @ drop 4 mem) @ [0] @ drop 5 ([a, b, c', d] @ drop 4 mem)" s'])
      (simp_all add: recv_addr_def put_bytes_def)
next
  case (Domain name)
  let ?l = "of_nat (length name) :: u8"
  have l: "unat ?l = length name" "length name < 256" using assms(3) Domain by (simp_all add: unat_of_nat take_bit_eq_mod)
  obtain s1 where 1: "recv_field os c fd 0 1 mem s = Some (Inr (take 0 mem @ take 1 (upcoming inp c s) @ drop (0 + 1) mem, s1))"
    "view_ok c fd s1" "upcoming inp c s1 = drop 1 (upcoming inp c s)"
    by (rule recv_field_stream [OF assms(1,2), of 1 0 mem]) (use assms(4,5) Domain in simp_all)
  define m1 where "m1 = ?l # drop 1 mem"
  have m1: "take 0 mem @ take 1 (upcoming inp c s) @ drop (0 + 1) mem = m1" "length m1 = 258" "m1 ! 0 = ?l" "take 1 m1 = [?l]"
    using assms(4,5) Domain by (simp_all add: m1_def)
  have u1: "upcoming inp c s1 = name @ rest" using 1(3) assms(4) Domain by simp
  obtain s2 where 2: "recv_field os c fd 1 (length name) m1 s1 =
      Some (Inr (take 1 m1 @ take (length name) (upcoming inp c s1) @ drop (1 + length name) m1, s2))"
    "view_ok c fd s2" "upcoming inp c s2 = drop (length name) (upcoming inp c s1)"
    by (rule recv_field_stream [OF assms(1) 1(2), of "length name" 1 m1]) (use l(2) m1(2) u1 in simp_all)
  define m2 where "m2 = ?l # name @ drop (1 + length name) m1"
  have m2: "take 1 m1 @ take (length name) (upcoming inp c s1) @ drop (1 + length name) m1 = m2" "length m2 = 258" "m2 ! 0 = ?l"
    using m1 u1 l(2) by (simp_all add: m2_def)
  define m3 where "m3 = take (length name + 1) m2 @ [0] @ drop (length name + 1 + 1) m2"
  have "put_bytes (unat (m2 ! 0) + 1) [0] m2 = Some m3" "length m3 = 258"
    using m2 l by (simp_all add: put_bytes_def m3_def)
  then have "recv_addr os c fd (address_type addr) mem s = Some (Inr (m3, s2))"
    using 1(1) 2(1) m1 m2 l(1) Domain by (simp add: recv_addr_def del: bind_Some_iff)
  then show thesis
    using 2(2,3) u1 \<open>length m3 = 258\<close> Domain
    by (intro that [of m3 s2]) (simp_all add: m3_def m2_def)
next
  case (IPv6 bs)
  obtain s' where "recv_field os c fd 0 16 mem s = Some (Inr (take 0 mem @ take 16 (upcoming inp c s) @ drop (0 + 16) mem, s'))"
    "view_ok c fd s'" "upcoming inp c s' = drop 16 (upcoming inp c s)"
    by (rule recv_field_stream [OF assms(1,2), of 16 0 mem]) (use assms(3-5) IPv6 in simp_all)
  then show thesis using IPv6 assms(3-5)
    by (intro that [of "bs @ drop 16 mem" s']) (simp_all add: recv_addr_def)
qed

lemma port_bytes_join: "word_cat (port_bytes p ! 0) (port_bytes p ! 1) = p"
  by (rule bit_word_eqI) (auto simp: port_bytes_def bit_word_cat_iff bit_ucast_iff bit_drop_bit_eq)

lemma get_requests_stream:
  assumes "delivers os fd inp" "view_ok c fd s" "address_ok addr" "upcoming inp c s = encode_request addr p @ rest"
    and "length junk = 258" "length (buf_bytes s) = 4096"
  obtains req s' where "ss_get_requests os c junk s = Some (Some req, s')" "view_ok c fd s'" "upcoming inp c s' = rest"
    "atyp req = address_type addr" "take (length (address_bytes addr)) (dst req) = address_bytes addr"
    "dst req ! 256 = port_bytes p ! 0" "dst req ! 257 = port_bytes p ! 1" "length (dst req) = 258"
proof -
  have u: "upcoming inp c s = [0x05, 0x01, 0x00, address_type addr] @ address_bytes addr @ port_bytes p @ rest"
    using assms(4) by (simp add: encode_request_def)
  obtain s1 where 1: "ss_recv os c fd 4 s = Some (Some (take 4 (upcoming inp c s)), s1)" "view_ok c fd s1"
    "upcoming inp c s1 = drop 4 (upcoming inp c s)" "buf_bytes s1 = buf_bytes s"
    by (rule ss_recv_stream [OF assms(1,2), of 4]) (use u in simp_all)
  let ?h = "[0x05, 0x01, 0x00, address_type addr]"
  have h: "take 4 (upcoming inp c s) = ?h" "upcoming inp c s1 = address_bytes addr @ port_bytes p @ rest" using u 1(3) by simp_all
  define s2 where "s2 = fill_buf ?h s1"
  have b: "buf_bytes s2 ! 0 = 5" "buf_bytes s2 ! 1 = 1" "buf_bytes s2 ! 2 = 0" "buf_bytes s2 ! 3 = address_type addr"
    by (simp_all add: s2_def fill_buf_def)
  have 2: "view_ok c fd s2" "upcoming inp c s2 = address_bytes addr @ port_bytes p @ rest" using 1(2) h(2) by (simp_all add: s2_def)
  obtain m s3 where 3: "recv_addr os c fd (address_type addr) junk s2 = Some (Inr (m, s3))" "view_ok c fd s3"
    "upcoming inp c s3 = port_bytes p @ rest" "take (length (address_bytes addr)) m = address_bytes addr" "length m = 258"
    by (rule recv_addr_stream [OF assms(1) 2(1) assms(3) 2(2) assms(5)])
  obtain s4 where 4: "recv_field os c fd 256 2 m s3 = Some (Inr (take 256 m @ take 2 (upcoming inp c s3) @ drop (256 + 2) m, s4))"
    "view_ok c fd s4" "upcoming inp c s4 = drop 2 (upcoming inp c s3)"
    by (rule recv_field_stream [OF assms(1) 3(2), of 2 256 m]) (use 3(3,5) in \<open>simp_all add: port_bytes_def\<close>)
  obtain d where d: "conns s c = Some d" "conn_fd d = fd" using assms(2) by (auto simp: view_ok_def)
  define m' where "m' = take 256 m @ port_bytes p"
  have m': "take 256 m @ take 2 (upcoming inp c s3) @ drop (256 + 2) m = m'" using 3(3,5) by (simp add: m'_def port_bytes_def)
  have get: "ss_get_requests os c junk s = Some (Some \<lparr>ver = 0x05, cmd = 0x01, rsv = 0, atyp = address_type addr, dst = m'\<rparr>, s4)"
    using d 1(1) h(1) b 3(1) 4(1) m' by (simp add: ss_get_requests_def Let_def s2_def [symmetric] del: bind_Some_iff)
  have len: "length (address_bytes addr) \<le> 256" using assms(3) by (cases addr) auto
  have "take (length (address_bytes addr)) m' = address_bytes addr" using 3(4,5) len by (simp add: m'_def min_def)
  with get 4(2,3) 3(3,5) show thesis
    by (intro that) (auto simp: m'_def port_bytes_def nth_append)
qed

definition dotted :: "u8 \<Rightarrow> u8 \<Rightarrow> u8 \<Rightarrow> u8 \<Rightarrow> u8 list" where
  "dotted a b c d = dec_digits (unat a) @ [46] @ dec_digits (unat b) @ [46] @ dec_digits (unat c) @ [46] @ dec_digits (unat d)"

lemma last_address: "as \<noteq> [] \<Longrightarrow> foldl (\<lambda>_ a. inet_ntoa a) x as = inet_ntoa (last as)"
  by (induction as rule: rev_induct) simp_all

lemma slice_name:
  assumes "take (length (address_bytes (Domain name))) mem = address_bytes (Domain name)" "length name < 256"
  shows "slice mem 1 (unat (mem ! 0)) = name" "mem ! 0 = of_nat (length name)"
proof -
  have t: "take (Suc (length name)) mem = of_nat (length name) # name" using assms(1) by simp
  then obtain ms where m: "mem = of_nat (length name) # ms" "take (length name) ms = name" by (cases mem) auto
  then show "slice mem 1 (unat (mem ! 0)) = name" "mem ! 0 = of_nat (length name)"
    using assms(2) by (simp_all add: slice_def unat_of_nat take_bit_eq_mod)
qed

text \<open>A state with one client connection, for concrete runs.\<close>

definition test_conn :: "ss_encryptor option \<Rightarrow> ss_conn_ctx" where
  "test_conn enc = \<lparr>conn_fd = 4, conn_mask = AE_READABLE, ss_conn_state = OPENING, ss_conn_info = \<lparr>ip = [], info_port = 0\<rparr>,
    conn_proc = null_event, remote_count = 0, remote = None, conn_encryptor = enc\<rparr>"

definition test_state :: "ss_encryptor option \<Rightarrow> u8 list \<Rightarrow> test_world ss_server_ctx" where
  "test_state enc bs =
    (server_ctx (test_start\<lparr>inbox := (\<lambda>_. [])(4 := bs)\<rparr>) 3 (replicate 4096 0))\<lparr>ciphered := (enc \<noteq> None), conns := [0 \<mapsto> test_conn enc]\<rparr>"

lemma test_delivers: "delivers test_os fd (\<lambda>w. inbox w fd)"
  by (simp add: delivers_def test_os_def)

lemma test_view: "(\<And>e. enc = Some e \<Longrightarrow> enc_ok e) \<Longrightarrow> view_ok 0 4 (test_state enc bs)"
  by (cases enc) (simp_all add: view_ok_def test_state_def test_conn_def server_ctx_def)

lemma test_upcoming: "upcoming (\<lambda>w. inbox w 4) 0 (test_state None bs) = bs"
  by (simp add: upcoming_def conn_enc_def decipher_def test_state_def server_ctx_def)

lemma test_buf: "length (buf_bytes (test_state enc bs)) = 4096"
  by (simp add: test_state_def server_ctx_def)

section \<open>Properties\<close>



text \<open>
  A request for an IPv6 target is accepted, but its address is never stored: the program goes on with whatever bytes the
  uninitialised variable \<open>remote_info\<close> of its caller happens to hold, and only the port is the client's.
\<close>

theorem ipv6_target_uninitialised:
  assumes "delivers os fd inp" "view_ok c fd s" "length bs = 16" "upcoming inp c s = encode_request (IPv6 bs) p @ rest"
    and "length junk = 258" "length (buf_bytes s) = 4096"
  shows "\<exists>req s'. ss_get_requests os c junk s = Some (Some req, s') \<and>
    get_addr_info os req info s' = (Some \<lparr>ip = ip info, info_port = p\<rparr>, s')"
proof -
  have a: "address_ok (IPv6 bs)" using assms(3) by simp
  obtain req s' where r: "ss_get_requests os c junk s = Some (Some req, s')" "atyp req = address_type (IPv6 bs)"
    "dst req ! 256 = port_bytes p ! 0" "dst req ! 257 = port_bytes p ! 1"
    by (rule get_requests_stream [OF assms(1,2) a assms(4-6)]) blast
  have p: "word_cat (dst req ! 256) (dst req ! 257) = p" unfolding r(3,4) by (rule port_bytes_join)
  have "get_addr_info os req info s' = (Some \<lparr>ip = ip info, info_port = p\<rparr>, s')"
    using r(2) p by (cases info) (simp add: get_addr_info_def)
  with r(1) show ?thesis by blast
qed

theorem ipv6_target_uninitialised_witness:
  "\<exists>req s'. ss_get_requests test_os 0 (replicate 258 7) (test_state None (encode_request (IPv6 (replicate 16 1)) 443)) = Some (Some req, s') \<and>
    get_addr_info test_os req \<lparr>ip = [200, 201], info_port = 9\<rparr> s' = (Some \<lparr>ip = [200, 201], info_port = 443\<rparr>, s')"
proof -
  let ?bs = "encode_request (IPv6 (replicate 16 1)) 443"
  have v: "view_ok 0 4 (test_state None ?bs)" by (rule test_view) simp
  have u: "upcoming (\<lambda>w. inbox w 4) 0 (test_state None ?bs) = ?bs @ []" by (simp add: test_upcoming)
  show ?thesis
    using ipv6_target_uninitialised [OF test_delivers v _ u _ test_buf, where junk = "replicate 258 7" and info = "\<lparr>ip = [200, 201], info_port = 9\<rparr>"]
    by simp
qed

section \<open>The enciphered channel\<close>

lemma ss_send_enciphered:
  assumes "conn_enc s c = Some e" "ss_decrypt e m = Some (out, e')"
  shows "\<exists>s1. ss_send os c fd m s = Some (plain_send os fd out s1) \<and> conn_enc s1 c = Some e' \<and> log s1 = log s \<and> sys s1 = sys s"
proof -
  obtain d where d: "conns s c = Some d" "conn_encryptor d = Some e" "ciphered s"
    using assms(1) by (auto simp: conn_enc_def split: if_splits)
  define s1 where "s1 = fill_buf out (s\<lparr>conns := (conns s)(c \<mapsto> d\<lparr>conn_encryptor := Some e'\<rparr>)\<rparr>)"
  have "ss_send os c fd m s = Some (plain_send os fd out s1)"
    using d assms(2) by (simp add: ss_send_def encry_send_def conn_crypt_def s1_def)
  moreover have "conn_enc s1 c = Some e'" "log s1 = log s" "sys s1 = sys s" using d by (simp_all add: conn_enc_def s1_def fill_buf_def)
  ultimately show ?thesis by blast
qed

lemma ss_recv_enciphered:
  assumes "conn_enc s c = Some e" "os_recv os (sys s) fd n = (Some raw, w)" "raw \<noteq> []" "ss_decrypt e raw = Some (out, e')"
  shows "\<exists>s'. ss_recv os c fd n s = Some (Some out, s') \<and> conn_enc s' c = Some e'"
proof -
  obtain d where d: "conns s c = Some d" "conn_encryptor d = Some e" "ciphered s"
    using assms(1) by (auto simp: conn_enc_def split: if_splits)
  then show ?thesis using assms(2-4)
    by (simp add: ss_recv_def decry_recv_def plain_recv_def conn_crypt_def conn_enc_def)
qed

text \<open>
  A message crosses the enciphered channel intact. If the two ends of a connection have the same encryptor state, then what one
  end passes to \<open>send\<close> for a message has its length, and the other end recovers the message from it; afterwards both ends have
  the same encryptor state again, so the next message, in either direction, crosses intact too.
\<close>

theorem channel_message_intact:
  assumes "conn_enc sA a = Some e" "enc_ok e" "m \<noteq> []"
  shows "\<exists>cipher e' s1. ss_send osA a fdA m sA = Some (plain_send osA fdA cipher s1) \<and> length cipher = length m \<and> enc_ok e' \<and>
    (\<forall>n again sA'. plain_send osA fdA cipher s1 = (n, again, sA') \<longrightarrow>
      conn_enc sA' a = Some e' \<and> log sA' = log sA @ [Sent fdA (take (nat n) cipher)]) \<and>
    (\<forall>sB b fdB k w. conn_enc sB b = Some e \<and> os_recv osB (sys sB) fdB k = (Some cipher, w) \<longrightarrow>
      (\<exists>sB'. ss_recv osB b fdB k sB = Some (Some m, sB') \<and> conn_enc sB' b = Some e'))"
proof -
  obtain cipher e' where c: "ss_decrypt e m = Some (cipher, e')" "enc_ok e'" "length cipher = length m"
    using dc.stepE [OF assms(2)] by blast
  obtain s1 where 1: "ss_send osA a fdA m sA = Some (plain_send osA fdA cipher s1)" "conn_enc s1 a = Some e'" "log s1 = log sA"
    using ss_send_enciphered [OF assms(1) c(1)] by blast
  have inv: "ss_decrypt e cipher = Some (m, e')" by (rule dc.involutive [OF assms(2) c(1)])
  have sent: "conn_enc sA' a = Some e' \<and> log sA' = log sA @ [Sent fdA (take (nat n) cipher)]"
    if "plain_send osA fdA cipher s1 = (n, again, sA')" for n again sA'
    using that 1(2,3) by (auto simp: plain_send_def conn_enc_def split: prod.splits if_splits)
  have ne: "cipher \<noteq> []" using c(3) assms(3) by auto
  have recvd: "\<exists>sB'. ss_recv osB b fdB k sB = Some (Some m, sB') \<and> conn_enc sB' b = Some e'"
    if "conn_enc sB b = Some e" "os_recv osB (sys sB) fdB k = (Some cipher, w)" for sB b fdB k w
    by (rule ss_recv_enciphered [OF that ne inv])
  show ?thesis using 1(1) c(2,3) sent recvd by blast
qed

definition test_enc :: ss_encryptor where
  "test_enc = Xor_enc \<lparr>encry_loc = 0, decry_loc = 0, xor_key_len = 2, xor_key = [97, 98]\<rparr>"

lemma test_conn_enc: "conn_enc (test_state (Some e) bs) 0 = Some e"
  by (simp add: conn_enc_def test_state_def test_conn_def server_ctx_def)

theorem channel_message_intact_witness:
  "\<exists>cipher s1 sB'. ss_send test_os 0 4 [1, 2, 3] (test_state (Some test_enc) []) = Some (plain_send test_os 4 cipher s1) \<and>
    ss_recv test_os 0 4 4096 (test_state (Some test_enc) cipher) = Some (Some [1, 2, 3], sB')"
proof -
  have ok: "enc_ok test_enc" by (simp add: test_enc_def)
  obtain cipher e' s1 where c: "ss_send test_os 0 4 [1, 2, 3] (test_state (Some test_enc) []) = Some (plain_send test_os 4 cipher s1)"
    "length cipher = length [1, 2, 3 :: u8]"
    "\<forall>sB b fdB k w. conn_enc sB b = Some test_enc \<and> os_recv test_os (sys sB) fdB k = (Some cipher, w) \<longrightarrow>
      (\<exists>sB'. ss_recv test_os b fdB k sB = Some (Some [1, 2, 3], sB') \<and> conn_enc sB' b = Some e')"
    using channel_message_intact [OF test_conn_enc ok, of "[1, 2, 3]" test_os 4 "[]" test_os] by auto
  have "\<exists>w. os_recv test_os (sys (test_state (Some test_enc) cipher)) 4 4096 = (Some cipher, w)"
    using c(2) by (simp add: test_os_def test_state_def server_ctx_def)
  with c(1,3) test_conn_enc [of test_enc cipher] show ?thesis by blast
qed

text \<open>
  The two directions share one keystream: \<open>encry_send\<close> calls \<open>ss_decrypt\<close>, so sending and receiving advance the same position.
  When the two ends send at the same time, both messages are corrupted: with the XOR key \<open>ab\<close>, two ends in the same state that both
  send the byte 1 before receiving both receive the byte 2.
\<close>

theorem channel_crossing_corrupts:
  "\<exists>s1 s2. ss_send test_os 0 4 [1] (test_state (Some test_enc) []) = Some (1, False, s1) \<and> log s1 = [Opened 3, Sent 4 [96]] \<and>
    ss_recv test_os 0 4 1 (s1\<lparr>sys := (sys s1)\<lparr>inbox := (\<lambda>_. [])(4 := [96])\<rparr>\<rparr>) = Some (Some [2], s2)"
proof -
  let ?e = "\<lambda>n. Xor_enc \<lparr>encry_loc = 0, decry_loc = n, xor_key_len = 2, xor_key = [97, 98]\<rparr>"
  have 1: "ss_decrypt test_enc [1] = Some ([96], ?e 1)" "ss_decrypt (?e 1) [96] = Some ([2], ?e 0)"
    by (simp_all add: test_enc_def xor_decrypt_def xor_encrypt_def)
  obtain s0 where 0: "ss_send test_os 0 4 [1] (test_state (Some test_enc) []) = Some (plain_send test_os 4 [96] s0)"
    "conn_enc s0 0 = Some (?e 1)" "log s0 = log (test_state (Some test_enc) [])"
    using ss_send_enciphered [OF test_conn_enc 1(1)] by blast
  define s1 where "s1 = s0\<lparr>log := [Opened 3, Sent 4 [96]]\<rparr>"
  have s: "plain_send test_os 4 [96] s0 = (1, False, s1)"
    using 0(3) by (simp add: plain_send_def test_os_def s1_def test_state_def server_ctx_def)
  let ?s = "s1\<lparr>sys := (sys s1)\<lparr>inbox := (\<lambda>_. [])(4 := [96])\<rparr>\<rparr>"
  have "conn_enc ?s 0 = Some (?e 1)" using 0(2) by (simp add: conn_enc_def s1_def split: if_splits)
  moreover obtain w where "os_recv test_os (sys ?s) 4 1 = (Some [96], w)" by (simp add: test_os_def)
  ultimately obtain s2 where "ss_recv test_os 0 4 1 ?s = Some (Some [2], s2)"
    using ss_recv_enciphered [OF _ _ _ 1(2), of ?s 0 test_os 4 1 w] by blast
  then show ?thesis using 0(1) s by (auto simp: s1_def)
qed

section \<open>Relaying\<close>

lemma fill_take [simp]: "take (length bs) (buf_bytes (fill_buf bs s)) = bs"
  by (simp add: fill_buf_def)

lemma fill_fields [simp]:
  "sys (fill_buf bs s) = sys s" "log (fill_buf bs s) = log s" "conns (fill_buf bs s) = conns s" "remotes (fill_buf bs s) = remotes s"
  "conn_enc (fill_buf bs s) c = conn_enc s c" "ciphered (fill_buf bs s) = ciphered s"
  by (simp_all add: fill_buf_def conn_enc_def)

text \<open>The connection's encryptor applied: the bytes that come out, and what stays of the connection.\<close>

lemma conn_crypt_decipher:
  assumes "conns s c = Some d" "ciphered s" "conn_ok (ciphered s) d"
  obtains s1 where "conn_crypt c bs s = Some (decipher (conn_enc s c) bs, s1)" "sys s1 = sys s" "log s1 = log s" "io_same s s1"
    "buf_bytes s1 = buf_bytes s"
proof -
  obtain e where e: "conn_encryptor d = Some e" "enc_ok e" using assms(2,3) by (auto simp: conn_ok_def)
  obtain out e' where x: "ss_decrypt e bs = Some (out, e')" using dc.stepE [OF e(2)] by blast
  show thesis using assms(1,2) e(1) x
    by (intro that [of "s\<lparr>conns := (conns s)(c \<mapsto> d\<lparr>conn_encryptor := Some e'\<rparr>)\<rparr>"])
      (simp_all add: conn_crypt_def conn_enc_def decipher_def io_same_def)
qed

lemma ss_recv_bytes:
  assumes "conns s c = Some d" "conn_ok (ciphered s) d" "os_recv os (sys s) fd n = (Some raw, w)" "raw \<noteq> []"
  obtains s1 where "ss_recv os c fd n s = Some (Some (decipher (conn_enc s c) raw), s1)" "sys s1 = w"
    "log s1 = log s @ [Received fd raw]" "io_same s s1"
proof (cases "ciphered s")
  case True
  let ?s = "s\<lparr>sys := w, log := log s @ [Received fd raw]\<rparr>"
  obtain s1 where 1: "conn_crypt c raw ?s = Some (decipher (conn_enc ?s c) raw, s1)" "sys s1 = sys ?s" "log s1 = log ?s" "io_same ?s s1"
    by (rule conn_crypt_decipher [of ?s c d raw]) (use assms(1,2) True in simp_all)
  have "io_same s ?s" "conn_enc ?s c = conn_enc s c" by (simp_all add: io_same_def conn_enc_def)
  then show thesis using True 1 assms(3,4) io_same_trans [OF _ 1(4)]
    by (intro that [of s1]) (simp_all add: ss_recv_def decry_recv_def plain_recv_def)
next
  case False
  then show thesis using assms(3)
    by (intro that [of "s\<lparr>sys := w, log := log s @ [Received fd raw]\<rparr>"])
      (simp_all add: ss_recv_def plain_recv_def conn_enc_def decipher_def io_same_def)
qed

lemma plain_send_all:
  assumes "os_send os (sys s) fd bs = (int (length bs), again, w)"
  obtains s1 where "plain_send os fd bs s = (int (length bs), again, s1)" "sys s1 = w" "log s1 = log s @ [Sent fd bs]" "io_same s s1"
  using assms by (intro that [of "s\<lparr>sys := w, log := log s @ [Sent fd bs]\<rparr>"]) (simp_all add: plain_send_def io_same_def)

lemma ss_send_all:
  assumes "conns s c = Some d" "conn_ok (ciphered s) d"
    and "os_send os (sys s) fd (decipher (conn_enc s c) bs) = (int (length bs), again, w)"
  obtains s1 where "ss_send os c fd bs s = Some (int (length bs), again, s1)" "sys s1 = w"
    "log s1 = log s @ [Sent fd (decipher (conn_enc s c) bs)]" "io_same s s1"
proof (cases "ciphered s")
  case True
  let ?out = "decipher (conn_enc s c) bs"
  obtain e where e: "conn_encryptor d = Some e" "enc_ok e" using assms(2) True by (auto simp: conn_ok_def)
  then have len: "length ?out = length bs" using assms(1) True by (intro length_decipher) (simp add: conn_enc_def)
  obtain s1 where 1: "conn_crypt c bs s = Some (?out, s1)" "sys s1 = sys s" "log s1 = log s" "io_same s s1"
    by (rule conn_crypt_decipher [OF assms(1) True assms(2)])
  obtain s2 where 2: "plain_send os fd ?out (fill_buf ?out s1) = (int (length ?out), again, s2)" "sys s2 = w"
    "log s2 = log s @ [Sent fd ?out]" "io_same (fill_buf ?out s1) s2"
    by (rule plain_send_all [of os "fill_buf ?out s1" fd ?out again w]) (use assms(3) 1(2,3) len in simp_all)
  have "io_same s1 (fill_buf ?out s1)" by (simp add: io_same_def fill_buf_def)
  then have "io_same s s2" using io_same_trans [OF 1(4)] io_same_trans 2(4) by blast
  then show thesis using True 1 2 len by (intro that [of s2]) (simp_all add: ss_send_def encry_send_def)
next
  case False
  have "decipher (conn_enc s c) bs = bs" using False by (simp add: conn_enc_def decipher_def)
  moreover obtain s1 where "plain_send os fd bs s = (int (length bs), again, s1)" "sys s1 = w" "log s1 = log s @ [Sent fd bs]" "io_same s s1"
    by (rule plain_send_all [of os s fd bs again w]) (use assms(3) calculation in simp_all)
  ultimately show thesis using False by (intro that [of s1]) (simp_all add: ss_send_def)
qed

text \<open>A state with a relayed connection: client on descriptor 4, target on descriptor 5.\<close>

definition test_relay :: "u8 list \<Rightarrow> test_world ss_server_ctx" where
  "test_relay bs =
    (let s = test_state None bs; h = rings s;
         h1 = the (list_add (Conn_node 0) Conn_head h); h2 = the (list_add (Remote_node 1) Remote_head h1)
     in s\<lparr>sys := (sys s)\<lparr>open_fds := {0, 1, 2, 3, 4, 5}, fresh_fd := 6\<rparr>, rfds := {3, 4, 5}, max_fd := 5, conn_count := 1, next_block := 2,
          rings := h2, conns := [0 \<mapsto> (test_conn None)\<lparr>ss_conn_state := CONNECTING, remote := Some 1\<rparr>],
          remotes := [1 \<mapsto> \<lparr>remote_fd = 5, conn_entry = Some 0, remote_mask = AE_READABLE, remote_proc = remote_event\<rparr>]\<rparr>)"

lemma test_relay_inv: "ss_inv open_fds {0, 1, 2} (test_relay bs)"
proof (rule ss_invI)
  let ?h = "rings (test_state None bs)"
  let ?s = "test_relay bs"
  have c: "clist ?h Conn_head (map Conn_node [])" "clist ?h Remote_head (map Remote_node [])"
    using init_lists by (auto simp: lists_ok_def test_state_def server_ctx_def)
  obtain h1 where 1: "list_add (Conn_node 0) Conn_head ?h = Some h1" "clist h1 Conn_head [Conn_node 0]" "clist h1 Remote_head (map Remote_node [])"
    using c by (rule kl.push_beside [of _ _ _ _ _ "Conn_node 0"]) auto
  obtain h2 where 2: "list_add (Remote_node 1) Remote_head h1 = Some h2" "clist h2 Remote_head [Remote_node 1]" "clist h2 Conn_head [Conn_node 0]"
    using 1(3,2) by (rule kl.push_beside [of _ _ _ _ _ "Remote_node 1"]) auto
  have s: "rings ?s = h2" using 1(1) 2(1) by (simp add: test_relay_def Let_def)
  note d = test_relay_def Let_def test_state_def test_conn_def server_ctx_def remote_event_def
  show "lists_ok [0] [1] ?s" unfolding lists_ok_def s using 2(2,3) by (auto simp: d)
  show "links_ok (conns ?s) (remotes ?s)" by (auto simp: links_ok_def d split: if_splits)
  show "ctxs_ok ?s" by (auto simp: ctxs_ok_def conn_ok_def remote_ok_def null_event_def d split: if_splits)
  have "owns ?s p f \<longleftrightarrow> (p, f) \<in> {(SS_SERVER_CTX, 3), (SS_CONN_CTX 0, 4), (SS_REMOTE_CTX 1, 5)}" for p f
    by (cases p) (auto simp: d)
  then show "fds_ok (owns ?s) (rfds ?s) (max_fd ?s) {0, 1, 2} (open_fds (sys ?s))"
    by (auto simp: fds_ok_def FD_SETSIZE_def d)
qed

text \<open>What arrives from a connected client is deciphered and passed to \<open>send\<close> for its target; when all of it is sent, both contexts stay.\<close>

lemma srv_client_relays:
  assumes "ss_inv live B s" "conns s c = Some d" "remote d = Some r" "remotes s r = Some rd" "raw \<noteq> []"
    and "os_recv os (sys s) (conn_fd d) 4096 = (Some raw, w)" "\<And>to bs. os_send os w to bs = (int (length bs), again, w')"
  shows "\<exists>s'. srv_client_to_remote os c s = Some s' \<and> sys s' = w' \<and> c \<in> dom (conns s') \<and> r \<in> dom (remotes s') \<and>
    log s' = log s @ [Received (conn_fd d) raw, Sent (remote_fd rd) (decipher (conn_enc s c) raw)]"
proof -
  have k: "conn_ok (ciphered s) d" by (rule ss_inv_conn [OF assms(1,2)])
  let ?out = "decipher (conn_enc s c) raw"
  have out: "length ?out = length raw" using k assms(2)
    by (intro length_decipher) (auto simp: conn_enc_def conn_ok_def split: if_splits)
  obtain s1 where 1: "ss_recv os c (conn_fd d) 4096 s = Some (Some ?out, s1)" "sys s1 = w" "log s1 = log s @ [Received (conn_fd d) raw]" "io_same s s1"
    by (rule ss_recv_bytes [OF assms(2) k assms(6,5)])
  obtain d1 where d1: "conns s1 c = Some d1" "remote d1 = Some r" using io_sameD(1) [OF 1(4) assms(2)] assms(3) by auto
  have r1: "remotes s1 r = Some rd" using io_sameD(2) [OF 1(4)] assms(4) by simp
  obtain s2 where 2: "plain_send os (remote_fd rd) ?out (fill_buf ?out s1) = (int (length ?out), again, s2)" "sys s2 = w'"
    "log s2 = log s1 @ [Sent (remote_fd rd) ?out]" "io_same (fill_buf ?out s1) s2"
    by (rule plain_send_all [of os "fill_buf ?out s1"]) (use assms(7) 1(2) in simp_all)
  have "?out \<noteq> []" using out assms(5) by auto
  then have "srv_client_to_remote os c s = Some s2" using assms(2,3) 1(1) 2(1) d1 r1 ss_inv_buf [OF assms(1)]
    by (simp add: srv_client_to_remote_def after_send_def Let_def del: bind_Some_iff)
  moreover have "c \<in> dom (conns s2)" "r \<in> dom (remotes s2)"
    using io_same_dom [OF 2(4)] io_sameD(2) [OF 2(4)] d1(1) r1 by auto
  ultimately show ?thesis using 1(3) 2(2,3) by auto
qed

text \<open>What arrives from the target is enciphered with the connection's encryptor, or left alone when there is none, and passed to \<open>send\<close> for the client.\<close>

lemma srv_remote_relays:
  assumes "ss_inv live B s" "conns s c = Some d" "remote d = Some r" "remotes s r = Some rd" "raw \<noteq> []"
    and "os_recv os (sys s) fd 4096 = (Some raw, w)" "\<And>to bs. os_send os w to bs = (int (length bs), again, w')"
  shows "\<exists>s'. srv_remote_io_handle os r fd s = Some s' \<and> sys s' = w' \<and> c \<in> dom (conns s') \<and> r \<in> dom (remotes s') \<and>
    log s' = log s @ [Received fd raw, Sent (conn_fd d) (decipher (conn_enc s c) raw)]"
proof -
  have k: "conn_ok (ciphered s) d" by (rule ss_inv_conn [OF assms(1,2)])
  let ?out = "decipher (conn_enc s c) raw"
  have out: "length ?out = length raw" using k assms(2)
    by (intro length_decipher) (auto simp: conn_enc_def conn_ok_def split: if_splits)
  define s1 where "s1 = s\<lparr>sys := w, log := log s @ [Received fd raw]\<rparr>"
  have c: "conn_entry rd = Some c" using links_okD(1) [OF ss_inv_links [OF assms(1)] assms(2,3)] assms(4) by auto
  have e: "conn_enc s1 c = conn_enc s c" "conns s1 = conns s" "ciphered s1 = ciphered s" "sys s1 = w"
    by (simp_all add: conn_enc_def s1_def)
  obtain s2 where 2: "ss_send os c (conn_fd d) raw (fill_buf raw s1) = Some (int (length raw), again, s2)" "sys s2 = w'"
    "log s2 = log s1 @ [Sent (conn_fd d) ?out]" "io_same (fill_buf raw s1) s2"
    by (rule ss_send_all [of "fill_buf raw s1" c d os "conn_fd d" raw again w']) (use assms(2,7) k e out in simp_all)
  have "srv_remote_io_handle os r fd s = Some s2" using assms(2,4,5,6) c 2(1) ss_inv_buf [OF assms(1)]
    by (simp add: srv_remote_io_handle_def plain_recv_def s1_def [symmetric] Let_def del: bind_Some_iff)
      (simp add: s1_def after_send_def)
  moreover have "c \<in> dom (conns s2)" "r \<in> dom (remotes s2)"
    using io_same_dom [OF 2(4)] io_sameD(2) [OF 2(4)] assms(2,4) by (auto simp: s1_def)
  ultimately show ?thesis using 2(2,3) by (auto simp: s1_def)
qed

text \<open>The server relays in both directions without changing the data.\<close>

theorem socks_server_relays:
  assumes "ss_inv live B s" "conns s c = Some d" "remote d = Some r" "remotes s r = Some rd" "raw \<noteq> []"
    and "os_recv os (sys s) fd 4096 = (Some raw, w)" "\<And>to bs. os_send os w to bs = (int (length bs), again, w')"
  shows "(fd = conn_fd d \<longrightarrow> (\<exists>s'. srv_client_to_remote os c s = Some s' \<and> sys s' = w' \<and> c \<in> dom (conns s') \<and> r \<in> dom (remotes s') \<and>
      log s' = log s @ [Received fd raw, Sent (remote_fd rd) (decipher (conn_enc s c) raw)])) \<and>
    (fd = remote_fd rd \<longrightarrow> (\<exists>s'. srv_remote_io_handle os r fd s = Some s' \<and> sys s' = w' \<and> c \<in> dom (conns s') \<and> r \<in> dom (remotes s') \<and>
      log s' = log s @ [Received fd raw, Sent (conn_fd d) (decipher (conn_enc s c) raw)]))"
  using srv_client_relays [OF assms(1-5) _ assms(7)] srv_remote_relays [OF assms(1-6) assms(7)] assms(6) by blast

theorem socks_server_relays_witness:
  "\<exists>s'. srv_client_to_remote test_os 0 (test_relay [104, 105]) = Some s' \<and>
    log s' = log (test_relay [104, 105]) @ [Received 4 [104, 105], Sent 5 [104, 105]]"
proof -
  let ?s = "test_relay [104, 105]"
  have c: "conns ?s 0 = Some ((test_conn None)\<lparr>ss_conn_state := CONNECTING, remote := Some 1\<rparr>)"
    "remotes ?s 1 = Some \<lparr>remote_fd = 5, conn_entry = Some 0, remote_mask = AE_READABLE, remote_proc = remote_event\<rparr>"
    by (simp_all add: test_relay_def Let_def)
  have e: "conn_enc ?s 0 = None" by (simp add: conn_enc_def test_relay_def Let_def test_state_def server_ctx_def)
  obtain w where w: "os_recv test_os (sys ?s) 4 4096 = (Some [104, 105], w)"
    by (simp add: test_os_def test_relay_def Let_def test_state_def server_ctx_def)
  have s: "os_send test_os w to bs = (int (length bs), False, w)" for to bs by (simp add: test_os_def)
  show ?thesis
    using socks_server_relays [OF test_relay_inv c(1) _ c(2) _ w s] e by (auto simp: test_conn_def decipher_def)
qed

text \<open>
  When the target ends its stream, the server closes and frees the remote but neither tells nor closes the client: the connection stays
  open and watched, without remote. The next time that client is readable its connection is closed, and the bytes it sent are not
  even received.
\<close>

theorem srv_remote_end_of_stream:
  assumes "os_laws os live" "ss_inv live B s" "conns s c = Some d" "remote d = Some r" "remotes s r = Some rd"
    and "ss_conn_state d = CONNECTING" "os_recv os (sys s) (remote_fd rd) 4096 = (Some [], w)"
  shows "\<exists>s'. srv_remote_io_handle os r (remote_fd rd) s = Some s' \<and> remotes s' r = None \<and> remote_fd rd \<notin> rfds s' \<and>
    conns s' c = Some (d\<lparr>remote := None\<rparr>) \<and> conn_fd d \<in> rfds s' \<and> conn_fd d \<in> live (sys s') \<and>
    (\<exists>s''. srv_io_handle sb si os c s' = Some s'' \<and> conns s'' c = None \<and> log s'' = log s' @ [Closed (conn_fd d)])"
proof -
  define s1 where "s1 = s\<lparr>sys := w, log := log s @ [Received (remote_fd rd) []]\<rparr>"
  have r1: "plain_recv os (remote_fd rd) 4096 s = (Some [], s1)" using assms(7) by (simp add: plain_recv_def s1_def)
  have i1: "ss_inv live B s1" by (rule plain_recv_ok(1) [OF assms(1,2) r1])
  have entry: "conn_entry rd = Some c" using links_okD(1) [OF ss_inv_links [OF assms(2)] assms(3,4)] assms(5) by auto
  have f1: "remotes s1 r = Some rd" "conns s1 c = Some d" using assms(3,5) by (simp_all add: s1_def)
  obtain s' where s': "ss_del_remote os r s1 = Some s'" "ss_inv live B s'" "remotes s' r = None"
    using ss_del_remote_ok [OF assms(1) i1 f1(1)] by blast
  have h: "srv_remote_io_handle os r (remote_fd rd) s = Some s'"
    using assms(5) entry r1 s'(1) ss_inv_buf [OF assms(2)] by (simp add: srv_remote_io_handle_def)
  have d': "conns s' c = Some (d\<lparr>remote := None\<rparr>)" "rfds s' = rfds s1 - {remote_fd rd}"
    using s'(1) f1 entry ss_inv_remote [OF i1 f1(1)]
    by (auto simp: ss_del_remote_def ss_fd_set_del_fd_def remote_ok_def close_fd_def Let_def split: if_splits)
  have "owns s' (SS_CONN_CTX c) (conn_fd d)" using d'(1) by simp
  then have w: "conn_fd d \<in> rfds s'" using fds_okD(2) [OF ss_inv_fds [OF s'(2)]] by blast
  then have lv: "conn_fd d \<in> live (sys s')" using fds_okD(4) [OF ss_inv_fds [OF s'(2)]] by blast
  obtain s'' where s'': "ss_server_del_conn os c s' = Some s''" "conns s'' c = None"
    using ss_server_del_conn_ok [OF assms(1) s'(2) d'(1)] by blast
  have "log s'' = log s' @ [Closed (conn_fd d)]"
    using s''(1) d'(1) by (auto simp: ss_server_del_conn_def ss_fd_set_del_fd_def close_fd_def Let_def split: if_splits)
  moreover have "srv_io_handle sb si os c s' = Some s''"
    using d'(1) s''(1) assms(6) by (simp add: srv_io_handle_def srv_client_to_remote_def)
  ultimately show ?thesis using h s'(3) d' w lv s''(2) by auto
qed

theorem srv_remote_end_of_stream_witness:
  "\<exists>s' s''. srv_remote_io_handle test_os 1 5 (test_relay [1]) = Some s' \<and> 4 \<in> rfds s' \<and>
    srv_io_handle (\<lambda>_ _. 0) (\<lambda>_. \<lparr>ip = [], info_port = 0\<rparr>) test_os 0 s' = Some s'' \<and> log s'' = log s' @ [Closed 4]"
proof -
  let ?s = "test_relay [1]"
  have c: "conns ?s 0 = Some ((test_conn None)\<lparr>ss_conn_state := CONNECTING, remote := Some 1\<rparr>)"
    "remotes ?s 1 = Some \<lparr>remote_fd = 5, conn_entry = Some 0, remote_mask = AE_READABLE, remote_proc = remote_event\<rparr>"
    by (simp_all add: test_relay_def Let_def)
  have w: "os_recv test_os (sys ?s) (remote_fd \<lparr>remote_fd = 5, conn_entry = Some 0, remote_mask = AE_READABLE, remote_proc = remote_event\<rparr>) 4096 =
      (Some [], (sys ?s)\<lparr>inbox := (inbox (sys ?s))(5 := [])\<rparr>)"
    by (simp add: test_os_def test_relay_def Let_def test_state_def server_ctx_def)
  show ?thesis
    using srv_remote_end_of_stream [OF test_os_laws test_relay_inv c(1) _ c(2) _ w, of "\<lambda>_ _. 0" "\<lambda>_. \<lparr>ip = [], info_port = 0\<rparr>"]
    by (auto simp: test_conn_def)
qed

text \<open>
  A client whose first four bytes are not the start of a SOCKS5 CONNECT request is disconnected without an answer; so is one of which
  \<open>recv\<close> returns fewer than four bytes at once, even when the rest of the request is on its way.
\<close>

theorem srv_refuses_request:
  assumes "os_laws os live" "ss_inv live B s" "conns s c = Some d" "ss_conn_state d = OPENING"
    and "ss_recv os c (conn_fd d) 4 s = Some (Some bs, s1)"
    and "length bs < 4 \<or> bs ! 0 \<noteq> 5 \<or> bs ! 1 \<noteq> 1 \<or> bs ! 2 \<noteq> 0"
  shows "\<exists>s'. srv_io_handle sb si os c s = Some s' \<and> conns s' c = None \<and> log s' = log s1 @ [Closed (conn_fd d)] \<and> ss_inv live B s'"
proof -
  have r: "ss_inv live B s1" "io_same s s1" "length bs \<le> 4"
    using ss_recv_ok [OF assms(1-3), of "conn_fd d" 4] assms(5) by auto
  define s2 where "s2 = fill_buf bs s1"
  have b: "take (length bs) (buf_bytes s2) = bs" by (simp add: s2_def)
  have nth: "buf_bytes s2 ! i = bs ! i" if "i < length bs" for i using b that by (metis nth_take)
  have "length bs \<noteq> 4 \<or> buf_bytes s2 ! 0 \<noteq> 5 \<or> buf_bytes s2 ! 1 \<noteq> 1 \<or> buf_bytes s2 ! 2 \<noteq> 0"
    using assms(6) nth [of 0] nth [of 1] nth [of 2] by (cases "length bs = 4") auto
  then have g: "ss_get_requests os c junk s = Some (None, s2)" for junk
    using assms(3,5) by (auto simp: ss_get_requests_def Let_def s2_def [symmetric])
  then have q: "ss_request_handle os c junk info s = Some (None, s2)" for junk info by (simp add: ss_request_handle_def)
  have 2: "ss_inv live B s2" "io_same s s2" using fill_buf_recv(1,2) [OF r(1,2), of bs] r(3) by (simp_all add: s2_def)
  obtain d2 where d2: "conns s2 c = Some d2" "conn_fd d2 = conn_fd d" using io_sameD(1) [OF 2(2) assms(3)] by blast
  obtain s' where s': "ss_server_del_conn os c s2 = Some s'" "conns s' c = None" "ss_inv live B s'"
    using ss_server_del_conn_ok [OF assms(1) 2(1) d2(1)] by blast
  have "log s' = log s1 @ [Closed (conn_fd d)]"
    using s'(1) d2 by (auto simp: ss_server_del_conn_def ss_fd_set_del_fd_def close_fd_def Let_def s2_def split: if_splits option.splits)
  moreover have "srv_io_handle sb si os c s = Some s'" using assms(3,4) q s'(1) by (simp add: srv_io_handle_def)
  ultimately show ?thesis using s'(2,3) by blast
qed

text \<open>The state of \<open>test_relay\<close> with its client not yet connected to a target.\<close>

definition test_opening :: "u8 list \<Rightarrow> test_world ss_server_ctx" where
  "test_opening bs =
    (let s = test_state None bs
     in s\<lparr>sys := (sys s)\<lparr>open_fds := {0, 1, 2, 3, 4}, fresh_fd := 5\<rparr>, rfds := {3, 4}, max_fd := 4, conn_count := 1, next_block := 1,
          rings := the (list_add (Conn_node 0) Conn_head (rings s))\<rparr>)"

lemma test_opening_inv: "ss_inv open_fds {0, 1, 2} (test_opening bs)"
proof (rule ss_invI)
  let ?h = "rings (test_state None bs)"
  let ?s = "test_opening bs"
  have c: "clist ?h Conn_head (map Conn_node [])" "clist ?h Remote_head (map Remote_node [])"
    using init_lists by (auto simp: lists_ok_def test_state_def server_ctx_def)
  obtain h1 where 1: "list_add (Conn_node 0) Conn_head ?h = Some h1" "clist h1 Conn_head [Conn_node 0]" "clist h1 Remote_head (map Remote_node [])"
    using c by (rule kl.push_beside [of _ _ _ _ _ "Conn_node 0"]) auto
  have s: "rings ?s = h1" using 1(1) by (simp add: test_opening_def Let_def)
  note d = test_opening_def Let_def test_state_def test_conn_def server_ctx_def
  show "lists_ok [0] [] ?s" unfolding lists_ok_def s using 1(2,3) by (auto simp: d)
  show "links_ok (conns ?s) (remotes ?s)" by (auto simp: links_ok_def d split: if_splits)
  show "ctxs_ok ?s" by (auto simp: ctxs_ok_def conn_ok_def null_event_def d split: if_splits)
  have "owns ?s p f \<longleftrightarrow> (p, f) \<in> {(SS_SERVER_CTX, 3), (SS_CONN_CTX 0, 4)}" for p f by (cases p) (auto simp: d)
  then show "fds_ok (owns ?s) (rfds ?s) (max_fd ?s) {0, 1, 2} (open_fds (sys ?s))"
    by (auto simp: fds_ok_def FD_SETSIZE_def d)
qed

theorem srv_refuses_request_witness:
  "\<exists>s1 s'. ss_recv test_os 0 4 4 (test_opening [4, 1, 0, 1]) = Some (Some [4, 1, 0, 1], s1) \<and>
    srv_io_handle (\<lambda>_ _. 0) (\<lambda>_. \<lparr>ip = [], info_port = 0\<rparr>) test_os 0 (test_opening [4, 1, 0, 1]) = Some s' \<and>
    log s' = log s1 @ [Closed 4]"
proof -
  let ?s = "test_opening [4, 1, 0, 1]"
  have c: "conns ?s 0 = Some (test_conn None)" "ss_conn_state (test_conn None) = OPENING"
    by (simp_all add: test_opening_def Let_def test_state_def test_conn_def)
  obtain s1 where r: "ss_recv test_os 0 (conn_fd (test_conn None)) 4 ?s = Some (Some [4, 1, 0, 1], s1)"
    by (simp add: ss_recv_def plain_recv_def test_os_def test_opening_def Let_def test_state_def server_ctx_def test_conn_def)
  show ?thesis
    using srv_refuses_request [OF test_os_laws test_opening_inv c r, of "\<lambda>_ _. 0" "\<lambda>_. \<lparr>ip = [], info_port = 0\<rparr>"] r
    by (auto simp: test_conn_def)
qed

text \<open>
  C31. \<open>ss_poll\<close> reports every ready context exactly once and no other: when \<open>select\<close> returns a set of ready descriptors, the events are,
  without repetition, the contexts that own one of them, and they fit into \<open>fd_state\<close>; when \<open>select\<close> fails there are none.
\<close>

theorem ss_poll_reports_ready:
  assumes "os_laws os live" "ss_inv live B s" "os_select os (sys s) (max_fd s + 1) (rfds s) (wfds s) = (rv, ready, w)"
  shows "\<exists>evs s'. ss_poll os s = Some (evs, s') \<and> distinct evs \<and> length evs \<le> 1024 \<and>
    set evs = (if rv \<le> 0 then {} else {p. \<exists>fd \<in> ready. owns s p fd})"
proof -
  obtain evs s' where p: "ss_poll os s = Some (evs, s')" "distinct evs" "set evs = (if rv \<le> 0 then {} else {p. is_ready ready s p})"
    using ss_poll_ok [OF assms] by blast
  have "length evs \<le> 1024"
    by (rule events_bounded [OF assms(2) p(2)]) (use p(3) is_ready_alive in \<open>auto split: if_splits\<close>)
  with p show ?thesis by (auto simp: is_ready_def)
qed

theorem ss_poll_reports_ready_witness:
  "\<exists>evs s'. ss_poll test_os (test_relay [1]) = Some (evs, s') \<and> distinct evs \<and> set evs = {SS_SERVER_CTX, SS_CONN_CTX 0}"
proof -
  let ?s = "test_relay [1]"
  note d = test_relay_def Let_def test_state_def server_ctx_def test_start_def test_conn_def
  have s: "os_select test_os (sys ?s) (max_fd ?s + 1) (rfds ?s) (wfds ?s) = (1, {3, 4}, sys ?s)"
    by (auto simp: test_os_def d)
  have o: "owns ?s p f \<longleftrightarrow> (p, f) \<in> {(SS_SERVER_CTX, 3), (SS_CONN_CTX 0, 4), (SS_REMOTE_CTX 1, 5)}" for p f
    by (cases p) (auto simp: d)
  have "{p. \<exists>fd \<in> {3, 4}. owns ?s p fd} = {SS_SERVER_CTX, SS_CONN_CTX 0}" by (auto simp: o)
  then show ?thesis using ss_poll_reports_ready [OF test_os_laws test_relay_inv s] by auto
qed

end
