(* ===== verification/Socks_Tunnel.thy ===== *)
theory Socks_Tunnel
  imports Socks_Protocol
begin

text \<open>
  The two proxy programs together: what a client sends to the local program arrives at the target of the remote server, and back. Each
  program has its own operating system and its own state; between them is a connection that hands over the bytes in order, cut into
  segments in any way, and so are the connections to the client and to the target.

  The four handlers that pass data on are instances of one contract, the locale \<open>relay\<close>; \<open>tunnel\<close> are the states of the pair that turns of
  both directions reach.
\<close>

section \<open>The encryptor of a connection over several segments\<close>

definition advance :: "ss_encryptor option \<Rightarrow> u8 list \<Rightarrow> ss_encryptor option" where
  "advance k bs = Option.bind k (\<lambda>e. map_option snd (ss_decrypt e bs))"

abbreviation enc_fits :: "ss_encryptor option \<Rightarrow> bool" where
  "enc_fits k \<equiv> (\<forall>e. k = Some e \<longrightarrow> enc_ok e)"

lemma crypt_step:
  assumes "enc_ok e"
  obtains out e' where "ss_decrypt e bs = Some (out, e')" "decipher (Some e) bs = out" "advance (Some e) bs = Some e'" "enc_ok e'"
proof -
  obtain out e' where "ss_decrypt e bs = Some (out, e')" "enc_ok e'" using dc.stepE [OF assms] by blast
  then show thesis by (intro that) (simp_all add: decipher_def advance_def)
qed

lemma advance_fits: "enc_fits k \<Longrightarrow> enc_fits (advance k bs)"
  by (cases k) (auto simp: advance_def dest: dc.ok_step)

lemma crypt_append:
  assumes "enc_fits k"
  shows "decipher k (xs @ ys) = decipher k xs @ decipher (advance k xs) ys" "advance k (xs @ ys) = advance (advance k xs) ys"
proof -
  have "decipher k (xs @ ys) = decipher k xs @ decipher (advance k xs) ys \<and> advance k (xs @ ys) = advance (advance k xs) ys"
  proof (cases k)
    case (Some e)
    with assms have ok: "enc_ok e" by simp
    obtain o1 e1 where 1: "ss_decrypt e xs = Some (o1, e1)" "enc_ok e1" using dc.stepE [OF ok] by blast
    obtain o2 e2 where 2: "ss_decrypt e1 ys = Some (o2, e2)" using dc.stepE [OF 1(2)] by blast
    have "ss_decrypt e (xs @ ys) = Some (o1 @ o2, e2)" by (rule dc.append [OF ok 1(1) 2])
    with 1 2 Some show ?thesis by (simp add: decipher_def advance_def)
  qed (simp add: decipher_def advance_def)
  then show "decipher k (xs @ ys) = decipher k xs @ decipher (advance k xs) ys" "advance k (xs @ ys) = advance (advance k xs) ys"
    by simp_all
qed

text \<open>The other end has the same encryptor and undoes the step.\<close>

lemma crypt_roundtrip:
  assumes "enc_fits k"
  shows "decipher k (decipher k m) = m" "advance k (decipher k m) = advance k m"
proof -
  have "decipher k (decipher k m) = m \<and> advance k (decipher k m) = advance k m"
  proof (cases k)
    case (Some e)
    with assms have ok: "enc_ok e" by simp
    obtain out e' where 1: "ss_decrypt e m = Some (out, e')" using dc.stepE [OF ok] by blast
    from dc.involutive [OF ok 1] 1 Some show ?thesis by (simp add: decipher_def advance_def)
  qed (simp add: decipher_def advance_def)
  then show "decipher k (decipher k m) = m" "advance k (decipher k m) = advance k m" by simp_all
qed

section \<open>A connection and its remote\<close>

text \<open>
  One end of the tunnel: operating system, descriptors open at the start of the program, the two contexts and their descriptors.
\<close>

record 'w side =
  side_os :: "'w os"
  side_live :: "'w \<Rightarrow> int set"
  side_base :: "int set"
  conn :: nat
  rem :: nat
  cfd :: int
  rfd :: int

definition linked :: "'w side \<Rightarrow> 'w ss_server_ctx \<Rightarrow> bool" where
  "linked S s \<longleftrightarrow> ss_inv (side_live S) (side_base S) s \<and>
    (\<exists>d rd. conns s (conn S) = Some d \<and> remote d = Some (rem S) \<and> conn_fd d = cfd S \<and> remotes s (rem S) = Some rd \<and> remote_fd rd = rfd S)"

text \<open>In every state that the two programs reach from their start, a connection with a remote is linked to it.\<close>

lemma inv_linked:
  assumes "ss_inv live B s" "conns s c = Some d" "remote d = Some r"
  shows "\<exists>rd. remotes s r = Some rd \<and>
    linked \<lparr>side_os = os, side_live = live, side_base = B, conn = c, rem = r, cfd = conn_fd d, rfd = remote_fd rd\<rparr> s"
  using links_okD(1) [OF ss_inv_links [OF assms(1)] assms(2,3)] assms by (auto simp: linked_def)

lemma programs_linked:
  assumes "os_laws os live" "key_ok (encry_method opts) (key_arg opts)" "conns s c = Some d" "remote d = Some r"
    and "(parse_options (srv_option os) args (srv_defaults, w) = Inr (opts, w0) \<and> srv_main stack_bytes stack_info os args w n = Running s) \<or>
      (parse_options (loc_option os) args (loc_defaults, w) = Inr (opts, w0) \<and> length (remote_ip opts) < 128 \<and> loc_main os args w n = Running s)"
  shows "\<exists>rd. remotes s r = Some rd \<and>
    linked \<lparr>side_os = os, side_live = live, side_base = live w, conn = c, rem = r, cfd = conn_fd d, rfd = remote_fd rd\<rparr> s"
proof -
  have "ss_inv live (live w) s" using assms(5) srv_main_ok(2) [OF assms(1) _ assms(2)] loc_main_ok(2) [OF assms(1) _ assms(2)] by blast
  then show ?thesis by (rule inv_linked) (fact assms)+
qed

text \<open>What the system provides: the laws, and that \<open>send\<close> takes all bytes.\<close>

definition side_ok :: "'w side \<Rightarrow> bool" where
  "side_ok S \<longleftrightarrow> os_laws (side_os S) (side_live S) \<and> (\<forall>w fd bs. \<exists>again w'. os_send (side_os S) w fd bs = (int (length bs), again, w'))"

abbreviation enc_of :: "'w side \<Rightarrow> 'w ss_server_ctx \<Rightarrow> ss_encryptor option" where
  "enc_of S s \<equiv> conn_enc s (conn S)"

definition sent_on :: "int \<Rightarrow> sys_call list \<Rightarrow> u8 list" where
  "sent_on fd cs = concat (map (\<lambda>c. case c of Sent f bs \<Rightarrow> if f = fd then bs else [] | _ \<Rightarrow> []) cs)"

lemma sent_on_simps [simp]:
  "sent_on fd [] = []" "sent_on fd (xs @ ys) = sent_on fd xs @ sent_on fd ys"
  "sent_on fd (Received f bs # cs) = sent_on fd cs" "sent_on fd (Sent g bs # cs) = (if g = fd then bs else []) @ sent_on fd cs"
  by (simp_all add: sent_on_def)

lemma linked_fits: "linked S s \<Longrightarrow> enc_fits (enc_of S s)"
  by (auto simp: linked_def conn_enc_def conn_ok_def dest!: ss_inv_conn split: if_splits)

lemma linked_fds:
  assumes "linked S s"
  shows "cfd S \<noteq> rfd S"
proof
  assume "cfd S = rfd S"
  with assms have "owns s (SS_CONN_CTX (conn S)) (cfd S)" "owns s (SS_REMOTE_CTX (rem S)) (cfd S)" by (auto simp: linked_def)
  moreover have "fds_ok (owns s) (rfds s) (max_fd s) (side_base S) (side_live S (sys s))" using assms by (auto simp: linked_def intro: ss_inv_fds)
  ultimately show False unfolding fds_ok_def by blast
qed

lemma linked_world: "linked S s \<Longrightarrow> side_live S w = side_live S (sys s) \<Longrightarrow> linked S (s\<lparr>sys := w\<rparr>)"
  by (auto simp: linked_def intro: ss_inv_world)

lemma linked_io_same:
  assumes "linked S s" "io_same s s'" "ss_inv (side_live S) (side_base S) s'"
  shows "linked S s'"
  using assms io_sameD(1,2) [OF assms(2)] unfolding linked_def by metis

text \<open>The encryptor after receiving and after sending.\<close>

lemma conn_crypt_enc:
  assumes "conn_crypt c bs s = Some (out, s')" "ciphered s"
  shows "conn_enc s' c = advance (conn_enc s c) bs"
  using assms by (auto simp: conn_crypt_def conn_enc_def advance_def)

lemma ss_recv_enc:
  assumes "ss_recv os c fd n s = Some (r, s')" "os_recv os (sys s) fd n = (Some raw, w)" "raw \<noteq> []"
  shows "conn_enc s' c = advance (conn_enc s c) raw"
proof (cases "ciphered s")
  case True
  let ?s = "s\<lparr>sys := w, log := log s @ [Received fd raw]\<rparr>"
  from assms True obtain out where "conn_crypt c raw ?s = Some (out, s')"
    by (auto simp: ss_recv_def decry_recv_def plain_recv_def)
  from conn_crypt_enc [OF this] True show ?thesis by (simp add: conn_enc_def)
next
  case False
  with assms show ?thesis by (auto simp: ss_recv_def plain_recv_def conn_enc_def advance_def)
qed

lemma plain_send_enc: "plain_send os fd bs s = (n, again, s') \<Longrightarrow> conn_enc s' c = conn_enc s c"
  by (auto simp: plain_send_def conn_enc_def split: prod.splits)

lemma ss_send_enc:
  assumes "ss_send os c fd bs s = Some (n, again, s')"
  shows "conn_enc s' c = advance (conn_enc s c) bs"
proof (cases "ciphered s")
  case True
  with assms obtain out s1 where 1: "conn_crypt c bs s = Some (out, s1)" "plain_send os fd out (fill_buf out s1) = (n, again, s')"
    by (auto simp: ss_send_def encry_send_def)
  from conn_crypt_enc [OF 1(1) True] plain_send_enc [OF 1(2), of c] show ?thesis by simp
next
  case False
  with assms plain_send_enc [of os fd bs s n again s' c] show ?thesis by (simp add: ss_send_def conn_enc_def advance_def)
qed

section \<open>Passing data on\<close>

text \<open>Segments that arrive one after the other, each read by one call of the handler; other things may happen in the system in between.\<close>

inductive arrives :: "('w side \<Rightarrow> 'w ss_server_ctx \<Rightarrow> 'w ss_server_ctx option) \<Rightarrow> ('w side \<Rightarrow> int) \<Rightarrow> 'w side \<Rightarrow> u8 list list \<Rightarrow>
    'w ss_server_ctx \<Rightarrow> 'w ss_server_ctx \<Rightarrow> bool" for h src S where
  last: "\<lbrakk>side_live S w = side_live S (sys s); os_recv (side_os S) w (src S) 4096 = (Some b, w1); b \<noteq> []; h S (s\<lparr>sys := w\<rparr>) = Some s'\<rbrakk>
    \<Longrightarrow> arrives h src S [b] s s'"
| more: "\<lbrakk>side_live S w = side_live S (sys s); os_recv (side_os S) w (src S) 4096 = (Some b, w1); b \<noteq> []; h S (s\<lparr>sys := w\<rparr>) = Some s1;
     arrives h src S bs s1 s'\<rbrakk> \<Longrightarrow> arrives h src S (b # bs) s s'"

text \<open>The contract of a handler: it sends what it reads, transformed by the encryptor of the connection.\<close>

locale relay =
  fixes handler :: "'w side \<Rightarrow> 'w ss_server_ctx \<Rightarrow> 'w ss_server_ctx option"
    and src dst :: "'w side \<Rightarrow> int"
  assumes relays: "side_ok S \<Longrightarrow> linked S s \<Longrightarrow> os_recv (side_os S) (sys s) (src S) 4096 = (Some raw, w) \<Longrightarrow> raw \<noteq> [] \<Longrightarrow>
    \<exists>s'. handler S s = Some s' \<and> linked S s' \<and> enc_of S s' = advance (enc_of S s) raw \<and>
      log s' = log s @ [Received (src S) raw, Sent (dst S) (decipher (enc_of S s) raw)]"
begin

lemma segment:
  assumes "side_ok S" "linked S s" "side_live S w = side_live S (sys s)" "os_recv (side_os S) w (src S) 4096 = (Some b, w1)" "b \<noteq> []"
    and "handler S (s\<lparr>sys := w\<rparr>) = Some s'"
  shows "linked S s'" "enc_of S s' = advance (enc_of S s) b"
    "log s' = log s @ [Received (src S) b, Sent (dst S) (decipher (enc_of S s) b)]"
  using relays [OF assms(1) linked_world [OF assms(2,3)]] assms(4-6) by (auto simp: conn_enc_def)

text \<open>A segment that can be received is always passed on.\<close>

lemma segment_arrives:
  assumes "side_ok S" "linked S s" "side_live S w = side_live S (sys s)" "os_recv (side_os S) w (src S) 4096 = (Some b, w1)" "b \<noteq> []"
  shows "\<exists>s'. arrives handler src S [b] s s' \<and> log s' = log s @ [Received (src S) b, Sent (dst S) (decipher (enc_of S s) b)]"
proof -
  obtain s' where h: "handler S (s\<lparr>sys := w\<rparr>) = Some s'"
    using relays [OF assms(1) linked_world [OF assms(2,3)]] assms(4,5) by auto
  from arrives.last [where h = handler and src = src, OF assms(3-5) h] segment(3) [OF assms h] show ?thesis by blast
qed

lemma arrives_relayed:
  assumes "arrives handler src S segs s s'" "side_ok S" "linked S s"
  shows "linked S s' \<and> enc_of S s' = advance (enc_of S s) (concat segs) \<and>
    (\<exists>cs. log s' = log s @ cs \<and> sent_on (dst S) cs = decipher (enc_of S s) (concat segs) \<and> (\<forall>fd. fd \<noteq> dst S \<longrightarrow> sent_on fd cs = []))"
  using assms
proof (induction rule: arrives.induct)
  case (last w s b w1 s')
  note seg = segment [OF last.prems last.hyps]
  show ?case using seg by (intro conjI exI [of _ "[Received (src S) b, Sent (dst S) (decipher (enc_of S s) b)]"]) auto
next
  case (more w s b w1 s1 bs s')
  note seg = segment [OF more.prems more.hyps(1-4)]
  from more.IH [OF more.prems(1) seg(1)] obtain cs where cs: "linked S s'" "enc_of S s' = advance (enc_of S s1) (concat bs)"
    "log s' = log s1 @ cs" "sent_on (dst S) cs = decipher (enc_of S s1) (concat bs)" "\<forall>fd. fd \<noteq> dst S \<longrightarrow> sent_on fd cs = []" by blast
  note app = crypt_append [OF linked_fits [OF more.prems(2)], of b "concat bs"]
  show ?case
  proof (intro conjI exI [of _ "[Received (src S) b, Sent (dst S) (decipher (enc_of S s) b)] @ cs"])
    show "enc_of S s' = advance (enc_of S s) (concat (b # bs))" using cs(2) seg(2) app(2) by simp
    show "log s' = log s @ [Received (src S) b, Sent (dst S) (decipher (enc_of S s) b)] @ cs" using cs(3) seg(3) by simp
    show "sent_on (dst S) ([Received (src S) b, Sent (dst S) (decipher (enc_of S s) b)] @ cs) = decipher (enc_of S s) (concat (b # bs))"
      using cs(4) seg(2) app(1) by simp
    show "\<forall>fd. fd \<noteq> dst S \<longrightarrow> sent_on fd ([Received (src S) b, Sent (dst S) (decipher (enc_of S s) b)] @ cs) = []" using cs(5) by simp
  qed (rule cs(1))
qed

end

text \<open>The handlers of the two programs, in both directions.\<close>

definition srv_up :: "'w side \<Rightarrow> 'w ss_server_ctx \<Rightarrow> 'w ss_server_ctx option" where
  "srv_up S = srv_client_to_remote (side_os S) (conn S)"

definition srv_down :: "'w side \<Rightarrow> 'w ss_server_ctx \<Rightarrow> 'w ss_server_ctx option" where
  "srv_down S = srv_remote_io_handle (side_os S) (rem S) (rfd S)"

definition loc_up :: "'w side \<Rightarrow> 'w ss_server_ctx \<Rightarrow> 'w ss_server_ctx option" where
  "loc_up S = loc_client_to_remote (side_os S) (conn S)"

definition loc_down :: "'w side \<Rightarrow> 'w ss_server_ctx \<Rightarrow> 'w ss_server_ctx option" where
  "loc_down S = loc_remote_io_handle (side_os S) (rem S) (rfd S)"

text \<open>Deciphering on receipt, then sending; and sending enciphered what was received in the clear.\<close>

lemma io_same_fill: "io_same s (fill_buf bs s)"
  by (simp add: io_same_def fill_buf_def)

lemma receive_then_send:
  assumes "side_ok S" "linked S s" "os_recv (side_os S) (sys s) fd 4096 = (Some raw, w)" "raw \<noteq> []"
  obtains s1 again s3 where "ss_recv (side_os S) (conn S) fd 4096 s = Some (Some (decipher (enc_of S s) raw), s1)" "io_same s s1"
    "plain_send (side_os S) to (decipher (enc_of S s) raw) (fill_buf (decipher (enc_of S s) raw) s1) = (int (length raw), again, s3)"
    "io_same s s3" "enc_of S s3 = advance (enc_of S s) raw" "log s3 = log s @ [Received fd raw, Sent to (decipher (enc_of S s) raw)]"
    "length (decipher (enc_of S s) raw) = length raw"
proof -
  let ?out = "decipher (enc_of S s) raw"
  obtain d where d: "conns s (conn S) = Some d" "conn_ok (ciphered s) d" using assms(2) by (auto simp: linked_def dest: ss_inv_conn)
  have len: "length ?out = length raw" using linked_fits [OF assms(2)] by (intro length_decipher) blast
  obtain s1 where 1: "ss_recv (side_os S) (conn S) fd 4096 s = Some (Some ?out, s1)" "sys s1 = w" "log s1 = log s @ [Received fd raw]" "io_same s s1"
    by (rule ss_recv_bytes [OF d assms(3,4)])
  obtain again w' where snd: "os_send (side_os S) w to ?out = (int (length ?out), again, w')" using assms(1) unfolding side_ok_def by blast
  obtain s3 where 3: "plain_send (side_os S) to ?out (fill_buf ?out s1) = (int (length ?out), again, s3)" "log s3 = log s1 @ [Sent to ?out]"
    "io_same (fill_buf ?out s1) s3"
    by (rule plain_send_all [of "side_os S" "fill_buf ?out s1" to ?out again w']) (use snd 1(2) in simp_all)
  have "io_same s s3" by (rule io_same_trans [OF 1(4) io_same_trans [OF io_same_fill 3(3)]])
  moreover have "enc_of S s3 = advance (enc_of S s) raw" using ss_recv_enc [OF 1(1) assms(3,4)] plain_send_enc [OF 3(1)] by simp
  ultimately show thesis using 1 3 len by (intro that [of s1 again s3]) simp_all
qed

lemma receive_then_encipher:
  assumes "side_ok S" "linked S s" "os_recv (side_os S) (sys s) fd 4096 = (Some raw, w)" "raw \<noteq> []"
  obtains s1 again s3 where "plain_recv (side_os S) fd 4096 s = (Some raw, s1)" "conns s1 = conns s" "remotes s1 = remotes s"
    "ss_send (side_os S) (conn S) to raw (fill_buf raw s1) = Some (int (length raw), again, s3)"
    "io_same s s3" "enc_of S s3 = advance (enc_of S s) raw" "log s3 = log s @ [Received fd raw, Sent to (decipher (enc_of S s) raw)]"
proof -
  define s1 where "s1 = s\<lparr>sys := w, log := log s @ [Received fd raw]\<rparr>"
  obtain d where d: "conns s (conn S) = Some d" "conn_ok (ciphered s) d" using assms(2) by (auto simp: linked_def dest: ss_inv_conn)
  have e: "enc_of S s1 = enc_of S s" by (simp add: s1_def conn_enc_def)
  have len: "length (decipher (enc_of S s) raw) = length raw" using linked_fits [OF assms(2)] by (intro length_decipher) blast
  obtain again w' where snd: "os_send (side_os S) w to (decipher (enc_of S s) raw) = (int (length raw), again, w')"
    using assms(1) len unfolding side_ok_def by metis
  obtain s3 where 3: "ss_send (side_os S) (conn S) to raw (fill_buf raw s1) = Some (int (length raw), again, s3)"
    "log s3 = log s1 @ [Sent to (decipher (enc_of S s) raw)]" "io_same (fill_buf raw s1) s3"
    by (rule ss_send_all [of "fill_buf raw s1" "conn S" d "side_os S" to raw again w']) (use d e snd in \<open>simp_all add: s1_def\<close>)
  have "io_same s s1" by (simp add: io_same_def s1_def)
  then have "io_same s s3" by (rule io_same_trans [OF _ io_same_trans [OF io_same_fill 3(3)]])
  moreover have "plain_recv (side_os S) fd 4096 s = (Some raw, s1)" using assms(3) by (simp add: plain_recv_def s1_def)
  moreover have "enc_of S s3 = advance (enc_of S s) raw" using ss_send_enc [OF 3(1)] e by simp
  ultimately show thesis using 3 by (intro that [of s1 again s3]) (simp_all add: s1_def)
qed

lemma linkedE:
  assumes "linked S s"
  obtains d rd where "conns s (conn S) = Some d" "remote d = Some (rem S)" "conn_fd d = cfd S" "remotes s (rem S) = Some rd" "remote_fd rd = rfd S"
    "conn_entry rd = Some (conn S)" "length (buf_bytes s) = 4096" "ss_inv (side_live S) (side_base S) s"
proof -
  obtain d rd where d: "conns s (conn S) = Some d" "remote d = Some (rem S)" "conn_fd d = cfd S" "remotes s (rem S) = Some rd" "remote_fd rd = rfd S"
    and i: "ss_inv (side_live S) (side_base S) s" using assms by (auto simp: linked_def)
  moreover have "conn_entry rd = Some (conn S)" using links_okD(1) [OF ss_inv_links [OF i] d(1,2)] d(4) by auto
  ultimately show thesis using ss_inv_buf [OF i] by (intro that) auto
qed

lemma relayed:
  assumes "linked S s" "x = Some s3" "step_ok (side_live S) (side_base S) C R s x" "io_same s s3"
  shows "linked S s3"
  using assms linked_io_same by (auto simp: step_ok_def)

lemma after_send_all [simp]: "after_send del n (int n, again, s) = Some s"
  by (simp add: after_send_def)

interpretation su: relay srv_up cfd rfd
proof (unfold_locales, goal_cases)
  case (1 S s raw w)
  let ?out = "decipher (enc_of S s) raw"
  from 1(2) obtain d rd where d: "conns s (conn S) = Some d" "remote d = Some (rem S)" "conn_fd d = cfd S" "remotes s (rem S) = Some rd" "remote_fd rd = rfd S"
    "length (buf_bytes s) = 4096" "ss_inv (side_live S) (side_base S) s" by (rule linkedE)
  obtain s1 again s3 where 1: "ss_recv (side_os S) (conn S) (cfd S) 4096 s = Some (Some ?out, s1)" "io_same s s1"
    "plain_send (side_os S) (rfd S) ?out (fill_buf ?out s1) = (int (length raw), again, s3)" "io_same s s3" "enc_of S s3 = advance (enc_of S s) raw"
    "log s3 = log s @ [Received (cfd S) raw, Sent (rfd S) ?out]" "length ?out = length raw"
    by (rule receive_then_send [OF 1])
  obtain d1 where d1: "conns s1 (conn S) = Some d1" "remote d1 = Some (rem S)" using io_sameD(1) [OF 1(2) d(1)] d(2) by auto
  have "?out \<noteq> []" using 1(7) \<open>raw \<noteq> []\<close> by auto
  then have h: "srv_up S s = Some s3" using d 1(1-6) d1 io_sameD(2) [OF 1(2)]
    by (simp add: 1(7) [symmetric] srv_up_def srv_client_to_remote_def Let_def del: bind_Some_iff)
  moreover have "linked S s3"
    by (rule relayed [OF \<open>linked S s\<close> h _ 1(4)]) (use srv_client_to_remote_ok [OF _ d(7,1)] \<open>side_ok S\<close> in \<open>auto simp: srv_up_def side_ok_def\<close>)
  ultimately show ?case using 1(5,6) by blast
qed

interpretation ld: relay loc_down rfd cfd
proof (unfold_locales, goal_cases)
  case (1 S s raw w)
  let ?out = "decipher (enc_of S s) raw"
  from 1(2) obtain d rd where d: "conns s (conn S) = Some d" "remote d = Some (rem S)" "conn_fd d = cfd S" "remotes s (rem S) = Some rd" "remote_fd rd = rfd S"
    "length (buf_bytes s) = 4096" "ss_inv (side_live S) (side_base S) s" "conn_entry rd = Some (conn S)" by (rule linkedE)
  obtain s1 again s3 where 1: "ss_recv (side_os S) (conn S) (rfd S) 4096 s = Some (Some ?out, s1)" "io_same s s1"
    "plain_send (side_os S) (cfd S) ?out (fill_buf ?out s1) = (int (length raw), again, s3)" "io_same s s3" "enc_of S s3 = advance (enc_of S s) raw"
    "log s3 = log s @ [Received (rfd S) raw, Sent (cfd S) ?out]" "length ?out = length raw"
    by (rule receive_then_send [OF 1])
  obtain d1 where d1: "conns s1 (conn S) = Some d1" "conn_fd d1 = cfd S" using io_sameD(1) [OF 1(2) d(1)] d(3) by auto
  have "?out \<noteq> []" using 1(7) \<open>raw \<noteq> []\<close> by auto
  then have h: "loc_down S s = Some s3" using d 1(1-6) d1
    by (simp add: 1(7) [symmetric] loc_down_def loc_remote_io_handle_def Let_def del: bind_Some_iff)
  moreover have "linked S s3"
    by (rule relayed [OF \<open>linked S s\<close> h _ 1(4)]) (use loc_remote_io_ok [OF _ d(7,4)] \<open>side_ok S\<close> in \<open>auto simp: loc_down_def side_ok_def\<close>)
  ultimately show ?case using 1(5,6) by blast
qed

interpretation sd: relay srv_down rfd cfd
proof (unfold_locales, goal_cases)
  case (1 S s raw w)
  from 1(2) obtain d rd where d: "conns s (conn S) = Some d" "remote d = Some (rem S)" "conn_fd d = cfd S" "remotes s (rem S) = Some rd" "remote_fd rd = rfd S"
    "length (buf_bytes s) = 4096" "ss_inv (side_live S) (side_base S) s" "conn_entry rd = Some (conn S)" by (rule linkedE)
  obtain s1 again s3 where 1: "plain_recv (side_os S) (rfd S) 4096 s = (Some raw, s1)" "conns s1 = conns s" "remotes s1 = remotes s"
    "ss_send (side_os S) (conn S) (cfd S) raw (fill_buf raw s1) = Some (int (length raw), again, s3)" "io_same s s3"
    "enc_of S s3 = advance (enc_of S s) raw" "log s3 = log s @ [Received (rfd S) raw, Sent (cfd S) (decipher (enc_of S s) raw)]"
    by (rule receive_then_encipher [OF 1])
  have h: "srv_down S s = Some s3" using d 1 \<open>raw \<noteq> []\<close>
    by (simp add: srv_down_def srv_remote_io_handle_def Let_def del: bind_Some_iff)
  moreover have "linked S s3"
    by (rule relayed [OF \<open>linked S s\<close> h _ 1(5)]) (use srv_remote_io_ok [OF _ d(7,4)] \<open>side_ok S\<close> in \<open>auto simp: srv_down_def side_ok_def\<close>)
  ultimately show ?case using 1(6,7) by blast
qed

interpretation lu: relay loc_up cfd rfd
proof (unfold_locales, goal_cases)
  case (1 S s raw w)
  from 1(2) obtain d rd where d: "conns s (conn S) = Some d" "remote d = Some (rem S)" "conn_fd d = cfd S" "remotes s (rem S) = Some rd" "remote_fd rd = rfd S"
    "length (buf_bytes s) = 4096" "ss_inv (side_live S) (side_base S) s" by (rule linkedE)
  obtain s1 again s3 where 1: "plain_recv (side_os S) (cfd S) 4096 s = (Some raw, s1)" "conns s1 = conns s" "remotes s1 = remotes s"
    "ss_send (side_os S) (conn S) (rfd S) raw (fill_buf raw s1) = Some (int (length raw), again, s3)" "io_same s s3"
    "enc_of S s3 = advance (enc_of S s) raw" "log s3 = log s @ [Received (cfd S) raw, Sent (rfd S) (decipher (enc_of S s) raw)]"
    by (rule receive_then_encipher [OF 1])
  have h: "loc_up S s = Some s3" using d 1 \<open>raw \<noteq> []\<close>
    by (simp add: loc_up_def loc_client_to_remote_def Let_def del: bind_Some_iff)
  moreover have "linked S s3"
    by (rule relayed [OF \<open>linked S s\<close> h _ 1(5)]) (use loc_client_to_remote_ok [OF _ d(7,1)] \<open>side_ok S\<close> in \<open>auto simp: loc_up_def side_ok_def\<close>)
  ultimately show ?case using 1(6,7) by blast
qed

section \<open>The tunnel\<close>

text \<open>
  The pair of programs: \<open>L\<close> the local program, \<open>S\<close> the remote server. In a turn the segments from the client are passed on by the local program,
  and the bytes it sent on its remote arrive at the remote server, cut in any other way; or the same from the target back. \<open>up\<close> and \<open>down\<close>
  collect what the client and the target sent.
\<close>

inductive tunnel :: "'v side \<Rightarrow> 'w side \<Rightarrow> 'v ss_server_ctx \<Rightarrow> 'w ss_server_ctx \<Rightarrow> 'v ss_server_ctx \<Rightarrow> 'w ss_server_ctx \<Rightarrow> u8 list \<Rightarrow> u8 list \<Rightarrow> bool"
  for L S sl0 ss0 where
  start: "tunnel L S sl0 ss0 sl0 ss0 [] []"
| up: "\<lbrakk>tunnel L S sl0 ss0 sl ss up down; arrives loc_up cfd L ms sl sl'; arrives srv_up cfd S segs ss ss';
     concat segs = sent_on (rfd L) (drop (length (log sl)) (log sl'))\<rbrakk> \<Longrightarrow> tunnel L S sl0 ss0 sl' ss' (up @ concat ms) down"
| down: "\<lbrakk>tunnel L S sl0 ss0 sl ss up down; arrives srv_down rfd S ms ss ss'; arrives loc_down rfd L segs sl sl';
     concat segs = sent_on (cfd S) (drop (length (log ss)) (log ss'))\<rbrakk> \<Longrightarrow> tunnel L S sl0 ss0 sl' ss' up (down @ concat ms)"

lemma turn_passed:
  assumes first: "linked A a' \<and> enc_of A a' = advance (enc_of A a) (concat ms) \<and>
      (\<exists>cs. log a' = log a @ cs \<and> sent_on x cs = decipher (enc_of A a) (concat ms) \<and> (\<forall>fd. fd \<noteq> x \<longrightarrow> sent_on fd cs = []))"
    and second: "linked B b' \<and> enc_of B b' = advance (enc_of B b) (concat segs) \<and>
      (\<exists>cs. log b' = log b @ cs \<and> sent_on y cs = decipher (enc_of B b) (concat segs) \<and> (\<forall>fd. fd \<noteq> y \<longrightarrow> sent_on fd cs = []))"
    and wire: "concat segs = sent_on x (drop (length (log a)) (log a'))" and k: "enc_of A a = k" "enc_of B b = k" "enc_fits k"
  shows "enc_of A a' = enc_of B b' \<and> (\<exists>cs. log a' = log a @ cs \<and> (\<forall>fd. fd \<noteq> x \<longrightarrow> sent_on fd cs = [])) \<and>
    (\<exists>cs. log b' = log b @ cs \<and> sent_on y cs = concat ms \<and> (\<forall>fd. fd \<noteq> y \<longrightarrow> sent_on fd cs = []))"
proof -
  from first wire k have "concat segs = decipher k (concat ms)" by auto
  with first second k crypt_roundtrip [OF k(3), of "concat ms"] show ?thesis by auto
qed

text \<open>The invariant of the pair.\<close>

definition passed :: "'w side \<Rightarrow> 'w ss_server_ctx \<Rightarrow> 'w ss_server_ctx \<Rightarrow> int \<Rightarrow> u8 list \<Rightarrow> bool" where
  "passed A a0 a fd bs \<longleftrightarrow> linked A a \<and> (\<exists>cs. log a = log a0 @ cs \<and> sent_on fd cs = bs)"

lemma passedI: "linked A a' \<Longrightarrow> passed A a0 a fd bs \<Longrightarrow> \<exists>cs. log a' = log a @ cs \<and> sent_on fd cs = bs' \<Longrightarrow> passed A a0 a' fd (bs @ bs')"
  by (auto simp: passed_def)

lemma tunnel_passed:
  assumes "tunnel L S sl0 ss0 sl ss up down" "side_ok L" "side_ok S" "linked L sl0" "linked S ss0" "enc_of L sl0 = enc_of S ss0"
  shows "enc_of L sl = enc_of S ss \<and> passed S ss0 ss (rfd S) up \<and> passed L sl0 sl (cfd L) down"
  using assms(1)
proof (induction rule: tunnel.induct)
  case start
  then show ?case using assms by (simp add: passed_def)
next
  case (up sl ss up down ms sl' segs ss')
  then have i: "linked L sl" "linked S ss" "enc_of S ss = enc_of L sl" by (auto simp: passed_def)
  note a = lu.arrives_relayed [OF up.hyps(2) assms(2) i(1)] and b = su.arrives_relayed [OF up.hyps(3) assms(3) i(2)]
  note t = turn_passed [OF a b up.hyps(4) refl i(3) linked_fits [OF i(1)]]
  have "passed S ss0 ss' (rfd S) (up @ concat ms)" using b t up.IH by (intro passedI [of S ss' ss0 ss]) auto
  moreover have "passed L sl0 sl' (cfd L) (down @ [])" using a t up.IH linked_fds [OF i(1)] by (intro passedI [of L sl' sl0 sl]) auto
  ultimately show ?case using t by simp
next
  case (down sl ss up down ms ss' segs sl')
  then have i: "linked L sl" "linked S ss" "enc_of L sl = enc_of S ss" by (auto simp: passed_def)
  note a = sd.arrives_relayed [OF down.hyps(2) assms(3) i(2)] and b = ld.arrives_relayed [OF down.hyps(3) assms(2) i(1)]
  note t = turn_passed [OF a b down.hyps(4) refl i(3) linked_fits [OF i(2)]]
  have "passed L sl0 sl' (cfd L) (down @ concat ms)" using b t down.IH by (intro passedI [of L sl' sl0 sl]) auto
  moreover have "passed S ss0 ss' (rfd S) (up @ [])" using a t down.IH linked_fds [OF i(2)] by (intro passedI [of S ss' ss0 ss]) auto
  ultimately show ?case using t by simp
qed

text \<open>
  C32. The tunnel is transparent: two linked programs with the same encryptor state, whose systems send all the bytes given to them, hand over
  turn by turn, in any number of turns in both directions and whatever way the connections cut the bytes, exactly what the client sent to the
  target (nothing lost, added or reordered, and in the clear) and exactly what the target sent to the client; in between both programs keep
  their invariants, the connection stays linked to its remote, and the encryptor states of both ends are equal again.
\<close>

theorem socks_tunnel_transparent:
  assumes "side_ok L" "side_ok S" "linked L sl0" "linked S ss0" "enc_of L sl0 = enc_of S ss0" "tunnel L S sl0 ss0 sl ss up down"
  shows "sent_on (rfd S) (drop (length (log ss0)) (log ss)) = up \<and> sent_on (cfd L) (drop (length (log sl0)) (log sl)) = down \<and>
    linked L sl \<and> linked S ss \<and> enc_of L sl = enc_of S ss"
  using tunnel_passed [OF assms(6,1-5)] by (auto simp: passed_def)

definition test_side :: "test_world side" where
  "test_side = \<lparr>side_os = test_os, side_live = open_fds, side_base = {0, 1, 2}, conn = 0, rem = 1, cfd = 4, rfd = 5\<rparr>"

lemma test_side_ok: "side_ok test_side"
  by (simp add: side_ok_def test_side_def test_os_laws) (auto simp: test_os_def)

text \<open>A linked connection with an encryptor of the key \<open>ab\<close>, whose client has sent \<open>bs\<close>.\<close>

definition test_end :: "u8 list \<Rightarrow> test_world ss_server_ctx" where
  "test_end bs = (test_relay bs)\<lparr>ciphered := True, encryptor := Some test_enc,
    conns := [0 \<mapsto> (test_conn (Some test_enc))\<lparr>ss_conn_state := CONNECTING, remote := Some 1\<rparr>]\<rparr>"

lemmas test_end_defs = test_end_def test_relay_def Let_def test_state_def test_conn_def server_ctx_def remote_event_def

lemma test_end_inv: "ss_inv open_fds {0, 1, 2} (test_end bs)"
proof -
  obtain cs rs where i: "lists_ok cs rs (test_relay bs)" "links_ok (conns (test_relay bs)) (remotes (test_relay bs))" "ctxs_ok (test_relay bs)"
    "fds_ok (owns (test_relay bs)) (rfds (test_relay bs)) (max_fd (test_relay bs)) {0, 1, 2} (open_fds (sys (test_relay bs)))"
    using test_relay_inv [of bs] by (rule ss_invE)
  have o: "owns (test_end bs) = owns (test_relay bs)" by (rule owns_eqI) (auto simp: test_end_defs)
  show ?thesis
  proof (rule ss_invI)
    have "dom (conns (test_end bs)) = dom (conns (test_relay bs))" by (simp add: test_end_defs)
    then show "lists_ok cs rs (test_end bs)" using i(1) by (simp add: lists_ok_def test_end_def)
    show "links_ok (conns (test_end bs)) (remotes (test_end bs))" by (auto simp: links_ok_def test_end_defs split: if_splits)
    show "ctxs_ok (test_end bs)"
      by (auto simp: ctxs_ok_def conn_ok_def remote_ok_def null_event_def test_enc_def room_defs test_end_defs split: if_splits)
    show "fds_ok (owns (test_end bs)) (rfds (test_end bs)) (max_fd (test_end bs)) {0, 1, 2} (open_fds (sys (test_end bs)))"
      unfolding o using i(4) by (simp add: test_end_def)
  qed
qed

lemma test_end_linked: "linked test_side (test_end bs)" "enc_of test_side (test_end bs) = Some test_enc"
  using test_end_inv [of bs] by (simp_all add: linked_def test_side_def conn_enc_def test_end_defs)

text \<open>One segment arrives at a linked program, on either side.\<close>

lemma test_arrives:
  assumes "bs \<noteq> []" "length bs \<le> 4096"
  shows "\<exists>s'. arrives loc_up cfd test_side [bs] (test_end bs) s' \<and> log s' = log (test_end bs) @ [Received 4 bs, Sent 5 (decipher (Some test_enc) bs)]"
    "\<exists>s'. arrives srv_up cfd test_side [bs] (test_end bs) s' \<and> log s' = log (test_end bs) @ [Received 4 bs, Sent 5 (decipher (Some test_enc) bs)]"
proof -
  obtain w where w: "os_recv (side_os test_side) (sys (test_end bs)) (cfd test_side) 4096 = (Some bs, w)"
    using assms by (simp add: test_side_def test_os_def test_end_defs)
  have f: "cfd test_side = 4" "rfd test_side = 5" by (simp_all add: test_side_def)
  show "\<exists>s'. arrives loc_up cfd test_side [bs] (test_end bs) s' \<and> log s' = log (test_end bs) @ [Received 4 bs, Sent 5 (decipher (Some test_enc) bs)]"
    using lu.segment_arrives [OF test_side_ok test_end_linked(1) refl w assms(1)] unfolding f test_end_linked(2) .
  show "\<exists>s'. arrives srv_up cfd test_side [bs] (test_end bs) s' \<and> log s' = log (test_end bs) @ [Received 4 bs, Sent 5 (decipher (Some test_enc) bs)]"
    using su.segment_arrives [OF test_side_ok test_end_linked(1) refl w assms(1)] unfolding f test_end_linked(2) .
qed

text \<open>The two bytes that the client sends cross the connection as 9 and 11.\<close>

theorem socks_tunnel_transparent_witness:
  "\<exists>sl ss. tunnel test_side test_side (test_end [104, 105]) (test_end [9, 11]) sl ss [104, 105] [] \<and>
    sent_on 5 (drop (length (log (test_end [9, 11]))) (log ss)) = [104, 105] \<and> linked test_side sl \<and> linked test_side ss"
proof -
  have d: "decipher (Some test_enc) [104, 105] = [9, 11]" by (simp add: decipher_def test_enc_def xor_decrypt_def xor_encrypt_def)
  obtain sl where l: "arrives loc_up cfd test_side [[104, 105]] (test_end [104, 105]) sl"
    "log sl = log (test_end [104, 105]) @ [Received 4 [104, 105], Sent 5 [9, 11]]"
    using test_arrives(1) [of "[104, 105]"] by (auto simp: d)
  obtain ss where s: "arrives srv_up cfd test_side [[9, 11]] (test_end [9, 11]) ss" using test_arrives(2) [of "[9, 11]"] by auto
  have f: "rfd test_side = 5" by (simp add: test_side_def)
  have t: "tunnel test_side test_side (test_end [104, 105]) (test_end [9, 11]) sl ss ([] @ concat [[104, 105]]) []"
    by (rule tunnel.up [OF tunnel.start l(1) s]) (simp add: l(2) f)
  have e: "enc_of test_side (test_end [104, 105]) = enc_of test_side (test_end [9, 11])" by (simp add: test_end_linked(2))
  from socks_tunnel_transparent [OF test_side_ok test_side_ok test_end_linked(1,1) e t] t f show ?thesis by auto
qed

end
