(* ===== verification/Url_Parser.thy ===== *)
theory Url_Parser
  imports Prelude "HOL-Library.Monad_Syntax"
begin

text \<open>
  The URL parser of the HTTP/2 client, \<open>nghttp2_test/client/url-parser/url_parser.c\<close>, in its default
  (\<open>HTTP_PARSER_STRICT\<close>) configuration.

  \<open>parse_url_char\<close> and \<open>http_parse_host_char\<close> are the two byte-wise state machines;
  \<open>http_parser_parse_url\<close> and \<open>http_parse_host\<close> are the loops that turn their transitions into the offsets and
  lengths of the URL's fields, which the C code keeps in 16 bits (\<open>u16\<close>, with its wrap-around). A result is
  \<open>Some (rc, u)\<close>, the return code and the possibly half-written structure, and \<open>None\<close> when an \<open>assert\<close> fails or a
  field to be read leaves the buffer.

  The lemmas show that the parser stays in bounds and never aborts, what an accepted URL guarantees, that parsing inverts
  the rendering of a URL from its parts (\<open>render_url\<close>), and what the 16-bit lengths do to longer inputs.
\<close>

section \<open>Character classes\<close>

text \<open>The bit table \<open>normal_url_char\<close>, one byte per eight characters; the second half of the array is zero.\<close>

definition normal_url_char :: "u8 list" where
  "normal_url_char =
     [0, 0, 0, 0,
      0 OR 2 OR 4 OR 0 OR 16 OR 32 OR 64 OR 128,
      1 OR 2 OR 4 OR 8 OR 16 OR 32 OR 64 OR 128,
      1 OR 2 OR 4 OR 8 OR 16 OR 32 OR 64 OR 128,
      1 OR 2 OR 4 OR 8 OR 16 OR 32 OR 64 OR 0,
      1 OR 2 OR 4 OR 8 OR 16 OR 32 OR 64 OR 128,
      1 OR 2 OR 4 OR 8 OR 16 OR 32 OR 64 OR 128,
      1 OR 2 OR 4 OR 8 OR 16 OR 32 OR 64 OR 128,
      1 OR 2 OR 4 OR 8 OR 16 OR 32 OR 64 OR 128,
      1 OR 2 OR 4 OR 8 OR 16 OR 32 OR 64 OR 128,
      1 OR 2 OR 4 OR 8 OR 16 OR 32 OR 64 OR 128,
      1 OR 2 OR 4 OR 8 OR 16 OR 32 OR 64 OR 128,
      1 OR 2 OR 4 OR 8 OR 16 OR 32 OR 64 OR 0] @ replicate 16 0"

definition BIT_AT :: "u8 list \<Rightarrow> u8 \<Rightarrow> bool" where
  "BIT_AT a i \<longleftrightarrow> (a ! unat (drop_bit 3 i)) AND push_bit (unat (i AND 7)) 1 \<noteq> 0"

definition LOWER :: "u8 \<Rightarrow> u8" where
  "LOWER c = c OR 0x20"

definition IS_ALPHA :: "u8 \<Rightarrow> bool" where
  "IS_ALPHA c \<longleftrightarrow> LOWER c \<ge> ch CHR ''a'' \<and> LOWER c \<le> ch CHR ''z''"

definition IS_NUM :: "u8 \<Rightarrow> bool" where
  "IS_NUM c \<longleftrightarrow> c \<ge> ch CHR ''0'' \<and> c \<le> ch CHR ''9''"

definition IS_ALPHANUM :: "u8 \<Rightarrow> bool" where
  "IS_ALPHANUM c \<longleftrightarrow> IS_ALPHA c \<or> IS_NUM c"

definition IS_HEX :: "u8 \<Rightarrow> bool" where
  "IS_HEX c \<longleftrightarrow> IS_NUM c \<or> (LOWER c \<ge> ch CHR ''a'' \<and> LOWER c \<le> ch CHR ''f'')"

definition IS_MARK :: "u8 \<Rightarrow> bool" where
  "IS_MARK c \<longleftrightarrow> c = ch CHR ''-'' \<or> c = ch CHR ''_'' \<or> c = ch CHR ''.'' \<or> c = ch CHR ''!'' \<or> c = ch CHR ''~'' \<or>
     c = ch CHR ''*'' \<or> c = ch CHR 0x27 \<or> c = ch CHR ''('' \<or> c = ch CHR '')''"

definition IS_USERINFO_CHAR :: "u8 \<Rightarrow> bool" where
  "IS_USERINFO_CHAR c \<longleftrightarrow> IS_ALPHANUM c \<or> IS_MARK c \<or> c = ch CHR ''%'' \<or> c = ch CHR '';'' \<or> c = ch CHR '':'' \<or>
     c = ch CHR ''&'' \<or> c = ch CHR ''='' \<or> c = ch CHR ''+'' \<or> c = ch CHR ''$'' \<or> c = ch CHR '',''"

definition IS_URL_CHAR :: "u8 \<Rightarrow> bool" where
  "IS_URL_CHAR c \<longleftrightarrow> BIT_AT normal_url_char c"

definition IS_HOST_CHAR :: "u8 \<Rightarrow> bool" where
  "IS_HOST_CHAR c \<longleftrightarrow> IS_ALPHANUM c \<or> c = ch CHR ''.'' \<or> c = ch CHR ''-''"

section \<open>The state machines\<close>

datatype state =
    s_dead
  | s_start_req_or_res | s_res_or_resp_H | s_start_res | s_res_H | s_res_HT | s_res_HTT | s_res_HTTP
  | s_res_http_major | s_res_http_dot | s_res_http_minor | s_res_http_end | s_res_first_status_code
  | s_res_status_code | s_res_status_start | s_res_status | s_res_line_almost_done
  | s_start_req
  | s_req_method | s_req_spaces_before_url | s_req_schema | s_req_schema_slash | s_req_schema_slash_slash
  | s_req_server_start | s_req_server | s_req_server_with_at | s_req_path | s_req_query_string_start
  | s_req_query_string | s_req_fragment_start | s_req_fragment
  | s_req_http_start | s_req_http_H | s_req_http_HT | s_req_http_HTT | s_req_http_HTTP | s_req_http_I
  | s_req_http_IC | s_req_http_major | s_req_http_dot | s_req_http_minor | s_req_http_end
  | s_req_line_almost_done
  | s_header_field_start | s_header_field | s_header_value_discard_ws
  | s_header_value_discard_ws_almost_done | s_header_value_discard_lws | s_header_value_start
  | s_header_value | s_header_value_lws
  | s_header_almost_done
  | s_chunk_size_start | s_chunk_size | s_chunk_parameters | s_chunk_size_almost_done
  | s_headers_almost_done | s_headers_done
  | s_chunk_data | s_chunk_data_almost_done | s_chunk_data_done
  | s_body_identity | s_body_identity_eof
  | s_message_done

datatype http_host_state =
    s_http_host_dead | s_http_userinfo_start | s_http_userinfo | s_http_host_start | s_http_host_v6_start
  | s_http_host | s_http_host_v6 | s_http_host_v6_end | s_http_host_v6_zone_start | s_http_host_v6_zone
  | s_http_host_port_start | s_http_host_port

text \<open>The common part of the three server states, where the C code falls through.\<close>

definition parse_server_char :: "u8 \<Rightarrow> state" where
  "parse_server_char c =
    (if c = ch CHR ''/'' then s_req_path
     else if c = ch CHR ''?'' then s_req_query_string_start
     else if c = ch CHR ''@'' then s_req_server_with_at
     else if IS_USERINFO_CHAR c \<or> c = ch CHR ''['' \<or> c = ch CHR '']'' then s_req_server
     else s_dead)"

definition parse_url_char :: "state \<Rightarrow> u8 \<Rightarrow> state" where
  "parse_url_char s c =
    (if c = ch CHR '' '' \<or> c = 13 \<or> c = 10 then s_dead
     else if c = 9 \<or> c = 12 then s_dead
     else (case s of
       s_req_spaces_before_url \<Rightarrow>
         if c = ch CHR ''/'' \<or> c = ch CHR ''*'' then s_req_path
         else if IS_ALPHA c then s_req_schema
         else s_dead
     | s_req_schema \<Rightarrow>
         if IS_ALPHA c then s else if c = ch CHR '':'' then s_req_schema_slash else s_dead
     | s_req_schema_slash \<Rightarrow> if c = ch CHR ''/'' then s_req_schema_slash_slash else s_dead
     | s_req_schema_slash_slash \<Rightarrow> if c = ch CHR ''/'' then s_req_server_start else s_dead
     | s_req_server_with_at \<Rightarrow> if c = ch CHR ''@'' then s_dead else parse_server_char c
     | s_req_server_start \<Rightarrow> parse_server_char c
     | s_req_server \<Rightarrow> parse_server_char c
     | s_req_path \<Rightarrow>
         if IS_URL_CHAR c then s
         else if c = ch CHR ''?'' then s_req_query_string_start
         else if c = ch CHR ''#'' then s_req_fragment_start
         else s_dead
     | s_req_query_string_start \<Rightarrow>
         if IS_URL_CHAR c \<or> c = ch CHR ''?'' then s_req_query_string
         else if c = ch CHR ''#'' then s_req_fragment_start
         else s_dead
     | s_req_query_string \<Rightarrow>
         if IS_URL_CHAR c \<or> c = ch CHR ''?'' then s_req_query_string
         else if c = ch CHR ''#'' then s_req_fragment_start
         else s_dead
     | s_req_fragment_start \<Rightarrow>
         if IS_URL_CHAR c \<or> c = ch CHR ''?'' then s_req_fragment
         else if c = ch CHR ''#'' then s
         else s_dead
     | s_req_fragment \<Rightarrow>
         if IS_URL_CHAR c \<or> c = ch CHR ''?'' \<or> c = ch CHR ''#'' then s else s_dead
     | _ \<Rightarrow> s_dead))"

definition http_parse_host_char :: "http_host_state \<Rightarrow> u8 \<Rightarrow> http_host_state" where
  "http_parse_host_char s c =
    (let after_host = (if c = ch CHR '':'' then s_http_host_port_start else s_http_host_dead);
         in_v6 = (if IS_HEX c \<or> c = ch CHR '':'' \<or> c = ch CHR ''.'' then s_http_host_v6
                  else if s = s_http_host_v6 \<and> c = ch CHR ''%'' then s_http_host_v6_zone_start
                  else s_http_host_dead);
         in_zone = (if IS_ALPHANUM c \<or> c = ch CHR ''%'' \<or> c = ch CHR ''.'' \<or> c = ch CHR ''-'' \<or> c = ch CHR ''_'' \<or>
                       c = ch CHR ''~'' then s_http_host_v6_zone
                    else s_http_host_dead);
         in_userinfo = (if c = ch CHR ''@'' then s_http_host_start
                        else if IS_USERINFO_CHAR c then s_http_userinfo else s_http_host_dead);
         in_port = (if IS_NUM c then s_http_host_port else s_http_host_dead)
     in case s of
       s_http_userinfo \<Rightarrow> in_userinfo
     | s_http_userinfo_start \<Rightarrow> in_userinfo
     | s_http_host_start \<Rightarrow>
         if c = ch CHR ''['' then s_http_host_v6_start
         else if IS_HOST_CHAR c then s_http_host else s_http_host_dead
     | s_http_host \<Rightarrow> if IS_HOST_CHAR c then s_http_host else after_host
     | s_http_host_v6_end \<Rightarrow> after_host
     | s_http_host_v6 \<Rightarrow> if c = ch CHR '']'' then s_http_host_v6_end else in_v6
     | s_http_host_v6_start \<Rightarrow> in_v6
     | s_http_host_v6_zone \<Rightarrow> if c = ch CHR '']'' then s_http_host_v6_end else in_zone
     | s_http_host_v6_zone_start \<Rightarrow> in_zone
     | s_http_host_port \<Rightarrow> in_port
     | s_http_host_port_start \<Rightarrow> in_port
     | _ \<Rightarrow> s_http_host_dead)"

section \<open>The parsed URL\<close>

datatype http_parser_url_fields =
  UF_SCHEMA | UF_HOST | UF_PORT | UF_PATH | UF_QUERY | UF_FRAGMENT | UF_USERINFO | UF_MAX

fun uf_num :: "http_parser_url_fields \<Rightarrow> nat" where
  "uf_num UF_SCHEMA = 0"
| "uf_num UF_HOST = 1"
| "uf_num UF_PORT = 2"
| "uf_num UF_PATH = 3"
| "uf_num UF_QUERY = 4"
| "uf_num UF_FRAGMENT = 5"
| "uf_num UF_USERINFO = 6"
| "uf_num UF_MAX = 7"

record field_range =
  off :: u16
  len :: u16

record http_parser_url =
  field_set :: u16
  port :: u16
  field_data :: "http_parser_url_fields \<Rightarrow> field_range"

definition uf_bit :: "http_parser_url_fields \<Rightarrow> u16" where
  "uf_bit f = push_bit (uf_num f) 1"

definition has_field :: "http_parser_url \<Rightarrow> http_parser_url_fields \<Rightarrow> bool" where
  "has_field u f \<longleftrightarrow> field_set u AND uf_bit f \<noteq> 0"

definition set_off :: "http_parser_url_fields \<Rightarrow> u16 \<Rightarrow> http_parser_url \<Rightarrow> http_parser_url" where
  "set_off f v u = u\<lparr>field_data := (field_data u)(f := (field_data u f)\<lparr>off := v\<rparr>)\<rparr>"

definition set_len :: "http_parser_url_fields \<Rightarrow> u16 \<Rightarrow> http_parser_url \<Rightarrow> http_parser_url" where
  "set_len f v u = u\<lparr>field_data := (field_data u)(f := (field_data u f)\<lparr>len := v\<rparr>)\<rparr>"

definition inc_len :: "http_parser_url_fields \<Rightarrow> http_parser_url \<Rightarrow> http_parser_url" where
  "inc_len f u = set_len f (len (field_data u f) + 1) u"

definition mark_field :: "http_parser_url_fields \<Rightarrow> http_parser_url \<Rightarrow> http_parser_url" where
  "mark_field f u = u\<lparr>field_set := field_set u OR uf_bit f\<rparr>"

definition http_parser_url_init :: http_parser_url where
  "http_parser_url_init = \<lparr>field_set = 0, port = 0, field_data = (\<lambda>_. \<lparr>off = 0, len = 0\<rparr>)\<rparr>"

section \<open>Parsing the host part\<close>

text \<open>The body of the loop after the transition from \<open>s\<close> to \<open>new_s\<close> at offset \<open>p\<close>.\<close>

definition host_record :: "nat \<Rightarrow> http_host_state \<Rightarrow> http_host_state \<Rightarrow> http_parser_url \<Rightarrow> http_parser_url" where
  "host_record p s new_s u =
    (case new_s of
       s_http_host \<Rightarrow>
         inc_len UF_HOST (if s \<noteq> s_http_host then set_off UF_HOST (of_nat p) u else u)
     | s_http_host_v6 \<Rightarrow>
         inc_len UF_HOST (if s \<noteq> s_http_host_v6 then set_off UF_HOST (of_nat p) u else u)
     | s_http_host_v6_zone_start \<Rightarrow> inc_len UF_HOST u
     | s_http_host_v6_zone \<Rightarrow> inc_len UF_HOST u
     | s_http_host_port \<Rightarrow>
         inc_len UF_PORT (if s \<noteq> s_http_host_port
           then mark_field UF_PORT (set_len UF_PORT 0 (set_off UF_PORT (of_nat p) u)) else u)
     | s_http_userinfo \<Rightarrow>
         inc_len UF_USERINFO (if s \<noteq> s_http_userinfo
           then mark_field UF_USERINFO (set_len UF_USERINFO 0 (set_off UF_USERINFO (of_nat p) u)) else u)
     | _ \<Rightarrow> u)"

fun host_loop :: "u8 list \<Rightarrow> nat \<Rightarrow> http_host_state \<Rightarrow> http_parser_url \<Rightarrow> http_parser_url + (http_host_state \<times> http_parser_url)" where
  "host_loop [] p s u = Inr (s, u)"
| "host_loop (c # cs) p s u =
    (let new_s = http_parse_host_char s c in
     if new_s = s_http_host_dead then Inl u
     else host_loop cs (Suc p) new_s (host_record p s new_s u))"

definition host_end_bad :: "http_host_state \<Rightarrow> bool" where
  "host_end_bad s \<longleftrightarrow> s \<in> {s_http_host_start, s_http_host_v6_start, s_http_host_v6, s_http_host_v6_zone_start,
     s_http_host_v6_zone, s_http_host_port_start, s_http_userinfo, s_http_userinfo_start}"

definition http_parse_host :: "u8 list \<Rightarrow> http_parser_url \<Rightarrow> bool \<Rightarrow> (nat \<times> http_parser_url) option" where
  "http_parse_host buf u found_at =
    (let o0 = unat (off (field_data u UF_HOST)); l0 = unat (len (field_data u UF_HOST)) in
     if \<not> has_field u UF_HOST then None
     else if length buf < o0 + l0 then None
     else let s0 = (if found_at then s_http_userinfo_start else s_http_host_start) in
       (case host_loop (slice buf o0 l0) o0 s0 (set_len UF_HOST 0 u) of
          Inl u' \<Rightarrow> Some (1, u')
        | Inr (s, u') \<Rightarrow> Some (if host_end_bad s then 1 else 0, u')))"

section \<open>Parsing the URL\<close>

datatype step_kind = Dead | Skip | In_field http_parser_url_fields | Unexpected

definition state_field :: "state \<Rightarrow> step_kind" where
  "state_field s =
    (case s of
       s_dead \<Rightarrow> Dead
     | s_req_schema_slash \<Rightarrow> Skip
     | s_req_schema_slash_slash \<Rightarrow> Skip
     | s_req_server_start \<Rightarrow> Skip
     | s_req_query_string_start \<Rightarrow> Skip
     | s_req_fragment_start \<Rightarrow> Skip
     | s_req_schema \<Rightarrow> In_field UF_SCHEMA
     | s_req_server_with_at \<Rightarrow> In_field UF_HOST
     | s_req_server \<Rightarrow> In_field UF_HOST
     | s_req_path \<Rightarrow> In_field UF_PATH
     | s_req_query_string \<Rightarrow> In_field UF_QUERY
     | s_req_fragment \<Rightarrow> In_field UF_FRAGMENT
     | _ \<Rightarrow> Unexpected)"

definition enter_field :: "nat \<Rightarrow> http_parser_url_fields \<Rightarrow> http_parser_url_fields \<Rightarrow> http_parser_url \<Rightarrow> http_parser_url" where
  "enter_field p uf old_uf u =
    (if uf = old_uf then inc_len uf u
     else mark_field uf (set_len uf 1 (set_off uf (of_nat p) u)))"

text \<open>
  The loop from offset \<open>p\<close> on: \<open>None\<close> if the assertion fails, \<open>Some (Inl u)\<close> for the early return 1,
  \<open>Some (Inr (found_at, u))\<close> when the whole buffer is consumed.
\<close>

fun url_loop :: "u8 list \<Rightarrow> nat \<Rightarrow> state \<Rightarrow> http_parser_url_fields \<Rightarrow> bool \<Rightarrow> http_parser_url \<Rightarrow>
    (http_parser_url + (bool \<times> http_parser_url)) option" where
  "url_loop [] p s old_uf found_at u = Some (Inr (found_at, u))"
| "url_loop (c # cs) p s old_uf found_at u =
    (let s' = parse_url_char s c in
     case state_field s' of
       Dead \<Rightarrow> Some (Inl u)
     | Skip \<Rightarrow> url_loop cs (Suc p) s' old_uf found_at u
     | In_field uf \<Rightarrow>
         url_loop cs (Suc p) s' uf (found_at \<or> s' = s_req_server_with_at) (enter_field p uf old_uf u)
     | Unexpected \<Rightarrow> None)"

text \<open>The conversion of the port digits: \<open>v\<close> is an \<open>unsigned long\<close>, \<open>*p\<close> a signed \<open>char\<close>.\<close>

fun port_loop :: "u8 list \<Rightarrow> 64 word \<Rightarrow> (64 word) option" where
  "port_loop [] v = Some v"
| "port_loop (c # cs) v =
    (let v' = v * 10 + (scast c - 48) in if v' > 0xffff then None else port_loop cs v')"

definition parse_port :: "u8 list \<Rightarrow> http_parser_url \<Rightarrow> (nat \<times> http_parser_url) option" where
  "parse_port buf u =
    (let o0 = unat (off (field_data u UF_PORT)); l0 = unat (len (field_data u UF_PORT)) in
     if length buf < o0 + l0 then None
     else (case port_loop (slice buf o0 l0) 0 of
             None \<Rightarrow> Some (1, u)
           | Some v \<Rightarrow> Some (0, u\<lparr>port := ucast v\<rparr>)))"

text \<open>What follows the loop: the checks, the host part, the port.\<close>

definition finish_url :: "u8 list \<Rightarrow> bool \<Rightarrow> bool \<Rightarrow> http_parser_url \<Rightarrow> (nat \<times> http_parser_url) option" where
  "finish_url buf is_connect found_at u =
    (if has_field u UF_SCHEMA \<and> \<not> has_field u UF_HOST then Some (1, u)
     else do {
       (rc, u1) \<leftarrow> (if has_field u UF_HOST then http_parse_host buf u found_at else Some (0, u));
       if rc \<noteq> 0 then Some (1, u1)
       else if is_connect \<and> field_set u1 \<noteq> uf_bit UF_HOST OR uf_bit UF_PORT then Some (1, u1)
       else if has_field u1 UF_PORT then parse_port buf u1
       else Some (0, u1) })"

definition http_parser_parse_url :: "u8 list \<Rightarrow> bool \<Rightarrow> http_parser_url \<Rightarrow> (nat \<times> http_parser_url) option" where
  "http_parser_parse_url buf is_connect u0 =
    (if buf = [] then Some (1, u0)
     else do {
       r \<leftarrow> url_loop buf 0 (if is_connect then s_req_server_start else s_req_spaces_before_url) UF_MAX False
              (u0\<lparr>port := 0, field_set := 0\<rparr>);
       (case r of
          Inl u \<Rightarrow> Some (1, u)
        | Inr (found_at, u) \<Rightarrow> finish_url buf is_connect found_at u) })"



section \<open>Character classes as intervals\<close>

lemma all_u8: "\<forall>n \<in> set [0..<256]. P (of_nat n :: u8) \<Longrightarrow> P c"
proof -
  assume *: "\<forall>n \<in> set [0..<256]. P (of_nat n :: u8)"
  have "unat c \<in> set [0..<256]" by simp
  with * have "P (of_nat (unat c))" by blast
  then show "P c" by simp
qed

lemma IS_URL_CHAR_iff: "IS_URL_CHAR c \<longleftrightarrow> 33 \<le> c \<and> c \<le> 126 \<and> c \<noteq> 35 \<and> c \<noteq> 63"
  by (rule all_u8 [where c = c]) code_simp

lemma IS_NUM_iff: "IS_NUM c \<longleftrightarrow> 48 \<le> c \<and> c \<le> 57"
  by (simp add: IS_NUM_def)

lemma IS_ALPHA_iff: "IS_ALPHA c \<longleftrightarrow> 65 \<le> c \<and> c \<le> 90 \<or> 97 \<le> c \<and> c \<le> 122"
  by (rule all_u8 [where c = c]) code_simp

definition printable :: "u8 \<Rightarrow> bool" where
  "printable c \<longleftrightarrow> 33 \<le> c \<and> c \<le> 126"

lemma class_printable:
  "IS_NUM c \<Longrightarrow> printable c" "IS_ALPHA c \<Longrightarrow> printable c" "IS_URL_CHAR c \<Longrightarrow> printable c"
  "IS_MARK c \<Longrightarrow> printable c"
  by (auto simp: printable_def IS_NUM_iff IS_ALPHA_iff IS_URL_CHAR_iff IS_MARK_def elim: order_trans [rotated] order_trans)

lemma USERINFO_printable: "IS_USERINFO_CHAR c \<Longrightarrow> printable c"
  by (auto simp: IS_USERINFO_CHAR_def IS_ALPHANUM_def class_printable) (simp_all add: printable_def)

section \<open>The field table\<close>

lemma has_field_bit: "has_field u f \<longleftrightarrow> bit (field_set u) (uf_num f)"
  using and_exp_eq_0_iff_not_bit [of "field_set u" "uf_num f"]
  by (simp add: has_field_def uf_bit_def push_bit_eq_mult)

lemma uf_num_less: "uf_num f < 16"
  by (cases f) auto

lemma uf_num_eq: "uf_num f = uf_num g \<longleftrightarrow> f = g"
  by (cases f; cases g) auto

lemma has_field_simps [simp]:
  "has_field (mark_field f u) g \<longleftrightarrow> f = g \<or> has_field u g"
  "has_field (set_off f v u) g \<longleftrightarrow> has_field u g"
  "has_field (set_len f v u) g \<longleftrightarrow> has_field u g"
  "has_field (inc_len f u) g \<longleftrightarrow> has_field u g"
  "has_field (u\<lparr>port := w\<rparr>) g \<longleftrightarrow> has_field u g"
  "has_field (u\<lparr>field_set := 0\<rparr>) g \<longleftrightarrow> False"
  using uf_num_less [of g] uf_num_eq [of f g]
  by (auto simp: has_field_bit mark_field_def set_off_def set_len_def inc_len_def uf_bit_def bit_or_iff bit_exp_iff possible_bit_def)

abbreviation foff :: "http_parser_url \<Rightarrow> http_parser_url_fields \<Rightarrow> nat" where
  "foff u f \<equiv> unat (off (field_data u f))"
abbreviation flen :: "http_parser_url \<Rightarrow> http_parser_url_fields \<Rightarrow> nat" where
  "flen u f \<equiv> unat (len (field_data u f))"

lemma field_data_simps [simp]:
  "field_data (mark_field f u) = field_data u"
  "field_data (set_off f v u) g = (if g = f then (field_data u f)\<lparr>off := v\<rparr> else field_data u g)"
  "field_data (set_len f v u) g = (if g = f then (field_data u f)\<lparr>len := v\<rparr> else field_data u g)"
  "field_data (inc_len f u) g = (if g = f then (field_data u f)\<lparr>len := len (field_data u f) + 1\<rparr> else field_data u g)"
  by (auto simp: mark_field_def set_off_def set_len_def inc_len_def)

definition fields_within :: "nat \<Rightarrow> http_parser_url \<Rightarrow> bool" where
  "fields_within n u \<longleftrightarrow> (\<forall>f. has_field u f \<longrightarrow> foff u f + flen u f \<le> n)"

lemma parse_url_char_expected: "state_field (parse_url_char s c) \<noteq> Unexpected"
  by (cases s) (auto simp: parse_url_char_def parse_server_char_def state_field_def)

lemma url_loop_no_abort: "url_loop cs p s old fa u \<noteq> None"
  by (induction cs p s old fa u rule: url_loop.induct)
    (auto simp: Let_def parse_url_char_expected split: step_kind.split)

lemma enter_field_within:
  assumes "fields_within p u" "p < 65535" "uf = old \<longrightarrow> has_field u uf"
  shows "fields_within (Suc p) (enter_field p uf old u)"
  unfolding fields_within_def
proof (intro allI impI)
  fix f assume f: "has_field (enter_field p uf old u) f"
  show "foff (enter_field p uf old u) f + flen (enter_field p uf old u) f \<le> Suc p"
  proof (cases "f = uf")
    case True
    show ?thesis
    proof (cases "uf = old")
      case uf: True
      with assms True have "foff u uf + flen u uf \<le> p" by (auto simp: fields_within_def)
      with uf True assms(2) show ?thesis by (simp add: enter_field_def unat_Suc_u16)
    next
      case False
      with True assms(2) show ?thesis by (simp add: enter_field_def unat_of_nat_u16)
    qed
  next
    case False
    with f assms(1) show ?thesis
      by (fastforce simp: enter_field_def fields_within_def split: if_splits)
  qed
qed

lemma has_enter_field: "has_field (enter_field p uf old u) g \<longleftrightarrow> (uf \<noteq> old \<and> uf = g) \<or> has_field u g"
  by (auto simp: enter_field_def)

lemma state_field_In: "state_field s = In_field uf \<Longrightarrow> uf \<in> {UF_SCHEMA, UF_HOST, UF_PATH, UF_QUERY, UF_FRAGMENT}"
  by (cases s) (auto simp: state_field_def)

lemma url_loop_within:
  "url_loop cs p s old fa u = Some (Inr (fa', u')) \<Longrightarrow> fields_within p u \<Longrightarrow> p + length cs \<le> 65535 \<Longrightarrow>
   old = UF_MAX \<or> has_field u old \<Longrightarrow> \<forall>f \<in> {UF_PORT, UF_USERINFO, UF_MAX}. \<not> has_field u f \<Longrightarrow>
   fields_within (p + length cs) u' \<and> (\<forall>f \<in> {UF_PORT, UF_USERINFO, UF_MAX}. \<not> has_field u' f)"
proof (induction cs p s old fa u rule: url_loop.induct)
  case (2 c cs p s old fa u)
  show ?case
  proof (cases "state_field (parse_url_char s c)")
    case Skip
    have "fields_within (Suc p) u" using "2.prems"(2) by (auto simp: fields_within_def intro: le_SucI)
    with Skip 2 show ?thesis by simp
  next
    case (In_field uf)
    have "uf \<noteq> UF_MAX" "uf \<notin> {UF_PORT, UF_USERINFO, UF_MAX}" using state_field_In [OF In_field] by auto
    moreover have "fields_within (Suc p) (enter_field p uf old u)"
      by (rule enter_field_within) (use "2.prems" \<open>uf \<noteq> UF_MAX\<close> in auto)
    ultimately show ?thesis using "2.prems" "2.IH"(2) [OF refl In_field] In_field
      by (auto simp: has_enter_field Let_def)
  qed (use "2.prems" in auto)
qed simp


section \<open>The host part\<close>

definition host_inv :: "u8 list \<Rightarrow> http_host_state \<Rightarrow> nat \<Rightarrow> http_parser_url \<Rightarrow> bool" where
  "host_inv buf s p u \<longleftrightarrow> s \<noteq> s_http_host_dead \<and>
    (\<forall>f. has_field u f \<and> f \<notin> {UF_HOST, UF_PORT, UF_USERINFO} \<longrightarrow> foff u f + flen u f \<le> length buf) \<and>
    foff u UF_HOST + flen u UF_HOST \<le> p \<and>
    (has_field u UF_PORT \<longleftrightarrow> s = s_http_host_port) \<and>
    (s \<in> {s_http_userinfo_start, s_http_userinfo, s_http_host_start, s_http_host_v6_start} \<longrightarrow> flen u UF_HOST = 0) \<and>
    (s \<in> {s_http_host, s_http_host_v6, s_http_host_v6_zone_start, s_http_host_v6_zone} \<longrightarrow>
       foff u UF_HOST + flen u UF_HOST = p \<and> 0 < flen u UF_HOST) \<and>
    (s \<in> {s_http_host_v6_end, s_http_host_port_start, s_http_host_port} \<longrightarrow> 0 < flen u UF_HOST) \<and>
    (has_field u UF_USERINFO \<longrightarrow> foff u UF_USERINFO + flen u UF_USERINFO \<le> p) \<and>
    (s = s_http_userinfo_start \<longrightarrow> \<not> has_field u UF_USERINFO) \<and>
    (s = s_http_userinfo \<longrightarrow> has_field u UF_USERINFO \<and> foff u UF_USERINFO + flen u UF_USERINFO = p) \<and>
    (s = s_http_host_port \<longrightarrow> foff u UF_PORT + flen u UF_PORT = p \<and> 0 < flen u UF_PORT \<and>
       (\<forall>i. foff u UF_PORT \<le> i \<and> i < p \<longrightarrow> IS_NUM (buf ! i)))"

lemma host_step:
  assumes "host_inv buf s p u" "p < length buf" "length buf \<le> 65535"
    and "new = http_parse_host_char s (buf ! p)" "new \<noteq> s_http_host_dead"
  shows "host_inv buf new (Suc p) (host_record p s new u)"
proof -
  have c: "unat (w + 1) = Suc (unat w)" if "unat w \<le> p" for w :: u16
    using that assms(2,3) by (intro unat_Suc_u16) simp
  have o: "unat (of_nat p :: u16) = p" using assms(2,3) by (intro unat_of_nat_u16) simp
  show ?thesis
    using assms(1,4,5) assms(2,3)
    by (cases s; simp add: http_parse_host_char_def Let_def host_record_def host_inv_def c o unat_Suc_u16 split: if_splits)
      (auto simp: less_Suc_eq c)
qed

lemma host_loop_inv:
  assumes "host_loop (slice buf p n) p s u = Inr (s', u')" "host_inv buf s p u"
    and "p + n \<le> length buf" "length buf \<le> 65535"
  shows "host_inv buf s' (p + n) u'"
  using assms(1-3)
proof (induction n arbitrary: p s u)
  case (Suc n)
  let ?new = "http_parse_host_char s (buf ! p)"
  have sl: "slice buf p (Suc n) = buf ! p # slice buf (Suc p) n"
    using Suc.prems(3) by (simp add: slice_def Cons_nth_drop_Suc [symmetric])
  with Suc.prems(1) have new: "?new \<noteq> s_http_host_dead"
    and rest: "host_loop (slice buf (Suc p) n) (Suc p) ?new (host_record p s ?new u) = Inr (s', u')"
    by (auto simp: Let_def split: if_splits)
  have "host_inv buf ?new (Suc p) (host_record p s ?new u)"
    by (rule host_step) (use Suc.prems assms(4) new in auto)
  from Suc.IH [OF rest this] Suc.prems(3) show ?case by simp
qed simp

lemma has_host_record:
  "has_field (host_record p s s' u) f \<longleftrightarrow> has_field u f \<or>
    (f = UF_PORT \<and> s' = s_http_host_port \<and> s \<noteq> s_http_host_port) \<or>
    (f = UF_USERINFO \<and> s' = s_http_userinfo \<and> s \<noteq> s_http_userinfo)"
  by (cases s') (auto simp: host_record_def)

lemma host_record_other:
  "f \<notin> {UF_HOST, UF_PORT, UF_USERINFO} \<Longrightarrow> field_data (host_record p s s' u) f = field_data u f"
  by (cases s') (auto simp: host_record_def)

lemma host_loop_frame:
  "host_loop cs p s u = Inr (s', u') \<Longrightarrow> f \<notin> {UF_PORT, UF_USERINFO} \<Longrightarrow>
   (has_field u' f \<longleftrightarrow> has_field u f) \<and> (f \<noteq> UF_HOST \<longrightarrow> field_data u' f = field_data u f)"
  by (induction cs p s u rule: host_loop.induct)
    (auto simp: Let_def has_host_record host_record_other split: if_splits)

lemma http_parse_host_ok:
  assumes "http_parse_host buf u fa = Some (0, u')" "fields_within (length buf) u"
    and "\<not> has_field u UF_PORT" "\<not> has_field u UF_USERINFO" "length buf \<le> 65535"
  obtains s' where "host_inv buf s' (foff u UF_HOST + flen u UF_HOST) u'" "\<not> host_end_bad s'"
    "foff u UF_HOST + flen u UF_HOST \<le> length buf"
    "\<And>f. f \<notin> {UF_PORT, UF_USERINFO} \<Longrightarrow> has_field u' f \<longleftrightarrow> has_field u f"
proof -
  let ?s = "if fa then s_http_userinfo_start else s_http_host_start"
  have b: "foff u UF_HOST + flen u UF_HOST \<le> length buf"
    using assms(1) by (auto simp: http_parse_host_def Let_def split: if_splits)
  obtain s' where s': "host_loop (slice buf (foff u UF_HOST) (flen u UF_HOST)) (foff u UF_HOST) ?s (set_len UF_HOST 0 u) = Inr (s', u')"
    "\<not> host_end_bad s'"
    using assms(1) by (auto simp: http_parse_host_def Let_def split: if_splits sum.splits)
  have "host_inv buf ?s (foff u UF_HOST) (set_len UF_HOST 0 u)"
    using assms(2-4) by (auto simp: host_inv_def fields_within_def)
  then have "host_inv buf s' (foff u UF_HOST + flen u UF_HOST) u'"
    by (rule host_loop_inv [OF s'(1)]) (use assms(5) b in auto)
  then show thesis using that s' b host_loop_frame [OF s'(1)] by simp
qed

lemma http_parse_host_no_abort:
  "has_field u UF_HOST \<Longrightarrow> fields_within (length buf) u \<Longrightarrow> http_parse_host buf u fa \<noteq> None"
  by (auto simp: http_parse_host_def Let_def fields_within_def not_less split: sum.splits) 

lemma host_inv_within:
  "host_inv buf s p u \<Longrightarrow> p \<le> length buf \<Longrightarrow> fields_within (length buf) u"
proof -
  assume i: "host_inv buf s p u" and p: "p \<le> length buf"
  have "foff u f + flen u f \<le> length buf" if "has_field u f" for f
    using i p that by (cases f) (auto simp: host_inv_def)
  then show ?thesis by (simp add: fields_within_def)
qed

section \<open>The port number\<close>

definition dec_val :: "nat \<Rightarrow> u8 list \<Rightarrow> nat" where
  "dec_val n cs = foldl (\<lambda>v c. v * 10 + (unat c - 48)) n cs"

lemma dec_val_simps [simp]:
  "dec_val n [] = n" "dec_val n (c # cs) = dec_val (n * 10 + (unat c - 48)) cs"
  by (simp_all add: dec_val_def)

lemma dec_val_ge: "n \<le> dec_val n cs"
proof (induction cs arbitrary: n)
  case (Cons c cs)
  have "n \<le> n * 10 + (unat c - 48)" by simp
  also have "\<dots> \<le> dec_val n (c # cs)" using Cons.IH by simp
  finally show ?case .
qed simp

lemma digit_scast:
  assumes "IS_NUM c"
  shows "(scast c :: 64 word) = of_nat (unat c) \<and> 48 \<le> unat c \<and> unat c \<le> 57"
proof -
  have r: "48 \<le> unat c" "unat c \<le> 57"
    using assms by (simp_all add: IS_NUM_iff word_le_nat_alt)
  then have "int (unat c) \<le> int 57" by (simp only: of_nat_le_iff)
  then have "uint c < 128" by simp
  then have "sint c = uint c"
    using signed_take_bit_int_eq_self [of 7 "uint c"] uint_ge_0 [of c] by (simp add: sint_uint)
  then have "(scast c :: 64 word) = of_int (uint c)"
    by (metis of_int_sint)
  with r show ?thesis by simp
qed

lemma port_step:
  assumes "IS_NUM c" "n < 65536"
  shows "(of_nat n :: 64 word) * 10 + (scast c - 48) = of_nat (n * 10 + (unat c - 48))"
  using digit_scast [OF assms(1)] by (simp add: of_nat_diff)

lemma port_loop_value:
  "\<forall>c \<in> set cs. IS_NUM c \<Longrightarrow> n < 65536 \<Longrightarrow>
   port_loop cs (of_nat n) = (if dec_val n cs < 65536 then Some (of_nat (dec_val n cs)) else None)"
proof (induction cs arbitrary: n)
  case (Cons c cs)
  let ?n = "n * 10 + (unat c - 48)"
  have c: "IS_NUM c" "48 \<le> unat c" "unat c \<le> 57" using Cons.prems digit_scast by auto
  then have small: "?n < 2 ^ 64" using Cons.prems by simp
  have big: "(of_nat ?n :: 64 word) > 0xffff \<longleftrightarrow> 65536 \<le> ?n"
    using small unat_of_nat [of ?n, where 'a = 64]
    by (simp add: word_less_nat_alt take_bit_eq_mod del: of_nat_add of_nat_mult) linarith
  show ?case
  proof (cases "?n < 65536")
    case True
    then show ?thesis using Cons.IH [OF _ True] Cons.prems c big by (simp add: port_step Let_def)
  next
    case False
    then have "65536 \<le> dec_val n (c # cs)" using dec_val_ge [of ?n cs] by simp
    with False show ?thesis using Cons.prems c big by (simp add: port_step Let_def)
  qed
qed simp

section \<open>The whole parser\<close>

lemma parse_url_char_printable: "parse_url_char s c \<noteq> s_dead \<Longrightarrow> printable c"
proof -
  assume *: "parse_url_char s c \<noteq> s_dead"
  have "c \<in> {35, 42, 47, 58, 63, 64, 91, 93} \<or> IS_URL_CHAR c \<or> IS_ALPHA c \<or> IS_USERINFO_CHAR c"
    using * by (cases s) (auto simp: parse_url_char_def parse_server_char_def split: if_splits)
  moreover have "\<forall>c \<in> {35, 42, 47, 58, 63, 64, 91, 93}. printable c" by (simp add: printable_def)
  ultimately show ?thesis using class_printable USERINFO_printable by blast
qed

lemma state_field_Dead: "state_field s = Dead \<longleftrightarrow> s = s_dead"
  by (cases s) (auto simp: state_field_def)

lemma url_loop_printable:
  "url_loop cs p s old fa u = Some (Inr r) \<Longrightarrow> c \<in> set cs \<Longrightarrow> printable c"
proof (induction cs p s old fa u rule: url_loop.induct)
  case (2 d cs p s old fa u)
  from "2.prems"(1) have "state_field (parse_url_char s d) \<noteq> Dead" by auto
  then have "printable d" by (simp add: state_field_Dead parse_url_char_printable)
  with 2 show ?case
    by (cases "state_field (parse_url_char s d)") (auto simp: Let_def)
qed simp

text \<open>The successful runs of the parser, with everything the invariants give.\<close>

lemma parse_url_cases:
  assumes "http_parser_parse_url buf conn u0 = Some (0, u)" "length buf \<le> 65535"
  obtains fa u1 u2 where
    "url_loop buf 0 (if conn then s_req_server_start else s_req_spaces_before_url) UF_MAX False
       (u0\<lparr>port := 0, field_set := 0\<rparr>) = Some (Inr (fa, u1))"
    "fields_within (length buf) u1" "has_field u1 UF_SCHEMA \<longrightarrow> has_field u1 UF_HOST"
    "\<not> has_field u1 UF_PORT" "\<not> has_field u1 UF_USERINFO"
    "(if has_field u1 UF_HOST then http_parse_host buf u1 fa else Some (0, u1)) = Some (0, u2)"
    "conn \<longrightarrow> field_set u2 = uf_bit UF_HOST OR uf_bit UF_PORT"
    "(if has_field u2 UF_PORT then parse_port buf u2 else Some (0, u2)) = Some (0, u)"
proof -
  let ?u = "u0\<lparr>port := 0, field_set := 0\<rparr>"
  let ?s = "if conn then s_req_server_start else s_req_spaces_before_url"
  obtain r where r: "url_loop buf 0 ?s UF_MAX False ?u = Some r"
    using url_loop_no_abort by (metis not_None_eq)
  with assms(1) obtain fa u1 where 1: "url_loop buf 0 ?s UF_MAX False ?u = Some (Inr (fa, u1))"
    and f: "finish_url buf conn fa u1 = Some (0, u)"
    unfolding http_parser_parse_url_def by (cases r) (auto split: if_split_asm)
  from f have 2: "has_field u1 UF_SCHEMA \<longrightarrow> has_field u1 UF_HOST" by (auto simp: finish_url_def split: if_split_asm)
  with f obtain rc u2 where 3: "(if has_field u1 UF_HOST then http_parse_host buf u1 fa else Some (0, u1)) = Some (rc, u2)"
    and g: "(if rc \<noteq> 0 then Some (1, u2)
       else if conn \<and> field_set u2 \<noteq> uf_bit UF_HOST OR uf_bit UF_PORT then Some (1, u2)
       else if has_field u2 UF_PORT then parse_port buf u2
       else Some (0, u2)) = Some (0, u)"
    unfolding finish_url_def by (auto simp del: split_paired_Ex split: if_splits)
  from g have 4: "rc = 0" "conn \<longrightarrow> field_set u2 = uf_bit UF_HOST OR uf_bit UF_PORT"
    "(if has_field u2 UF_PORT then parse_port buf u2 else Some (0, u2)) = Some (0, u)"
    by (auto split: if_splits)
  have "fields_within 0 ?u" "\<forall>f\<in>{UF_PORT, UF_USERINFO, UF_MAX}. \<not> has_field ?u f"
    by (simp_all add: fields_within_def)
  from url_loop_within [OF 1 this(1) _ _ this(2)] assms(2)
  have "fields_within (length buf) u1" "\<not> has_field u1 UF_PORT" "\<not> has_field u1 UF_USERINFO" by auto
  with 1 2 3 4 show thesis by (intro that) simp_all
qed

lemma parse_port_ok:
  assumes "parse_port buf u = Some (0, u')" "\<forall>c \<in> set (slice buf (foff u UF_PORT) (flen u UF_PORT)). IS_NUM c"
  shows "u' = u\<lparr>port := port u'\<rparr>" "unat (port u') = dec_val 0 (slice buf (foff u UF_PORT) (flen u UF_PORT))"
proof -
  let ?ds = "slice buf (foff u UF_PORT) (flen u UF_PORT)"
  have "port_loop ?ds 0 = (if dec_val 0 ?ds < 65536 then Some (of_nat (dec_val 0 ?ds)) else None)"
    using port_loop_value [OF assms(2), of 0] by simp
  with assms(1) have *: "dec_val 0 ?ds < 65536" "u' = u\<lparr>port := ucast (of_nat (dec_val 0 ?ds) :: 64 word)\<rparr>"
    by (auto simp: parse_port_def Let_def split: if_splits)
  then show "u' = u\<lparr>port := port u'\<rparr>" by simp
  show "unat (port u') = dec_val 0 ?ds" using * by (simp add: unsigned_ucast_eq unat_of_nat take_bit_eq_mod)
qed

text \<open>The authority, when there is one, is split into its parts.\<close>

lemma parse_host_facts:
  assumes h: "(if has_field u1 UF_HOST then http_parse_host buf u1 fa else Some (0, u1)) = Some (0, u2)"
    and w: "fields_within (length buf) u1" and sh: "has_field u1 UF_SCHEMA \<longrightarrow> has_field u1 UF_HOST"
    and np: "\<not> has_field u1 UF_PORT" "\<not> has_field u1 UF_USERINFO" and len: "length buf \<le> 65535"
  shows "fields_within (length buf) u2 \<and>
    (has_field u2 UF_SCHEMA \<longrightarrow> has_field u2 UF_HOST) \<and>
    (has_field u2 UF_HOST \<longrightarrow> 0 < flen u2 UF_HOST) \<and>
    (has_field u2 UF_PORT \<longrightarrow> 0 < flen u2 UF_PORT \<and>
      (\<forall>c \<in> set (slice buf (foff u2 UF_PORT) (flen u2 UF_PORT)). IS_NUM c))"
proof (cases "has_field u1 UF_HOST")
  case True
  with h have "http_parse_host buf u1 fa = Some (0, u2)" by simp
  from http_parse_host_ok [OF this w np len] obtain s' where
    i: "host_inv buf s' (foff u1 UF_HOST + flen u1 UF_HOST) u2" "\<not> host_end_bad s'"
    "foff u1 UF_HOST + flen u1 UF_HOST \<le> length buf"
    and fr: "\<And>f. f \<notin> {UF_PORT, UF_USERINFO} \<Longrightarrow> has_field u2 f \<longleftrightarrow> has_field u1 f"
    by blast
  have "fields_within (length buf) u2" by (rule host_inv_within [OF i(1,3)])
  moreover have "has_field u2 UF_HOST" using fr [of UF_HOST] True by simp
  moreover have "0 < flen u2 UF_HOST"
    using i(1,2) by (cases s') (auto simp: host_inv_def host_end_bad_def)
  moreover have "0 < flen u2 UF_PORT \<and> (\<forall>c \<in> set (slice buf (foff u2 UF_PORT) (flen u2 UF_PORT)). IS_NUM c)"
    if "has_field u2 UF_PORT"
  proof -
    from i(1) that have "0 < flen u2 UF_PORT" "foff u2 UF_PORT + flen u2 UF_PORT = foff u1 UF_HOST + flen u1 UF_HOST"
      "\<forall>i. foff u2 UF_PORT \<le> i \<and> i < foff u1 UF_HOST + flen u1 UF_HOST \<longrightarrow> IS_NUM (buf ! i)"
      by (simp_all add: host_inv_def)
    with i(3) show ?thesis by (force simp: in_set_conv_nth length_slice nth_slice)
  qed
  ultimately show ?thesis by blast
next
  case False
  with h w sh np show ?thesis by simp
qed

lemma parse_url_facts:
  assumes "http_parser_parse_url buf conn u0 = Some (0, u)" "length buf \<le> 65535"
  shows "fields_within (length buf) u \<and>
    (has_field u UF_SCHEMA \<longrightarrow> has_field u UF_HOST) \<and>
    (has_field u UF_HOST \<longrightarrow> 0 < flen u UF_HOST) \<and>
    (conn \<longrightarrow> field_set u = uf_bit UF_HOST OR uf_bit UF_PORT) \<and>
    (has_field u UF_PORT \<longrightarrow> 0 < flen u UF_PORT \<and>
      (\<forall>c \<in> set (slice buf (foff u UF_PORT) (flen u UF_PORT)). IS_NUM c) \<and>
      unat (port u) = dec_val 0 (slice buf (foff u UF_PORT) (flen u UF_PORT))) \<and>
    (\<forall>c \<in> set buf. printable c)"
proof -
  obtain fa u1 u2 where
    loop: "url_loop buf 0 (if conn then s_req_server_start else s_req_spaces_before_url) UF_MAX False
       (u0\<lparr>port := 0, field_set := 0\<rparr>) = Some (Inr (fa, u1))"
    and w: "fields_within (length buf) u1" and sh: "has_field u1 UF_SCHEMA \<longrightarrow> has_field u1 UF_HOST"
    and np: "\<not> has_field u1 UF_PORT" "\<not> has_field u1 UF_USERINFO"
    and h: "(if has_field u1 UF_HOST then http_parse_host buf u1 fa else Some (0, u1)) = Some (0, u2)"
    and c: "conn \<longrightarrow> field_set u2 = uf_bit UF_HOST OR uf_bit UF_PORT"
    and p: "(if has_field u2 UF_PORT then parse_port buf u2 else Some (0, u2)) = Some (0, u)"
    using parse_url_cases [OF assms] by blast
  note host = parse_host_facts [OF h w sh np assms(2)]
  have print: "\<forall>c \<in> set buf. printable c" using url_loop_printable [OF loop] by blast
  show ?thesis
  proof (cases "has_field u2 UF_PORT")
    case True
    with p host parse_port_ok [of buf u2 u] obtain
      "u = u2\<lparr>port := port u\<rparr>" "unat (port u) = dec_val 0 (slice buf (foff u2 UF_PORT) (flen u2 UF_PORT))" by auto
    moreover have "field_data u = field_data u2" "field_set u = field_set u2" "\<And>f. has_field u f = has_field u2 f"
      by (subst \<open>u = u2\<lparr>port := port u\<rparr>\<close>, simp)+
    ultimately show ?thesis using host c print by (simp add: fields_within_def)
  next
    case False
    with p host c print show ?thesis by simp
  qed
qed

lemma finish_url_no_abort:
  assumes "fields_within (length buf) u" "\<not> has_field u UF_PORT" "\<not> has_field u UF_USERINFO" "length buf \<le> 65535"
  shows "finish_url buf conn fa u \<noteq> None"
proof -
  obtain rc u1 where 1: "(if has_field u UF_HOST then http_parse_host buf u fa else Some (0, u)) = Some (rc, u1)"
    using http_parse_host_no_abort [OF _ assms(1)] by fastforce
  have "parse_port buf u1 \<noteq> None" if "rc = 0" "has_field u1 UF_PORT"
  proof -
    from that 1 assms(2) have "http_parse_host buf u fa = Some (0, u1)" by (auto split: if_splits)
    from http_parse_host_ok [OF this assms] obtain s' where
      "host_inv buf s' (foff u UF_HOST + flen u UF_HOST) u1" "foff u UF_HOST + flen u UF_HOST \<le> length buf" by blast
    from host_inv_within [OF this] that(2) show ?thesis
      by (fastforce simp: fields_within_def parse_port_def Let_def split: option.splits)
  qed
  with 1 show ?thesis unfolding finish_url_def by (cases "has_field u UF_HOST") auto
qed

lemma parse_url_no_abort:
  assumes "length buf \<le> 65535"
  shows "http_parser_parse_url buf conn u0 \<noteq> None"
proof -
  let ?u = "u0\<lparr>port := 0, field_set := 0\<rparr>"
  let ?s = "if conn then s_req_server_start else s_req_spaces_before_url"
  obtain r where r: "url_loop buf 0 ?s UF_MAX False ?u = Some r"
    using url_loop_no_abort by (metis not_None_eq)
  show ?thesis
  proof (cases r)
    case (Inr q)
    obtain fa u1 where q: "q = (fa, u1)" by (cases q)
    have "fields_within 0 ?u" "\<forall>f\<in>{UF_PORT, UF_USERINFO, UF_MAX}. \<not> has_field ?u f"
      by (simp_all add: fields_within_def)
    from url_loop_within [OF r [unfolded Inr q] this(1) _ _ this(2)] assms
    have "finish_url buf conn fa u1 \<noteq> None" by (intro finish_url_no_abort) auto
    with r Inr q show ?thesis by (simp add: http_parser_parse_url_def)
  qed (use r in \<open>simp add: http_parser_parse_url_def\<close>)
qed


section \<open>Parsing a rendered URL\<close>

text \<open>The URL as its parts and as text.\<close>

record url_parts =
  p_schema :: "u8 list"
  p_userinfo :: "u8 list option"
  p_host :: "u8 list"
  p_port :: "u8 list option"
  p_path :: "u8 list"
  p_query :: "u8 list option"
  p_fragment :: "u8 list option"

definition prefixed :: "u8 \<Rightarrow> u8 list option \<Rightarrow> u8 list" where
  "prefixed c x = (case x of None \<Rightarrow> [] | Some t \<Rightarrow> c # t)"

definition authority :: "url_parts \<Rightarrow> u8 list" where
  "authority q = (case p_userinfo q of None \<Rightarrow> [] | Some t \<Rightarrow> t @ [ch CHR ''@'']) @ p_host q @ prefixed (ch CHR '':'') (p_port q)"

definition render_url :: "url_parts \<Rightarrow> u8 list" where
  "render_url q = p_schema q @ bytes ''://'' @ authority q @ p_path q @
     prefixed (ch CHR ''?'') (p_query q) @ prefixed (ch CHR ''#'') (p_fragment q)"

definition opt_all :: "('a \<Rightarrow> bool) \<Rightarrow> 'a option \<Rightarrow> bool" where
  "opt_all P x = (case x of None \<Rightarrow> True | Some y \<Rightarrow> P y)"

definition url_parts_ok :: "url_parts \<Rightarrow> bool" where
  "url_parts_ok q \<longleftrightarrow>
     p_schema q \<noteq> [] \<and> list_all IS_ALPHA (p_schema q) \<and>
     opt_all (\<lambda>t. t \<noteq> [] \<and> list_all IS_USERINFO_CHAR t) (p_userinfo q) \<and>
     p_host q \<noteq> [] \<and> list_all IS_HOST_CHAR (p_host q) \<and>
     opt_all (\<lambda>t. t \<noteq> [] \<and> list_all IS_NUM t \<and> dec_val 0 t < 65536) (p_port q) \<and>
     (case p_path q of [] \<Rightarrow> p_query q = None \<longrightarrow> p_fragment q = None
      | c # cs \<Rightarrow> c = ch CHR ''/'' \<and> list_all IS_URL_CHAR cs) \<and>
     opt_all (list_all (\<lambda>c. IS_URL_CHAR c \<or> c = ch CHR ''?'')) (p_query q) \<and>
     opt_all (list_all (\<lambda>c. IS_URL_CHAR c \<or> c = ch CHR ''?'')) (p_fragment q)"

text \<open>The text of a field, \<open>None\<close> if the field is not set.\<close>

definition field_text :: "u8 list \<Rightarrow> http_parser_url \<Rightarrow> http_parser_url_fields \<Rightarrow> u8 list option" where
  "field_text buf u f = (if has_field u f then Some (slice buf (foff u f) (flen u f)) else None)"

definition put_field :: "http_parser_url_fields \<Rightarrow> nat \<Rightarrow> nat \<Rightarrow> http_parser_url \<Rightarrow> http_parser_url" where
  "put_field f p n u = mark_field f (set_len f (of_nat n) (set_off f (of_nat p) u))"

definition put_opt :: "http_parser_url_fields \<Rightarrow> nat \<Rightarrow> 'a list option \<Rightarrow> http_parser_url \<Rightarrow> http_parser_url" where
  "put_opt f p x u = (case x of None \<Rightarrow> u | Some t \<Rightarrow> if t = [] then u else put_field f p (length t) u)"

lemma inc_put: "inc_len f (put_field f p n u) = put_field f p (Suc n) u"
  by (simp add: put_field_def inc_len_def set_len_def set_off_def mark_field_def add.commute)

lemma url_loop_stay:
  "\<forall>d \<in> set cs. parse_url_char t d = t \<Longrightarrow> state_field t = In_field uf \<Longrightarrow> t \<noteq> s_req_server_with_at \<Longrightarrow>
   url_loop (cs @ rest) p t uf fa (put_field uf q n u) =
   url_loop rest (p + length cs) t uf fa (put_field uf q (n + length cs) u)"
  by (induction cs arbitrary: p n) (simp_all add: Let_def enter_field_def inc_put)

lemma url_loop_segment:
  assumes "parse_url_char s c = t" "\<forall>d \<in> set cs. parse_url_char t d = t" "state_field t = In_field uf"
    "t \<noteq> s_req_server_with_at" "uf \<noteq> old"
  shows "url_loop ((c # cs) @ rest) p s old fa u =
    url_loop rest (p + length (c # cs)) t uf fa (put_field uf p (length (c # cs)) u)"
  using url_loop_stay [OF assms(2-4), of rest "Suc p" fa p 1 u] assms
  by (simp add: Let_def enter_field_def put_field_def)


lemma URL_CHAR_not:
  "IS_URL_CHAR c \<Longrightarrow> c \<noteq> 32 \<and> c \<noteq> 13 \<and> c \<noteq> 10 \<and> c \<noteq> 9 \<and> c \<noteq> 12 \<and> c \<noteq> 35 \<and> c \<noteq> 63"
  by (auto simp: IS_URL_CHAR_iff)

lemma ALPHA_not:
  "IS_ALPHA c \<Longrightarrow> c \<noteq> 32 \<and> c \<noteq> 13 \<and> c \<noteq> 10 \<and> c \<noteq> 9 \<and> c \<noteq> 12 \<and> c \<noteq> 47 \<and> c \<noteq> 42"
  by (auto simp: IS_ALPHA_iff)

lemma USERINFO_not:
  "IS_USERINFO_CHAR c \<Longrightarrow> c \<noteq> 32 \<and> c \<noteq> 13 \<and> c \<noteq> 10 \<and> c \<noteq> 9 \<and> c \<noteq> 12 \<and> c \<noteq> 47 \<and> c \<noteq> 63 \<and> c \<noteq> 64"
  by (auto simp: IS_USERINFO_CHAR_def IS_ALPHANUM_def IS_MARK_def IS_ALPHA_iff IS_NUM_iff)

lemma char_steps:
  "IS_URL_CHAR c \<Longrightarrow> parse_url_char s_req_path c = s_req_path"
  "IS_URL_CHAR c \<or> c = 63 \<Longrightarrow> parse_url_char s_req_query_string c = s_req_query_string"
  "IS_URL_CHAR c \<or> c = 63 \<Longrightarrow> parse_url_char s_req_query_string_start c = s_req_query_string"
  "IS_URL_CHAR c \<or> c = 63 \<Longrightarrow> parse_url_char s_req_fragment c = s_req_fragment"
  "IS_URL_CHAR c \<or> c = 63 \<Longrightarrow> parse_url_char s_req_fragment_start c = s_req_fragment"
  "IS_ALPHA c \<Longrightarrow> parse_url_char s_req_schema c = s_req_schema"
  "IS_ALPHA c \<Longrightarrow> parse_url_char s_req_spaces_before_url c = s_req_schema"
  "IS_USERINFO_CHAR c \<Longrightarrow> parse_url_char s_req_server_start c = s_req_server"
  "IS_USERINFO_CHAR c \<Longrightarrow> parse_url_char s_req_server c = s_req_server"
  "IS_USERINFO_CHAR c \<Longrightarrow> parse_url_char s_req_server_with_at c = s_req_server"
  by (auto simp: parse_url_char_def parse_server_char_def dest: URL_CHAR_not ALPHA_not USERINFO_not)

lemma fragment_run:
  assumes "opt_all (list_all (\<lambda>c. IS_URL_CHAR c \<or> c = 63)) x" "old \<noteq> UF_FRAGMENT"
    and "x = None \<or> s \<in> {s_req_path, s_req_query_string_start, s_req_query_string}"
  shows "url_loop (prefixed 35 x) p s old fa u = Some (Inr (fa, put_opt UF_FRAGMENT (Suc p) x u))"
proof (cases x)
  case (Some t)
  have h: "parse_url_char s 35 = s_req_fragment_start"
    using assms(3) Some by (auto simp: parse_url_char_def IS_URL_CHAR_iff)
  show ?thesis
  proof (cases t)
    case (Cons c cs)
    have "url_loop ((c # cs) @ []) (Suc p) s_req_fragment_start old fa u =
        url_loop [] (Suc p + length (c # cs)) s_req_fragment UF_FRAGMENT fa (put_field UF_FRAGMENT (Suc p) (length (c # cs)) u)"
      by (rule url_loop_segment) (use assms Some Cons in \<open>auto simp: opt_all_def list_all_iff char_steps state_field_def\<close>)
    with Some Cons h show ?thesis by (simp add: prefixed_def put_opt_def Let_def state_field_def)
  qed (use Some h in \<open>simp add: prefixed_def put_opt_def Let_def state_field_def\<close>)
qed (simp add: prefixed_def put_opt_def)

lemma query_run:
  assumes "opt_all (list_all (\<lambda>c. IS_URL_CHAR c \<or> c = 63)) x" "old \<notin> {UF_QUERY, UF_FRAGMENT}"
    and "s \<in> {s_req_path, s_req_server}" "s = s_req_server \<Longrightarrow> x = None \<Longrightarrow> y = None"
    and "opt_all (list_all (\<lambda>c. IS_URL_CHAR c \<or> c = 63)) y"
  shows "url_loop (prefixed 63 x @ prefixed 35 y) p s old fa u =
    Some (Inr (fa, put_opt UF_FRAGMENT (Suc (p + length (prefixed 63 x))) y (put_opt UF_QUERY (Suc p) x u)))"
proof (cases x)
  case None
  with assms show ?thesis by (simp add: prefixed_def [of 63] put_opt_def [of UF_QUERY]) (subst fragment_run, auto)
next
  case (Some t)
  have h: "parse_url_char s 63 = s_req_query_string_start"
    using assms(3) by (auto simp: parse_url_char_def parse_server_char_def IS_URL_CHAR_iff)
  show ?thesis
  proof (cases t)
    case Nil
    with Some h show ?thesis
      by (simp add: prefixed_def [of 63] put_opt_def [of UF_QUERY] Let_def state_field_def)
        (subst fragment_run, use assms in auto)
  next
    case (Cons c cs)
    have "url_loop ((c # cs) @ prefixed 35 y) (Suc p) s_req_query_string_start old fa u =
        url_loop (prefixed 35 y) (Suc p + length (c # cs)) s_req_query_string UF_QUERY fa
          (put_field UF_QUERY (Suc p) (length (c # cs)) u)"
      by (rule url_loop_segment) (use assms Some Cons in \<open>auto simp: opt_all_def list_all_iff char_steps state_field_def\<close>)
    also have "\<dots> = Some (Inr (fa, put_opt UF_FRAGMENT (Suc (Suc p + length (c # cs))) y (put_field UF_QUERY (Suc p) (length (c # cs)) u)))"
      by (rule fragment_run) (use assms in auto)
    finally show ?thesis using Some Cons h
      by (simp add: prefixed_def [of 63] put_opt_def [of UF_QUERY] Let_def state_field_def)
  qed
qed


definition userinfo_at :: "url_parts \<Rightarrow> u8 list" where
  "userinfo_at q = (case p_userinfo q of None \<Rightarrow> [] | Some t \<Rightarrow> t @ [64])"

lemma authority_eq: "authority q = userinfo_at q @ p_host q @ prefixed 58 (p_port q)"
  by (cases "p_userinfo q") (simp_all add: authority_def userinfo_at_def)

lemma path_run:
  assumes "url_parts_ok q"
  shows "url_loop (p_path q @ prefixed 63 (p_query q) @ prefixed 35 (p_fragment q)) p s_req_server UF_HOST fa u =
    Some (Inr (fa, put_opt UF_FRAGMENT (Suc (p + length (p_path q) + length (prefixed 63 (p_query q)))) (p_fragment q)
      (put_opt UF_QUERY (Suc (p + length (p_path q))) (p_query q) (put_opt UF_PATH p (Some (p_path q)) u))))"
proof -
  have qf: "opt_all (list_all (\<lambda>c. IS_URL_CHAR c \<or> c = 63)) (p_query q)"
    "opt_all (list_all (\<lambda>c. IS_URL_CHAR c \<or> c = 63)) (p_fragment q)"
    using assms by (simp_all add: url_parts_ok_def)
  show ?thesis
  proof (cases "p_path q")
    case Nil
    have "p_query q = None \<Longrightarrow> p_fragment q = None" using assms Nil by (simp add: url_parts_ok_def)
    with qf Nil query_run [of "p_query q" UF_HOST s_req_server "p_fragment q" p fa u] show ?thesis
      by (simp add: put_opt_def [of UF_PATH])
  next
    case (Cons c cs)
    then have c: "c = 47" "\<forall>d \<in> set cs. IS_URL_CHAR d" using assms by (simp_all add: url_parts_ok_def list_all_iff)
    have "url_loop ((c # cs) @ prefixed 63 (p_query q) @ prefixed 35 (p_fragment q)) p s_req_server UF_HOST fa u =
        url_loop (prefixed 63 (p_query q) @ prefixed 35 (p_fragment q)) (p + length (c # cs)) s_req_path UF_PATH fa
          (put_field UF_PATH p (length (c # cs)) u)"
      by (rule url_loop_segment)
        (use c in \<open>auto simp: char_steps state_field_def parse_url_char_def parse_server_char_def dest: URL_CHAR_not\<close>)
    also have "\<dots> = Some (Inr (fa, put_opt UF_FRAGMENT (Suc (p + length (c # cs) + length (prefixed 63 (p_query q)))) (p_fragment q)
        (put_opt UF_QUERY (Suc (p + length (c # cs))) (p_query q) (put_field UF_PATH p (length (c # cs)) u))))"
      by (rule query_run) (use qf in auto)
    finally show ?thesis using Cons by (simp add: put_opt_def [of UF_PATH])
  qed
qed

lemma HOST_USERINFO: "IS_HOST_CHAR c \<Longrightarrow> IS_USERINFO_CHAR c" "IS_NUM c \<Longrightarrow> IS_USERINFO_CHAR c"
  by (auto simp: IS_HOST_CHAR_def IS_USERINFO_CHAR_def IS_ALPHANUM_def IS_MARK_def)

lemma host_port_chars:
  assumes "url_parts_ok q"
  shows "d \<in> set (p_host q @ prefixed 58 (p_port q)) \<Longrightarrow> IS_USERINFO_CHAR d"
  using assms HOST_USERINFO
  by (auto simp: url_parts_ok_def list_all_iff opt_all_def prefixed_def split: option.splits)
    (simp_all add: IS_USERINFO_CHAR_def)

lemma at_step: "parse_url_char s_req_server 64 = s_req_server_with_at"
  by (simp add: parse_url_char_def parse_server_char_def)

lemma authority_run:
  assumes "url_parts_ok q"
  shows "url_loop (authority q @ rest) p s_req_server_start UF_SCHEMA False u =
    url_loop rest (p + length (authority q)) s_req_server UF_HOST (p_userinfo q \<noteq> None)
      (put_field UF_HOST p (length (authority q)) u)"
proof -
  obtain h hs where h: "p_host q @ prefixed 58 (p_port q) = h # hs"
    using assms by (cases "p_host q") (auto simp: url_parts_ok_def)
  then have hc: "IS_USERINFO_CHAR h" "\<forall>d \<in> set hs. IS_USERINFO_CHAR d"
    using host_port_chars [OF assms] by auto
  show ?thesis
  proof (cases "p_userinfo q")
    case None
    then have "authority q = h # hs" using h by (simp add: authority_eq userinfo_at_def)
    moreover have "url_loop ((h # hs) @ rest) p s_req_server_start UF_SCHEMA False u =
        url_loop rest (p + length (h # hs)) s_req_server UF_HOST False (put_field UF_HOST p (length (h # hs)) u)"
      by (rule url_loop_segment) (use hc in \<open>auto simp: char_steps state_field_def\<close>)
    ultimately show ?thesis using None by simp
  next
    case (Some t)
    then obtain c cs where t: "t = c # cs" "\<forall>d \<in> set (c # cs). IS_USERINFO_CHAR d"
      using assms by (cases t) (auto simp: url_parts_ok_def opt_all_def list_all_iff)
    have a: "authority q = (c # cs) @ 64 # h # hs" using Some t h by (simp add: authority_eq userinfo_at_def)
    have "url_loop ((c # cs) @ (64 # h # hs) @ rest) p s_req_server_start UF_SCHEMA False u =
        url_loop ((64 # h # hs) @ rest) (p + length (c # cs)) s_req_server UF_HOST False (put_field UF_HOST p (length (c # cs)) u)"
      by (rule url_loop_segment) (use t in \<open>auto simp: char_steps state_field_def\<close>)
    also have "\<dots> = url_loop (hs @ rest) (p + length (c # cs) + 2) s_req_server UF_HOST True (put_field UF_HOST p (length (c # cs) + 2) u)"
      using hc by (simp add: Let_def at_step char_steps state_field_def enter_field_def inc_put)
    also have "\<dots> = url_loop rest (p + length (c # cs) + 2 + length hs) s_req_server UF_HOST True
        (put_field UF_HOST p (length (c # cs) + 2 + length hs) u)"
      by (rule url_loop_stay) (use hc in \<open>auto simp: char_steps state_field_def\<close>)
    finally show ?thesis unfolding a using Some by (simp add: ac_simps del: url_loop.simps)
  qed
qed

lemma schema_run:
  assumes "url_parts_ok q"
  shows "url_loop (p_schema q @ [58, 47, 47] @ rest) 0 s_req_spaces_before_url UF_MAX False u =
    url_loop rest (length (p_schema q) + 3) s_req_server_start UF_SCHEMA False (put_field UF_SCHEMA 0 (length (p_schema q)) u)"
proof -
  obtain c cs where c: "p_schema q = c # cs" "\<forall>d \<in> set (c # cs). IS_ALPHA d"
    using assms by (cases "p_schema q") (auto simp: url_parts_ok_def list_all_iff)
  have "url_loop ((c # cs) @ [58, 47, 47] @ rest) 0 s_req_spaces_before_url UF_MAX False u =
      url_loop ([58, 47, 47] @ rest) (0 + length (c # cs)) s_req_schema UF_SCHEMA False (put_field UF_SCHEMA 0 (length (c # cs)) u)"
    by (rule url_loop_segment) (use c in \<open>auto simp: char_steps state_field_def\<close>)
  also have "\<dots> = url_loop rest (length (c # cs) + 3) s_req_server_start UF_SCHEMA False (put_field UF_SCHEMA 0 (length (c # cs)) u)"
    by (simp add: Let_def parse_url_char_def state_field_def IS_ALPHA_iff numeral_3_eq_3)
  finally show ?thesis using c by simp
qed

text \<open>The state of the loop at the end of a rendered URL.\<close>

definition url_scanned :: "url_parts \<Rightarrow> http_parser_url \<Rightarrow> http_parser_url" where
  "url_scanned q u =
    (let a = length (p_schema q) + 3; b = a + length (authority q); c = b + length (p_path q);
         d = c + length (prefixed 63 (p_query q)) in
     put_opt UF_FRAGMENT (Suc d) (p_fragment q) (put_opt UF_QUERY (Suc c) (p_query q)
       (put_opt UF_PATH b (Some (p_path q)) (put_field UF_HOST a (length (authority q))
         (put_field UF_SCHEMA 0 (length (p_schema q)) u)))))"

lemma render_eq: "render_url q = p_schema q @ [58, 47, 47] @ authority q @ p_path q @ prefixed 63 (p_query q) @ prefixed 35 (p_fragment q)"
  by (simp add: render_url_def)

lemma render_run:
  assumes "url_parts_ok q"
  shows "url_loop (render_url q) 0 s_req_spaces_before_url UF_MAX False u =
    Some (Inr (p_userinfo q \<noteq> None, url_scanned q u))"
  unfolding render_eq schema_run [OF assms] authority_run [OF assms] path_run [OF assms]
  by (simp add: url_scanned_def Let_def)

section \<open>The host part of a rendered URL\<close>

lemma host_char_steps:
  "IS_USERINFO_CHAR c \<Longrightarrow> http_parse_host_char s_http_userinfo_start c = s_http_userinfo"
  "IS_USERINFO_CHAR c \<Longrightarrow> http_parse_host_char s_http_userinfo c = s_http_userinfo"
  "http_parse_host_char s_http_userinfo 64 = s_http_host_start"
  "IS_HOST_CHAR c \<Longrightarrow> http_parse_host_char s_http_host_start c = s_http_host"
  "IS_HOST_CHAR c \<Longrightarrow> http_parse_host_char s_http_host c = s_http_host"
  "http_parse_host_char s_http_host 58 = s_http_host_port_start"
  "IS_NUM c \<Longrightarrow> http_parse_host_char s_http_host_port_start c = s_http_host_port"
  "IS_NUM c \<Longrightarrow> http_parse_host_char s_http_host_port c = s_http_host_port"
  by (auto simp: http_parse_host_char_def Let_def IS_HOST_CHAR_def IS_ALPHANUM_def IS_ALPHA_iff IS_NUM_iff dest: USERINFO_not)

lemma host_loop_stay:
  assumes "\<forall>d \<in> set cs. http_parse_host_char t d = t" "t \<noteq> s_http_host_dead"
    and "\<And>p n. host_record p t t (g n) = g (Suc n)"
  shows "host_loop (cs @ rest) p t (g n) = host_loop rest (p + length cs) t (g (n + length cs))"
  using assms(1) by (induction cs arbitrary: p n) (simp_all add: Let_def assms(2,3))

lemma host_loop_field:
  assumes "http_parse_host_char s c = t" "\<forall>d \<in> set cs. http_parse_host_char t d = t" "s \<noteq> t"
    and "(t, f) \<in> {(s_http_userinfo, UF_USERINFO), (s_http_host_port, UF_PORT)}"
  shows "host_loop ((c # cs) @ rest) p s u = host_loop rest (p + length (c # cs)) t (put_field f p (length (c # cs)) u)"
proof -
  have r: "host_record q t t (put_field f p n u) = put_field f p (Suc n) u" for q n
    using assms(4) by (auto simp: host_record_def inc_put)
  have 1: "host_record p s t u = put_field f p 1 u"
    using assms(3,4) by (auto simp: host_record_def put_field_def inc_len_def set_len_def set_off_def mark_field_def)
  have "host_loop (cs @ rest) (Suc p) t (put_field f p 1 u) = host_loop rest (Suc p + length cs) t (put_field f p (1 + length cs) u)"
    by (rule host_loop_stay) (use assms r in auto)
  then show ?thesis using assms(1,4) 1 by (auto simp: Let_def)
qed

definition put_host :: "nat \<Rightarrow> nat \<Rightarrow> http_parser_url \<Rightarrow> http_parser_url" where
  "put_host p n u = set_len UF_HOST (of_nat n) (set_off UF_HOST (of_nat p) u)"

lemma host_loop_host:
  assumes "\<forall>d \<in> set (c # cs). IS_HOST_CHAR d" "len (field_data u UF_HOST) = 0"
  shows "host_loop ((c # cs) @ rest) p s_http_host_start u =
    host_loop rest (p + length (c # cs)) s_http_host (put_host p (length (c # cs)) u)"
proof -
  have 1: "host_record p s_http_host_start s_http_host u = put_host p 1 u"
    using assms(2) by (simp add: host_record_def put_host_def inc_len_def set_len_def set_off_def)
  have "host_loop (cs @ rest) (Suc p) s_http_host (put_host p 1 u) =
      host_loop rest (Suc p + length cs) s_http_host (put_host p (1 + length cs) u)"
    by (rule host_loop_stay)
      (use assms in \<open>auto simp: host_char_steps host_record_def put_host_def inc_len_def set_len_def set_off_def add.commute\<close>)
  then show ?thesis using assms(1) 1 by (simp add: Let_def host_char_steps)
qed

lemma authority_host_loop:
  assumes "url_parts_ok q" "len (field_data u UF_HOST) = 0"
  shows "\<exists>s \<in> {s_http_host, s_http_host_port}.
    host_loop (authority q) p (if p_userinfo q \<noteq> None then s_http_userinfo_start else s_http_host_start) u =
    Inr (s, put_opt UF_PORT (Suc (p + length (userinfo_at q) + length (p_host q))) (p_port q)
      (put_host (p + length (userinfo_at q)) (length (p_host q)) (put_opt UF_USERINFO p (p_userinfo q) u)))"
proof -
  let ?u = "put_opt UF_USERINFO p (p_userinfo q) u"
  let ?p = "p + length (userinfo_at q)"
  let ?v = "put_host ?p (length (p_host q)) ?u"
  have z: "len (field_data ?u UF_HOST) = 0"
    using assms(2) by (simp add: put_opt_def put_field_def split: option.splits)
  obtain h hs where h: "p_host q = h # hs" "\<forall>d \<in> set (h # hs). IS_HOST_CHAR d"
    using assms by (cases "p_host q") (auto simp: url_parts_ok_def list_all_iff)
  have "host_loop (authority q) p (if p_userinfo q \<noteq> None then s_http_userinfo_start else s_http_host_start) u =
      host_loop (p_host q @ prefixed 58 (p_port q)) ?p s_http_host_start ?u"
  proof (cases "p_userinfo q")
    case (Some t)
    then obtain c cs where t: "t = c # cs" "\<forall>d \<in> set (c # cs). IS_USERINFO_CHAR d"
      using assms by (cases t) (auto simp: url_parts_ok_def opt_all_def list_all_iff)
    have "host_loop ((c # cs) @ 64 # p_host q @ prefixed 58 (p_port q)) p s_http_userinfo_start u =
        host_loop (64 # p_host q @ prefixed 58 (p_port q)) (p + length (c # cs)) s_http_userinfo (put_field UF_USERINFO p (length (c # cs)) u)"
      by (rule host_loop_field) (use t in \<open>auto simp: host_char_steps\<close>)
    with Some t show ?thesis
      by (simp add: authority_eq userinfo_at_def put_opt_def Let_def host_char_steps host_record_def)
  qed (simp add: authority_eq userinfo_at_def put_opt_def)
  also have "\<dots> = host_loop (prefixed 58 (p_port q)) (?p + length (p_host q)) s_http_host ?v"
    unfolding h(1) by (rule host_loop_host [OF h(2) z])
  finally have 1: "host_loop (authority q) p (if p_userinfo q \<noteq> None then s_http_userinfo_start else s_http_host_start) u = \<dots>" .
  show ?thesis
  proof (cases "p_port q")
    case (Some t)
    then obtain c cs where t: "t = c # cs" "\<forall>d \<in> set (c # cs). IS_NUM d"
      using assms by (cases t) (auto simp: url_parts_ok_def opt_all_def list_all_iff)
    have "host_loop ((c # cs) @ []) (Suc (?p + length (p_host q))) s_http_host_port_start ?v =
        host_loop [] (Suc (?p + length (p_host q)) + length (c # cs)) s_http_host_port
          (put_field UF_PORT (Suc (?p + length (p_host q))) (length (c # cs)) ?v)"
      by (rule host_loop_field) (use t in \<open>auto simp: host_char_steps\<close>)
    with 1 Some t show ?thesis
      by (simp add: prefixed_def put_opt_def [of UF_PORT] Let_def host_char_steps host_record_def)
  qed (use 1 in \<open>simp add: prefixed_def put_opt_def [of UF_PORT]\<close>)
qed


section \<open>The fields of the result\<close>

definition nonempty :: "'a list option \<Rightarrow> 'a list option" where
  "nonempty x = (if x = Some [] then None else x)"


lemma put_has [simp]:
  "has_field (put_field f p n u) g \<longleftrightarrow> f = g \<or> has_field u g"
  "has_field (put_host p n u) g \<longleftrightarrow> has_field u g"
  "has_field (put_opt f p x u) g \<longleftrightarrow> nonempty x \<noteq> None \<and> f = g \<or> has_field u g"
  by (auto simp: put_field_def put_host_def put_opt_def nonempty_def split: option.split)

lemma put_port [simp]:
  "port (put_field f p n u) = port u"
  "port (put_host p n u) = port u"
  "port (set_len f v u) = port u"
  "port (put_opt f p x u) = port u"
  by (simp_all add: put_field_def put_host_def put_opt_def set_len_def set_off_def mark_field_def split: option.split)

lemma put_data_other [simp]:
  "g \<noteq> f \<Longrightarrow> field_data (put_field f p n u) g = field_data u g"
  "g \<noteq> UF_HOST \<Longrightarrow> field_data (put_host p n u) g = field_data u g"
  "g \<noteq> f \<Longrightarrow> field_data (put_opt f p x u) g = field_data u g"
  by (simp_all add: put_field_def put_host_def put_opt_def split: option.split)

lemma put_data:
  assumes "p + n \<le> 65535"
  shows "foff (put_field f p n u) f = p" "flen (put_field f p n u) f = n"
    and "foff (put_host p n u) UF_HOST = p" "flen (put_host p n u) UF_HOST = n"
  using assms by (simp_all add: put_field_def put_host_def unat_of_nat_u16)

lemma field_text_other:
  "g \<noteq> f \<Longrightarrow> field_text buf (put_field f p n u) g = field_text buf u g"
  "g \<noteq> UF_HOST \<Longrightarrow> field_text buf (put_host p n u) g = field_text buf u g"
  "g \<noteq> f \<Longrightarrow> field_text buf (put_opt f p x u) g = field_text buf u g"
  "g \<noteq> f \<Longrightarrow> field_text buf (set_len f v u) g = field_text buf u g"
  by (simp_all add: field_text_def)

lemma field_text_put:
  assumes "buf = xs @ t @ ys" "length buf \<le> 65535" "p = length xs" "n = length t"
  shows "field_text buf (put_field f p n u) f = Some t"
    and "has_field u UF_HOST \<Longrightarrow> field_text buf (put_host p n u) UF_HOST = Some t"
  using assms by (simp_all add: field_text_def put_data slice_append_mid)

lemma field_text_put_opt:
  assumes "\<not> has_field u f" "length buf \<le> 65535" "p = length xs" "\<And>t. x = Some t \<Longrightarrow> \<exists>ys. buf = xs @ t @ ys"
  shows "field_text buf (put_opt f p x u) f = nonempty x"
proof (cases "nonempty x")
  case None
  then have "put_opt f p x u = u" by (auto simp: put_opt_def nonempty_def split: option.split if_splits)
  with None assms(1) show ?thesis by (simp add: field_text_def)
next
  case (Some t)
  then have x: "x = Some t" "put_opt f p x u = put_field f p (length t) u"
    by (auto simp: put_opt_def nonempty_def split: option.split if_splits)
  with assms(4) obtain ys where "buf = xs @ t @ ys" by blast
  from field_text_put(1) [OF this assms(2,3) refl] x Some show ?thesis by simp
qed

text \<open>The structure after the host part of a rendered URL has been parsed.\<close>

definition url_hosted :: "url_parts \<Rightarrow> http_parser_url \<Rightarrow> http_parser_url" where
  "url_hosted q u =
    (let a = length (p_schema q) + 3; b = a + length (userinfo_at q) in
     put_opt UF_PORT (Suc (b + length (p_host q))) (p_port q)
       (put_host b (length (p_host q)) (put_opt UF_USERINFO a (p_userinfo q) (set_len UF_HOST 0 (url_scanned q u)))))"

lemma render_host:
  assumes "url_parts_ok q" "length (render_url q) \<le> 65535"
  shows "http_parse_host (render_url q) (url_scanned q u) (p_userinfo q \<noteq> None) = Some (0, url_hosted q u)"
proof -
  let ?u = "url_scanned q u" and ?a = "length (p_schema q) + 3"
  have u: "has_field ?u UF_HOST" "foff ?u UF_HOST = ?a" "flen ?u UF_HOST = length (authority q)"
    using assms(2) by (simp_all add: url_scanned_def Let_def render_eq put_data)
  have sl: "slice (render_url q) ?a (length (authority q)) = authority q"
    using slice_append_mid [of "p_schema q @ [58, 47, 47]" ?a "authority q" "length (authority q)"]
    by (simp add: render_eq)
  have "len (field_data (set_len UF_HOST 0 ?u) UF_HOST) = 0" by simp
  from authority_host_loop [OF assms(1) this, of ?a]
  obtain s where "s \<in> {s_http_host, s_http_host_port}" "host_loop (authority q) ?a
      (if p_userinfo q \<noteq> None then s_http_userinfo_start else s_http_host_start) (set_len UF_HOST 0 ?u) = Inr (s, url_hosted q u)"
    unfolding url_hosted_def Let_def by blast
  then show ?thesis using u sl assms(2) unfolding http_parse_host_def
    by (auto simp: Let_def host_end_bad_def render_eq)
qed

lemma hosted_texts:
  fixes u0 :: http_parser_url
  assumes "url_parts_ok q" "length (render_url q) \<le> 65535"
  defines "u \<equiv> url_hosted q (u0\<lparr>port := 0, field_set := 0\<rparr>)"
  shows "field_text (render_url q) u UF_SCHEMA = Some (p_schema q)"
    "field_text (render_url q) u UF_HOST = Some (p_host q)"
    "field_text (render_url q) u UF_USERINFO = nonempty (p_userinfo q)"
    "field_text (render_url q) u UF_PORT = nonempty (p_port q)"
    "field_text (render_url q) u UF_PATH = nonempty (Some (p_path q))"
    "field_text (render_url q) u UF_QUERY = nonempty (p_query q)"
    "field_text (render_url q) u UF_FRAGMENT = nonempty (p_fragment q)"
    "port u = 0"
proof -
  note defs = u_def url_hosted_def url_scanned_def Let_def
  let ?s = "p_schema q @ [58, 47, 47]"
  let ?a = "?s @ authority q"
  let ?p = "?a @ p_path q"
  let ?q = "?p @ prefixed 63 (p_query q)"
  show "field_text (render_url q) u UF_SCHEMA = Some (p_schema q)"
    unfolding defs using field_text_put(1) [OF _ assms(2), of "[]" "p_schema q"] by (simp add: field_text_other render_eq)
  show "field_text (render_url q) u UF_HOST = Some (p_host q)"
    unfolding defs by (simp add: field_text_other, rule field_text_put(2)
      [where xs = "?s @ userinfo_at q" and ys = "prefixed 58 (p_port q) @ p_path q @ prefixed 63 (p_query q) @ prefixed 35 (p_fragment q)"])
      (use assms(2) in \<open>auto simp: render_eq authority_eq\<close>)
  show "field_text (render_url q) u UF_USERINFO = nonempty (p_userinfo q)"
    unfolding defs by (simp add: field_text_other, rule field_text_put_opt [where xs = ?s])
      (use assms(2) in \<open>auto simp: render_eq authority_eq userinfo_at_def\<close>)
  show "field_text (render_url q) u UF_PORT = nonempty (p_port q)"
    unfolding defs by (rule field_text_put_opt [where xs = "?s @ userinfo_at q @ p_host q @ [58]"])
      (use assms(2) in \<open>auto simp: render_eq authority_eq prefixed_def\<close>)
  show "field_text (render_url q) u UF_PATH = nonempty (Some (p_path q))"
    unfolding defs by (simp add: field_text_other, rule field_text_put_opt [where xs = ?a])
      (use assms(2) in \<open>auto simp: render_eq\<close>)
  show "field_text (render_url q) u UF_QUERY = nonempty (p_query q)"
    unfolding defs by (simp add: field_text_other, rule field_text_put_opt [where xs = "?p @ [63]"])
      (use assms(2) in \<open>auto simp: render_eq prefixed_def\<close>)
  show "field_text (render_url q) u UF_FRAGMENT = nonempty (p_fragment q)"
    unfolding defs by (simp add: field_text_other, rule field_text_put_opt [where xs = "?q @ [35]"])
      (use assms(2) in \<open>auto simp: render_eq prefixed_def\<close>)
  show "port u = 0" unfolding defs by simp
qed

lemma url_parts_okD:
  assumes "url_parts_ok q"
  shows "nonempty (p_userinfo q) = p_userinfo q" "nonempty (p_port q) = p_port q"
    and "p_port q = Some t \<Longrightarrow> (\<forall>c \<in> set t. IS_NUM c) \<and> dec_val 0 t < 65536"
  using assms by (auto simp: url_parts_ok_def opt_all_def nonempty_def list_all_iff)

lemma field_text_SomeD:
  "field_text buf u f = Some t \<Longrightarrow> has_field u f \<and> slice buf (foff u f) (flen u f) = t"
  by (simp add: field_text_def split: if_splits)

lemma field_text_port_upd: "field_text buf (u\<lparr>port := w\<rparr>) f = field_text buf u f"
  by (simp add: field_text_def)


section \<open>Origin-form targets of any length\<close>

lemma origin_run:
  assumes "\<forall>c \<in> set cs. IS_URL_CHAR c"
  shows "http_parser_parse_url (47 # cs) False u0 = Some (0, put_field UF_PATH 0 (Suc (length cs)) (u0\<lparr>port := 0, field_set := 0\<rparr>))"
proof -
  let ?u = "u0\<lparr>port := 0, field_set := 0\<rparr>"
  have "url_loop ((47 # cs) @ []) 0 s_req_spaces_before_url UF_MAX False ?u =
      url_loop [] (0 + length (47 # cs)) s_req_path UF_PATH False (put_field UF_PATH 0 (length (47 # cs)) ?u)"
    by (rule url_loop_segment) (use assms in \<open>auto simp: char_steps state_field_def parse_url_char_def dest: URL_CHAR_not\<close>)
  then have "url_loop (47 # cs) 0 s_req_spaces_before_url UF_MAX False ?u =
      Some (Inr (False, put_field UF_PATH 0 (Suc (length cs)) ?u))" by (simp del: url_loop.simps(2))
  then show ?thesis by (simp add: http_parser_parse_url_def finish_url_def del: url_loop.simps(2))
qed

lemma parse_render:
  assumes "url_parts_ok q" "length (render_url q) \<le> 65535"
  shows "\<exists>u. http_parser_parse_url (render_url q) False u0 = Some (0, u) \<and>
    field_text (render_url q) u UF_SCHEMA = Some (p_schema q) \<and>
    field_text (render_url q) u UF_USERINFO = p_userinfo q \<and>
    field_text (render_url q) u UF_HOST = Some (p_host q) \<and>
    field_text (render_url q) u UF_PORT = p_port q \<and>
    field_text (render_url q) u UF_PATH = nonempty (Some (p_path q)) \<and>
    field_text (render_url q) u UF_QUERY = nonempty (p_query q) \<and>
    field_text (render_url q) u UF_FRAGMENT = nonempty (p_fragment q) \<and>
    unat (port u) = (case p_port q of None \<Rightarrow> 0 | Some t \<Rightarrow> dec_val 0 t)"
proof -
  let ?u = "url_hosted q (u0\<lparr>port := 0, field_set := 0\<rparr>)"
  note t = hosted_texts [OF assms, of u0] and ok = url_parts_okD [OF assms(1)]
  have h: "has_field (url_scanned q (u0\<lparr>port := 0, field_set := 0\<rparr>)) UF_HOST"
    by (simp add: url_scanned_def Let_def)
  have ne: "render_url q \<noteq> []" by (simp add: render_eq)
  have run: "http_parser_parse_url (render_url q) False u0 =
      (if has_field ?u UF_PORT then parse_port (render_url q) ?u else Some (0, ?u))"
    using h ne render_host [OF assms]
    by (simp add: http_parser_parse_url_def render_run [OF assms(1)] finish_url_def)
  show ?thesis
  proof (cases "p_port q")
    case None
    then have "\<not> has_field ?u UF_PORT" using t(4) ok(2) by (simp add: field_text_def split: if_splits)
    with None run t ok show ?thesis by simp
  next
    case (Some ds)
    with t(4) ok(2) have p: "has_field ?u UF_PORT" "slice (render_url q) (foff ?u UF_PORT) (flen ?u UF_PORT) = ds"
      using field_text_SomeD by metis+
    have ds: "\<forall>c \<in> set ds. IS_NUM c" "dec_val 0 ds < 65536" using ok(3) [OF Some] by auto
    have l: "port_loop ds 0 = Some (of_nat (dec_val 0 ds))" using port_loop_value [OF ds(1), of 0] ds(2) by simp
    have "foff ?u UF_PORT + flen ?u UF_PORT \<le> length (render_url q)"
      using parse_url_no_abort [OF assms(2), of False u0] run p(1) by (auto simp: parse_port_def Let_def not_less [symmetric])
    then have "http_parser_parse_url (render_url q) False u0 = Some (0, ?u\<lparr>port := ucast (of_nat (dec_val 0 ds) :: 64 word)\<rparr>)"
      using run p l by (simp add: parse_port_def Let_def)
    moreover have "unat (ucast (of_nat (dec_val 0 ds) :: 64 word) :: u16) = dec_val 0 ds"
      using ds(2) by (simp add: unsigned_ucast_eq unat_of_nat take_bit_eq_mod)
    ultimately show ?thesis using Some t ok by (simp add: field_text_port_upd)
  qed
qed


section \<open>Properties\<close>

text \<open>
  C10. For a buffer of at most 65535 bytes no assertion of the parser can fail and no byte outside the buffer is read,
  and when the parser accepts, every field it marks lies within the buffer.
\<close>

theorem url_fields_in_bounds:
  assumes "length buf \<le> 65535"
  shows "\<exists>rc u. http_parser_parse_url buf conn u0 = Some (rc, u) \<and> (rc = 0 \<longrightarrow> fields_within (length buf) u)"
  using parse_url_no_abort [OF assms, of conn u0] parse_url_facts [OF _ assms] by fastforce

theorem url_fields_in_bounds_witness:
  "\<exists>u. http_parser_parse_url (bytes ''http://h:80/x?y'') False http_parser_url_init = Some (0, u) \<and> fields_within (length (bytes ''http://h:80/x?y'')) u"
proof -
  let ?b = "bytes ''http://h:80/x?y''"
  have "map_option fst (http_parser_parse_url ?b False http_parser_url_init) = Some 0" by code_simp
  moreover have "length ?b \<le> 65535" by simp
  ultimately show ?thesis using url_fields_in_bounds [of ?b False http_parser_url_init] by auto
qed

text \<open>
  C11. What acceptance guarantees: every byte of an accepted URL is a printable ASCII character other than the space
  (so no line break or blank can be smuggled into a request), a schema comes with a non-empty host, a \<open>CONNECT\<close> target
  has exactly a host and a port, and the port field is a non-empty sequence of digits whose decimal value is \<open>port\<close>.
\<close>

theorem accepted_url_facts:
  assumes "http_parser_parse_url buf conn u0 = Some (0, u)" "length buf \<le> 65535"
  shows "(\<forall>c \<in> set buf. printable c) \<and>
    (has_field u UF_SCHEMA \<longrightarrow> has_field u UF_HOST) \<and>
    (has_field u UF_HOST \<longrightarrow> 0 < flen u UF_HOST) \<and>
    (conn \<longrightarrow> field_set u = uf_bit UF_HOST OR uf_bit UF_PORT) \<and>
    (has_field u UF_PORT \<longrightarrow> 0 < flen u UF_PORT \<and>
      (\<forall>c \<in> set (slice buf (foff u UF_PORT) (flen u UF_PORT)). IS_NUM c) \<and>
      unat (port u) = dec_val 0 (slice buf (foff u UF_PORT) (flen u UF_PORT)))"
  using parse_url_facts [OF assms] by simp

theorem accepted_url_facts_witness:
  "\<exists>u. http_parser_parse_url (bytes ''h:443'') True http_parser_url_init = Some (0, u) \<and>
    field_set u = uf_bit UF_HOST OR uf_bit UF_PORT \<and> 0 < flen u UF_HOST"
proof -
  let ?b = "bytes ''h:443''"
  have "map_option fst (http_parser_parse_url ?b True http_parser_url_init) = Some 0" by code_simp
  then obtain u where u: "http_parser_parse_url ?b True http_parser_url_init = Some (0, u)" by auto
  have l: "length ?b \<le> 65535" by simp
  have f: "field_set u = uf_bit UF_HOST OR uf_bit UF_PORT" using accepted_url_facts [OF u l] by simp
  then have "has_field u UF_HOST" by (simp add: has_field_bit uf_bit_def bit_or_iff bit_exp_iff possible_bit_def)
  with f u accepted_url_facts [OF u l] show ?thesis by blast
qed

text \<open>
  C9. The parser inverts the rendering of a URL: for every schema, user information, host name, port, path, query and
  fragment made of the characters their syntax allows, it accepts \<open>schema://userinfo@host:port/path?query#fragment\<close>,
  every field of the result is exactly that part of the text (an empty part is reported as absent), and the numeric
  port is the value of the port's digits (0 when there is none).
\<close>

theorem parse_render_url:
  assumes "url_parts_ok q" "length (render_url q) \<le> 65535"
  shows "\<exists>u. http_parser_parse_url (render_url q) False u0 = Some (0, u) \<and>
    field_text (render_url q) u UF_SCHEMA = Some (p_schema q) \<and>
    field_text (render_url q) u UF_USERINFO = p_userinfo q \<and>
    field_text (render_url q) u UF_HOST = Some (p_host q) \<and>
    field_text (render_url q) u UF_PORT = p_port q \<and>
    field_text (render_url q) u UF_PATH = nonempty (Some (p_path q)) \<and>
    field_text (render_url q) u UF_QUERY = nonempty (p_query q) \<and>
    field_text (render_url q) u UF_FRAGMENT = nonempty (p_fragment q) \<and>
    unat (port u) = (case p_port q of None \<Rightarrow> 0 | Some t \<Rightarrow> dec_val 0 t)"
  by (rule parse_render [OF assms])

theorem parse_render_url_witness:
  "\<exists>u. http_parser_parse_url (bytes ''http://me@h.x:8080/a?b#c'') False http_parser_url_init = Some (0, u) \<and>
    field_text (bytes ''http://me@h.x:8080/a?b#c'') u UF_HOST = Some (bytes ''h.x'') \<and> unat (port u) = 8080"
proof -
  let ?q = "\<lparr>p_schema = bytes ''http'', p_userinfo = Some (bytes ''me''), p_host = bytes ''h.x'',
    p_port = Some (bytes ''8080''), p_path = bytes ''/a'', p_query = Some (bytes ''b''), p_fragment = Some (bytes ''c'')\<rparr>"
  have r: "render_url ?q = bytes ''http://me@h.x:8080/a?b#c''"
    by (simp add: render_url_def authority_def prefixed_def)
  have ok: "url_parts_ok ?q"
    by (simp add: url_parts_ok_def opt_all_def dec_val_def IS_ALPHA_iff IS_NUM_iff IS_URL_CHAR_iff IS_HOST_CHAR_def IS_ALPHANUM_def
      IS_USERINFO_CHAR_def)
  have "dec_val 0 (bytes ''8080'') = 8080" by (simp add: dec_val_def)
  with parse_render_url [OF ok, of http_parser_url_init] show ?thesis unfolding r by fastforce
qed

text \<open>
  An origin-form target \<open>/...\<close> is accepted whatever its length, but the reported length of its path is the real one
  only modulo 65536: the parser keeps lengths in 16 bits and does not refuse longer inputs.
\<close>

theorem path_length_wraps:
  assumes "\<forall>c \<in> set cs. IS_URL_CHAR c"
  shows "\<exists>u. http_parser_parse_url (47 # cs) False u0 = Some (0, u) \<and> has_field u UF_PATH \<and>
    foff u UF_PATH = 0 \<and> flen u UF_PATH = (1 + length cs) mod 65536"
  unfolding origin_run [OF assms]
  by (simp add: put_field_def unat_word_ariths unat_of_nat take_bit_eq_mod mod_simps del: of_nat_Suc)

theorem path_length_wraps_witness:
  "\<exists>u. http_parser_parse_url (47 # replicate 65536 97) False http_parser_url_init = Some (0, u) \<and> flen u UF_PATH = 1"
proof -
  have "\<forall>c \<in> set (replicate 65536 (97 :: u8)). IS_URL_CHAR c" by (simp add: IS_URL_CHAR_iff)
  from path_length_wraps [OF this, of http_parser_url_init] show ?thesis by auto
qed

end
