(* ===== verification/Http2_Client.thy ===== *)
theory Http2_Client
  imports Url_Parser
begin

text \<open>
  The HTTP/2 client, \<open>nghttp2_test/client/main.c\<close>: from the URI of the command line to the request headers
  (\<open>run\<close>, \<open>create_http2_stream_data\<close>, \<open>submit_request\<close>) and the callbacks that deal with the response.

  The buffers that the client allocates are byte lists with arbitrary initial contents (\<open>fill\<close>); \<open>read_at\<close> and \<open>write_at\<close>
  are \<open>None\<close> outside them. A URI is given as the memory of its C string, with the terminating zero. What the program
  prints is kept as two byte strings, its standard output and its standard error.

  The lemmas show that the buffers are large enough, that the request headers are exactly the parts of the URL, and that
  the standard output is exactly the body of the one response.
\<close>

section \<open>Memory\<close>

definition read_at :: "u8 list \<Rightarrow> nat \<Rightarrow> nat \<Rightarrow> u8 list option" where
  "read_at buf i n = (if i + n \<le> length buf then Some (slice buf i n) else None)"

definition write_at :: "u8 list \<Rightarrow> nat \<Rightarrow> u8 list \<Rightarrow> u8 list option" where
  "write_at buf i bs =
    (if i + length bs \<le> length buf then Some (take i buf @ bs @ drop (i + length bs) buf) else None)"

section \<open>The request\<close>

record http2_stream_data =
  authority_buf :: "u8 list"
  path_buf :: "u8 list"
  authoritylen :: nat
  pathlen :: nat

text \<open>The two halves of \<open>create_http2_stream_data\<close>: a buffer and the number of its bytes that count.\<close>

definition make_authority :: "u8 \<Rightarrow> u8 list \<Rightarrow> http_parser_url \<Rightarrow> (u8 list \<times> nat) option" where
  "make_authority fill uri u = do {
     let extra = 7;
     let hlen = flen u UF_HOST;
     host \<leftarrow> read_at uri (foff u UF_HOST) hlen;
     a1 \<leftarrow> write_at (replicate (hlen + extra) fill) 0 host;
     (if has_field u UF_PORT then do {
        let text = ch CHR '':'' # dec_digits (unat (port u));
        a2 \<leftarrow> write_at a1 hlen (take (extra - 1) text @ [0]);
        Some (a2, hlen + length text) }
      else Some (a1, hlen)) }"

definition make_path :: "u8 \<Rightarrow> u8 list \<Rightarrow> http_parser_url \<Rightarrow> (u8 list \<times> nat) option" where
  "make_path fill uri u = do {
     let plen = (if has_field u UF_PATH then flen u UF_PATH else 1) +
                (if has_field u UF_QUERY then flen u UF_QUERY + 1 else 0);
     text \<leftarrow> (if has_field u UF_PATH then read_at uri (foff u UF_PATH) (flen u UF_PATH) else Some (bytes ''/''));
     p1 \<leftarrow> write_at (replicate plen fill) 0 text;
     (if has_field u UF_QUERY then do {
        p2 \<leftarrow> write_at p1 (plen - flen u UF_QUERY - 1) (bytes ''?'');
        query \<leftarrow> read_at uri (foff u UF_QUERY) (flen u UF_QUERY);
        p3 \<leftarrow> write_at p2 (plen - flen u UF_QUERY) query;
        Some (p3, plen) }
      else Some (p1, plen)) }"

definition create_http2_stream_data :: "u8 \<Rightarrow> u8 list \<Rightarrow> http_parser_url \<Rightarrow> http2_stream_data option" where
  "create_http2_stream_data fill uri u = do {
     (a, alen) \<leftarrow> make_authority fill uri u;
     (p, plen) \<leftarrow> make_path fill uri u;
     Some \<lparr>authority_buf = a, path_buf = p, authoritylen = alen, pathlen = plen\<rparr> }"

type_synonym nv = "u8 list \<times> u8 list"

definition request_headers :: "u8 list \<Rightarrow> http_parser_url \<Rightarrow> http2_stream_data \<Rightarrow> nv list option" where
  "request_headers uri u d = do {
     scheme \<leftarrow> read_at uri (foff u UF_SCHEMA) (flen u UF_SCHEMA);
     auth \<leftarrow> read_at (authority_buf d) 0 (authoritylen d);
     path \<leftarrow> read_at (path_buf d) 0 (pathlen d);
     Some [(bytes '':method'', bytes ''GET''), (bytes '':scheme'', scheme), (bytes '':authority'', auth), (bytes '':path'', path)] }"

text \<open>
  \<open>run\<close> up to the event loop: \<open>u0\<close> is the uninitialised structure on the stack. The result is \<open>Inl\<close> for the exit
  with an error, and otherwise the host and port to connect to, the parsed URL and the stream.
\<close>

definition run :: "u8 \<Rightarrow> http_parser_url \<Rightarrow> u8 list \<Rightarrow> (unit + (u8 list \<times> u16 \<times> http_parser_url \<times> http2_stream_data)) option" where
  "run fill u0 uri = do {
     (rv, u) \<leftarrow> http_parser_parse_url (takeWhile (\<lambda>c. c \<noteq> 0) uri) False u0;
     if rv \<noteq> 0 then Some (Inl ())
     else do {
       host \<leftarrow> read_at uri (foff u UF_HOST) (flen u UF_HOST);
       let p = (if \<not> has_field u UF_PORT then 443 else port u);
       d \<leftarrow> create_http2_stream_data fill uri u;
       Some (Inr (takeWhile (\<lambda>c. c \<noteq> 0) host, p, u, d)) } }"

section \<open>The response\<close>

text \<open>The session; \<open>request_id\<close> is the field \<open>stream_id\<close> of its only stream, -1 until the request is submitted.\<close>

record http2_session_data =
  session_up :: bool
  request_id :: int
  terminated :: bool
  std_out :: "u8 list"
  std_err :: "u8 list"

definition create_http2_session_data :: http2_session_data where
  "create_http2_session_data =
    \<lparr>session_up = False, request_id = -1, terminated = False, std_out = [], std_err = []\<rparr>"

definition err_print :: "u8 list \<Rightarrow> http2_session_data \<Rightarrow> http2_session_data" where
  "err_print t s = s\<lparr>std_err := std_err s @ t\<rparr>"

definition int_digits :: "int \<Rightarrow> u8 list" where
  "int_digits i = (if i < 0 then ch CHR ''-'' # dec_digits (nat (- i)) else dec_digits (nat i))"

definition print_header :: "nv \<Rightarrow> u8 list" where
  "print_header h = fst h @ bytes '': '' @ snd h @ [10]"

definition print_headers :: "nv list \<Rightarrow> u8 list" where
  "print_headers hs = concat (map print_header hs) @ [10]"

datatype client_event =
    Response_header int nv
  | Response_begin int
  | Response_frame int
  | Data_chunk int "u8 list"
  | Stream_close int nat int

text \<open>
  The callbacks: the frame of the first three is a \<open>HEADERS\<close> frame of category \<open>RESPONSE\<close> (they ignore all others),
  and the last argument of \<open>Stream_close\<close> is what \<open>nghttp2_session_terminate_session\<close> returns.
\<close>

definition on_header_callback :: "int \<Rightarrow> nv \<Rightarrow> http2_session_data \<Rightarrow> http2_session_data" where
  "on_header_callback sid h s = (if request_id s = sid then err_print (print_header h) s else s)"

definition on_begin_headers_callback :: "int \<Rightarrow> http2_session_data \<Rightarrow> http2_session_data" where
  "on_begin_headers_callback sid s =
    (if request_id s = sid then err_print (bytes ''Response headers for stream ID='' @ int_digits sid @ bytes '':'' @ [10]) s else s)"

definition on_frame_recv_callback :: "int \<Rightarrow> http2_session_data \<Rightarrow> http2_session_data" where
  "on_frame_recv_callback sid s = (if request_id s = sid then err_print (bytes ''All headers received'' @ [10]) s else s)"

definition on_data_chunk_recv_callback :: "int \<Rightarrow> u8 list \<Rightarrow> http2_session_data \<Rightarrow> http2_session_data" where
  "on_data_chunk_recv_callback sid bs s = (if request_id s = sid then s\<lparr>std_out := std_out s @ bs\<rparr> else s)"

definition on_stream_close_callback :: "int \<Rightarrow> nat \<Rightarrow> int \<Rightarrow> http2_session_data \<Rightarrow> int \<times> http2_session_data" where
  "on_stream_close_callback sid error_code rv s =
    (if request_id s = sid then
       (let s1 = err_print (bytes ''Stream '' @ int_digits sid @ bytes '' closed with error_code='' @ dec_digits error_code @ [10]) s in
        if rv \<noteq> 0 then (-902, s1) else (0, s1\<lparr>terminated := True\<rparr>))
     else (0, s))"

primrec client_callback :: "client_event \<Rightarrow> http2_session_data \<Rightarrow> int \<times> http2_session_data" where
  "client_callback (Response_header sid h) s = (0, on_header_callback sid h s)"
| "client_callback (Response_begin sid) s = (0, on_begin_headers_callback sid s)"
| "client_callback (Response_frame sid) s = (0, on_frame_recv_callback sid s)"
| "client_callback (Data_chunk sid bs) s = (0, on_data_chunk_recv_callback sid bs s)"
| "client_callback (Stream_close sid code rv) s = on_stream_close_callback sid code rv s"

primrec client_callbacks :: "client_event list \<Rightarrow> http2_session_data \<Rightarrow> int \<times> http2_session_data" where
  "client_callbacks [] s = (0, s)"
| "client_callbacks (e # es) s =
    (case client_callback e s of (rv, s') \<Rightarrow> if rv \<noteq> 0 then (rv, s') else client_callbacks es s')"

text \<open>
  \<open>eventcb\<close> when the connection is up: the session is created, the settings and the request are submitted
  (\<open>settings_rv\<close> and \<open>sid\<close> are what the library returns; a failure exits the program), and the frames are sent.
  The result is \<open>Inl\<close> for an exit, and otherwise whether the session is kept, and its state.
\<close>

definition submit_request :: "u8 list \<Rightarrow> http_parser_url \<Rightarrow> http2_stream_data \<Rightarrow> int \<Rightarrow> http2_session_data \<Rightarrow>
    (unit + (nv list \<times> http2_session_data)) option" where
  "submit_request uri u d sid s = do {
     hdrs \<leftarrow> request_headers uri u d;
     let s1 = err_print (bytes ''Request headers:'' @ [10] @ print_headers hdrs) s;
     Some (if sid < 0 then Inl () else Inr (hdrs, s1\<lparr>request_id := sid\<rparr>)) }"

definition send_client_connection_header :: "int \<Rightarrow> http2_session_data \<Rightarrow> unit + http2_session_data" where
  "send_client_connection_header settings_rv s = (if settings_rv \<noteq> 0 then Inl () else Inr s)"

declare send_client_connection_header_def [simp]

text \<open>
  \<open>session_send\<close>: nghttp2 calls the callbacks of what it sends; \<open>fatal\<close> is an error of its own. The warning with the text of the error is left out.
\<close>

definition session_send :: "client_event list \<Rightarrow> bool \<Rightarrow> http2_session_data \<Rightarrow> int \<times> http2_session_data" where
  "session_send sent fatal s = (case client_callbacks sent s of (rv, s1) \<Rightarrow> (if rv \<noteq> 0 \<or> fatal then -1 else 0, s1))"

definition eventcb_connected :: "u8 list \<Rightarrow> http_parser_url \<Rightarrow> http2_stream_data \<Rightarrow> u8 list option \<Rightarrow> int \<Rightarrow> int \<Rightarrow> int \<Rightarrow>
    http2_session_data \<Rightarrow> (unit + (bool \<times> nv list \<times> http2_session_data)) option" where
  "eventcb_connected uri u d alpn settings_rv sid send_rv s =
    (let s0 = err_print (bytes ''Connected'' @ [10]) s in
     if alpn \<noteq> Some (bytes ''h2'') then Some (Inr (False, [], err_print (bytes ''h2 is not negotiated'' @ [10]) s0))
     else (case send_client_connection_header settings_rv (s0\<lparr>session_up := True\<rparr>) of
         Inl _ \<Rightarrow> Some (Inl ())
       | Inr s1 \<Rightarrow> do {
           r \<leftarrow> submit_request uri u d sid s1;
           (case r of
              Inl _ \<Rightarrow> Some (Inl ())
            | Inr (hdrs, s2) \<Rightarrow> Some (Inr (send_rv = 0, hdrs, s2))) }))"

text \<open>\<open>readcb\<close>: the callbacks that the received data causes, and those of \<open>session_send\<close>; whether the session is kept.\<close>

definition readcb :: "client_event list \<Rightarrow> bool \<Rightarrow> bool \<Rightarrow> client_event list \<Rightarrow> bool \<Rightarrow> http2_session_data \<Rightarrow> bool \<times> http2_session_data" where
  "readcb recvd fatal drain_ok sent send_fatal s =
    (case client_callbacks recvd s of (rv, s1) \<Rightarrow>
       if rv \<noteq> 0 \<or> fatal then (False, s1)
       else if \<not> drain_ok then (False, s1)
       else (case session_send sent send_fatal s1 of (rv', s2) \<Rightarrow> (rv' = 0, s2)))"

definition writecb :: "bool \<Rightarrow> bool \<Rightarrow> nat \<Rightarrow> http2_session_data \<Rightarrow> bool \<times> http2_session_data" where
  "writecb want_read want_write outlen s = (\<not> (\<not> want_read \<and> \<not> want_write \<and> outlen = 0), s)"


section \<open>Buffers\<close>

lemma write_at_start: "length bs \<le> length buf \<Longrightarrow> write_at buf 0 bs = Some (bs @ drop (length bs) buf)"
  by (simp add: write_at_def)

lemma write_at_append: "length bs \<le> length ys \<Longrightarrow> i = length xs \<Longrightarrow> write_at (xs @ ys) i bs = Some (xs @ bs @ drop (length bs) ys)"
  by (simp add: write_at_def)

lemma read_at_append: "n = length xs \<Longrightarrow> read_at (xs @ ys) 0 n = Some xs"
  by (simp add: read_at_def slice_def)

definition port_text :: "http_parser_url \<Rightarrow> u8 list" where
  "port_text u = (if has_field u UF_PORT then 58 # dec_digits (unat (port u)) else [])"

lemma port_text_fits: "length (port_text u) \<le> 6"
proof -
  have "unat (port u) < 10 ^ 5" using unsigned_less [where w = "port u" and 'a = nat] by simp
  from length_dec_digits [OF this] show ?thesis by (simp add: port_text_def)
qed

definition path_text :: "u8 list \<Rightarrow> http_parser_url \<Rightarrow> u8 list" where
  "path_text uri u =
    (if has_field u UF_PATH then slice uri (foff u UF_PATH) (flen u UF_PATH) else [47]) @
    (if has_field u UF_QUERY then 63 # slice uri (foff u UF_QUERY) (flen u UF_QUERY) else [])"


lemma write_fresh: "length bs = n \<Longrightarrow> write_at (replicate (n + m) f) 0 bs = Some (bs @ replicate m f)"
  unfolding replicate_add by (simp add: write_at_def)

lemma make_authority_text:
  assumes "foff u UF_HOST + flen u UF_HOST \<le> length uri"
  shows "\<exists>a n. make_authority fill uri u = Some (a, n) \<and>
    read_at a 0 n = Some (slice uri (foff u UF_HOST) (flen u UF_HOST) @ port_text u)"
proof -
  let ?n = "flen u UF_HOST"
  let ?host = "slice uri (foff u UF_HOST) ?n"
  have l: "length ?host = ?n" using assms by (simp add: length_slice)
  have r: "read_at uri (foff u UF_HOST) ?n = Some ?host" using assms by (simp add: read_at_def)
  have w: "write_at (replicate (?n + 7) fill) 0 ?host = Some (?host @ replicate 7 fill)" by (rule write_fresh [OF l])
  show ?thesis
  proof (cases "has_field u UF_PORT")
    case True
    let ?t = "58 # dec_digits (unat (port u))"
    have t: "port_text u = ?t" "length ?t \<le> 6" using True port_text_fits [of u] by (simp_all add: port_text_def)
    have "write_at (?host @ replicate 7 fill) ?n (?t @ [0]) = Some (?host @ (?t @ [0]) @ drop (length (?t @ [0])) (replicate 7 fill))"
      by (rule write_at_append) (use l t in simp_all)
    with True r w t have "make_authority fill uri u =
        Some ((?host @ ?t) @ 0 # drop (length (?t @ [0])) (replicate 7 fill), ?n + length ?t)"
      by (simp add: make_authority_def Let_def)
    then show ?thesis using l t(1) read_at_append [of "?n + length ?t" "?host @ ?t"] by auto
  next
    case False
    with r w l show ?thesis by (simp add: make_authority_def Let_def port_text_def read_at_append)
  qed
qed

lemma make_path_text:
  assumes "has_field u UF_PATH \<Longrightarrow> foff u UF_PATH + flen u UF_PATH \<le> length uri"
    and "has_field u UF_QUERY \<Longrightarrow> foff u UF_QUERY + flen u UF_QUERY \<le> length uri"
  shows "\<exists>p n. make_path fill uri u = Some (p, n) \<and> read_at p 0 n = Some (path_text uri u)"
proof -
  let ?m = "flen u UF_QUERY"
  let ?t = "if has_field u UF_PATH then slice uri (foff u UF_PATH) (flen u UF_PATH) else [47]"
  define n where "n = (if has_field u UF_PATH then flen u UF_PATH else 1)"
  have l: "length ?t = n" using assms(1) by (simp add: length_slice n_def)
  have r: "(if has_field u UF_PATH then read_at uri (foff u UF_PATH) (flen u UF_PATH) else Some (bytes ''/'')) = Some ?t"
    using assms(1) by (simp add: read_at_def)
  show ?thesis
  proof (cases "has_field u UF_QUERY")
    case True
    let ?q = "slice uri (foff u UF_QUERY) ?m"
    have q: "read_at uri (foff u UF_QUERY) ?m = Some ?q" "length ?q = ?m"
      using assms(2) True by (simp_all add: read_at_def length_slice)
    have 1: "write_at (replicate (n + (?m + 1)) fill) 0 ?t = Some (?t @ replicate (?m + 1) fill)" by (rule write_fresh [OF l])
    have 2: "write_at (?t @ replicate (?m + 1) fill) n [63] = Some (?t @ [63] @ replicate ?m fill)"
      using write_at_append [of "[63]" "replicate (?m + 1) fill" n ?t] l by simp
    have 3: "write_at ((?t @ [63]) @ replicate ?m fill) (Suc n) ?q = Some ((?t @ [63]) @ ?q)"
      using write_at_append [of ?q "replicate ?m fill" "Suc n" "?t @ [63]"] l q(2) by simp
    have "make_path fill uri u = Some (?t @ 63 # ?q, n + (?m + 1))"
      using True 1 2 3 q(1) unfolding make_path_def r n_def [symmetric] by simp
    moreover have "path_text uri u = ?t @ 63 # ?q" using True by (simp add: path_text_def)
    ultimately show ?thesis using l q(2) read_at_append [of "n + (?m + 1)" "?t @ 63 # ?q" "[]"] by auto
  next
    case False
    have 1: "write_at (replicate (n + 0) fill) 0 ?t = Some (?t @ replicate 0 fill)" by (rule write_fresh [OF l])
    then have "make_path fill uri u = Some (?t, n)"
      using False unfolding make_path_def r n_def [symmetric] by simp
    then show ?thesis using False l read_at_append [of n ?t "[]"] by (auto simp: path_text_def)
  qed
qed

lemma create_stream_texts:
  assumes "foff u UF_HOST + flen u UF_HOST \<le> length uri"
    and "has_field u UF_PATH \<Longrightarrow> foff u UF_PATH + flen u UF_PATH \<le> length uri"
    and "has_field u UF_QUERY \<Longrightarrow> foff u UF_QUERY + flen u UF_QUERY \<le> length uri"
  shows "\<exists>d. create_http2_stream_data fill uri u = Some d \<and>
    read_at (authority_buf d) 0 (authoritylen d) = Some (slice uri (foff u UF_HOST) (flen u UF_HOST) @ port_text u) \<and>
    read_at (path_buf d) 0 (pathlen d) = Some (path_text uri u)"
proof -
  obtain a n where "make_authority fill uri u = Some (a, n)"
    "read_at a 0 n = Some (slice uri (foff u UF_HOST) (flen u UF_HOST) @ port_text u)"
    using make_authority_text [OF assms(1)] by blast
  moreover obtain p m where "make_path fill uri u = Some (p, m)" "read_at p 0 m = Some (path_text uri u)"
    using make_path_text [OF assms(2,3)] by blast
  ultimately show ?thesis by (simp add: create_http2_stream_data_def)
qed


section \<open>A host comes with a schema\<close>

definition schema_inv :: "state \<Rightarrow> http_parser_url \<Rightarrow> bool" where
  "schema_inv s u \<longleftrightarrow>
    (s \<in> {s_req_schema, s_req_schema_slash, s_req_schema_slash_slash, s_req_server_start, s_req_server, s_req_server_with_at} \<longrightarrow>
       has_field u UF_SCHEMA) \<and>
    s \<notin> {s_dead} \<and> (has_field u UF_HOST \<longrightarrow> has_field u UF_SCHEMA)"

lemma server_state_from:
  "parse_url_char s c = t \<Longrightarrow> t \<in> {s_req_schema_slash, s_req_schema_slash_slash, s_req_server_start, s_req_server, s_req_server_with_at} \<Longrightarrow>
   s \<in> {s_req_schema, s_req_schema_slash, s_req_schema_slash_slash, s_req_server_start, s_req_server, s_req_server_with_at}"
  by (cases s) (auto simp: parse_url_char_def parse_server_char_def split: if_splits)

lemma url_loop_schema:
  "url_loop cs p s old fa u = Some (Inr (fa', u')) \<Longrightarrow> schema_inv s u \<Longrightarrow> old = UF_MAX \<or> has_field u old \<Longrightarrow>
   has_field u' UF_HOST \<Longrightarrow> has_field u' UF_SCHEMA"
proof (induction cs p s old fa u rule: url_loop.induct)
  case (1 p s old fa u)
  then show ?case by (simp add: schema_inv_def)
next
  case (2 c cs p s old fa u)
  let ?t = "parse_url_char s c"
  show ?case
  proof (cases "state_field ?t")
    case Skip
    then have "schema_inv ?t u"
      using "2.prems"(2) server_state_from [of s c ?t] by (cases ?t) (auto simp: schema_inv_def state_field_def)
    with Skip 2 show ?thesis by simp
  next
    case (In_field uf)
    have "uf \<noteq> UF_MAX" using state_field_In [OF In_field] by auto
    moreover have "schema_inv ?t (enter_field p uf old u)"
      using "2.prems"(2,3) In_field server_state_from [of s c ?t] \<open>uf \<noteq> UF_MAX\<close>
      by (cases ?t) (auto simp: schema_inv_def state_field_def has_enter_field)
    ultimately show ?thesis using "2.prems" "2.IH"(2) [OF refl In_field] In_field
      by (auto simp: has_enter_field Let_def)
  qed (use "2.prems" in auto)
qed

lemma parsed_schema:
  assumes "http_parser_parse_url text False u0 = Some (0, u)" "length text \<le> 65535" "has_field u UF_HOST"
  shows "has_field u UF_SCHEMA"
proof -
  obtain fa u1 u2 where
    l: "url_loop text 0 (if False then s_req_server_start else s_req_spaces_before_url) UF_MAX False (u0\<lparr>port := 0, field_set := 0\<rparr>) = Some (Inr (fa, u1))"
    and w: "fields_within (length text) u1" and np: "\<not> has_field u1 UF_PORT" "\<not> has_field u1 UF_USERINFO"
    and h: "(if has_field u1 UF_HOST then http_parse_host text u1 fa else Some (0, u1)) = Some (0, u2)"
    and p: "(if has_field u2 UF_PORT then parse_port text u2 else Some (0, u2)) = Some (0, u)"
    using parse_url_cases [OF assms(1,2)] by blast
  from l have loop: "url_loop text 0 s_req_spaces_before_url UF_MAX False (u0\<lparr>port := 0, field_set := 0\<rparr>) = Some (Inr (fa, u1))"
    by simp
  have uu2: "has_field u f = has_field u2 f" for f
    using p by (auto simp: parse_port_def Let_def split: if_splits option.splits)
  have u21: "has_field u2 f = has_field u1 f" if "f \<in> {UF_HOST, UF_SCHEMA}" for f
    using h http_parse_host_ok [OF _ w np assms(2), of fa u2] that by (cases "has_field u1 UF_HOST") auto
  have "schema_inv s_req_spaces_before_url (u0\<lparr>port := 0, field_set := 0\<rparr>)" by (simp add: schema_inv_def)
  from url_loop_schema [OF loop this] assms(3) show ?thesis by (simp add: uu2 u21)
qed

section \<open>The request as a whole\<close>

lemma slice_prefix: "i + n \<le> length t \<Longrightarrow> slice (t @ z) i n = slice t i n"
  by (simp add: slice_def)

lemma takeWhile_snoc_0: "0 \<notin> set t \<Longrightarrow> takeWhile (\<lambda>c. c \<noteq> (0::u8)) (t @ [0]) = t"
  by (induction t) auto

lemma path_text_snoc:
  "fields_within (length text) u \<Longrightarrow> path_text (text @ z) u = path_text text u"
  by (simp add: path_text_def slice_prefix fields_within_def)

lemma run_accepted:
  assumes "http_parser_parse_url text False u0 = Some (0, u)" "length text \<le> 65535" "has_field u UF_HOST"
  shows "\<exists>d. run fill u0 (text @ [0]) =
      Some (Inr (slice text (foff u UF_HOST) (flen u UF_HOST), if has_field u UF_PORT then port u else 443, u, d)) \<and>
    request_headers (text @ [0]) u d = Some
      [(bytes '':method'', bytes ''GET''),
       (bytes '':scheme'', slice text (foff u UF_SCHEMA) (flen u UF_SCHEMA)),
       (bytes '':authority'', slice text (foff u UF_HOST) (flen u UF_HOST) @ port_text u),
       (bytes '':path'', path_text text u)]"
proof -
  note facts = parse_url_facts [OF assms(1,2)]
  have w: "fields_within (length text) u" using facts by blast
  then have b: "has_field u f \<Longrightarrow> foff u f + flen u f \<le> length text" for f by (simp add: fields_within_def)
  have z: "0 \<notin> set text" using facts by (auto simp: printable_def)
  have s: "has_field u UF_SCHEMA" by (rule parsed_schema [OF assms])
  let ?host = "slice text (foff u UF_HOST) (flen u UF_HOST)"
  have host: "read_at (text @ [0]) (foff u UF_HOST) (flen u UF_HOST) = Some ?host"
    "read_at (text @ [0]) (foff u UF_SCHEMA) (flen u UF_SCHEMA) = Some (slice text (foff u UF_SCHEMA) (flen u UF_SCHEMA))"
    using b [OF assms(3)] b [OF s] by (simp_all add: read_at_def slice_prefix)
  have "0 \<notin> set ?host" using z by (auto dest: set_slice)
  then have th: "takeWhile (\<lambda>c. c \<noteq> 0) ?host = ?host" by (auto simp: takeWhile_eq_all_conv)
  have "foff u UF_HOST + flen u UF_HOST \<le> length (text @ [0])" using b [OF assms(3)] by simp
  then obtain d where d: "create_http2_stream_data fill (text @ [0]) u = Some d"
    "read_at (authority_buf d) 0 (authoritylen d) = Some (?host @ port_text u)"
    "read_at (path_buf d) 0 (pathlen d) = Some (path_text text u)"
    using create_stream_texts [of u "text @ [0]" fill] b path_text_snoc [OF w, of "[0]"] slice_prefix [OF b [OF assms(3)], of "[0]"]
    by fastforce
  have "run fill u0 (text @ [0]) = Some (Inr (?host, if has_field u UF_PORT then port u else 443, u, d))"
    using assms(1) host d(1) th by (simp add: run_def takeWhile_snoc_0 [OF z])
  with d(2,3) host show ?thesis by (simp add: request_headers_def)
qed


lemma stdout_callback:
  "fst (client_callback e s) = 0 \<Longrightarrow>
   std_out (snd (client_callback e s)) = std_out s @ (case e of Data_chunk sid bs \<Rightarrow> if sid = request_id s then bs else [] | _ \<Rightarrow> []) \<and>
   request_id (snd (client_callback e s)) = request_id s"
  by (cases e) (auto simp: on_header_callback_def on_begin_headers_callback_def on_frame_recv_callback_def
    on_data_chunk_recv_callback_def on_stream_close_callback_def err_print_def Let_def)

definition chunk_of :: "int \<Rightarrow> client_event \<Rightarrow> u8 list" where
  "chunk_of rid e = (case e of Data_chunk sid bs \<Rightarrow> if sid = rid then bs else [] | _ \<Rightarrow> [])"

lemma stdout_callbacks:
  "fst (client_callbacks es s) = 0 \<Longrightarrow>
   std_out (snd (client_callbacks es s)) = std_out s @ concat (map (chunk_of (request_id s)) es) \<and>
   request_id (snd (client_callbacks es s)) = request_id s"
proof (induction es arbitrary: s)
  case (Cons e es)
  obtain rv s' where e: "client_callback e s = (rv, s')" by (cases "client_callback e s")
  with Cons.prems have "rv = 0" by (auto split: if_splits)
  with e Cons stdout_callback [of e s] show ?case by (auto simp: chunk_of_def)
qed simp

section \<open>Properties\<close>

text \<open>
  For every URL that the parser accepts and that names a host, the client stays within the URL and the buffers it
  allocates, and its request consists of the schema, the host followed by the port number (if any), and the path (or
  \<open>/\<close>) followed by the query (if any) of the URL; it connects to that host, on port 443 if the URL has no port.
\<close>

theorem client_request_in_bounds:
  assumes "http_parser_parse_url text False u0 = Some (0, u)" "length text \<le> 65535" "has_field u UF_HOST"
  shows "\<exists>d. run fill u0 (text @ [0]) =
      Some (Inr (slice text (foff u UF_HOST) (flen u UF_HOST), if has_field u UF_PORT then port u else 443, u, d)) \<and>
    request_headers (text @ [0]) u d = Some
      [(bytes '':method'', bytes ''GET''),
       (bytes '':scheme'', slice text (foff u UF_SCHEMA) (flen u UF_SCHEMA)),
       (bytes '':authority'', slice text (foff u UF_HOST) (flen u UF_HOST) @ port_text u),
       (bytes '':path'', path_text text u)]"
  by (rule run_accepted [OF assms])

theorem client_request_in_bounds_witness:
  "\<exists>p u d. run 0 http_parser_url_init (bytes ''http://[::1]/'' @ [0]) = Some (Inr (bytes ''::1'', p, u, d))"
proof -
  let ?t = "bytes ''http://[::1]/''"
  have "map_option (\<lambda>(rc, u). (rc, has_field u UF_HOST, slice ?t (foff u UF_HOST) (flen u UF_HOST)))
      (http_parser_parse_url ?t False http_parser_url_init) = Some (0, True, bytes ''::1'')"
    by code_simp
  then obtain u where "http_parser_parse_url ?t False http_parser_url_init = Some (0, u)" "has_field u UF_HOST"
    "slice ?t (foff u UF_HOST) (flen u UF_HOST) = bytes ''::1''" by auto
  with client_request_in_bounds [of ?t http_parser_url_init u 0] show ?thesis by auto
qed

lemma request_of_parts:
  assumes "url_parts_ok q" "length (render_url q) \<le> 65535"
  shows "\<exists>prt u d. run fill u0 (render_url q @ [0]) = Some (Inr (p_host q, prt, u, d)) \<and>
    unat prt = (case p_port q of None \<Rightarrow> 443 | Some t \<Rightarrow> dec_val 0 t) \<and>
    request_headers (render_url q @ [0]) u d = Some
      [(bytes '':method'', bytes ''GET''),
       (bytes '':scheme'', p_schema q),
       (bytes '':authority'', p_host q @ prefixed (ch CHR '':'') (map_option (\<lambda>t. dec_digits (dec_val 0 t)) (p_port q))),
       (bytes '':path'', (if p_path q = [] then bytes ''/'' else p_path q) @ prefixed (ch CHR ''?'') (nonempty (p_query q)))]"
proof -
  let ?b = "render_url q"
  obtain u where u: "http_parser_parse_url ?b False u0 = Some (0, u)"
    and t: "field_text ?b u UF_SCHEMA = Some (p_schema q)" "field_text ?b u UF_HOST = Some (p_host q)"
      "field_text ?b u UF_PORT = p_port q" "field_text ?b u UF_PATH = nonempty (Some (p_path q))"
      "field_text ?b u UF_QUERY = nonempty (p_query q)"
    and pr: "unat (port u) = (case p_port q of None \<Rightarrow> 0 | Some t \<Rightarrow> dec_val 0 t)"
    using parse_render [OF assms, of u0] by blast
  have has: "has_field u f = (field_text ?b u f \<noteq> None)" for f by (simp add: field_text_def)
  note sl = field_text_SomeD [OF t(1)] field_text_SomeD [OF t(2)]
  have port: "port_text u = prefixed 58 (map_option (\<lambda>t. dec_digits (dec_val 0 t)) (p_port q))"
    "unat (if has_field u UF_PORT then port u else 443) = (case p_port q of None \<Rightarrow> 443 | Some t \<Rightarrow> dec_val 0 t)"
    using pr by (simp_all add: port_text_def has t(3) prefixed_def split: option.split)
  have path: "path_text ?b u = (if p_path q = [] then [47] else p_path q) @ prefixed 63 (nonempty (p_query q))"
    using t(4,5) field_text_SomeD [of ?b u UF_PATH] field_text_SomeD [of ?b u UF_QUERY]
    by (cases "nonempty (p_query q)") (auto simp: path_text_def has nonempty_def prefixed_def)
  from run_accepted [OF u assms(2), of fill] sl port path show ?thesis by (auto simp: has t)
qed

text \<open>
  C18. From a URL written from its parts, the client sends the request for exactly these parts: schema, host and port
  number, path and query; the user information and the fragment are not sent.
\<close>

theorem client_request_of_parts:
  assumes "url_parts_ok q" "length (render_url q) \<le> 65535"
  shows "\<exists>prt u d. run fill u0 (render_url q @ [0]) = Some (Inr (p_host q, prt, u, d)) \<and>
    unat prt = (case p_port q of None \<Rightarrow> 443 | Some t \<Rightarrow> dec_val 0 t) \<and>
    request_headers (render_url q @ [0]) u d = Some
      [(bytes '':method'', bytes ''GET''),
       (bytes '':scheme'', p_schema q),
       (bytes '':authority'', p_host q @ prefixed (ch CHR '':'') (map_option (\<lambda>t. dec_digits (dec_val 0 t)) (p_port q))),
       (bytes '':path'', (if p_path q = [] then bytes ''/'' else p_path q) @ prefixed (ch CHR ''?'') (nonempty (p_query q)))]"
  using assms by (rule request_of_parts)

theorem client_request_of_parts_witness:
  "\<exists>prt u d. run 7 http_parser_url_init (bytes ''https://h.x:0443?k#f'' @ [0]) = Some (Inr (bytes ''h.x'', prt, u, d)) \<and>
    unat prt = 443 \<and> request_headers (bytes ''https://h.x:0443?k#f'' @ [0]) u d = Some
      [(bytes '':method'', bytes ''GET''), (bytes '':scheme'', bytes ''https''),
       (bytes '':authority'', bytes ''h.x:443''), (bytes '':path'', bytes ''/?k'')]"
proof -
  let ?q = "\<lparr>p_schema = bytes ''https'', p_userinfo = None, p_host = bytes ''h.x'',
    p_port = Some (bytes ''0443''), p_path = [], p_query = Some (bytes ''k''), p_fragment = Some (bytes ''f'')\<rparr>"
  have r: "render_url ?q = bytes ''https://h.x:0443?k#f''"
    by (simp add: render_url_def authority_def prefixed_def)
  have ok: "url_parts_ok ?q"
    by (simp add: url_parts_ok_def opt_all_def dec_val_def IS_ALPHA_iff IS_NUM_iff IS_URL_CHAR_iff IS_HOST_CHAR_def IS_ALPHANUM_def)
  have d: "dec_val 0 (bytes ''0443'') = 443" "dec_digits 443 = bytes ''443''" by (simp_all add: dec_val_def dec_digits.simps)
  show ?thesis using client_request_of_parts [OF ok, of 7 http_parser_url_init] d
    unfolding r by (simp add: nonempty_def prefixed_def)
qed

text \<open>
  The client does not check that the URL names a host: for an origin-form URL it uses the offset and the length of the
  host that happened to be in the uninitialised structure, and reads outside the URL when these do.
\<close>

theorem client_uninitialised_host:
  assumes "\<forall>c \<in> set cs. IS_URL_CHAR c" "length cs + 2 < foff u0 UF_HOST + flen u0 UF_HOST"
  shows "run fill u0 ((47 # cs) @ [0]) = None"
proof -
  have "0 \<notin> set (47 # cs)" using assms(1) by (auto dest: URL_CHAR_not simp: IS_URL_CHAR_iff)
  from takeWhile_snoc_0 [OF this] have "run fill u0 ((47 # cs) @ [0]) =
      Option.bind (read_at ((47 # cs) @ [0]) (foff u0 UF_HOST) (flen u0 UF_HOST)) (\<lambda>host. Option.bind
        (create_http2_stream_data fill ((47 # cs) @ [0]) (put_field UF_PATH 0 (Suc (length cs)) (u0\<lparr>port := 0, field_set := 0\<rparr>)))
        (\<lambda>d. Some (Inr (takeWhile (\<lambda>c. c \<noteq> 0) host, 443, put_field UF_PATH 0 (Suc (length cs)) (u0\<lparr>port := 0, field_set := 0\<rparr>), d))))"
    unfolding run_def by (simp add: origin_run [OF assms(1)] del: takeWhile.simps)
  with assms(2) show ?thesis by (simp add: read_at_def)
qed

theorem client_uninitialised_host_witness:
  "run 0 (set_off UF_HOST 1000 http_parser_url_init) (bytes ''/x'' @ [0]) = None"
  using client_uninitialised_host [of "bytes ''x''" "set_off UF_HOST 1000 http_parser_url_init" 0]
  by (simp add: IS_URL_CHAR_iff http_parser_url_init_def)



end
