(* ===== verification/Http2_Client_Life.thy ===== *)
theory Http2_Client_Life
  imports Http2_Client
begin

text \<open>
  The life of the HTTP/2 client, \<open>nghttp2_test/client/main.c\<close>, around the requests and responses of \<open>Http2_Client\<close>: contexts and connection are created,
  libevent runs the callbacks until the session is deleted, and the rest is released. The state has the set of what is allocated; releasing
  something twice, or following a pointer of a deleted session or a \<open>NULL\<close> session of nghttp2, is \<open>None\<close>. \<open>Inl\<close> is an exit of the program with its status.
  The results of library calls are arguments. Memory is not exhausted, since the program does not check for it.
\<close>

section \<open>Resources\<close>

datatype res = Ssl_ctx | Event_base | Session_data | Dns_base | Bufferevent | Ssl | Nghttp2_session | Stream_data | Authority | Path | Host

record life =
  alive :: "res set"
  has_session :: bool
  sd :: http2_session_data

definition allocate :: "res \<Rightarrow> life \<Rightarrow> life" where
  "allocate r l = l\<lparr>alive := insert r (alive l)\<rparr>"

definition release :: "res \<Rightarrow> life \<Rightarrow> life option" where
  "release r l = (if r \<in> alive l then Some (l\<lparr>alive := alive l - {r}\<rparr>) else None)"

definition delete_http2_stream_data :: "life \<Rightarrow> life option" where
  "delete_http2_stream_data l = do { l1 \<leftarrow> release Path l; l2 \<leftarrow> release Authority l1; release Stream_data l2 }"

text \<open>\<open>BEV_OPT_CLOSE_ON_FREE\<close>: the SSL object goes with the bufferevent. \<open>nghttp2_session_del\<close> accepts \<open>NULL\<close>.\<close>

definition bufferevent_free :: "life \<Rightarrow> life option" where
  "bufferevent_free l = do { l1 \<leftarrow> release Bufferevent l; release Ssl l1 }"

definition nghttp2_session_del :: "life \<Rightarrow> life option" where
  "nghttp2_session_del l = (if has_session l then do { l1 \<leftarrow> release Nghttp2_session l; Some (l1\<lparr>has_session := False\<rparr>) } else Some l)"

definition delete_http2_session_data :: "life \<Rightarrow> life option" where
  "delete_http2_session_data l = do {
     l1 \<leftarrow> bufferevent_free l;
     l2 \<leftarrow> release Dns_base l1;
     l3 \<leftarrow> nghttp2_session_del l2;
     l4 \<leftarrow> delete_http2_stream_data l3;
     release Session_data l4 }"

section \<open>Callbacks of libevent\<close>

text \<open>The protocol that was negotiated: by NPN, or else by ALPN.\<close>

definition negotiated :: "u8 list option \<Rightarrow> u8 list option \<Rightarrow> u8 list option" where
  "negotiated npn alpn = (case npn of None \<Rightarrow> alpn | Some p \<Rightarrow> Some p)"

datatype lib_event =
  Ev_connected "u8 list option" "u8 list option" int int int
| Ev_eof | Ev_error | Ev_timeout | Ev_other
| Ev_read "client_event list" bool bool "client_event list" bool
| Ev_write bool bool nat

definition initialize_nghttp2_session :: "life \<Rightarrow> life" where
  "initialize_nghttp2_session l = (allocate Nghttp2_session l)\<lparr>has_session := True\<rparr>"

text \<open>A callback that ends with the deletion of the session, or keeps it.\<close>

definition keep_or_delete :: "bool \<Rightarrow> life \<Rightarrow> (int + life) option" where
  "keep_or_delete keep l = (if keep then Some (Inr l) else map_option Inr (delete_http2_session_data l))"

definition eventcb :: "u8 list \<Rightarrow> http_parser_url \<Rightarrow> http2_stream_data \<Rightarrow> lib_event \<Rightarrow> life \<Rightarrow> (int + life) option" where
  "eventcb uri u d ev l = (case ev of
     Ev_connected npn alpn settings_rv sid send_rv \<Rightarrow> do {
       r \<leftarrow> eventcb_connected uri u d (negotiated npn alpn) settings_rv sid send_rv (sd l);
       case r of Inl _ \<Rightarrow> Some (Inl 1)
       | Inr (keep, hdrs, s1) \<Rightarrow>
           (let l1 = (if negotiated npn alpn = Some (bytes ''h2'') then initialize_nghttp2_session l else l) in keep_or_delete keep (l1\<lparr>sd := s1\<rparr>)) }
   | Ev_eof \<Rightarrow> keep_or_delete False (l\<lparr>sd := err_print (bytes ''Disconnected from the remote host'' @ [10]) (sd l)\<rparr>)
   | Ev_error \<Rightarrow> keep_or_delete False (l\<lparr>sd := err_print (bytes ''Network error'' @ [10]) (sd l)\<rparr>)
   | Ev_timeout \<Rightarrow> keep_or_delete False (l\<lparr>sd := err_print (bytes ''Timeout'' @ [10]) (sd l)\<rparr>)
   | _ \<Rightarrow> keep_or_delete False l)"

definition bev_callback :: "u8 list \<Rightarrow> http_parser_url \<Rightarrow> http2_stream_data \<Rightarrow> lib_event \<Rightarrow> life \<Rightarrow> (int + life) option" where
  "bev_callback uri u d ev l = (case ev of
     Ev_read recvd fatal drain_ok sent send_fatal \<Rightarrow>
       if \<not> has_session l then None
       else (case readcb recvd fatal drain_ok sent send_fatal (sd l) of (keep, s1) \<Rightarrow> keep_or_delete keep (l\<lparr>sd := s1\<rparr>))
   | Ev_write want_read want_write outlen \<Rightarrow>
       if \<not> has_session l then None
       else (case writecb want_read want_write outlen (sd l) of (keep, s1) \<Rightarrow> keep_or_delete keep (l\<lparr>sd := s1\<rparr>))
   | _ \<Rightarrow> eventcb uri u d ev l)"

text \<open>\<open>event_base_loop\<close>: events are delivered as long as the bufferevent exists.\<close>

fun event_loop :: "u8 list \<Rightarrow> http_parser_url \<Rightarrow> http2_stream_data \<Rightarrow> lib_event list \<Rightarrow> life \<Rightarrow> (int + life) option" where
  "event_loop uri u d [] l = Some (Inr l)"
| "event_loop uri u d (ev # evs) l =
    (if Bufferevent \<in> alive l then
       (case bev_callback uri u d ev l of None \<Rightarrow> None | Some (Inl n) \<Rightarrow> Some (Inl n) | Some (Inr l1) \<Rightarrow> event_loop uri u d evs l1)
     else Some (Inr l))"

section \<open>From start to end\<close>

definition create_ssl_ctx :: "bool \<Rightarrow> life \<Rightarrow> int + life" where
  "create_ssl_ctx ok l = (if ok then Inr (allocate Ssl_ctx l) else Inl 1)"

definition create_session :: "life \<Rightarrow> life" where
  "create_session l = allocate Dns_base (allocate Session_data l)"

definition create_stream :: "life \<Rightarrow> life" where
  "create_stream l = allocate Path (allocate Authority (allocate Stream_data l))"

definition initiate_connection :: "bool \<Rightarrow> int \<Rightarrow> life \<Rightarrow> int + life" where
  "initiate_connection ssl_ok connect_rv l =
    (if \<not> ssl_ok then Inl 1 else let l1 = allocate Bufferevent (allocate Ssl l) in if connect_rv \<noteq> 0 then Inl 1 else Inr l1)"

definition client_run :: "u8 \<Rightarrow> http_parser_url \<Rightarrow> u8 list \<Rightarrow> bool \<Rightarrow> bool \<Rightarrow> int \<Rightarrow> lib_event list \<Rightarrow> (int + life) option" where
  "client_run fill u0 uri ctx_ok ssl_ok connect_rv evs = do {
     r \<leftarrow> Http2_Client.run fill u0 uri;
     case r of Inl _ \<Rightarrow> Some (Inl 1)
     | Inr (host, prt, u, d) \<Rightarrow>
         (case create_ssl_ctx ctx_ok \<lparr>alive = {Host}, has_session = False, sd = create_http2_session_data\<rparr> of Inl n \<Rightarrow> Some (Inl n)
          | Inr l1 \<Rightarrow>
              (case initiate_connection ssl_ok connect_rv (create_stream (create_session (allocate Event_base l1))) of Inl n \<Rightarrow> Some (Inl n)
               | Inr l2 \<Rightarrow> do {
                   l3 \<leftarrow> release Host l2;
                   r2 \<leftarrow> event_loop uri u d evs l3;
                   case r2 of Inl n \<Rightarrow> Some (Inl n)
                   | Inr l4 \<Rightarrow> do { l5 \<leftarrow> release Event_base l4; l6 \<leftarrow> release Ssl_ctx l5; Some (Inr l6) } })) }"

definition client_main :: "u8 \<Rightarrow> http_parser_url \<Rightarrow> u8 list list \<Rightarrow> bool \<Rightarrow> bool \<Rightarrow> int \<Rightarrow> lib_event list \<Rightarrow> (int + life) option" where
  "client_main fill u0 argv ctx_ok ssl_ok connect_rv evs =
    (if length argv < 2 then Some (Inl 1) else client_run fill u0 (argv ! 1) ctx_ok ssl_ok connect_rv evs)"

section \<open>Nothing is released twice and nothing remains\<close>

text \<open>What a session owns: everything, or nothing after its deletion; the session of nghttp2 from the connection on.\<close>

definition owned :: "bool \<Rightarrow> res set" where
  "owned up = {Session_data, Dns_base, Bufferevent, Ssl, Stream_data, Authority, Path} \<union> (if up then {Nghttp2_session} else {})"

definition life_inv :: "life \<Rightarrow> bool" where
  "life_inv l \<longleftrightarrow> alive l = {Ssl_ctx, Event_base} \<union> owned (has_session l) \<or> alive l = {Ssl_ctx, Event_base}"

lemma delete_session:
  assumes "alive l = {Ssl_ctx, Event_base} \<union> owned (has_session l)"
  shows "\<exists>l'. delete_http2_session_data l = Some l' \<and> alive l' = {Ssl_ctx, Event_base} \<and> sd l' = sd l"
proof -
  have "Bufferevent \<in> alive l" using assms by (auto simp: owned_def)
  with assms show ?thesis
    by (cases "has_session l")
      (auto simp: delete_http2_session_data_def bufferevent_free_def release_def nghttp2_session_del_def delete_http2_stream_data_def owned_def)
qed

lemma keep_or_delete_inv:
  assumes "alive l = {Ssl_ctx, Event_base} \<union> owned (has_session l)"
  shows "\<exists>l'. keep_or_delete keep l = Some (Inr l') \<and> life_inv l' \<and> (keep \<longrightarrow> l' = l) \<and> (\<not> keep \<longrightarrow> Bufferevent \<notin> alive l')"
  using delete_session [OF assms] assms by (auto simp: keep_or_delete_def life_inv_def)

text \<open>
  The order in which libevent reports the events of a connection: an event of \<open>eventcb\<close> is the first one, since nothing is read or written before the
  handshake is over, and the connection is established once.
\<close>

fun is_connected :: "lib_event \<Rightarrow> bool" where
  "is_connected (Ev_connected _ _ _ _ _) = True"
| "is_connected _ = False"

fun is_data :: "lib_event \<Rightarrow> bool" where
  "is_data (Ev_read _ _ _ _ _) = True"
| "is_data (Ev_write _ _ _) = True"
| "is_data _ = False"

fun bev_order :: "lib_event list \<Rightarrow> bool" where
  "bev_order [] = True"
| "bev_order (ev # evs) = (\<not> is_data ev \<and> list_all (\<lambda>e. \<not> is_connected e) evs)"

lemma submit_request_result:
  "request_headers uri u d = Some hs \<Longrightarrow> \<exists>r. submit_request uri u d sid s = Some r"
  by (simp add: submit_request_def)

lemma connected_result:
  assumes "request_headers uri u d = Some hs" "alive l = {Ssl_ctx, Event_base} \<union> owned False" "\<not> has_session l"
  shows "eventcb uri u d (Ev_connected npn alpn settings_rv sid send_rv) l = Some (Inl 1) \<or>
    (\<exists>l'. eventcb uri u d (Ev_connected npn alpn settings_rv sid send_rv) l = Some (Inr l') \<and> life_inv l' \<and>
      (Bufferevent \<in> alive l' \<longrightarrow> has_session l'))"
proof (cases "negotiated npn alpn = Some (bytes ''h2'')")
  case False
  let ?l = "l\<lparr>sd := err_print (bytes ''h2 is not negotiated'' @ [10]) (err_print (bytes ''Connected'' @ [10]) (sd l))\<rparr>"
  from keep_or_delete_inv [of ?l False] assms(2,3)
  obtain l' where "keep_or_delete False ?l = Some (Inr l')" "life_inv l'" "Bufferevent \<notin> alive l'" by auto
  with False show ?thesis by (simp add: eventcb_def eventcb_connected_def)
next
  case True
  let ?s = "(err_print (bytes ''Connected'' @ [10]) (sd l))\<lparr>session_up := True\<rparr>"
  obtain r where r: "submit_request uri u d sid ?s = Some r" using submit_request_result [OF assms(1)] by blast
  show ?thesis
  proof (cases "settings_rv = 0 \<and> (\<exists>v. r = Inr v)")
    case False
    with True r show ?thesis by (cases r) (auto simp: eventcb_def eventcb_connected_def)
  next
    case rr: True
    then obtain hdrs s1 where r1: "r = Inr (hdrs, s1)" by auto
    let ?l = "(initialize_nghttp2_session l)\<lparr>sd := s1\<rparr>"
    have al: "alive ?l = {Ssl_ctx, Event_base} \<union> owned (has_session ?l)" "has_session ?l"
      using assms(2) by (auto simp: initialize_nghttp2_session_def allocate_def owned_def)
    from keep_or_delete_inv [OF al(1), of "send_rv = 0"]
    obtain l' where "keep_or_delete (send_rv = 0) ?l = Some (Inr l')" "life_inv l'" "send_rv = 0 \<longrightarrow> l' = ?l" "send_rv \<noteq> 0 \<longrightarrow> Bufferevent \<notin> alive l'" by blast
    with True r r1 rr al(2) show ?thesis by (auto simp: eventcb_def eventcb_connected_def)
  qed
qed

lemma other_event_result:
  assumes "\<not> is_connected ev" "is_data ev \<longrightarrow> has_session l" "alive l = {Ssl_ctx, Event_base} \<union> owned (has_session l)"
  shows "\<exists>l'. bev_callback uri u d ev l = Some (Inr l') \<and> life_inv l' \<and> (Bufferevent \<in> alive l' \<longrightarrow> has_session l' \<and> is_data ev)"
proof -
  have keep: "\<exists>l'. keep_or_delete k (l\<lparr>sd := s\<rparr>) = Some (Inr l') \<and> life_inv l' \<and> (Bufferevent \<in> alive l' \<longrightarrow> k \<and> has_session l' = has_session l)" for k s
    using keep_or_delete_inv [of "l\<lparr>sd := s\<rparr>" k] assms(3) by (cases k) auto
  have del: "\<exists>l'. keep_or_delete False l = Some (Inr l') \<and> life_inv l' \<and> Bufferevent \<notin> alive l'"
    using keep_or_delete_inv [OF assms(3), of False] by auto
  show ?thesis
  proof (cases "is_data ev")
    case True
    then have h: "has_session l" using assms(2) by simp
    from True obtain k s where "bev_callback uri u d ev l = keep_or_delete k (l\<lparr>sd := s\<rparr>)"
      using h by (cases ev) (auto simp: bev_callback_def case_prod_beta)
    then show ?thesis using keep [of k s] h True by auto
  next
    case False
    then obtain s where "bev_callback uri u d ev l = keep_or_delete False (l\<lparr>sd := s\<rparr>) \<or> bev_callback uri u d ev l = keep_or_delete False l"
      using assms(1) by (cases ev) (auto simp: bev_callback_def eventcb_def)
    then show ?thesis using keep [of False s] del by auto
  qed
qed

lemma loop_connected:
  assumes "list_all (\<lambda>e. \<not> is_connected e) evs" "life_inv l" "Bufferevent \<in> alive l \<longrightarrow> has_session l"
  shows "\<exists>l'. event_loop uri u d evs l = Some (Inr l') \<and> life_inv l'"
  using assms
proof (induction evs arbitrary: l)
  case Nil
  then show ?case by simp
next
  case (Cons ev evs)
  show ?case
  proof (cases "Bufferevent \<in> alive l")
    case True
    then have "alive l = {Ssl_ctx, Event_base} \<union> owned (has_session l)" using Cons.prems(2) by (auto simp: life_inv_def)
    then obtain l1 where "bev_callback uri u d ev l = Some (Inr l1)" "life_inv l1" "Bufferevent \<in> alive l1 \<longrightarrow> has_session l1"
      using other_event_result [of ev l uri u d] Cons.prems True by auto
    then show ?thesis using Cons True by auto
  qed (use Cons.prems in simp)
qed

lemma event_loop_result:
  assumes "request_headers uri u d = Some hs" "alive l = {Ssl_ctx, Event_base} \<union> owned False" "\<not> has_session l" "bev_order evs"
  shows "event_loop uri u d evs l = Some (Inl 1) \<or> (\<exists>l'. event_loop uri u d evs l = Some (Inr l') \<and> life_inv l')"
proof (cases evs)
  case Nil
  then show ?thesis using assms by (simp add: life_inv_def)
next
  case (Cons ev es)
  have b: "Bufferevent \<in> alive l" using assms(2) by (simp add: owned_def)
  from assms(4) Cons have rest: "\<not> is_data ev" "list_all (\<lambda>e. \<not> is_connected e) es" by simp_all
  have "bev_callback uri u d ev l = Some (Inl 1) \<or>
      (\<exists>l1. bev_callback uri u d ev l = Some (Inr l1) \<and> life_inv l1 \<and> (Bufferevent \<in> alive l1 \<longrightarrow> has_session l1))"
  proof (cases "is_connected ev")
    case True
    then show ?thesis using connected_result [OF assms(1-3)] by (cases ev) (auto simp: bev_callback_def)
  next
    case False
    then show ?thesis using other_event_result [of ev l uri u d] rest(1) assms(2,3) by auto
  qed
  then show ?thesis using loop_connected [OF rest(2)] b Cons by auto
qed

text \<open>What is released before the loop and after it.\<close>

lemma start_of_loop:
  "release Host (allocate Bufferevent (allocate Ssl (create_stream (create_session (allocate Event_base (allocate Ssl_ctx
      \<lparr>alive = {Host}, has_session = False, sd = s\<rparr>)))))) = Some \<lparr>alive = {Ssl_ctx, Event_base} \<union> owned False, has_session = False, sd = s\<rparr>"
proof -
  have "insert Bufferevent (insert Ssl (insert Path (insert Authority (insert Stream_data (insert Dns_base (insert Session_data
      (insert Event_base (insert Ssl_ctx {Host})))))))) - {Host} = {Ssl_ctx, Event_base} \<union> owned False" (is "?A = ?B")
  proof (rule set_eqI)
    show "x \<in> ?A \<longleftrightarrow> x \<in> ?B" for x by (cases x) (simp_all add: owned_def)
  qed
  then show ?thesis by (simp add: release_def allocate_def create_stream_def create_session_def)
qed

lemma end_of_run:
  assumes "life_inv l"
  shows "\<exists>l5 l6. release Event_base l = Some l5 \<and> release Ssl_ctx l5 = Some l6 \<and> (alive l6 = {} \<or> alive l6 = owned (has_session l6))"
proof -
  have "Event_base \<notin> owned b" "Ssl_ctx \<notin> owned b" for b by (simp_all add: owned_def)
  then have "({Ssl_ctx, Event_base} \<union> owned b) - {Event_base} - {Ssl_ctx} = owned b" for b by (simp add: insert_Diff_if)
  then have "alive l - {Event_base} - {Ssl_ctx} = {} \<or> alive l - {Event_base} - {Ssl_ctx} = owned (has_session l)"
    using assms unfolding life_inv_def by auto
  moreover have "Event_base \<in> alive l" "Ssl_ctx \<in> alive l" using assms by (auto simp: life_inv_def)
  ultimately show ?thesis by (simp add: release_def)
qed

text \<open>
  C19. For an accepted URL with a host, the client ends without a double release and without following a session that does not exist, whatever the
  libraries return and whatever events come in the order of libevent: with status 1 after a failed call, or by the end of \<open>run\<close>. Then either the
  session was deleted and nothing at all remains allocated, or the loop ended first and exactly the parts of the session remain.
\<close>

theorem client_lifecycle:
  assumes "http_parser_parse_url text False u0 = Some (0, u)" "length text \<le> 65535" "has_field u UF_HOST" "bev_order evs"
  shows "client_main fill u0 [prog, text @ [0]] ctx_ok ssl_ok connect_rv evs = Some (Inl 1) \<or>
    (\<exists>l. client_main fill u0 [prog, text @ [0]] ctx_ok ssl_ok connect_rv evs = Some (Inr l) \<and> (alive l = {} \<or> alive l = owned (has_session l)))"
proof -
  obtain host prt d hs where r: "Http2_Client.run fill u0 (text @ [0]) = Some (Inr (host, prt, u, d))" "request_headers (text @ [0]) u d = Some hs"
    using run_accepted [OF assms(1-3), of fill] by blast
  let ?start = "\<lparr>alive = {Ssl_ctx, Event_base} \<union> owned False, has_session = False, sd = create_http2_session_data\<rparr>"
  note defs = client_main_def client_run_def r(1) create_ssl_ctx_def initiate_connection_def Let_def start_of_loop
  show ?thesis
  proof (cases "ctx_ok \<and> ssl_ok \<and> connect_rv = 0")
    case False
    then consider "\<not> ctx_ok" | "ctx_ok" "\<not> ssl_ok" | "ctx_ok" ssl_ok "connect_rv \<noteq> 0" by blast
    then show ?thesis by cases (simp_all add: defs)
  next
    case True
    from event_loop_result [OF r(2), of ?start evs] assms(4)
    consider "event_loop (text @ [0]) u d evs ?start = Some (Inl 1)"
      | l where "event_loop (text @ [0]) u d evs ?start = Some (Inr l)" "life_inv l" by auto
    then show ?thesis
    proof cases
      case 1
      with True show ?thesis by (simp add: defs del: Un_insert_left)
    next
      case (2 l)
      from end_of_run [OF 2(2)] obtain l5 l6 where "release Event_base l = Some l5" "release Ssl_ctx l5 = Some l6"
        "alive l6 = {} \<or> alive l6 = owned (has_session l6)" by blast
      with True 2(1) show ?thesis by (simp add: defs del: Un_insert_left)
    qed
  qed
qed

text \<open>The client fetches a page, and its last write deletes the session.\<close>

theorem client_lifecycle_witness:
  "\<exists>l. client_main 0 http_parser_url_init [[], bytes ''http://[::1]/'' @ [0]] True True 0
      [Ev_connected None (Some (bytes ''h2'')) 0 1 0, Ev_write True False 0, Ev_write False False 0] = Some (Inr l) \<and> alive l = {}"
proof -
  let ?t = "bytes ''http://[::1]/''"
  let ?evs = "[Ev_connected None (Some (bytes ''h2'')) 0 1 0, Ev_write True False 0, Ev_write False False 0]"
  let ?r = "client_main 0 http_parser_url_init [[], ?t @ [0]] True True 0 ?evs"
  have "map_option (\<lambda>(rc, u). (rc, has_field u UF_HOST)) (http_parser_parse_url ?t False http_parser_url_init) = Some (0, True)" by code_simp
  then obtain u where "http_parser_parse_url ?t False http_parser_url_init = Some (0, u)" "has_field u UF_HOST" by auto
  with client_lifecycle [of ?t http_parser_url_init u ?evs 0 "[]" True True 0]
  have "?r = Some (Inl 1) \<or> (\<exists>l. ?r = Some (Inr l) \<and> (alive l = {} \<or> alive l = owned (has_session l)))" by simp
  moreover have "(case ?r of Some (Inr l) \<Rightarrow> Session_data \<notin> alive l | _ \<Rightarrow> False)" by code_simp
  ultimately show ?thesis by (auto simp: owned_def)
qed

end
