(* ===== verification/Http2_Path.thy ===== *)
theory Http2_Path
  imports Prelude "HOL-Library.Sublist"
begin

text \<open>
  The string functions of the HTTP/2 file server (\<open>nghttp2_test/server/main.c\<close>) that turn the \<open>:path\<close> header
  of a request into a file name: \<open>hex_to_uint\<close>, \<open>percent_decode\<close>, \<open>ends_with\<close>, \<open>check_path\<close> and the loop of
  \<open>on_request_recv\<close> that strips the leading slashes.

  A C string is the list of its bytes before the terminating zero (\<open>c_str\<close> of the memory it lies in).
  \<open>percent_decode\<close> works on a memory block and a length, because it reads behind the length it is given.

  The lemmas relate the decoder to the obvious recursive one (\<open>pct_decode\<close>) and the check to the components of the
  path, and conclude that the names the server opens stay below its working directory.
\<close>

section \<open>The code\<close>

definition c_str :: "u8 list \<Rightarrow> u8 list" where
  "c_str mem = takeWhile (\<lambda>c. c \<noteq> 0) mem"

definition ends_with :: "u8 list \<Rightarrow> u8 list \<Rightarrow> bool" where
  "ends_with s sub \<longleftrightarrow>
    (if length s < length sub then False else drop (length s - length sub) s = sub)"

definition isxdigit :: "u8 \<Rightarrow> bool" where
  "isxdigit c \<longleftrightarrow> ch CHR ''0'' \<le> c \<and> c \<le> ch CHR ''9'' \<or> ch CHR ''A'' \<le> c \<and> c \<le> ch CHR ''F'' \<or>
     ch CHR ''a'' \<le> c \<and> c \<le> ch CHR ''f''"

definition hex_to_uint :: "u8 \<Rightarrow> u8" where
  "hex_to_uint c =
    (if ch CHR ''0'' \<le> c \<and> c \<le> ch CHR ''9'' then c - ch CHR ''0''
     else if ch CHR ''A'' \<le> c \<and> c \<le> ch CHR ''F'' then c - ch CHR ''A'' + 10
     else if ch CHR ''a'' \<le> c \<and> c \<le> ch CHR ''f'' then c - ch CHR ''a'' + 10
     else 0)"

text \<open>
  The loop of \<open>percent_decode\<close> from index \<open>i\<close> on: the bytes it appends to \<open>res\<close> and the index it stops at.
\<close>

function decode_loop :: "u8 list \<Rightarrow> nat \<Rightarrow> nat \<Rightarrow> u8 list \<times> nat" where
  "decode_loop val valuelen i =
    (if i < valuelen - 2 then
       (if val ! i \<noteq> ch CHR ''%'' \<or> \<not> isxdigit (val ! (i + 1)) \<or> \<not> isxdigit (val ! (i + 2)) then
          (let (res, k) = decode_loop val valuelen (i + 1) in (val ! i # res, k))
        else
          (let (res, k) = decode_loop val valuelen (i + 3) in
           ((push_bit 4 (hex_to_uint (val ! (i + 1))) + hex_to_uint (val ! (i + 2))) # res, k)))
     else ([], i))"
  by pat_completeness auto
termination by (relation "measure (\<lambda>(_, n, i). n - i)") auto

declare decode_loop.simps [simp del]

text \<open>The written part of the allocated buffer, with its terminating zero; \<open>None\<close> when a read leaves the memory block \<open>val\<close>.\<close>

definition percent_decode :: "u8 list \<Rightarrow> nat \<Rightarrow> u8 list option" where
  "percent_decode val valuelen =
    (if length val < valuelen then None
     else if 3 < valuelen then
       (let (res, i) = decode_loop val valuelen 0 in
        if length val < i + 2 then None else Some (res @ slice val i 2 @ [0]))
     else Some (take valuelen val @ [0]))"

primrec strstr :: "u8 list \<Rightarrow> u8 list \<Rightarrow> bool" where
  "strstr [] sub \<longleftrightarrow> sub = []"
| "strstr (c # cs) sub \<longleftrightarrow> take (length sub) (c # cs) = sub \<or> strstr cs sub"

definition check_path :: "u8 list \<Rightarrow> bool" where
  "check_path path \<longleftrightarrow>
     path \<noteq> [] \<and> path ! 0 = ch CHR ''/'' \<and> ch CHR 0x5C \<notin> set path \<and>
     \<not> strstr path (bytes ''/../'') \<and> \<not> strstr path (bytes ''/./'') \<and>
     \<not> ends_with path (bytes ''/..'') \<and> \<not> ends_with path (bytes ''/.'')"

text \<open>The loop over \<open>rel_path\<close>.\<close>

primrec skip_slashes :: "u8 list \<Rightarrow> u8 list" where
  "skip_slashes [] = []"
| "skip_slashes (c # cs) = (if c = ch CHR ''/'' then skip_slashes cs else c # cs)"

text \<open>The loop of \<open>on_header_callback\<close> that looks for the query.\<close>

primrec path_len :: "u8 list \<Rightarrow> nat" where
  "path_len [] = 0"
| "path_len (c # cs) = (if c \<noteq> ch CHR ''?'' then Suc (path_len cs) else 0)"

section \<open>Decoding\<close>

text \<open>The reference decoder.\<close>

fun pct_decode :: "u8 list \<Rightarrow> u8 list" where
  "pct_decode (c # a # b # r) =
    (if c = 37 \<and> isxdigit a \<and> isxdigit b then (push_bit 4 (hex_to_uint a) + hex_to_uint b) # pct_decode r
     else c # pct_decode (a # b # r))"
| "pct_decode xs = xs"

lemma pct_decode_short: "length xs \<le> 2 \<Longrightarrow> pct_decode xs = xs"
  by (induction xs rule: pct_decode.induct) auto


lemma slice_rest_Cons:
  "k < n \<Longrightarrow> n \<le> length mem \<Longrightarrow> slice mem k (n - k) = mem ! k # slice mem (Suc k) (n - Suc k)"
  by (simp add: slice_def Cons_nth_drop_Suc [symmetric] take_Cons')

lemma slice_rest_Cons3:
  assumes "i + 2 < n" "n \<le> length mem"
  shows "slice mem i (n - i) = mem ! i # mem ! (i + 1) # mem ! (i + 2) # slice mem (i + 3) (n - (i + 3))"
  using assms by (simp add: slice_rest_Cons numeral_3_eq_3)

lemma decode_loop_spec:
  "n \<le> length mem \<Longrightarrow> i \<le> n \<Longrightarrow> 2 \<le> n \<Longrightarrow> decode_loop mem n i = (res, k) \<Longrightarrow>
   pct_decode (slice mem i (n - i)) = res @ slice mem k (n - k) \<and> k \<le> n \<and> n \<le> k + 2"
proof (induction mem n i arbitrary: res k rule: decode_loop.induct)
  case (1 mem n i)
  show ?case
  proof (cases "i < n - 2")
    case False
    then have "res = []" "k = i" using "1.prems"(4) by (simp_all add: decode_loop.simps)
    moreover have "pct_decode (slice mem i (n - i)) = slice mem i (n - i)"
      by (rule pct_decode_short) (use False in \<open>simp add: slice_def min.coboundedI2\<close>)
    ultimately show ?thesis using False "1.prems" by simp
  next
    case True
    then have 3: "slice mem i (n - i) = mem ! i # mem ! (i + 1) # mem ! (i + 2) # slice mem (i + 3) (n - (i + 3))"
      and 1: "slice mem (i + 1) (n - (i + 1)) = mem ! (i + 1) # mem ! (i + 2) # slice mem (i + 3) (n - (i + 3))"
      using "1.prems" by (auto intro!: slice_rest_Cons3 simp: slice_rest_Cons numeral_3_eq_3)
    show ?thesis
    proof (cases "mem ! i = 37 \<and> isxdigit (mem ! (i + 1)) \<and> isxdigit (mem ! (i + 2))")
      case esc: True
      obtain r where r: "decode_loop mem n (i + 3) = (r, k)"
        "res = (push_bit 4 (hex_to_uint (mem ! (i + 1))) + hex_to_uint (mem ! (i + 2))) # r"
        using "1.prems"(4) True esc by (subst (asm) decode_loop.simps) (auto split: prod.splits)
      with "1.IH"(2) [OF True _ _ _ _ r(1)] "1.prems" True esc 3 show ?thesis by simp
    next
      case esc: False
      obtain r where r: "decode_loop mem n (i + 1) = (r, k)" "res = mem ! i # r"
        using "1.prems"(4) True esc by (subst (asm) decode_loop.simps) (auto split: prod.splits)
      with "1.IH"(1) [OF True _ _ _ _ r(1)] "1.prems" True esc 3 1 show ?thesis by auto
    qed
  qed
qed

lemma take_slice: "take n mem = slice mem 0 n"
  by (simp add: slice_def)

lemma slice_append_slice: "slice mem i m @ slice mem (i + m) n = slice mem i (m + n)"
  by (simp add: slice_def take_add add.commute)

text \<open>The exact result of the decoder on more than three bytes.\<close>

lemma percent_decode_long:
  assumes "3 < n" "n + 2 \<le> length mem"
  shows "\<exists>k \<le> 2. percent_decode mem n = Some (pct_decode (take n mem) @ slice mem n k @ [0])"
proof -
  obtain res i where r: "decode_loop mem n 0 = (res, i)" by (cases "decode_loop mem n 0")
  with decode_loop_spec [of n mem 0 res i] assms
  have d: "pct_decode (take n mem) = res @ slice mem i (n - i)" and i: "i \<le> n" "n \<le> i + 2" by (simp_all add: take_slice)
  then have "slice mem i 2 = slice mem i (n - i) @ slice mem n (i + 2 - n)"
    using slice_append_slice [of mem i "n - i" "i + 2 - n"] by simp
  then have "percent_decode mem n = Some (pct_decode (take n mem) @ slice mem n (i + 2 - n) @ [0])"
    using r d i assms by (simp add: percent_decode_def)
  with i show ?thesis by (intro exI [of _ "i + 2 - n"]) simp
qed

lemma c_str_append_0: "c_str (xs @ 0 # ys) = c_str xs"
  by (simp add: c_str_def takeWhile_tail)

section \<open>Components of a path\<close>

primrec components :: "u8 list \<Rightarrow> u8 list list" where
  "components [] = [[]]"
| "components (c # cs) =
    (if c = ch CHR ''/'' then [] # components cs else (c # hd (components cs)) # tl (components cs))"

lemma components_nonempty [simp]: "components p \<noteq> []"
  by (cases p) auto

lemma hd_components: "hd (components p) = takeWhile (\<lambda>c. c \<noteq> 47) p"
  by (induction p) auto

lemma set_components: "set (components p) = insert (takeWhile (\<lambda>c. c \<noteq> 47) p) (set (tl (components p)))"
  by (metis components_nonempty hd_components list.collapse list.simps(15))

lemma takeWhile_component:
  "47 \<notin> set d \<Longrightarrow> takeWhile (\<lambda>c. c \<noteq> 47) cs = d \<longleftrightarrow> cs = d \<or> take (Suc (length d)) cs = d @ [47]"
proof (induction cs arbitrary: d)
  case (Cons c cs)
  then show ?case by (cases d) auto
qed auto

lemma ends_with_Cons: "ends_with (c # cs) sub \<longleftrightarrow> c # cs = sub \<or> ends_with cs sub"
  by (cases "length cs < length sub") (auto simp: ends_with_def Suc_diff_le not_less less_Suc_eq)

lemma component_occurs:
  assumes "47 \<notin> set d"
  shows "d \<in> set (tl (components p)) \<longleftrightarrow> strstr p (47 # d @ [47]) \<or> ends_with p (47 # d)"
proof (induction p)
  case (Cons c cs)
  show ?case
  proof (cases "c = 47")
    case True
    then have "d \<in> set (tl (components (c # cs))) \<longleftrightarrow>
        takeWhile (\<lambda>c. c \<noteq> 47) cs = d \<or> d \<in> set (tl (components cs))"
      by (auto simp: set_components [of cs])
    with True Cons.IH takeWhile_component [OF assms, of cs] show ?thesis
      by (auto simp: ends_with_Cons)
  next
    case False
    with Cons.IH show ?thesis by (auto simp: ends_with_Cons)
  qed
qed (simp add: ends_with_def)

lemma check_path_iff:
  "check_path p \<longleftrightarrow> (\<exists>cs. p = 47 # cs) \<and> 92 \<notin> set p \<and> [46] \<notin> set (components p) \<and> [46, 46] \<notin> set (components p)"
proof (cases p)
  case (Cons c cs)
  have "d \<in> set (components p) \<longleftrightarrow> d \<in> set (tl (components p))" if "c = 47" "d \<noteq> []" for d
    using that Cons by auto
  with Cons component_occurs [of "[46]" p] component_occurs [of "[46, 46]" p] show ?thesis
    by (auto simp: check_path_def)
qed (simp add: check_path_def)

lemma skip_slashes_components: "set (components (skip_slashes p)) \<subseteq> set (components p)"
  by (induction p) auto

lemma skip_slashes_relative: "skip_slashes p = c # cs \<Longrightarrow> c \<noteq> 47"
  by (induction p) (auto split: if_splits)

text \<open>
  How a file system without symbolic links resolves the components of a name from the directory \<open>dir\<close>, given as the
  list of names from the root; every directory passed on the way is listed.
\<close>

definition enter :: "u8 list list \<Rightarrow> u8 list \<Rightarrow> u8 list list" where
  "enter dir d = (if d = [] \<or> d = bytes ''.'' then dir else if d = bytes ''..'' then butlast dir else dir @ [d])"

primrec resolve :: "u8 list list \<Rightarrow> u8 list list \<Rightarrow> u8 list list list" where
  "resolve dir [] = [dir]"
| "resolve dir (d # ds) = dir # resolve (enter dir d) ds"

lemma resolve_below:
  "[46, 46] \<notin> set ds \<Longrightarrow> d' \<in> set (resolve dir ds) \<Longrightarrow> prefix dir d'"
proof (induction ds arbitrary: dir)
  case (Cons d ds)
  then have "prefix dir (enter dir d)" by (auto simp: enter_def)
  with Cons show ?case by (auto intro: prefix_order.trans)
qed simp

definition safe_name :: "u8 list \<Rightarrow> bool" where
  "safe_name p \<longleftrightarrow> (\<forall>cs. p \<noteq> 47 # cs) \<and> 92 \<notin> set p \<and> [46] \<notin> set (components p) \<and> [46, 46] \<notin> set (components p)"

lemma skip_slashes_set: "set (skip_slashes p) \<subseteq> set p"
  by (induction p) auto

lemma check_path_safe_name: "check_path p \<Longrightarrow> safe_name (skip_slashes p)"
  using skip_slashes_components [of p] skip_slashes_set [of p] skip_slashes_relative [of p]
  by (fastforce simp: safe_name_def check_path_iff)

section \<open>An escape at the end of the path\<close>

lemma decode_loop_stop: "decode_loop mem n n = ([], n)"
proof -
  have "\<not> n < n - 2" by linarith
  then show ?thesis by (subst decode_loop.simps) simp
qed

lemma decode_loop_trailing:
  assumes "mem ! (n - 3) = 37" "isxdigit (mem ! (n - 2))" "isxdigit (mem ! (n - 1))"
  shows "3 \<le> n \<Longrightarrow> i \<le> n - 3 \<Longrightarrow> snd (decode_loop mem n i) = n"
proof (induction "n - i" arbitrary: i rule: less_induct)
  case less
  have no: "\<not> isxdigit 37" by (simp add: isxdigit_def)
  consider "i = n - 3" | "i < n - 3" "mem ! i = 37 \<and> isxdigit (mem ! (i + 1)) \<and> isxdigit (mem ! (i + 2))"
    | "i < n - 3" "\<not> (mem ! i = 37 \<and> isxdigit (mem ! (i + 1)) \<and> isxdigit (mem ! (i + 2)))"
    using less.prems by linarith
  then show ?case
  proof cases
    case 1
    moreover have "n - 3 + 1 = n - 2" "n - 3 + 2 = n - 1" "n - 3 + 3 = n" using less.prems by auto
    ultimately show ?thesis using assms less.prems
      by (subst decode_loop.simps) (simp add: decode_loop_stop)
  next
    case 2
    then have "i + 1 \<noteq> n - 3" "i + 2 \<noteq> n - 3" using assms(1) no by auto
    with 2 less.hyps [of "i + 3"] less.prems show ?thesis
      by (subst decode_loop.simps) (auto simp: case_prod_unfold)
  next
    case 3
    with less.hyps [of "i + 1"] less.prems show ?thesis
      by (subst decode_loop.simps) (auto simp: case_prod_unfold)
  qed
qed

section \<open>Properties\<close>

text \<open>
  The string checks of \<open>check_path\<close> accept exactly the absolute paths without backslash none of whose components is
  \<open>.\<close> or \<open>..\<close>, and the name obtained by stripping the leading slashes of an accepted path is relative and, resolved from
  any directory \<open>dir\<close>, never leaves it.
\<close>

theorem check_path_confines:
  "(check_path p \<longleftrightarrow> take 1 p = bytes ''/'' \<and> ch CHR 0x5C \<notin> set p \<and>
      set (components p) \<inter> {bytes ''.'', bytes ''..''} = {}) \<and>
   (check_path p \<longrightarrow> take 1 (skip_slashes p) \<noteq> bytes ''/'' \<and>
      (\<forall>d \<in> set (resolve dir (components (skip_slashes p))). prefix dir d))"
proof (intro conjI impI ballI)
  show "check_path p \<longleftrightarrow> take 1 p = bytes ''/'' \<and> ch CHR 0x5C \<notin> set p \<and>
      set (components p) \<inter> {bytes ''.'', bytes ''..''} = {}"
    by (cases p) (auto simp: check_path_iff)
  assume "check_path p"
  then have s: "safe_name (skip_slashes p)" by (rule check_path_safe_name)
  then show "take 1 (skip_slashes p) \<noteq> bytes ''/''"
    by (cases "skip_slashes p") (auto simp: safe_name_def)
  fix d assume "d \<in> set (resolve dir (components (skip_slashes p)))"
  with s show "prefix dir d" by (auto simp: safe_name_def intro: resolve_below)
qed

theorem check_path_confines_witness:
  "check_path (bytes ''//a/..b'') \<and> \<not> check_path (bytes ''/a/..'') \<and>
   prefix [bytes ''srv''] (last (resolve [bytes ''srv''] (components (skip_slashes (bytes ''//a/..b'')))))"
proof -
  let ?p = "bytes ''//a/..b''" and ?d = "[bytes ''srv'']"
  have c: "check_path ?p" "\<not> check_path (bytes ''/a/..'')" by (simp_all add: check_path_def ends_with_def)
  have "last (resolve ?d (components (skip_slashes ?p))) \<in> set (resolve ?d (components (skip_slashes ?p)))" by simp
  with c check_path_confines [of ?p ?d] show ?thesis by blast
qed

lemma percent_decode_ref:
  assumes "val ! 0 = ch CHR ''/''" "0 < valuelen" "valuelen + 2 \<le> length val" "val ! valuelen = 0"
  shows "\<exists>res. percent_decode val valuelen = Some res \<and> c_str res = c_str (pct_decode (take valuelen val))"
proof (cases "3 < valuelen")
  case True
  from percent_decode_long [OF this assms(3)] obtain k where k: "k \<le> 2"
    "percent_decode val valuelen = Some (pct_decode (take valuelen val) @ slice val valuelen k @ [0])" by blast
  have "\<exists>ys. slice val valuelen k @ [0] = 0 # ys"
    using assms(3,4) by (cases k) (simp_all add: slice_def Cons_nth_drop_Suc [symmetric])
  with k show ?thesis by (auto simp: c_str_append_0)
next
  case False
  then obtain cs where cs: "take valuelen val = 47 # cs" "length cs \<le> 2"
    using assms by (cases val) (auto simp: take_Cons' split: if_splits)
  then have "pct_decode (take valuelen val) = take valuelen val"
    by (cases cs; cases "tl cs") (auto simp: pct_decode_short)
  with False assms(3) show ?thesis by (simp add: percent_decode_def c_str_append_0)
qed



text \<open>
  When the path ends in an escape, the decoder copies the two bytes behind the path too: if a query follows, the
  decoded path gets the question mark and the first byte of the query appended, and if nothing but the terminating zero
  follows, the read leaves the string.
\<close>

theorem percent_decode_trailing_escape:
  assumes "valuelen > 3" "valuelen \<le> length val" "val ! (valuelen - 3) = ch CHR ''%''"
    and "isxdigit (val ! (valuelen - 2))" "isxdigit (val ! (valuelen - 1))"
  shows "percent_decode val valuelen =
    (if valuelen + 2 \<le> length val then Some (pct_decode (take valuelen val) @ slice val valuelen 2 @ [0]) else None)"
proof -
  obtain res where r: "decode_loop val valuelen 0 = (res, valuelen)"
    using decode_loop_trailing [of val valuelen 0] assms by (cases "decode_loop val valuelen 0") auto
  with decode_loop_spec [OF assms(2) _ _ r] assms(1,2) show ?thesis
    by (simp add: percent_decode_def take_slice)
qed

theorem percent_decode_trailing_escape_witness:
  "percent_decode (bytes ''/%41?ab'') 4 = Some (bytes ''/A?a'' @ [0]) \<and> percent_decode (bytes ''/%41'' @ [0]) 4 = None"
proof -
  have "pct_decode (bytes ''/%41'') = bytes ''/A''" by code_simp
  with percent_decode_trailing_escape [of 4 "bytes ''/%41?ab''"] percent_decode_trailing_escape [of 4 "bytes ''/%41'' @ [0]"]
  show ?thesis by (simp add: isxdigit_def slice_def)
qed

end
