(* ===== verification/Http2_Streams.thy ===== *)
theory Http2_Streams
  imports Kernel_List
begin

text \<open>
  The list of the streams of an HTTP/2 session (\<open>add_stream\<close>, \<open>remove_stream\<close> of \<open>nghttp2_test/server/main.c\<close>): a doubly
  linked list that ends in \<open>NULL\<close> and starts at the node \<open>root\<close> embedded in the session. The links are kept as in
  \<open>Kernel_List\<close>; \<open>slist h root xs\<close> says that \<open>xs\<close> are the nodes behind \<open>root\<close>.

  The two functions and the traversal of \<open>delete_http2_session_data\<close> satisfy the contract \<open>pushdown_list\<close>, so
  the session layer uses the same facts as the clients of the circular list.
\<close>

definition add_stream :: "'a \<Rightarrow> 'a \<Rightarrow> 'a list_heap \<Rightarrow> 'a list_heap option" where
  "add_stream stream_data root h0 =
    (let h1 = set_next stream_data (lnext h0 root) h0;
         h2 = set_next root (Some stream_data) h1;
         h3 = set_prev stream_data (Some root) h2
     in case lnext h3 stream_data of
          None \<Rightarrow> Some h3
        | Some n \<Rightarrow> Some (set_prev n (Some stream_data) h3))"

definition remove_stream :: "'a \<Rightarrow> 'a list_heap \<Rightarrow> 'a list_heap option" where
  "remove_stream stream_data h0 = do {
     p \<leftarrow> lprev h0 stream_data;
     let h1 = set_next p (lnext h0 stream_data) h0;
     (case lnext h1 stream_data of
        None \<Rightarrow> Some h1
      | Some n \<Rightarrow> Some (set_prev n (lprev h1 stream_data) h1)) }"

text \<open>The nodes that the loop of \<open>delete_http2_session_data\<close> visits from \<open>cur\<close> on.\<close>

partial_function (option) streams_from :: "('a \<Rightarrow> 'a option) \<Rightarrow> 'a option \<Rightarrow> 'a list \<Rightarrow> 'a list option" where
  "streams_from nxt cur seen =
    (case cur of None \<Rightarrow> Some (rev seen) | Some a \<Rightarrow> streams_from nxt (nxt a) (a # seen))"

definition stream_list :: "'a \<Rightarrow> 'a list_heap \<Rightarrow> 'a list option" where
  "stream_list root h = streams_from (lnext h) (lnext h root) []"

section \<open>The list represented\<close>

primrec nseg :: "'a list_heap \<Rightarrow> 'a \<Rightarrow> 'a list \<Rightarrow> bool" where
  "nseg h p [] \<longleftrightarrow> lnext h p = None"
| "nseg h p (x # xs) \<longleftrightarrow> lnext h p = Some x \<and> lprev h x = Some p \<and> nseg h x xs"

definition slist :: "'a list_heap \<Rightarrow> 'a \<Rightarrow> 'a list \<Rightarrow> bool" where
  "slist h root xs \<longleftrightarrow> nseg h root xs \<and> distinct (root # xs)"

lemma nseg_frame:
  "nseg h p xs \<Longrightarrow> \<forall>q \<in> nodes p xs. lnext h' q = lnext h q \<Longrightarrow> \<forall>q \<in> set xs. lprev h' q = lprev h q \<Longrightarrow> nseg h' p xs"
  by (induction xs arbitrary: p) auto

lemma slist_frame: "slist h root xs \<Longrightarrow> agree_off A h h' \<Longrightarrow> A \<inter> nodes root xs = {} \<Longrightarrow> slist h' root xs"
  unfolding slist_def agree_off_def by (auto elim!: nseg_frame)

lemma link_simps [simp]:
  "lnext (set_next p v h) q = (if q = p then v else lnext h q)" "lprev (set_next p v h) q = lprev h q"
  "lprev (set_prev p v h) q = (if q = p then v else lprev h q)" "lnext (set_prev p v h) q = lnext h q"
  by (simp_all add: set_next_def set_prev_def)

lemma add_stream_slist:
  assumes "slist h root xs" "a \<notin> nodes root xs"
  shows "\<exists>h'. add_stream a root h = Some h' \<and> slist h' root (a # xs) \<and> agree_off (nodes root (a # xs)) h h'"
proof (cases xs)
  case Nil
  with assms show ?thesis by (auto simp: add_stream_def slist_def agree_off_def)
next
  case (Cons x ys)
  let ?h = "set_prev x (Some a) (set_prev a (Some root) (set_next root (Some a) (set_next a (Some x) h)))"
  have "nseg h x ys" "lnext h root = Some x" using assms(1) Cons by (auto simp: slist_def)
  moreover from this(1) have "nseg ?h x ys" by (rule nseg_frame) (use assms Cons in \<open>auto simp: slist_def\<close>)
  ultimately show ?thesis using assms Cons by (auto simp: add_stream_def slist_def agree_off_def)
qed

lemma remove_stream_nseg:
  "nseg h p xs \<Longrightarrow> distinct (p # xs) \<Longrightarrow> a \<in> set xs \<Longrightarrow>
   \<exists>h'. remove_stream a h = Some h' \<and> nseg h' p (remove1 a xs) \<and>
     (\<forall>q. q \<notin> nodes p xs \<longrightarrow> lnext h' q = lnext h q) \<and> (\<forall>q. q \<notin> set xs \<longrightarrow> lprev h' q = lprev h q)"
proof (induction xs arbitrary: p)
  case (Cons x xs)
  show ?case
  proof (cases "x = a")
    case True
    show ?thesis
    proof (cases xs)
      case Nil
      with True Cons.prems show ?thesis by (auto simp: remove_stream_def)
    next
      case (Cons y ys)
      let ?h = "set_prev y (Some p) (set_next p (Some y) h)"
      have "nseg h y ys" using True Cons Cons.prems by simp
      then have "nseg ?h y ys" by (rule nseg_frame) (use True Cons Cons.prems in auto)
      with True Cons Cons.prems show ?thesis by (auto simp: remove_stream_def)
    qed
  next
    case False
    with Cons.prems have "nseg h x xs" "distinct (x # xs)" "a \<in> set xs" by auto
    from Cons.IH [OF this] obtain h' where "remove_stream a h = Some h'" "nseg h' x (remove1 a xs)"
      "\<forall>q. q \<notin> nodes x xs \<longrightarrow> lnext h' q = lnext h q" "\<forall>q. q \<notin> set xs \<longrightarrow> lprev h' q = lprev h q" by blast
    with False Cons.prems show ?thesis by auto
  qed
qed simp

lemma remove_stream_slist:
  assumes "slist h root xs" "a \<in> set xs"
  shows "\<exists>h'. remove_stream a h = Some h' \<and> slist h' root (remove1 a xs) \<and> agree_off (nodes root xs) h h'"
  using remove_stream_nseg [of h root xs a] assms notin_set_remove1 [of root xs a]
  by (auto simp: slist_def agree_off_def)

lemma streams_from_nseg:
  "nseg h p xs \<Longrightarrow> streams_from (lnext h) (lnext h p) seen = Some (rev seen @ xs)"
  by (induction xs arbitrary: p seen) (auto simp: streams_from.simps)

lemma stream_list_slist: "slist h root xs \<Longrightarrow> stream_list root h = Some xs"
  using streams_from_nseg [of h root xs "[]"] by (simp add: slist_def stream_list_def)

interpretation hs: pushdown_list slist add_stream remove_stream stream_list agree_off
  by unfold_locales
    (metis add_stream_slist, metis remove_stream_slist, erule stream_list_slist, erule (2) slist_frame)

section \<open>Properties\<close>

text \<open>
  Any sequence of \<open>add_stream\<close> and \<open>remove_stream\<close> that adds only new nodes and removes only nodes of the list never
  dereferences \<open>NULL\<close>, and a traversal afterwards visits exactly the nodes of the corresponding functional list.
\<close>

theorem stream_ops_refine:
  assumes "slist h root xs" and "ops_ok root ops xs"
  shows "\<exists>h'. run_list_ops add_stream remove_stream root ops h = Some h' \<and> stream_list root h' = Some (fold abs_op ops xs)"
proof -
  obtain h' where h: "run_list_ops add_stream remove_stream root ops h = Some h'" "slist h' root (fold abs_op ops xs)"
    using hs.run_refines [OF assms] by blast
  show ?thesis by (rule exI [of _ h']) (simp add: h(1) hs.walk [OF h(2)])
qed

theorem stream_ops_refine_witness:
  "\<exists>h'. run_list_ops add_stream remove_stream 0 [Push 1, Push 2, Push (3::nat), Del 2, Del 3, Push 4] null_heap = Some h' \<and>
    stream_list 0 h' = Some [4, 1]"
proof -
  let ?ops = "[Push 1, Push 2, Push (3::nat), Del 2, Del 3, Push 4]"
  have "slist null_heap 0 []" "ops_ok 0 ?ops []" by (simp_all add: slist_def null_heap_def)
  from stream_ops_refine [OF this] show ?thesis by (simp only: fold_simps) (simp del: run_list_ops.simps)
qed

end
