(* ===== verification/Http2_Server.thy ===== *)
theory Http2_Server
  imports Http2_Path Http2_Streams "HOL-Library.Multiset"
begin

text \<open>
  The HTTP/2 file server, \<open>nghttp2_test/server/main.c\<close>: the callbacks that \<open>nghttp2\<close> and \<open>libevent\<close> invoke, on the
  state of one session.

  \<open>http2_session_data\<close> holds the links of the stream list (\<open>Http2_Streams\<close>; the node \<open>root\<close> has address 0), the allocated
  \<open>http2_stream_data\<close> blocks by address, the output buffer of the \<open>bufferevent\<close>, whether the \<open>nghttp2\<close> session exists, and a
  log of the system and library calls the server makes. The operating system and \<open>nghttp2\<close> are a parameter:
  \<open>http_env\<close> is a record of functions on an abstract \<open>world\<close>. What the library decides (which
  callbacks it runs in a call, whether it fails) is an argument of the callbacks that call it.

  A callback that would use a freed or unallocated stream, or write through a failed \<open>malloc\<close>, is \<open>None\<close>.
  \<open>srv_inv\<close> ties the list, the blocks and the library's table of stream data together; \<open>fd_inv\<close> accounts for the
  descriptors.
\<close>

section \<open>Data\<close>

record http2_stream_data =
  request_path :: "u8 list option"
  stream_id :: int
  stream_fd :: int

datatype syscall =
    Sys_open "u8 list" int
  | Sys_pipe int int
  | Sys_close int
  | Submit_response int "u8 list" int
  | Submit_rst_stream int

record 'w http2_session_data =
  links :: "nat list_heap"
  streams :: "nat \<Rightarrow> http2_stream_data option"
  next_addr :: nat
  out_buf :: "u8 list"
  session_up :: bool
  world :: 'w
  calls :: "syscall list"

datatype read_result = Read_error bool | Read_data "u8 list"

record 'w http_env =
  get_stream_user_data :: "'w \<Rightarrow> int \<Rightarrow> nat option"
  set_stream_user_data :: "'w \<Rightarrow> int \<Rightarrow> nat \<Rightarrow> 'w"
  forget_stream :: "'w \<Rightarrow> int \<Rightarrow> 'w"
  submit_response :: "'w \<Rightarrow> int \<Rightarrow> u8 list \<Rightarrow> int \<Rightarrow> int \<times> 'w"
  submit_rst_stream :: "'w \<Rightarrow> int \<Rightarrow> int \<times> 'w"
  submit_settings :: "'w \<Rightarrow> int \<times> 'w"
  sys_malloc :: "'w \<Rightarrow> bool \<times> 'w"
  sys_open :: "'w \<Rightarrow> u8 list \<Rightarrow> int \<times> 'w"
  sys_pipe :: "'w \<Rightarrow> (int \<times> int) option \<times> 'w"
  sys_write :: "'w \<Rightarrow> int \<Rightarrow> u8 list \<Rightarrow> int \<times> 'w"
  sys_close :: "'w \<Rightarrow> int \<Rightarrow> 'w"
  sys_read :: "'w \<Rightarrow> int \<Rightarrow> nat \<Rightarrow> read_result \<times> 'w"

datatype frame_type = NGHTTP2_DATA | NGHTTP2_HEADERS | NGHTTP2_OTHER
datatype headers_category = NGHTTP2_HCAT_REQUEST | NGHTTP2_HCAT_RESPONSE | NGHTTP2_HCAT_PUSH_RESPONSE | NGHTTP2_HCAT_HEADERS

record nghttp2_frame =
  hd_type :: frame_type
  headers_cat :: headers_category
  hd_stream_id :: int
  hd_end_stream :: bool

abbreviation root_addr :: nat where "root_addr \<equiv> 0"

definition NGHTTP2_ERR_CALLBACK_FAILURE :: int where "NGHTTP2_ERR_CALLBACK_FAILURE = -902"
definition NGHTTP2_ERR_WOULDBLOCK :: int where "NGHTTP2_ERR_WOULDBLOCK = -504"
definition NGHTTP2_ERR_TEMPORAL_CALLBACK_FAILURE :: int where "NGHTTP2_ERR_TEMPORAL_CALLBACK_FAILURE = -521"
definition OUTPUT_WOULDBLOCK_THRESHOLD :: nat where "OUTPUT_WOULDBLOCK_THRESHOLD = 2 ^ 16"

definition ERROR_HTML :: "u8 list" where
  "ERROR_HTML = bytes ''<html><head><title>404</title></head><body><h1>404 Not Found</h1></body></html>''"

section \<open>Streams\<close>

definition close_fd :: "'w http_env \<Rightarrow> int \<Rightarrow> 'w http2_session_data \<Rightarrow> 'w http2_session_data" where
  "close_fd env fd s = s\<lparr>world := sys_close env (world s) fd, calls := calls s @ [Sys_close fd]\<rparr>"

definition create_http2_stream_data ::
    "'w http_env \<Rightarrow> int \<Rightarrow> 'w http2_session_data \<Rightarrow> (nat \<times> 'w http2_session_data) option" where
  "create_http2_stream_data env sid s =
    (let (ok, w) = sys_malloc env (world s); a = next_addr s in
     if \<not> ok then None
     else do {
       h \<leftarrow> add_stream a root_addr (links s);
       Some (a, s\<lparr>world := w, next_addr := a + 1, links := h,
         streams := (streams s)(a \<mapsto> \<lparr>request_path = None, stream_id = sid, stream_fd = -1\<rparr>)\<rparr>) })"

definition delete_http2_stream_data :: "'w http_env \<Rightarrow> nat \<Rightarrow> 'w http2_session_data \<Rightarrow> 'w http2_session_data option" where
  "delete_http2_stream_data env a s = do {
     d \<leftarrow> streams s a;
     let s1 = (if stream_fd d \<noteq> -1 then close_fd env (stream_fd d) s else s);
     Some (s1\<lparr>streams := (streams s1)(a := None)\<rparr>) }"

partial_function (option) free_streams ::
    "'w http_env \<Rightarrow> nat option \<Rightarrow> 'w http2_session_data \<Rightarrow> 'w http2_session_data option" where
  "free_streams env cur s =
    (case cur of
       None \<Rightarrow> Some s
     | Some a \<Rightarrow> (let nx = lnext (links s) a in
         Option.bind (delete_http2_stream_data env a s) (\<lambda>s'. free_streams env nx s')))"

datatype 'w outcome = Live "'w http2_session_data" | Gone "'w http2_session_data"

definition delete_http2_session_data :: "'w http_env \<Rightarrow> 'w http2_session_data \<Rightarrow> 'w outcome option" where
  "delete_http2_session_data env s =
    map_option (\<lambda>s'. Gone (s'\<lparr>session_up := False\<rparr>)) (free_streams env (lnext (links s) root_addr) s)"

section \<open>Replies\<close>

definition set_fd :: "nat \<Rightarrow> int \<Rightarrow> 'w http2_session_data \<Rightarrow> 'w http2_session_data" where
  "set_fd a fd s = s\<lparr>streams := (streams s)(a := map_option (\<lambda>d. d\<lparr>stream_fd := fd\<rparr>) (streams s a))\<rparr>"

definition send_response :: "'w http_env \<Rightarrow> int \<Rightarrow> u8 list \<Rightarrow> int \<Rightarrow> 'w http2_session_data \<Rightarrow> int \<times> 'w http2_session_data" where
  "send_response env sid status fd s =
    (let (rv, w) = submit_response env (world s) sid status fd;
         s' = s\<lparr>world := w, calls := calls s @ [Submit_response sid status fd]\<rparr>
     in (if rv \<noteq> 0 then -1 else 0, s'))"

definition error_reply :: "'w http_env \<Rightarrow> nat \<Rightarrow> 'w http2_session_data \<Rightarrow> (int \<times> 'w http2_session_data) option" where
  "error_reply env a s = do {
     d \<leftarrow> streams s a;
     (case sys_pipe env (world s) of
        (None, w) \<Rightarrow>
          (let (rv, w') = submit_rst_stream env w (stream_id d);
               s' = s\<lparr>world := w', calls := calls s @ [Submit_rst_stream (stream_id d)]\<rparr>
           in Some (if rv \<noteq> 0 then -1 else 0, s'))
      | (Some (rd, wr), w) \<Rightarrow>
          (let (writelen, w') = sys_write env w wr ERROR_HTML;
               s1 = close_fd env wr (s\<lparr>world := w', calls := calls s @ [Sys_pipe rd wr]\<rparr>)
           in if writelen \<noteq> int (length ERROR_HTML) then Some (-1, close_fd env rd s1)
              else let (rv, s2) = send_response env (stream_id d) (bytes ''404'') rd (set_fd a rd s1)
                   in if rv \<noteq> 0 then Some (-1, close_fd env rd s2) else Some (0, s2))) }"

section \<open>The callbacks of nghttp2\<close>

definition reply_404 :: "'w http_env \<Rightarrow> nat \<Rightarrow> 'w http2_session_data \<Rightarrow> (int \<times> 'w http2_session_data) option" where
  "reply_404 env a s = do {
     (rv, s') \<leftarrow> error_reply env a s;
     Some (if rv \<noteq> 0 then NGHTTP2_ERR_CALLBACK_FAILURE else 0, s') }"

definition on_request_recv :: "'w http_env \<Rightarrow> nat \<Rightarrow> 'w http2_session_data \<Rightarrow> (int \<times> 'w http2_session_data) option" where
  "on_request_recv env a s = do {
     d \<leftarrow> streams s a;
     (case request_path d of
        None \<Rightarrow> reply_404 env a s
      | Some mem \<Rightarrow>
          if \<not> check_path (c_str mem) then reply_404 env a s
          else
            (let rel_path = skip_slashes (c_str mem);
                 (fd, w) = sys_open env (world s) rel_path;
                 s1 = s\<lparr>world := w, calls := calls s @ [Sys_open rel_path fd]\<rparr>
             in if fd = -1 then reply_404 env a s1
                else let (rv, s2) = send_response env (stream_id d) (bytes ''200'') fd (set_fd a fd s1)
                     in if rv \<noteq> 0 then Some (NGHTTP2_ERR_CALLBACK_FAILURE, close_fd env fd s2)
                        else Some (0, s2))) }"

definition on_begin_headers_callback ::
    "'w http_env \<Rightarrow> nghttp2_frame \<Rightarrow> 'w http2_session_data \<Rightarrow> (int \<times> 'w http2_session_data) option" where
  "on_begin_headers_callback env frame s =
    (if hd_type frame \<noteq> NGHTTP2_HEADERS \<or> headers_cat frame \<noteq> NGHTTP2_HCAT_REQUEST then Some (0, s)
     else do {
       (a, s1) \<leftarrow> create_http2_stream_data env (hd_stream_id frame) s;
       Some (0, s1\<lparr>world := set_stream_user_data env (world s1) (hd_stream_id frame) a\<rparr>) })"

text \<open>\<open>val\<close> is the memory behind the value pointer, of which the first \<open>valuelen\<close> bytes are the value.\<close>

definition on_header_callback ::
    "'w http_env \<Rightarrow> nghttp2_frame \<Rightarrow> u8 list \<Rightarrow> u8 list \<Rightarrow> nat \<Rightarrow> 'w http2_session_data \<Rightarrow> (int \<times> 'w http2_session_data) option" where
  "on_header_callback env frame name val valuelen s =
    (if hd_type frame \<noteq> NGHTTP2_HEADERS \<or> headers_cat frame \<noteq> NGHTTP2_HCAT_REQUEST then Some (0, s)
     else (case get_stream_user_data env (world s) (hd_stream_id frame) of
       None \<Rightarrow> Some (0, s)
     | Some a \<Rightarrow> do {
         d \<leftarrow> streams s a;
         if request_path d \<noteq> None then Some (0, s)
         else if name = bytes '':path'' then
           (let j = path_len (take valuelen val); (ok, w) = sys_malloc env (world s) in
            if \<not> ok then None
            else do {
              p \<leftarrow> percent_decode val j;
              Some (0, s\<lparr>world := w, streams := (streams s)(a \<mapsto> d\<lparr>request_path := Some p\<rparr>)\<rparr>) })
         else Some (0, s) }))"

definition on_frame_recv_callback ::
    "'w http_env \<Rightarrow> nghttp2_frame \<Rightarrow> 'w http2_session_data \<Rightarrow> (int \<times> 'w http2_session_data) option" where
  "on_frame_recv_callback env frame s =
    (if hd_type frame \<in> {NGHTTP2_DATA, NGHTTP2_HEADERS} \<and> hd_end_stream frame then
       (case get_stream_user_data env (world s) (hd_stream_id frame) of
          None \<Rightarrow> Some (0, s)
        | Some a \<Rightarrow> on_request_recv env a s)
     else Some (0, s))"

definition on_stream_close_callback ::
    "'w http_env \<Rightarrow> int \<Rightarrow> 'w http2_session_data \<Rightarrow> (int \<times> 'w http2_session_data) option" where
  "on_stream_close_callback env sid s =
    (case get_stream_user_data env (world s) sid of
       None \<Rightarrow> Some (0, s)
     | Some a \<Rightarrow> do {
         _ \<leftarrow> streams s a;
         h \<leftarrow> remove_stream a (links s);
         s1 \<leftarrow> delete_http2_stream_data env a (s\<lparr>links := h\<rparr>);
         Some (0, s1) })"

definition send_callback :: "u8 list \<Rightarrow> 'w http2_session_data \<Rightarrow> int \<times> 'w http2_session_data" where
  "send_callback data s =
    (if length (out_buf s) \<ge> OUTPUT_WOULDBLOCK_THRESHOLD then (NGHTTP2_ERR_WOULDBLOCK, s)
     else (int (length data), s\<lparr>out_buf := out_buf s @ data\<rparr>))"

text \<open>
  \<open>file_read_callback\<close>: the result, the bytes read into the buffer and whether the end-of-file flag is set; the
  loop repeats a read that was interrupted (\<open>Read_error True\<close>).
\<close>

partial_function (option) file_read_callback ::
    "'w http_env \<Rightarrow> int \<Rightarrow> nat \<Rightarrow> 'w \<Rightarrow> (int \<times> u8 list \<times> bool \<times> 'w) option" where
  "file_read_callback env fd n w =
    (case sys_read env w fd n of
       (Read_error eintr, w') \<Rightarrow>
         if eintr then file_read_callback env fd n w'
         else Some (NGHTTP2_ERR_TEMPORAL_CALLBACK_FAILURE, [], False, w')
     | (Read_data bs, w') \<Rightarrow> Some (int (length bs), bs, bs = [], w'))"

lemma free_streams_simps [simp, code]:
  "free_streams env None s = Some s"
  "free_streams env (Some a) s =
    Option.bind (delete_http2_stream_data env a s) (\<lambda>s'. free_streams env (lnext (links s) a) s')"
  by (subst free_streams.simps, simp)+

declare file_read_callback.simps [code]

section \<open>Calls into nghttp2\<close>

datatype callback =
    Cb_begin_headers nghttp2_frame
  | Cb_header nghttp2_frame "u8 list" "u8 list" nat
  | Cb_frame_recv nghttp2_frame
  | Cb_stream_close int
  | Cb_send "u8 list"
  | Cb_file_read int nat

text \<open>
  One callback. \<open>NGHTTP2_ERR_WOULDBLOCK\<close> and a temporal failure are not fatal for the library, so the code is 0 then.
  After the stream has been closed the library forgets its user data.
\<close>

definition run_callback :: "'w http_env \<Rightarrow> callback \<Rightarrow> 'w http2_session_data \<Rightarrow> (int \<times> 'w http2_session_data) option" where
  "run_callback env cb s =
    (case cb of
       Cb_begin_headers frame \<Rightarrow> on_begin_headers_callback env frame s
     | Cb_header frame name val valuelen \<Rightarrow> on_header_callback env frame name val valuelen s
     | Cb_frame_recv frame \<Rightarrow> on_frame_recv_callback env frame s
     | Cb_stream_close sid \<Rightarrow>
         map_option (\<lambda>(rv, s'). (rv, s'\<lparr>world := forget_stream env (world s') sid\<rparr>)) (on_stream_close_callback env sid s)
     | Cb_send data \<Rightarrow> Some (0, snd (send_callback data s))
     | Cb_file_read fd n \<Rightarrow> map_option (\<lambda>(_, _, _, w). (0, s\<lparr>world := w\<rparr>)) (file_read_callback env fd n (world s)))"

primrec run_callbacks :: "'w http_env \<Rightarrow> callback list \<Rightarrow> 'w http2_session_data \<Rightarrow> (int \<times> 'w http2_session_data) option" where
  "run_callbacks env [] s = Some (0, s)"
| "run_callbacks env (cb # cbs) s =
    Option.bind (run_callback env cb s) (\<lambda>(rv, s'). if rv \<noteq> 0 then Some (rv, s') else run_callbacks env cbs s')"

text \<open>What the library does in one call: the callbacks it runs, and whether it then reports a fatal error of its own.\<close>

record lib_run =
  lib_callbacks :: "callback list"
  lib_fatal :: bool

definition session_send :: "'w http_env \<Rightarrow> lib_run \<Rightarrow> 'w http2_session_data \<Rightarrow> (int \<times> 'w http2_session_data) option" where
  "session_send env r s =
    (if \<not> session_up s then None
     else Option.bind (run_callbacks env (lib_callbacks r) s)
       (\<lambda>(rv, s'). Some (if rv \<noteq> 0 \<or> lib_fatal r then -1 else 0, s')))"

definition session_recv ::
    "'w http_env \<Rightarrow> lib_run \<Rightarrow> bool \<Rightarrow> lib_run \<Rightarrow> 'w http2_session_data \<Rightarrow> (int \<times> 'w http2_session_data) option" where
  "session_recv env r drain_ok snd_run s =
    (if \<not> session_up s then None
     else Option.bind (run_callbacks env (lib_callbacks r) s)
       (\<lambda>(rv, s1). if rv \<noteq> 0 \<or> lib_fatal r then Some (-1, s1)
          else if \<not> drain_ok then Some (-1, s1)
          else session_send env snd_run s1))"

section \<open>The callbacks of libevent\<close>

definition keep_or_delete :: "'w http_env \<Rightarrow> int \<times> 'w http2_session_data \<Rightarrow> 'w outcome option" where
  "keep_or_delete env r = (case r of (rv, s) \<Rightarrow> if rv \<noteq> 0 then delete_http2_session_data env s else Some (Live s))"

definition readcb :: "'w http_env \<Rightarrow> lib_run \<Rightarrow> bool \<Rightarrow> lib_run \<Rightarrow> 'w http2_session_data \<Rightarrow> 'w outcome option" where
  "readcb env r drain_ok snd_run s = Option.bind (session_recv env r drain_ok snd_run s) (keep_or_delete env)"

definition writecb :: "'w http_env \<Rightarrow> bool \<Rightarrow> bool \<Rightarrow> lib_run \<Rightarrow> 'w http2_session_data \<Rightarrow> 'w outcome option" where
  "writecb env want_read want_write snd_run s =
    (if out_buf s \<noteq> [] then Some (Live s)
     else if \<not> session_up s then None
     else if \<not> want_read \<and> \<not> want_write then delete_http2_session_data env s
     else Option.bind (session_send env snd_run s) (keep_or_delete env))"

definition send_server_connection_header :: "'w http_env \<Rightarrow> 'w http2_session_data \<Rightarrow> int \<times> 'w http2_session_data" where
  "send_server_connection_header env s =
    (let (rv, w) = submit_settings env (world s) in (if rv \<noteq> 0 then -1 else 0, s\<lparr>world := w\<rparr>))"

text \<open>\<open>connected\<close> is the event flag, \<open>alpn\<close> the protocol that TLS negotiated.\<close>

definition eventcb :: "'w http_env \<Rightarrow> bool \<Rightarrow> u8 list option \<Rightarrow> lib_run \<Rightarrow> 'w http2_session_data \<Rightarrow> 'w outcome option" where
  "eventcb env connected alpn snd_run s =
    (if connected then
       (if alpn \<noteq> Some (bytes ''h2'') then delete_http2_session_data env s
        else let (rv, s1) = send_server_connection_header env (s\<lparr>session_up := True\<rparr>) in
          if rv \<noteq> 0 then delete_http2_session_data env s1
          else Option.bind (session_send env snd_run s1) (keep_or_delete env))
     else delete_http2_session_data env s)"

definition create_http2_session_data :: "'w \<Rightarrow> 'w http2_session_data" where
  "create_http2_session_data w =
    \<lparr>links = \<lparr>lnext = (\<lambda>_. None), lprev = (\<lambda>_. None)\<rparr>, streams = (\<lambda>_. None), next_addr = 1, out_buf = [],
     session_up = False, world = w, calls = []\<rparr>"

text \<open>The life of a session as a sequence of events; once the session is deleted, its callbacks are gone. \<open>libevent\<close> reports
  the end of the TLS handshake once, and data only after it: an event that does not fit is skipped.\<close>

datatype event =
    Ev_read lib_run bool lib_run
  | Ev_write bool bool lib_run
  | Ev_event bool "u8 list option" lib_run
  | Ev_flush nat

definition handle_event :: "'w http_env \<Rightarrow> event \<Rightarrow> 'w http2_session_data \<Rightarrow> 'w outcome option" where
  "handle_event env e s =
    (case e of
       Ev_read r drain_ok snd_run \<Rightarrow> if session_up s then readcb env r drain_ok snd_run s else Some (Live s)
     | Ev_write wr ww snd_run \<Rightarrow> if session_up s then writecb env wr ww snd_run s else Some (Live s)
     | Ev_event connected alpn snd_run \<Rightarrow> if connected \<and> session_up s then Some (Live s) else eventcb env connected alpn snd_run s
     | Ev_flush n \<Rightarrow> Some (Live (s\<lparr>out_buf := drop n (out_buf s)\<rparr>)))"

primrec run_events :: "'w http_env \<Rightarrow> event list \<Rightarrow> 'w http2_session_data \<Rightarrow> 'w outcome option" where
  "run_events env [] s = Some (Live s)"
| "run_events env (e # es) s =
    Option.bind (handle_event env e s) (\<lambda>r. case r of Live s' \<Rightarrow> run_events env es s' | Gone s' \<Rightarrow> Some (Gone s'))"


section \<open>What the server relies on\<close>

text \<open>
  \<open>nghttp2\<close> keeps one pointer per stream, returns the one set last and none for a forgotten stream, and the other calls do
  not change this table; memory is available; a read is not interrupted for ever.
\<close>

definition read_on :: "'w http_env \<Rightarrow> int \<Rightarrow> nat \<Rightarrow> 'w \<Rightarrow> 'w" where
  "read_on env fd n w = snd (sys_read env w fd n)"

definition env_laws :: "'w http_env \<Rightarrow> bool" where
  "env_laws env \<longleftrightarrow>
    (\<forall>w i a j. get_stream_user_data env (set_stream_user_data env w i a) j =
       (if j = i then Some a else get_stream_user_data env w j)) \<and>
    (\<forall>w i j. get_stream_user_data env (forget_stream env w i) j =
       (if j = i then None else get_stream_user_data env w j)) \<and>
    (\<forall>w i st fd. get_stream_user_data env (snd (submit_response env w i st fd)) = get_stream_user_data env w) \<and>
    (\<forall>w i. get_stream_user_data env (snd (submit_rst_stream env w i)) = get_stream_user_data env w) \<and>
    (\<forall>w. get_stream_user_data env (snd (submit_settings env w)) = get_stream_user_data env w) \<and>
    (\<forall>w. get_stream_user_data env (snd (sys_malloc env w)) = get_stream_user_data env w) \<and>
    (\<forall>w p. get_stream_user_data env (snd (sys_open env w p)) = get_stream_user_data env w) \<and>
    (\<forall>w. get_stream_user_data env (snd (sys_pipe env w)) = get_stream_user_data env w) \<and>
    (\<forall>w fd bs. get_stream_user_data env (snd (sys_write env w fd bs)) = get_stream_user_data env w) \<and>
    (\<forall>w fd. get_stream_user_data env (sys_close env w fd) = get_stream_user_data env w) \<and>
    (\<forall>w fd n. get_stream_user_data env (snd (sys_read env w fd n)) = get_stream_user_data env w) \<and>
    (\<forall>w. fst (sys_malloc env w)) \<and>
    (\<forall>w fd n. \<exists>k. fst (sys_read env ((read_on env fd n ^^ k) w) fd n) \<noteq> Read_error True)"

text \<open>For the accounting of descriptors: responses are accepted, and a pipe has proper descriptors.\<close>

definition fd_laws :: "'w http_env \<Rightarrow> bool" where
  "fd_laws env \<longleftrightarrow>
    (\<forall>w i st fd. fst (submit_response env w i st fd) = 0) \<and>
    (\<forall>w r u. fst (sys_pipe env w) = Some (r, u) \<longrightarrow> r \<noteq> -1 \<and> u \<noteq> -1)"

text \<open>The value of a header is followed by two readable bytes.\<close>

definition callback_ok :: "callback \<Rightarrow> bool" where
  "callback_ok cb = (case cb of Cb_header frame name val valuelen \<Rightarrow> valuelen + 2 \<le> length val | _ \<Rightarrow> True)"

primrec event_callbacks :: "event \<Rightarrow> callback list" where
  "event_callbacks (Ev_read r b r') = lib_callbacks r @ lib_callbacks r'"
| "event_callbacks (Ev_write b c r) = lib_callbacks r"
| "event_callbacks (Ev_event b p r) = lib_callbacks r"
| "event_callbacks (Ev_flush n) = []"

text \<open>The streams whose request a callback reports as complete.\<close>

definition ended :: "callback \<Rightarrow> int list" where
  "ended cb = (case cb of Cb_frame_recv frame \<Rightarrow> if hd_end_stream frame then [hd_stream_id frame] else [] | _ \<Rightarrow> [])"

section \<open>Invariants\<close>

definition ud_ok :: "(int \<Rightarrow> nat option) \<Rightarrow> (nat \<Rightarrow> http2_stream_data option) \<Rightarrow> bool" where
  "ud_ok g st \<longleftrightarrow> (\<forall>i a. g i = Some a \<longrightarrow> (\<exists>d. st a = Some d \<and> stream_id d = i))"

definition opens_safe :: "syscall list \<Rightarrow> bool" where
  "opens_safe cs \<longleftrightarrow> (\<forall>p fd. Sys_open p fd \<in> set cs \<longrightarrow> safe_name p)"

definition srv_inv :: "'w http_env \<Rightarrow> nat list \<Rightarrow> 'w http2_session_data \<Rightarrow> bool" where
  "srv_inv env xs s \<longleftrightarrow>
    slist (links s) root_addr xs \<and> dom (streams s) = set xs \<and> (\<forall>a \<in> set xs. a < next_addr s) \<and> 0 < next_addr s \<and>
    ud_ok (get_stream_user_data env (world s)) (streams s) \<and> opens_safe (calls s)"

fun acquired :: "syscall \<Rightarrow> int list" where
  "acquired (Sys_open p fd) = (if fd = -1 then [] else [fd])"
| "acquired (Sys_pipe r w) = [r, w]"
| "acquired _ = []"

fun closed :: "syscall \<Rightarrow> int list" where
  "closed (Sys_close fd) = [fd]"
| "closed _ = []"

definition held :: "nat list \<Rightarrow> (nat \<Rightarrow> http2_stream_data option) \<Rightarrow> int multiset" where
  "held xs st = mset (filter (\<lambda>fd. fd \<noteq> -1) (map (\<lambda>a. stream_fd (the (st a))) xs))"

definition fd_inv :: "nat list \<Rightarrow> 'w http2_session_data \<Rightarrow> bool" where
  "fd_inv xs s \<longleftrightarrow> mset (concat (map acquired (calls s))) = mset (concat (map closed (calls s))) + held xs (streams s)"

text \<open>The streams in \<open>E\<close>, whose requests are still to come, hold no descriptor.\<close>

definition idle :: "int set \<Rightarrow> 'w http2_session_data \<Rightarrow> bool" where
  "idle E s \<longleftrightarrow> (\<forall>a d. streams s a = Some d \<and> stream_id d \<in> E \<longrightarrow> stream_fd d = -1)"

lemma srv_inv_step:
  assumes "srv_inv env xs s" "links s' = links s" "dom (streams s') = dom (streams s)" "next_addr s' = next_addr s"
    and "ud_ok (get_stream_user_data env (world s')) (streams s')" "opens_safe (calls s')"
  shows "srv_inv env xs s'"
  using assms by (simp add: srv_inv_def)

lemma srv_invD:
  assumes "srv_inv env xs s"
  shows "slist (links s) root_addr xs" "dom (streams s) = set xs" "distinct xs" "root_addr \<notin> set xs"
    "ud_ok (get_stream_user_data env (world s)) (streams s)" "opens_safe (calls s)" "next_addr s \<notin> nodes root_addr xs"
  using assms by (auto simp: srv_inv_def slist_def)

lemma held_upd:
  "distinct xs \<Longrightarrow> a \<in> set xs \<Longrightarrow> st a = Some d \<Longrightarrow> stream_fd d = -1 \<Longrightarrow>
   held xs (st(a \<mapsto> d\<lparr>stream_fd := f\<rparr>)) = held xs st + (if f = -1 then {#} else {#f#})"
proof (induction xs)
  case (Cons x xs)
  show ?case
  proof (cases "x = a")
    case True
    have "held xs (st(a \<mapsto> d\<lparr>stream_fd := f\<rparr>)) = held xs st"
      unfolding held_def by (rule arg_cong [where f = mset], rule arg_cong [where f = "filter _"]) (use True Cons.prems in auto)
    with True Cons.prems show ?thesis by (simp add: held_def)
  next
    case False
    with Cons show ?thesis by (simp add: held_def)
  qed
qed simp

lemma held_remove1:
  "distinct xs \<Longrightarrow> a \<in> set xs \<Longrightarrow> st a = Some d \<Longrightarrow>
   held xs st = held (remove1 a xs) (st(a := None)) + (if stream_fd d = -1 then {#} else {#stream_fd d#})"
proof (induction xs)
  case (Cons x xs)
  show ?case
  proof (cases "x = a")
    case True
    have "held xs (st(a := None)) = held xs st"
      unfolding held_def by (rule arg_cong [where f = mset], rule arg_cong [where f = "filter _"]) (use True Cons.prems in auto)
    with True Cons.prems show ?thesis by (simp add: held_def)
  next
    case False
    with Cons show ?thesis by (simp add: held_def)
  qed
qed simp

lemma held_fresh: "a \<notin> set xs \<Longrightarrow> held (a # xs) (st(a \<mapsto> d)) = held xs st + (if stream_fd d = -1 then {#} else {#stream_fd d#})"
proof -
  assume "a \<notin> set xs"
  then have "held xs (st(a \<mapsto> d)) = held xs st"
    unfolding held_def by (intro arg_cong [where f = mset] arg_cong [where f = "filter _"]) auto
  then show ?thesis by (simp add: held_def)
qed

lemma ud_ok_upd: "ud_ok g st \<Longrightarrow> st a = Some d \<Longrightarrow> stream_id d' = stream_id d \<Longrightarrow> ud_ok g (st(a \<mapsto> d'))"
  by (fastforce simp: ud_ok_def)

section \<open>Replies\<close>

lemma opens_safe_simps [simp]:
  "opens_safe (cs @ [c]) \<longleftrightarrow> opens_safe cs \<and> (\<forall>p fd. c = Sys_open p fd \<longrightarrow> safe_name p)"
  by (auto simp: opens_safe_def)

text \<open>The facts a reply establishes: the stream keeps its identity, and the descriptor it holds is accounted for.\<close>

definition replied :: "'w http_env \<Rightarrow> nat list \<Rightarrow> nat \<Rightarrow> http2_stream_data \<Rightarrow> 'w http2_session_data \<Rightarrow> 'w http2_session_data \<Rightarrow> bool" where
  "replied env xs a d s s' \<longleftrightarrow>
    srv_inv env xs s' \<and> session_up s' = session_up s \<and> (\<exists>f. streams s' = (streams s)(a \<mapsto> d\<lparr>stream_fd := f\<rparr>)) \<and>
    (fd_laws env \<and> fd_inv xs s \<and> stream_fd d = -1 \<longrightarrow> fd_inv xs s')"

lemma repliedI:
  assumes "srv_inv env xs s" "streams s a = Some d" "env_laws env"
    and "links s' = links s" "next_addr s' = next_addr s" "session_up s' = session_up s"
    and "get_stream_user_data env (world s') = get_stream_user_data env (world s)"
    and "streams s' = (streams s)(a \<mapsto> d\<lparr>stream_fd := f\<rparr>)"
    and "calls s' = calls s @ cs" "\<forall>p fd. Sys_open p fd \<in> set cs \<longrightarrow> safe_name p"
    and "fd_laws env \<Longrightarrow> stream_fd d = -1 \<Longrightarrow>
      mset (concat (map acquired cs)) = mset (concat (map closed cs)) + (if f = -1 then {#} else {#f#})"
  shows "replied env xs a d s s'"
proof -
  note inv = srv_invD [OF assms(1)]
  have a: "a \<in> set xs" using inv(2) assms(2) by auto
  have "srv_inv env xs s'"
  proof (rule srv_inv_step [OF assms(1,4)])
    show "dom (streams s') = dom (streams s)" using assms(2,8) by auto
    show "ud_ok (get_stream_user_data env (world s')) (streams s')"
      unfolding assms(7,8) by (rule ud_ok_upd [OF inv(5) assms(2)]) simp
    show "opens_safe (calls s')" using inv(6) assms(9,10) by (auto simp: opens_safe_def)
  qed (rule assms(5))
  moreover have "fd_inv xs s'" if "fd_laws env" "fd_inv xs s" "stream_fd d = -1"
    using that assms(11) held_upd [where st = "streams s" and d = d and f = f, OF inv(3) a assms(2) that(3)] by (simp add: fd_inv_def assms(8,9))
  ultimately show ?thesis using assms(6,8) by (auto simp: replied_def)
qed

lemma env_lawsD:
  assumes "env_laws env"
  shows "get_stream_user_data env (set_stream_user_data env w i a) j = (if j = i then Some a else get_stream_user_data env w j)"
    "get_stream_user_data env (forget_stream env w i) j = (if j = i then None else get_stream_user_data env w j)"
    "submit_response env w i st fd = (rv, w') \<Longrightarrow> get_stream_user_data env w' = get_stream_user_data env w"
    "submit_rst_stream env w i = (rv, w') \<Longrightarrow> get_stream_user_data env w' = get_stream_user_data env w"
    "submit_settings env w = (rv, w') \<Longrightarrow> get_stream_user_data env w' = get_stream_user_data env w"
    "sys_malloc env w = (ok, w') \<Longrightarrow> ok \<and> get_stream_user_data env w' = get_stream_user_data env w"
    "sys_open env w p = (rv, w') \<Longrightarrow> get_stream_user_data env w' = get_stream_user_data env w"
    "sys_pipe env w = (pp, w') \<Longrightarrow> get_stream_user_data env w' = get_stream_user_data env w"
    "sys_write env w fd bs = (rv, w') \<Longrightarrow> get_stream_user_data env w' = get_stream_user_data env w"
    "get_stream_user_data env (sys_close env w fd) = get_stream_user_data env w"
    "sys_read env w fd n = (rr, w') \<Longrightarrow> get_stream_user_data env w' = get_stream_user_data env w"
    "\<exists>k. fst (sys_read env ((read_on env fd n ^^ k) w) fd n) \<noteq> Read_error True"
  using assms unfolding env_laws_def by (metis snd_conv fst_conv)+

lemma send_response_simps:
  assumes "send_response env sid status fd s = (rv, s')" "env_laws env"
  shows "links s' = links s" "next_addr s' = next_addr s" "session_up s' = session_up s" "streams s' = streams s"
    "get_stream_user_data env (world s') = get_stream_user_data env (world s)"
    "calls s' = calls s @ [Submit_response sid status fd]" "fd_laws env \<Longrightarrow> rv = 0"
  using assms env_lawsD(3) [OF assms(2)] by (auto simp: send_response_def fd_laws_def Let_def split: prod.splits) (metis fst_conv)+

lemma set_fd_simps [simp]:
  "links (set_fd a fd s) = links s" "next_addr (set_fd a fd s) = next_addr s" "session_up (set_fd a fd s) = session_up s"
  "world (set_fd a fd s) = world s" "calls (set_fd a fd s) = calls s"
  "streams s a = Some d \<Longrightarrow> streams (set_fd a fd s) = (streams s)(a \<mapsto> d\<lparr>stream_fd := fd\<rparr>)"
  by (simp_all add: set_fd_def)

lemma close_fd_simps [simp]:
  "links (close_fd env fd s) = links s" "next_addr (close_fd env fd s) = next_addr s"
  "session_up (close_fd env fd s) = session_up s" "streams (close_fd env fd s) = streams s"
  "calls (close_fd env fd s) = calls s @ [Sys_close fd]" "world (close_fd env fd s) = sys_close env (world s) fd"
  by (simp_all add: close_fd_def)

lemma upd_same: "st a = Some d \<Longrightarrow> st = st(a \<mapsto> d\<lparr>stream_fd := stream_fd d\<rparr>)"
  by auto

lemma error_reply_replied:
  assumes "env_laws env" "srv_inv env xs s" "streams s a = Some d"
  shows "\<exists>rv s'. error_reply env a s = Some (rv, s') \<and> replied env xs a d s s'"
proof -
  note law = env_lawsD [OF assms(1)]
  obtain pp w where p: "sys_pipe env (world s) = (pp, w)" by (cases "sys_pipe env (world s)")
  show ?thesis
  proof (cases pp)
    case None
    obtain rv w' where r: "submit_rst_stream env w (stream_id d) = (rv, w')" by (cases "submit_rst_stream env w (stream_id d)")
    let ?s = "s\<lparr>world := w', calls := calls s @ [Submit_rst_stream (stream_id d)]\<rparr>"
    have "replied env xs a d s ?s"
      by (rule repliedI [OF assms(2,3,1), where f = "stream_fd d" and cs = "[Submit_rst_stream (stream_id d)]"])
        (use assms(3) law(8) [OF p] law(4) [OF r] in \<open>auto simp: upd_same\<close>)
    with None p r assms(3) show ?thesis by (simp add: error_reply_def Let_def)
  next
    case (Some q)
    obtain rd wr where q: "q = (rd, wr)" by (cases q)
    obtain n w' where wr: "sys_write env w wr ERROR_HTML = (n, w')" by (cases "sys_write env w wr ERROR_HTML")
    let ?s1 = "close_fd env wr (s\<lparr>world := w', calls := calls s @ [Sys_pipe rd wr]\<rparr>)"
    have g1: "get_stream_user_data env (world ?s1) = get_stream_user_data env (world s)"
      using law(8) [OF p] law(9) [OF wr] law(10) by simp
    have pr: "rd \<noteq> -1" if "fd_laws env" using that p Some q by (auto simp: fd_laws_def) (metis fst_conv)
    obtain rv s2 where s2: "send_response env (stream_id d) (bytes ''404'') rd (set_fd a rd ?s1) = (rv, s2)"
      by (cases "send_response env (stream_id d) (bytes ''404'') rd (set_fd a rd ?s1)")
    note sr = send_response_simps [OF s2 assms(1)]
    have bad: "replied env xs a d s (close_fd env rd ?s1)"
      by (rule repliedI [OF assms(2,3,1), where f = "stream_fd d" and cs = "[Sys_pipe rd wr, Sys_close wr, Sys_close rd]"])
        (use assms(3) g1 law(10) in \<open>auto simp: upd_same\<close>)
    have good: "replied env xs a d s s2"
      by (rule repliedI [OF assms(2,3,1), where f = rd and cs = "[Sys_pipe rd wr, Sys_close wr, Submit_response (stream_id d) (bytes ''404'') rd]"])
        (use assms(3) g1 law(10) sr pr in \<open>auto simp: add_mset_commute\<close>)
    have failed: "replied env xs a d s (close_fd env rd s2)" if "rv \<noteq> 0"
      by (rule repliedI [OF assms(2,3,1), where f = rd and
          cs = "[Sys_pipe rd wr, Sys_close wr, Submit_response (stream_id d) (bytes ''404'') rd, Sys_close rd]"])
        (use assms(3) g1 law(10) sr that in auto)
    show ?thesis using Some q p wr s2 assms(3) bad good failed by (auto simp: error_reply_def Let_def)
  qed
qed


lemma reply_404_replied:
  assumes "env_laws env" "srv_inv env xs s" "streams s a = Some d"
  shows "\<exists>rv s'. reply_404 env a s = Some (rv, s') \<and> replied env xs a d s s'"
proof -
  obtain rv s' where "error_reply env a s = Some (rv, s')" "replied env xs a d s s'"
    using error_reply_replied [OF assms] by blast
  then show ?thesis by (simp add: reply_404_def)
qed

lemma on_request_recv_replied:
  assumes "env_laws env" "srv_inv env xs s" "streams s a = Some d"
  shows "\<exists>rv s'. on_request_recv env a s = Some (rv, s') \<and> replied env xs a d s s'"
proof -
  note law = env_lawsD [OF assms(1)] and inv = srv_invD [OF assms(2)]
  consider (none) "request_path d = None" | (bad) mem where "request_path d = Some mem" "\<not> check_path (c_str mem)"
    | (ok) mem where "request_path d = Some mem" "check_path (c_str mem)" by (cases "request_path d") auto
  then show ?thesis
  proof cases
    case none
    with reply_404_replied [OF assms] assms(3) show ?thesis by (simp add: on_request_recv_def)
  next
    case bad
    with reply_404_replied [OF assms] assms(3) show ?thesis by (simp add: on_request_recv_def)
  next
    case ok
    let ?p = "skip_slashes (c_str mem)"
    have safe: "safe_name ?p" by (rule check_path_safe_name [OF ok(2)])
    obtain fd w where o: "sys_open env (world s) ?p = (fd, w)" by (cases "sys_open env (world s) ?p")
    let ?s1 = "s\<lparr>world := w, calls := calls s @ [Sys_open ?p fd]\<rparr>"
    have g1: "get_stream_user_data env w = get_stream_user_data env (world s)" by (rule law(7) [OF o])
    show ?thesis
    proof (cases "fd = -1")
      case True
      have "srv_inv env xs ?s1"
        by (rule srv_inv_step [OF assms(2)]) (use inv g1 safe in auto)
      from reply_404_replied [OF assms(1) this, of a d] assms(3) obtain rv s' where
        r: "reply_404 env a ?s1 = Some (rv, s')" "replied env xs a d ?s1 s'" by auto
      have "fd_inv xs ?s1 = fd_inv xs s" using True by (simp add: fd_inv_def)
      with r(2) have "replied env xs a d s s'" by (simp add: replied_def)
      with True ok o r(1) assms(3) show ?thesis by (simp add: on_request_recv_def Let_def)
    next
      case False
      obtain rv s2 where s2: "send_response env (stream_id d) (bytes ''200'') fd (set_fd a fd ?s1) = (rv, s2)"
        by (cases "send_response env (stream_id d) (bytes ''200'') fd (set_fd a fd ?s1)")
      note sr = send_response_simps [OF s2 assms(1)]
      have good: "replied env xs a d s s2"
        by (rule repliedI [OF assms(2,3,1), where f = fd and cs = "[Sys_open ?p fd, Submit_response (stream_id d) (bytes ''200'') fd]"])
          (use assms(3) g1 sr safe False in auto)
      have failed: "replied env xs a d s (close_fd env fd s2)" if "rv \<noteq> 0"
        by (rule repliedI [OF assms(2,3,1), where f = fd and cs = "[Sys_open ?p fd, Submit_response (stream_id d) (bytes ''200'') fd, Sys_close fd]"])
          (use assms(3) g1 law(10) sr safe that in auto)
      show ?thesis using False ok o s2 assms(3) good failed by (auto simp: on_request_recv_def Let_def)
    qed
  qed
qed

section \<open>Callbacks\<close>

text \<open>What one callback, with the requests \<open>E\<close> to come after it, establishes.\<close>

definition cb_result :: "'w http_env \<Rightarrow> nat list \<Rightarrow> int list \<Rightarrow> int set \<Rightarrow> 'w http2_session_data \<Rightarrow> (int \<times> 'w http2_session_data) option \<Rightarrow> bool" where
  "cb_result env xs now E s r \<longleftrightarrow>
    (\<exists>rv s' xs'. r = Some (rv, s') \<and> srv_inv env xs' s' \<and> session_up s' = session_up s \<and>
      (fd_laws env \<and> fd_inv xs s \<and> idle (set now \<union> E) s \<and> set now \<inter> E = {} \<and> distinct now \<longrightarrow> fd_inv xs' s' \<and> idle E s'))"

lemma cb_resultI:
  assumes "r = Some (rv, s')" "srv_inv env xs' s'" "session_up s' = session_up s"
    and "fd_laws env \<Longrightarrow> fd_inv xs s \<Longrightarrow> idle (set now \<union> E) s \<Longrightarrow> set now \<inter> E = {} \<Longrightarrow> distinct now \<Longrightarrow>
      fd_inv xs' s' \<and> idle E s'"
  shows "cb_result env xs now E s r"
  using assms unfolding cb_result_def by blast

lemma cb_skip: "srv_inv env xs s \<Longrightarrow> cb_result env xs now E s (Some (rv, s))"
  by (rule cb_resultI) (auto simp: idle_def)

lemma replied_cb:
  assumes "r = Some (rv, s')" "replied env xs a d s s'" "streams s a = Some d" "stream_id d = i"
  shows "cb_result env xs [i] E s r"
proof (rule cb_resultI [OF assms(1)])
  show "srv_inv env xs s'" "session_up s' = session_up s" using assms(2) by (simp_all add: replied_def)
  assume *: "fd_laws env" "fd_inv xs s" "idle (set [i] \<union> E) s" "set [i] \<inter> E = {}"
  then have "stream_fd d = -1" using assms(3,4) by (auto simp: idle_def)
  with * assms show "fd_inv xs s' \<and> idle E s'" by (auto simp: replied_def idle_def split: if_splits)
qed

lemma on_frame_recv_cb:
  assumes "env_laws env" "srv_inv env xs s"
  shows "cb_result env xs (ended (Cb_frame_recv frame)) E s (on_frame_recv_callback env frame s)"
proof (cases "hd_type frame \<in> {NGHTTP2_DATA, NGHTTP2_HEADERS} \<and> hd_end_stream frame")
  case True
  show ?thesis
  proof (cases "get_stream_user_data env (world s) (hd_stream_id frame)")
    case None
    with True cb_skip [OF assms(2)] show ?thesis by (simp add: on_frame_recv_callback_def)
  next
    case (Some a)
    with srv_invD(5) [OF assms(2)] obtain d where d: "streams s a = Some d" "stream_id d = hd_stream_id frame"
      by (auto simp: ud_ok_def)
    from on_request_recv_replied [OF assms d(1)] obtain rv s' where
      "on_request_recv env a s = Some (rv, s')" "replied env xs a d s s'" by blast
    from replied_cb [OF this d] True Some show ?thesis by (simp add: on_frame_recv_callback_def ended_def)
  qed
qed (use cb_skip [OF assms(2)] in \<open>auto simp: on_frame_recv_callback_def\<close>)

lemma on_begin_headers_cb:
  assumes "env_laws env" "srv_inv env xs s"
  shows "cb_result env xs [] E s (on_begin_headers_callback env frame s)"
proof (cases "hd_type frame \<noteq> NGHTTP2_HEADERS \<or> headers_cat frame \<noteq> NGHTTP2_HCAT_REQUEST")
  case True
  with cb_skip [OF assms(2)] show ?thesis by (simp add: on_begin_headers_callback_def)
next
  case False
  note law = env_lawsD [OF assms(1)] and inv = srv_invD [OF assms(2)]
  let ?i = "hd_stream_id frame" and ?a = "next_addr s"
  let ?d = "\<lparr>request_path = None, stream_id = ?i, stream_fd = -1\<rparr>"
  obtain ok w where m: "sys_malloc env (world s) = (ok, w)" by (cases "sys_malloc env (world s)")
  obtain h where h: "add_stream ?a root_addr (links s) = Some h" "slist h root_addr (?a # xs)"
    using hs.push [OF inv(1,7)] by blast
  let ?s = "s\<lparr>world := set_stream_user_data env w ?i ?a, next_addr := ?a + 1, links := h, streams := (streams s)(?a \<mapsto> ?d)\<rparr>"
  have fresh: "?a \<notin> set xs" using inv(7) by simp
  have eq: "on_begin_headers_callback env frame s = Some (0, ?s)"
    using False m law(6) [OF m] h by (simp add: on_begin_headers_callback_def create_http2_stream_data_def Let_def)
  have ud: "ud_ok (get_stream_user_data env (world ?s)) (streams ?s)"
    using inv(2,5) fresh law(1,6) m by (auto simp: ud_ok_def) (metis domI)
  show ?thesis
  proof (rule cb_resultI [OF eq])
    show "srv_inv env (?a # xs) ?s"
      using assms(2) h(2) ud inv(2) by (auto simp: srv_inv_def)
    assume "fd_inv xs s" "idle (set [] \<union> E) s"
    then show "fd_inv (?a # xs) ?s \<and> idle E ?s"
      using held_fresh [OF fresh, of "streams s" ?d] by (auto simp: fd_inv_def idle_def)
  qed simp
qed

lemma percent_decode_total: "valuelen + 2 \<le> length val \<Longrightarrow> \<exists>p. percent_decode val valuelen = Some p"
  using percent_decode_long [of valuelen val] by (cases "3 < valuelen") (auto simp: percent_decode_def)

lemma path_len_le: "path_len xs \<le> length xs"
  by (induction xs) auto

lemma on_header_cb:
  assumes "env_laws env" "srv_inv env xs s" "valuelen + 2 \<le> length val"
  shows "cb_result env xs [] E s (on_header_callback env frame name val valuelen s)"
proof -
  note law = env_lawsD [OF assms(1)] and inv = srv_invD [OF assms(2)]
  let ?r = "on_header_callback env frame name val valuelen s"
  consider "?r = Some (0, s)" | "?r \<noteq> Some (0, s)" by blast
  then show ?thesis
  proof cases
    case 1
    with cb_skip [OF assms(2)] show ?thesis by simp
  next
    case 2
    then have hq: "\<not> (hd_type frame \<noteq> NGHTTP2_HEADERS \<or> headers_cat frame \<noteq> NGHTTP2_HCAT_REQUEST)"
      unfolding on_header_callback_def by metis
    with 2 obtain a where a: "get_stream_user_data env (world s) (hd_stream_id frame) = Some a"
      by (cases "get_stream_user_data env (world s) (hd_stream_id frame)") (auto simp: on_header_callback_def)
    with inv(5) obtain d where d: "streams s a = Some d" by (auto simp: ud_ok_def)
    obtain ok w where m: "sys_malloc env (world s) = (ok, w)" by (cases "sys_malloc env (world s)")
    have "path_len (take valuelen val) + 2 \<le> length val" using path_len_le [of "take valuelen val"] assms(3) by simp
    from percent_decode_total [OF this] obtain p where p: "percent_decode val (path_len (take valuelen val)) = Some p" by blast
    let ?d = "d\<lparr>request_path := Some p\<rparr>"
    let ?s = "s\<lparr>world := w, streams := (streams s)(a \<mapsto> ?d)\<rparr>"
    have eq: "?r = Some (0, ?s)"
      using 2 hq a d m law(6) [OF m] p by (auto simp: on_header_callback_def Let_def split: if_splits)
    show ?thesis
    proof (rule cb_resultI [OF eq])
      show "srv_inv env xs ?s"
        by (rule srv_inv_step [OF assms(2)]) (use inv d law(6) [OF m] in \<open>auto intro: ud_ok_upd\<close>)
      assume "fd_inv xs s" "idle (set [] \<union> E) s"
      moreover have "held xs (streams ?s) = held xs (streams s)"
        unfolding held_def by (intro arg_cong [where f = mset] arg_cong [where f = "filter _"]) (use d in auto)
      ultimately show "fd_inv xs ?s \<and> idle E ?s" using d by (auto simp: fd_inv_def idle_def)
    qed simp
  qed
qed


lemma delete_stream_facts:
  assumes "streams s a = Some d" "a \<in> set xs" "distinct xs" "env_laws env"
  obtains s' where "delete_http2_stream_data env a s = Some s'"
    "links s' = links s" "next_addr s' = next_addr s" "session_up s' = session_up s" "streams s' = (streams s)(a := None)"
    "get_stream_user_data env (world s') = get_stream_user_data env (world s)"
    "opens_safe (calls s) \<Longrightarrow> opens_safe (calls s')" "fd_inv xs s \<Longrightarrow> fd_inv (remove1 a xs) s'"
proof -
  let ?s = "(if stream_fd d \<noteq> -1 then close_fd env (stream_fd d) s else s)\<lparr>streams := (streams s)(a := None)\<rparr>"
  have h: "held xs (streams s) = held (remove1 a xs) ((streams s)(a := None)) + (if stream_fd d = -1 then {#} else {#stream_fd d#})"
    by (rule held_remove1) (use assms in auto)
  have "delete_http2_stream_data env a s = Some ?s"
    using assms(1) by (simp add: delete_http2_stream_data_def Let_def)
  moreover have "fd_inv (remove1 a xs) ?s" if "fd_inv xs s"
    using that h by (auto simp: fd_inv_def)
  ultimately show thesis
    using env_lawsD(10) [OF assms(4)] by (intro that [of ?s]) auto
qed

lemma on_stream_close_cb:
  assumes "env_laws env" "srv_inv env xs s"
  shows "cb_result env xs [] E s (run_callback env (Cb_stream_close i) s)"
proof (cases "get_stream_user_data env (world s) i")
  case None
  let ?s = "s\<lparr>world := forget_stream env (world s) i\<rparr>"
  have ud: "get_stream_user_data env (world ?s) = get_stream_user_data env (world s)"
    using None env_lawsD(2) [OF assms(1)] by auto
  have "run_callback env (Cb_stream_close i) s = Some (0, ?s)"
    using None by (simp add: run_callback_def on_stream_close_callback_def)
  then show ?thesis
  proof (rule cb_resultI)
    show "srv_inv env xs ?s" by (rule srv_inv_step [OF assms(2)]) (use srv_invD [OF assms(2)] ud in auto)
  qed (auto simp: fd_inv_def idle_def)
next
  case (Some a)
  note inv = srv_invD [OF assms(2)]
  from Some inv(5) obtain d where d: "streams s a = Some d" "stream_id d = i" by (auto simp: ud_ok_def)
  then have a: "a \<in> set xs" using inv(2) by auto
  obtain h where h: "remove_stream a (links s) = Some h" "slist h root_addr (remove1 a xs)"
    using hs.del [OF inv(1) a] by blast
  have d': "streams (s\<lparr>links := h\<rparr>) a = Some d" using d by simp
  from delete_stream_facts [OF d' a inv(3) assms(1)] obtain s' where
    s': "delete_http2_stream_data env a (s\<lparr>links := h\<rparr>) = Some s'"
    "links s' = h" "next_addr s' = next_addr s" "session_up s' = session_up s" "streams s' = (streams s)(a := None)"
    "get_stream_user_data env (world s') = get_stream_user_data env (world s)"
    "opens_safe (calls s')" "fd_inv xs (s\<lparr>links := h\<rparr>) \<Longrightarrow> fd_inv (remove1 a xs) s'"
    using inv(6) by auto
  let ?s = "s'\<lparr>world := forget_stream env (world s') i\<rparr>"
  have ud: "ud_ok (get_stream_user_data env (world ?s)) (streams ?s)"
    using inv(5) s'(5,6) env_lawsD(2) [OF assms(1)] d by (auto simp: ud_ok_def split: if_splits) fastforce
  have eq: "run_callback env (Cb_stream_close i) s = Some (0, ?s)"
    using Some d h s'(1) by (simp add: run_callback_def on_stream_close_callback_def)
  show ?thesis
  proof (rule cb_resultI [OF eq])
    show "srv_inv env (remove1 a xs) ?s"
      using assms(2) h(2) s' ud inv(2,3) by (auto simp: srv_inv_def)
    show "session_up ?s = session_up s" using s' by simp
    assume "fd_inv xs s" "idle (set [] \<union> E) s"
    then show "fd_inv (remove1 a xs) ?s \<and> idle E ?s"
      using s'(5,8) by (auto simp: fd_inv_def idle_def split: if_splits)
  qed
qed

lemma file_read_returns:
  assumes "env_laws env"
  shows "\<exists>r bs eof w'. file_read_callback env fd n w = Some (r, bs, eof, w') \<and>
    get_stream_user_data env w' = get_stream_user_data env w"
proof -
  note law = env_lawsD [OF assms]
  have "fst (sys_read env ((read_on env fd n ^^ k) w) fd n) \<noteq> Read_error True \<Longrightarrow>
      \<exists>r bs eof w'. file_read_callback env fd n w = Some (r, bs, eof, w') \<and>
        get_stream_user_data env w' = get_stream_user_data env w" for k
  proof (induction k arbitrary: w)
    case 0
    obtain rr w' where r: "sys_read env w fd n = (rr, w')" by (cases "sys_read env w fd n")
    with 0 law(11) [OF r] show ?case by (cases rr) (auto simp: file_read_callback.simps)
  next
    case (Suc k)
    obtain rr w' where r: "sys_read env w fd n = (rr, w')" by (cases "sys_read env w fd n")
    then have w': "read_on env fd n w = w'" by (simp add: read_on_def)
    have "fst (sys_read env ((read_on env fd n ^^ k) w') fd n) \<noteq> Read_error True"
      using Suc.prems w' by (simp add: funpow_swap1)
    from Suc.IH [OF this] law(11) [OF r] r show ?case
      by (cases rr) (auto simp: file_read_callback.simps [of env fd n w])
  qed
  then show ?thesis using law(12) by blast
qed

lemma world_cb:
  assumes "srv_inv env xs s" "get_stream_user_data env w = get_stream_user_data env (world s)"
  shows "cb_result env xs [] E s (Some (rv, s\<lparr>world := w\<rparr>))"
proof (rule cb_resultI [OF refl])
  show "srv_inv env xs (s\<lparr>world := w\<rparr>)"
    by (rule srv_inv_step [OF assms(1)]) (use srv_invD [OF assms(1)] assms(2) in auto)
qed (auto simp: fd_inv_def idle_def)

lemma send_cb:
  assumes "srv_inv env xs s"
  shows "cb_result env xs [] E s (Some (0, snd (send_callback bs s)))"
proof (rule cb_resultI [OF refl])
  show "srv_inv env xs (snd (send_callback bs s))"
    by (rule srv_inv_step [OF assms(1)]) (use srv_invD [OF assms(1)] in \<open>auto simp: send_callback_def\<close>)
qed (auto simp: fd_inv_def idle_def send_callback_def)

lemma run_callback_cb:
  assumes "env_laws env" "srv_inv env xs s" "callback_ok cb"
  shows "cb_result env xs (ended cb) E s (run_callback env cb s)"
proof (cases cb)
  case (Cb_begin_headers frame)
  with on_begin_headers_cb [OF assms(1,2)] show ?thesis by (simp add: run_callback_def ended_def)
next
  case (Cb_header frame name val valuelen)
  with on_header_cb [OF assms(1,2)] assms(3) show ?thesis by (simp add: run_callback_def ended_def callback_ok_def)
next
  case (Cb_frame_recv frame)
  with on_frame_recv_cb [OF assms(1,2)] show ?thesis by (simp add: run_callback_def)
next
  case (Cb_stream_close i)
  with on_stream_close_cb [OF assms(1,2)] show ?thesis by (simp add: ended_def)
next
  case (Cb_send bs)
  with send_cb [OF assms(2)] show ?thesis by (simp add: run_callback_def ended_def)
next
  case (Cb_file_read fd n)
  obtain r bs eof w' where "file_read_callback env fd n (world s) = Some (r, bs, eof, w')"
    "get_stream_user_data env w' = get_stream_user_data env (world s)"
    using file_read_returns [OF assms(1)] by blast
  with Cb_file_read world_cb [OF assms(2)] show ?thesis by (simp add: run_callback_def ended_def)
qed

abbreviation ends_of :: "callback list \<Rightarrow> int list" where
  "ends_of cbs \<equiv> concat (map ended cbs)"

lemma run_callbacks_cb:
  assumes "env_laws env"
  shows "srv_inv env xs s \<Longrightarrow> \<forall>cb \<in> set cbs. callback_ok cb \<Longrightarrow>
    cb_result env xs (ends_of cbs) E s (run_callbacks env cbs s)"
proof (induction cbs arbitrary: xs s)
  case Nil
  then show ?case by (simp add: cb_skip)
next
  case (Cons cb cbs)
  have "callback_ok cb" using Cons.prems by simp
  from run_callback_cb [OF assms Cons.prems(1) this, of "set (ends_of cbs) \<union> E"] obtain rv s1 xs1 where
    1: "run_callback env cb s = Some (rv, s1)" "srv_inv env xs1 s1" "session_up s1 = session_up s"
    and fd: "fd_laws env \<and> fd_inv xs s \<and> idle (set (ended cb) \<union> (set (ends_of cbs) \<union> E)) s \<and>
      set (ended cb) \<inter> (set (ends_of cbs) \<union> E) = {} \<and> distinct (ended cb) \<longrightarrow> fd_inv xs1 s1 \<and> idle (set (ends_of cbs) \<union> E) s1"
    unfolding cb_result_def by blast
  have E: "idle (set (ends_of cbs) \<union> E) s1 \<Longrightarrow> idle E s1" by (auto simp: idle_def)
  show ?case
  proof (cases "rv = 0")
    case False
    with 1 have "run_callbacks env (cb # cbs) s = Some (rv, s1)" by simp
    then show ?thesis by (rule cb_resultI [OF _ 1(2,3)]) (use fd E in \<open>auto simp: Un_assoc\<close>)
  next
    case True
    have "cb_result env xs1 (ends_of cbs) E s1 (run_callbacks env cbs s1)"
      by (rule Cons.IH [OF 1(2)]) (use Cons.prems(2) in auto)
    then obtain rv' s2 xs2 where
      2: "run_callbacks env cbs s1 = Some (rv', s2)" "srv_inv env xs2 s2" "session_up s2 = session_up s1"
      and fd2: "fd_laws env \<and> fd_inv xs1 s1 \<and> idle (set (ends_of cbs) \<union> E) s1 \<and> set (ends_of cbs) \<inter> E = {} \<and> distinct (ends_of cbs) \<longrightarrow>
        fd_inv xs2 s2 \<and> idle E s2"
      unfolding cb_result_def by blast
    from True 1 2 have "run_callbacks env (cb # cbs) s = Some (rv', s2)" by simp
    then show ?thesis
      by (rule cb_resultI) (use 1(3) 2(2,3) fd fd2 in \<open>auto simp: Un_assoc\<close>)
  qed
qed


section \<open>Sessions\<close>

text \<open>\<open>acc\<close> says whether descriptors are accounted for.\<close>

definition good :: "bool \<Rightarrow> 'w http_env \<Rightarrow> int set \<Rightarrow> 'w http2_session_data \<Rightarrow> bool" where
  "good acc env E s \<longleftrightarrow> (\<exists>xs. srv_inv env xs s \<and> (acc \<longrightarrow> fd_inv xs s \<and> idle E s))"

definition freed :: "bool \<Rightarrow> 'w http2_session_data \<Rightarrow> bool" where
  "freed acc s \<longleftrightarrow> streams s = Map.empty \<and> opens_safe (calls s) \<and> (acc \<longrightarrow> fd_inv [] s)"

primrec good_outcome :: "bool \<Rightarrow> 'w http_env \<Rightarrow> int set \<Rightarrow> 'w outcome \<Rightarrow> bool" where
  "good_outcome acc env E (Live s) = good acc env E s"
| "good_outcome acc env E (Gone s) = freed acc s"

definition acc_ok :: "bool \<Rightarrow> 'w http_env \<Rightarrow> int list \<Rightarrow> int set \<Rightarrow> bool" where
  "acc_ok acc env now E \<longleftrightarrow> acc \<longrightarrow> fd_laws env \<and> distinct now \<and> set now \<inter> E = {}"

lemma run_callbacks_good:
  assumes "env_laws env" "good acc env (set (ends_of cbs) \<union> E) s" "\<forall>cb \<in> set cbs. callback_ok cb"
    and "acc_ok acc env (ends_of cbs) E"
  shows "\<exists>rv s'. run_callbacks env cbs s = Some (rv, s') \<and> good acc env E s' \<and> session_up s' = session_up s"
proof -
  obtain xs where xs: "srv_inv env xs s" "acc \<longrightarrow> fd_inv xs s \<and> idle (set (ends_of cbs) \<union> E) s"
    using assms(2) by (auto simp: good_def)
  from run_callbacks_cb [OF assms(1) xs(1) assms(3), of E] xs(2) assms(4) show ?thesis
    unfolding cb_result_def good_def acc_ok_def by blast
qed

lemma free_streams_ok:
  assumes "env_laws env"
  shows "nseg (links s) p xs \<Longrightarrow> distinct xs \<Longrightarrow> dom (streams s) = set xs \<Longrightarrow> opens_safe (calls s) \<Longrightarrow>
    \<exists>s'. free_streams env (lnext (links s) p) s = Some s' \<and> streams s' = Map.empty \<and> opens_safe (calls s') \<and>
      (fd_inv xs s \<longrightarrow> fd_inv [] s')"
proof (induction xs arbitrary: p s)
  case Nil
  then show ?case by simp
next
  case (Cons x xs)
  obtain d where d: "streams s x = Some d" using Cons.prems(3) by (metis domD list.set_intros(1))
  obtain s1 where s1: "delete_http2_stream_data env x s = Some s1" "links s1 = links s" "streams s1 = (streams s)(x := None)"
    "opens_safe (calls s1)" "fd_inv (x # xs) s \<Longrightarrow> fd_inv xs s1"
    using delete_stream_facts [OF d _ Cons.prems(2) assms] Cons.prems(4) by (metis list.set_intros(1) remove1.simps(2))
  have "nseg (links s1) x xs" "distinct xs" "dom (streams s1) = set xs" using s1(2,3) Cons.prems by auto
  from Cons.IH [OF this s1(4)] obtain s' where "free_streams env (lnext (links s) x) s1 = Some s'"
    "streams s' = Map.empty" "opens_safe (calls s')" "fd_inv xs s1 \<longrightarrow> fd_inv [] s'" using s1(2) by auto
  with s1 Cons.prems(1) show ?case by simp
qed

lemma delete_session_ok:
  assumes "env_laws env" "good acc env E s"
  shows "\<exists>r. delete_http2_session_data env s = Some r \<and> good_outcome acc env E' r"
proof -
  obtain xs where xs: "srv_inv env xs s" "acc \<longrightarrow> fd_inv xs s" using assms(2) by (auto simp: good_def)
  note inv = srv_invD [OF xs(1)]
  have "nseg (links s) root_addr xs" using inv(1) by (simp add: slist_def)
  from free_streams_ok [OF assms(1) this inv(3,2,6)] xs(2) show ?thesis
    by (auto simp: delete_http2_session_data_def freed_def fd_inv_def)
qed

lemma keep_or_delete_ok:
  assumes "env_laws env" "good acc env E s"
  shows "\<exists>r. keep_or_delete env (rv, s) = Some r \<and> good_outcome acc env E r"
  using delete_session_ok [OF assms] assms(2) by (auto simp: keep_or_delete_def)

lemma good_mono: "good acc env E s \<Longrightarrow> E' \<subseteq> E \<Longrightarrow> good acc env E' s"
  by (fastforce simp: good_def idle_def)

lemma session_send_good:
  assumes "env_laws env" "good acc env (set (ends_of (lib_callbacks r)) \<union> E) s" "\<forall>cb \<in> set (lib_callbacks r). callback_ok cb"
    and "acc_ok acc env (ends_of (lib_callbacks r)) E" "session_up s"
  shows "\<exists>rv s'. session_send env r s = Some (rv, s') \<and> good acc env E s'"
proof -
  obtain rv s' where "run_callbacks env (lib_callbacks r) s = Some (rv, s')" "good acc env E s'"
    using run_callbacks_good [OF assms(1-4)] by blast
  with assms(5) show ?thesis by (simp add: session_send_def)
qed

lemma session_recv_good:
  assumes "env_laws env" "session_up s"
    and "good acc env (set (ends_of (lib_callbacks r @ lib_callbacks r')) \<union> E) s"
    and "\<forall>cb \<in> set (lib_callbacks r @ lib_callbacks r'). callback_ok cb"
    and "acc_ok acc env (ends_of (lib_callbacks r @ lib_callbacks r')) E"
  shows "\<exists>rv s'. session_recv env r drain_ok r' s = Some (rv, s') \<and> good acc env E s'"
proof -
  let ?E = "set (ends_of (lib_callbacks r')) \<union> E"
  obtain rv s1 where 1: "run_callbacks env (lib_callbacks r) s = Some (rv, s1)" "good acc env ?E s1" "session_up s1"
  proof -
    have "set (ends_of (lib_callbacks r @ lib_callbacks r')) \<union> E = set (ends_of (lib_callbacks r)) \<union> ?E" by auto
    moreover have "acc_ok acc env (ends_of (lib_callbacks r)) ?E" using assms(5) unfolding acc_ok_def by fastforce
    ultimately show thesis using run_callbacks_good [of env acc "lib_callbacks r" ?E s] assms that by auto
  qed
  have "good acc env E s1" by (rule good_mono [OF 1(2)]) simp
  moreover have "\<exists>rv s'. session_send env r' s1 = Some (rv, s') \<and> good acc env E s'"
    by (rule session_send_good [OF assms(1) 1(2)]) (use assms(4,5) 1(3) in \<open>auto simp: acc_ok_def\<close>)
  ultimately show ?thesis using 1(1) assms(2) by (auto simp: session_recv_def)
qed


lemma good_upd:
  assumes "good acc env E s" "links s' = links s" "streams s' = streams s" "next_addr s' = next_addr s" "calls s' = calls s"
    and "get_stream_user_data env (world s') = get_stream_user_data env (world s)"
  shows "good acc env E s'"
  using assms by (simp add: good_def srv_inv_def fd_inv_def idle_def)

lemma handle_event_good:
  assumes "env_laws env" "good acc env (set (ends_of (event_callbacks e)) \<union> E) s"
    and "\<forall>cb \<in> set (event_callbacks e). callback_ok cb" "acc_ok acc env (ends_of (event_callbacks e)) E"
  shows "\<exists>r. handle_event env e s = Some r \<and> good_outcome acc env E r"
proof -
  have E: "good acc env E s" by (rule good_mono [OF assms(2)]) simp
  note keep = keep_or_delete_ok [OF assms(1)] and del = delete_session_ok [OF assms(1)]
  show ?thesis
  proof (cases e)
    case (Ev_read r b r')
    show ?thesis
    proof (cases "session_up s")
      case True
      obtain rv s' where "session_recv env r b r' s = Some (rv, s')" "good acc env E s'"
        using session_recv_good [OF assms(1) True, of acc r r' E b] assms(2-4) Ev_read by auto
      with Ev_read True keep [of acc E s' rv] show ?thesis by (simp add: handle_event_def readcb_def)
    qed (use Ev_read E in \<open>simp add: handle_event_def\<close>)
  next
    case (Ev_write wr ww r)
    consider "\<not> session_up s \<or> out_buf s \<noteq> []" | "session_up s" "out_buf s = []" by blast
    then show ?thesis
    proof cases
      case 1
      with Ev_write E show ?thesis by (auto simp: handle_event_def writecb_def)
    next
      case 2
      obtain rv s' where "session_send env r s = Some (rv, s')" "good acc env E s'"
        using session_send_good [OF assms(1), of acc r E s] assms(2-4) Ev_write 2 by auto
      with Ev_write 2 keep [of acc E s' rv] del [OF E] show ?thesis by (auto simp: handle_event_def writecb_def)
    qed
  next
    case (Ev_event connected alpn r)
    obtain rv s1 where h: "send_server_connection_header env (s\<lparr>session_up := True\<rparr>) = (rv, s1)"
      by (cases "send_server_connection_header env (s\<lparr>session_up := True\<rparr>)")
    obtain w where w: "s1 = s\<lparr>session_up := True, world := w\<rparr>" "get_stream_user_data env w = get_stream_user_data env (world s)"
      using h env_lawsD(5) [OF assms(1)] by (auto simp: send_server_connection_header_def Let_def split: prod.splits)
    have g: "good acc env (set (ends_of (event_callbacks e)) \<union> E) s1" "good acc env E s1"
      using good_upd [OF assms(2), of s1] good_upd [OF E, of s1] w by auto
    obtain rv' s2 where "session_send env r s1 = Some (rv', s2)" "good acc env E s2"
      using session_send_good [OF assms(1), of acc r E s1] g(1) assms(3,4) Ev_event w(1) by auto
    with Ev_event h keep [of acc E s2 rv'] del [OF g(2)] del [OF E] E show ?thesis
      by (auto simp: handle_event_def eventcb_def)
  next
    case (Ev_flush n)
    with good_upd [OF E, of "s\<lparr>out_buf := drop n (out_buf s)\<rparr>"] show ?thesis by (simp add: handle_event_def)
  qed
qed

abbreviation callbacks_of :: "event list \<Rightarrow> callback list" where
  "callbacks_of es \<equiv> concat (map event_callbacks es)"

lemma run_events_good:
  assumes "env_laws env"
  shows "good acc env (set (ends_of (callbacks_of es))) s \<Longrightarrow> \<forall>cb \<in> set (callbacks_of es). callback_ok cb \<Longrightarrow>
    acc_ok acc env (ends_of (callbacks_of es)) {} \<Longrightarrow> \<exists>r. run_events env es s = Some r \<and> good_outcome acc env {} r"
proof (induction es arbitrary: s)
  case (Cons e es)
  let ?E = "set (ends_of (callbacks_of es))"
  have "\<exists>r. handle_event env e s = Some r \<and> good_outcome acc env ?E r"
    by (rule handle_event_good [OF assms]) (use Cons.prems in \<open>auto simp: acc_ok_def\<close>)
  then obtain r where r: "handle_event env e s = Some r" "good_outcome acc env ?E r" by blast
  show ?case
  proof (cases r)
    case (Live s')
    have "\<exists>r. run_events env es s' = Some r \<and> good_outcome acc env {} r"
      by (rule Cons.IH) (use r Live Cons.prems in \<open>auto simp: acc_ok_def\<close>)
    with r Live show ?thesis by simp
  next
    case (Gone s')
    with r show ?thesis by simp
  qed
qed simp

lemma create_session_good:
  "\<forall>i. get_stream_user_data env w i = None \<Longrightarrow> good acc env E (create_http2_session_data w)"
  by (auto simp: good_def srv_inv_def create_http2_session_data_def slist_def ud_ok_def opens_safe_def fd_inv_def held_def
      idle_def intro!: exI [of _ "[]"])

primrec final :: "'w outcome \<Rightarrow> 'w http2_session_data" where
  "final (Live s) = s"
| "final (Gone s) = s"

section \<open>Which file answers a request\<close>

text \<open>The name and the descriptor of the file that a stream asks for, if there is one.\<close>

definition file_for :: "'w http_env \<Rightarrow> 'w \<Rightarrow> http2_stream_data \<Rightarrow> (u8 list \<times> int) option" where
  "file_for env w d =
    (case request_path d of
       None \<Rightarrow> None
     | Some mem \<Rightarrow>
         (let name = skip_slashes (c_str mem); fd = fst (sys_open env w name)
          in if check_path (c_str mem) \<and> fd \<noteq> -1 then Some (name, fd) else None))"

definition pipes_work :: "'w http_env \<Rightarrow> bool" where
  "pipes_work env \<longleftrightarrow> (\<forall>w. fst (sys_pipe env w) \<noteq> None) \<and> (\<forall>w fd bs. fst (sys_write env w fd bs) = int (length bs))"

lemma reply_404_answers:
  assumes "pipes_work env" "fd_laws env" "streams s a = Some d"
  shows "\<exists>s' rd wr. reply_404 env a s = Some (0, s') \<and>
    calls s' = calls s @ [Sys_pipe rd wr, Sys_close wr, Submit_response (stream_id d) (bytes ''404'') rd]"
proof -
  obtain rd wr w where p: "sys_pipe env (world s) = (Some (rd, wr), w)"
    using assms(1) unfolding pipes_work_def by (metis not_None_eq prod.collapse)
  obtain w' where w: "sys_write env w wr ERROR_HTML = (int (length ERROR_HTML), w')"
    using assms(1) by (cases "sys_write env w wr ERROR_HTML") (metis fst_conv pipes_work_def)
  have r: "fst (submit_response env w'' i st fd) = 0" for w'' i st fd using assms(2) by (simp add: fd_laws_def)
  show ?thesis using assms(3) p w r
    by (auto simp: reply_404_def error_reply_def send_response_def case_prod_unfold Let_def)
qed

section \<open>A concrete environment\<close>

definition test_env :: "(int \<Rightarrow> nat option) http_env" where
  "test_env =
    \<lparr>get_stream_user_data = (\<lambda>w. w), set_stream_user_data = (\<lambda>w i a. w(i \<mapsto> a)), forget_stream = (\<lambda>w i. w(i := None)),
     submit_response = (\<lambda>w i st fd. (0, w)), submit_rst_stream = (\<lambda>w i. (0, w)), submit_settings = (\<lambda>w. (0, w)),
     sys_malloc = (\<lambda>w. (True, w)), sys_open = (\<lambda>w p. (if p = bytes ''a'' then 5 else -1, w)),
     sys_pipe = (\<lambda>w. (Some (6, 7), w)), sys_write = (\<lambda>w fd bs. (int (length bs), w)), sys_close = (\<lambda>w fd. w),
     sys_read = (\<lambda>w fd n. (Read_data [], w))\<rparr>"

lemma test_env_laws: "env_laws test_env" "fd_laws test_env"
  by (auto simp: env_laws_def fd_laws_def test_env_def)

text \<open>A client that asks for \<open>/a\<close> on stream 1 and then disconnects.\<close>

definition test_events :: "event list" where
  "test_events =
    (let f = \<lparr>hd_type = NGHTTP2_HEADERS, headers_cat = NGHTTP2_HCAT_REQUEST, hd_stream_id = 1, hd_end_stream = True\<rparr>;
         quiet = \<lparr>lib_callbacks = [], lib_fatal = False\<rparr>
     in [Ev_event True (Some (bytes ''h2'')) quiet,
         Ev_read \<lparr>lib_callbacks =
           [Cb_begin_headers f, Cb_header f (bytes '':path'') (bytes ''/a'' @ [0, 0]) 2, Cb_frame_recv f],
           lib_fatal = False\<rparr> True \<lparr>lib_callbacks = [Cb_file_read 5 100, Cb_send [1, 2]], lib_fatal = False\<rparr>,
         Ev_event False None quiet])"

primrec is_gone :: "'w outcome \<Rightarrow> bool" where
  "is_gone (Live s) = False"
| "is_gone (Gone s) = True"

lemmas session_defs = handle_event_def eventcb_def readcb_def keep_or_delete_def session_recv_def session_send_def
  send_server_connection_header_def delete_http2_session_data_def delete_http2_stream_data_def create_http2_session_data_def
  run_callback_def on_begin_headers_callback_def on_header_callback_def on_frame_recv_callback_def on_request_recv_def
  send_callback_def send_response_def create_http2_stream_data_def set_fd_def close_fd_def

lemma test_run:
  obtains s where "run_events test_env test_events (create_http2_session_data Map.empty) = Some (Gone s)"
    "calls s = [Sys_open (bytes ''a'') 5, Submit_response 1 (bytes ''200'') 5, Sys_close 5]"
proof -
  have p: "percent_decode (bytes ''/a'' @ [0, 0]) (Suc (Suc 0)) = Some (bytes ''/a'' @ [0])" "c_str (bytes ''/a'' @ [0]) = bytes ''/a''"
    "check_path (bytes ''/a'')" "skip_slashes (bytes ''/a'') = bytes ''a''"
    by (simp_all add: percent_decode_def c_str_def check_path_def ends_with_def)
  have r: "file_read_callback test_env fd n w = Some (0, [], True, w)" for fd n w
    by (simp add: file_read_callback.simps test_env_def)
  have "map_option (\<lambda>r. (is_gone r, calls (final r))) (run_events test_env test_events (create_http2_session_data Map.empty)) =
      Some (True, [Sys_open (bytes ''a'') 5, Submit_response 1 (bytes ''200'') 5, Sys_close 5])"
    using p r by (simp add: test_events_def session_defs Let_def test_env_def add_stream_def set_next_def set_prev_def
      OUTPUT_WOULDBLOCK_THRESHOLD_def del: bind_Some_iff)
  then obtain r where r: "run_events test_env test_events (create_http2_session_data Map.empty) = Some r" "is_gone r"
    "calls (final r) = [Sys_open (bytes ''a'') 5, Submit_response 1 (bytes ''200'') 5, Sys_close 5]" by auto
  then show thesis by (cases r) (auto intro: that)
qed

lemma test_events_ok:
  "\<forall>cb \<in> set (callbacks_of test_events). callback_ok cb" "distinct (ends_of (callbacks_of test_events))"
  "\<forall>i. get_stream_user_data test_env Map.empty i = None"
  by (simp_all add: test_events_def Let_def callback_ok_def ended_def test_env_def)

section \<open>Properties\<close>



text \<open>
  C14. Every name the server ever opens on behalf of a client is a relative one that, resolved from the directory the server
  runs in, stays in that directory at every step, whatever paths (encoded or not) the clients send.
\<close>

theorem http2_server_opens_confined:
  assumes "env_laws env" "\<forall>i. get_stream_user_data env w i = None" "\<forall>cb \<in> set (callbacks_of es). callback_ok cb"
    and "run_events env es (create_http2_session_data w) = Some r" "Sys_open name fd \<in> set (calls (final r))"
  shows "take 1 name \<noteq> bytes ''/'' \<and> (\<forall>d \<in> set (resolve dir (components name)). prefix dir d)"
proof -
  have "good_outcome False env {} r"
    using run_events_good [OF assms(1) create_session_good [OF assms(2)] assms(3), of False] assms(4) by (auto simp: acc_ok_def)
  then have "opens_safe (calls (final r))" by (cases r) (auto simp: good_def freed_def srv_inv_def)
  with assms(5) have s: "safe_name name" by (auto simp: opens_safe_def)
  then have "take 1 name \<noteq> bytes ''/''" by (cases name) (auto simp: safe_name_def)
  with s show ?thesis by (auto simp: safe_name_def intro: resolve_below)
qed

theorem http2_server_opens_confined_witness:
  "\<exists>r. run_events test_env test_events (create_http2_session_data Map.empty) = Some r \<and>
    Sys_open (bytes ''a'') 5 \<in> set (calls (final r)) \<and>
    (\<forall>d \<in> set (resolve [bytes ''srv''] (components (bytes ''a''))). prefix [bytes ''srv''] d)"
proof -
  obtain s where s: "run_events test_env test_events (create_http2_session_data Map.empty) = Some (Gone s)"
    "Sys_open (bytes ''a'') 5 \<in> set (calls (final (Gone s)))" using test_run by (metis final.simps(2) list.set_intros(1))
  from http2_server_opens_confined [OF test_env_laws(1) test_events_ok(3,1) s, of "[bytes ''srv'']"] s show ?thesis by blast
qed

text \<open>
  C16. No descriptor leaks and none is closed twice, as long as the library accepts the responses and reports the end of
  each request once: when the session has been deleted, the descriptors closed are exactly those that were obtained from
  \<open>open\<close> and \<open>pipe\<close>, with multiplicity; before, the difference is what the streams hold.
\<close>

theorem http2_descriptors_accounted:
  assumes "env_laws env" "fd_laws env" "\<forall>i. get_stream_user_data env w i = None"
    and "\<forall>cb \<in> set (callbacks_of es). callback_ok cb" "distinct (ends_of (callbacks_of es))"
    and "run_events env es (create_http2_session_data w) = Some r"
  shows "case r of
      Live s \<Rightarrow> \<exists>xs. stream_list root_addr (links s) = Some xs \<and>
        mset (concat (map acquired (calls s))) = mset (concat (map closed (calls s))) + held xs (streams s)
    | Gone s \<Rightarrow> mset (concat (map acquired (calls s))) = mset (concat (map closed (calls s)))"
proof -
  have "good_outcome True env {} r"
    using run_events_good [OF assms(1) create_session_good [OF assms(3)] assms(4), of True] assms(2,5,6) by (auto simp: acc_ok_def)
  then show ?thesis
    using srv_invD(1) hs.walk by (cases r) (fastforce simp: good_def freed_def fd_inv_def held_def)+
qed

theorem http2_descriptors_accounted_witness:
  "\<exists>s. run_events test_env test_events (create_http2_session_data Map.empty) = Some (Gone s) \<and>
    mset (concat (map acquired (calls s))) = mset (concat (map closed (calls s))) \<and>
    mset (concat (map closed (calls s))) = {#5#}"
proof -
  obtain s where s: "run_events test_env test_events (create_http2_session_data Map.empty) = Some (Gone s)"
    "calls s = [Sys_open (bytes ''a'') 5, Submit_response 1 (bytes ''200'') 5, Sys_close 5]" by (rule test_run)
  have "mset (concat (map closed (calls s))) = {#5#}" unfolding s(2) by simp
  with s(1) http2_descriptors_accounted [OF test_env_laws test_events_ok(3,1,2) s(1)] show ?thesis by simp
qed



text \<open>
  When the library refuses the response, the descriptor of the file is closed at once but stays recorded in the stream,
  and deleting the stream closes it a second time.
\<close>

theorem http2_refused_response_closes_twice:
  assumes "streams s a = Some d" "request_path d = Some mem" "check_path (c_str mem)"
    and "sys_open env (world s) (skip_slashes (c_str mem)) = (fd, w1)" "fd \<noteq> -1"
    and "submit_response env w1 (stream_id d) (bytes ''200'') fd = (rv, w2)" "rv \<noteq> 0"
  shows "\<exists>s1 s2. on_request_recv env a s = Some (NGHTTP2_ERR_CALLBACK_FAILURE, s1) \<and>
    delete_http2_stream_data env a s1 = Some s2 \<and>
    calls s2 = calls s @ [Sys_open (skip_slashes (c_str mem)) fd, Submit_response (stream_id d) (bytes ''200'') fd,
      Sys_close fd, Sys_close fd]"
  using assms
  by (auto simp: on_request_recv_def send_response_def delete_http2_stream_data_def set_fd_def close_fd_def Let_def)

theorem http2_refused_response_closes_twice_witness:
  "\<exists>s1 s2. on_request_recv (test_env\<lparr>submit_response := (\<lambda>w i st fd. (-1, w))\<rparr>) 1
      ((create_http2_session_data Map.empty)\<lparr>streams := [1 \<mapsto> \<lparr>request_path = Some (bytes ''/a'' @ [0]), stream_id = 1, stream_fd = -1\<rparr>]\<rparr>) =
      Some (NGHTTP2_ERR_CALLBACK_FAILURE, s1) \<and>
    delete_http2_stream_data (test_env\<lparr>submit_response := (\<lambda>w i st fd. (-1, w))\<rparr>) 1 s1 = Some s2 \<and>
    filter (\<lambda>c. c = Sys_close 5) (calls s2) = [Sys_close 5, Sys_close 5]"
proof -
  let ?env = "test_env\<lparr>submit_response := (\<lambda>w i st fd. (-1, w))\<rparr>"
  let ?d = "\<lparr>request_path = Some (bytes ''/a'' @ [0]), stream_id = 1, stream_fd = -1\<rparr>"
  let ?s = "(create_http2_session_data Map.empty)\<lparr>streams := [1 \<mapsto> ?d]\<rparr>"
  have c: "c_str (bytes ''/a'' @ [0]) = bytes ''/a''" "check_path (bytes ''/a'')" "skip_slashes (bytes ''/a'') = bytes ''a''"
    by (simp_all add: c_str_def check_path_def ends_with_def)
  have "\<exists>s1 s2. on_request_recv ?env 1 ?s = Some (NGHTTP2_ERR_CALLBACK_FAILURE, s1) \<and>
      delete_http2_stream_data ?env 1 s1 = Some s2 \<and>
      calls s2 = calls ?s @ [Sys_open (bytes ''a'') 5, Submit_response 1 (bytes ''200'') 5, Sys_close 5, Sys_close 5]"
    using http2_refused_response_closes_twice [of ?s 1 ?d "bytes ''/a'' @ [0]" ?env 5 Map.empty "-1" Map.empty]
    unfolding c by (simp add: test_env_def create_http2_session_data_def c del: bytes_simps)
  then show ?thesis by (fastforce simp: create_http2_session_data_def)
qed

end
