(* ===== verification/Http2_Main.thy ===== *)
theory Http2_Main
  imports Http2_Client_Life Http2_Server
begin

text \<open>
  The start of the HTTP/2 file server and its sessions together, \<open>nghttp2_test/server/main.c\<close>: creating the TLS context, listening, accepting
  connections, and an event loop that delivers the events of all sessions in any order. The negotiation of the protocol \<open>h2\<close> is here for both ends.
  The results of library calls are arguments; \<open>nghttp2_select_next_protocol\<close> is a parameter with \<open>select_laws\<close>. A call of \<open>errx\<close> is \<open>Inl\<close>.

  The part of the world that a session sees (its session of nghttp2, the answers of the system to it) is in its own state.
\<close>

section \<open>Negotiation\<close>

definition NGHTTP2_PROTO_VERSION_ID :: "u8 list" where
  "NGHTTP2_PROTO_VERSION_ID = bytes ''h2''"

definition SSL_TLSEXT_ERR_OK :: int where "SSL_TLSEXT_ERR_OK = 0"
definition SSL_TLSEXT_ERR_NOACK :: int where "SSL_TLSEXT_ERR_NOACK = 3"

definition next_proto_list :: "u8 list" where
  "next_proto_list = of_nat (length NGHTTP2_PROTO_VERSION_ID) # NGHTTP2_PROTO_VERSION_ID"

definition next_proto_cb :: "int \<times> u8 list" where
  "next_proto_cb = (SSL_TLSEXT_ERR_OK, next_proto_list)"

definition alpn_select_proto_cb :: "(u8 list \<Rightarrow> int \<times> u8 list) \<Rightarrow> u8 list \<Rightarrow> int \<times> u8 list" where
  "alpn_select_proto_cb select inp =
    (case select inp of (rv, out) \<Rightarrow> if rv \<noteq> 1 then (SSL_TLSEXT_ERR_NOACK, out) else (SSL_TLSEXT_ERR_OK, out))"

text \<open>The client: its callback for the list of the server, and the list it sends itself.\<close>

definition select_next_proto_cb :: "(u8 list \<Rightarrow> int \<times> u8 list) \<Rightarrow> u8 list \<Rightarrow> int + (int \<times> u8 list)" where
  "select_next_proto_cb select inp = (case select inp of (rv, out) \<Rightarrow> if rv \<le> 0 then Inl 1 else Inr (SSL_TLSEXT_ERR_OK, out))"

definition client_alpn_protos :: "u8 list" where
  "client_alpn_protos = 2 # bytes ''h2''"

text \<open>A list of protocols on the wire: each name after its length. The function of nghttp2 returns 1 and \<open>h2\<close> when it is in the list.\<close>

function (sequential) protocols :: "u8 list \<Rightarrow> u8 list list" where
  "protocols [] = []"
| "protocols (n # bs) = take (unat n) bs # protocols (drop (unat n) bs)"
  by pat_completeness auto
termination by (relation "measure length") auto

definition select_laws :: "(u8 list \<Rightarrow> int \<times> u8 list) \<Rightarrow> bool" where
  "select_laws select \<longleftrightarrow> (\<forall>inp. if bytes ''h2'' \<in> set (protocols inp) then select inp = (1, bytes ''h2'') else fst (select inp) \<in> {0, -1})"

section \<open>Start\<close>

record start_env =
  openssl3 :: bool
  ctx_new :: bool
  set_curves :: int
  ec_key :: bool
  use_private_key :: "u8 list \<Rightarrow> int"
  use_certificate :: "u8 list \<Rightarrow> int"
  resolve_service :: "u8 list \<Rightarrow> int \<times> bool list"

record server_ctx =
  ctx_key :: "u8 list"
  ctx_cert :: "u8 list"
  ctx_protos :: "u8 list"

definition create_ssl_ctx :: "start_env \<Rightarrow> u8 list \<Rightarrow> u8 list \<Rightarrow> string + server_ctx" where
  "create_ssl_ctx e key_file cert_file =
    (if \<not> ctx_new e then Inl ''Could not create SSL/TLS context''
     else if openssl3 e \<and> set_curves e \<noteq> 1 then Inl ''SSL_CTX_set1_curves_list failed''
     else if \<not> openssl3 e \<and> \<not> ec_key e then Inl ''EC_KEY_new_by_curv_name failed''
     else if use_private_key e key_file \<noteq> 1 then Inl ''Could not read private key file''
     else if use_certificate e cert_file \<noteq> 1 then Inl ''Could not read certificate file''
     else Inr \<lparr>ctx_key = key_file, ctx_cert = cert_file, ctx_protos = next_proto_list\<rparr>)"

text \<open>The addresses are tried in order until a listener can be bound; the result is the position of that address.\<close>

fun bind_first :: "bool list \<Rightarrow> nat \<Rightarrow> nat option" where
  "bind_first [] i = None"
| "bind_first (ok # oks) i = (if ok then Some i else bind_first oks (i + 1))"

definition start_listen :: "start_env \<Rightarrow> u8 list \<Rightarrow> string + nat" where
  "start_listen e service =
    (case resolve_service e service of (rv, oks) \<Rightarrow>
       if rv \<noteq> 0 then Inl ''Could not resolve server address''
       else (case bind_first oks 0 of Some i \<Rightarrow> Inr i | None \<Rightarrow> Inl ''Could not start listener''))"

section \<open>The sessions of the server\<close>

type_synonym 'w sessions = "(u8 list \<times> 'w outcome) list"

text \<open>\<open>Accept\<close> has the results of \<open>SSL_new\<close> and \<open>getnameinfo\<close>; the other events are those of one session.\<close>

datatype 'w app_event = Accept bool "u8 list option" 'w | Session nat event

definition client_addr :: "u8 list option \<Rightarrow> u8 list" where
  "client_addr host = (case host of None \<Rightarrow> bytes ''(unknown)'' | Some h \<Rightarrow> h)"

definition acceptcb :: "bool \<Rightarrow> u8 list option \<Rightarrow> 'w \<Rightarrow> 'w sessions \<Rightarrow> string + 'w sessions" where
  "acceptcb ssl_ok host w ss =
    (if \<not> ssl_ok then Inl ''Could not create SSL/TLS session object''
     else Inr (ss @ [(client_addr host, Live (Http2_Server.create_http2_session_data w))]))"

text \<open>An event reaches a session only while it exists: afterwards its bufferevent is gone.\<close>

definition session_event :: "'w http_env \<Rightarrow> nat \<Rightarrow> event \<Rightarrow> 'w sessions \<Rightarrow> 'w sessions option" where
  "session_event env i ev ss =
    (if i < length ss then
       (case ss ! i of
          (a, Live s) \<Rightarrow> map_option (\<lambda>r. ss[i := (a, r)]) (handle_event env ev s)
        | (a, Gone s) \<Rightarrow> Some ss)
     else Some ss)"

fun app_loop :: "'w http_env \<Rightarrow> 'w app_event list \<Rightarrow> 'w sessions \<Rightarrow> (string + 'w sessions) option" where
  "app_loop env [] ss = Some (Inr ss)"
| "app_loop env (Accept ssl_ok host w # es) ss =
    (case acceptcb ssl_ok host w ss of Inl x \<Rightarrow> Some (Inl x) | Inr ss1 \<Rightarrow> app_loop env es ss1)"
| "app_loop env (Session i ev # es) ss =
    (case session_event env i ev ss of None \<Rightarrow> None | Some ss1 \<Rightarrow> app_loop env es ss1)"

definition server_run :: "start_env \<Rightarrow> 'w http_env \<Rightarrow> 'w app_event list \<Rightarrow> u8 list \<Rightarrow> u8 list \<Rightarrow> u8 list \<Rightarrow> (string + 'w sessions) option" where
  "server_run e env evs service key_file cert_file =
    (case create_ssl_ctx e key_file cert_file of Inl x \<Rightarrow> Some (Inl x)
     | Inr ctx \<Rightarrow> (case start_listen e service of Inl x \<Rightarrow> Some (Inl x) | Inr i \<Rightarrow> app_loop env evs []))"

definition server_main :: "start_env \<Rightarrow> 'w http_env \<Rightarrow> 'w app_event list \<Rightarrow> u8 list list \<Rightarrow> (string + 'w sessions) option" where
  "server_main e env evs argv =
    (if length argv < 4 then Some (Inl ''Usage: libevent-server PORT KEY_FILE CERT_FILE'')
     else server_run e env evs (argv ! 1) (argv ! 2) (argv ! 3))"

section \<open>Sessions do not disturb each other\<close>

text \<open>The worlds with which sessions are created, and the events that reach session \<open>i\<close> when \<open>n\<close> sessions have been created before.\<close>

fun accepted :: "'w app_event list \<Rightarrow> (u8 list \<times> 'w outcome) list" where
  "accepted [] = []"
| "accepted (Accept _ host w # es) = (client_addr host, Live (Http2_Server.create_http2_session_data w)) # accepted es"
| "accepted (Session _ _ # es) = accepted es"

fun project :: "nat \<Rightarrow> nat \<Rightarrow> 'w app_event list \<Rightarrow> event list" where
  "project i n [] = []"
| "project i n (Accept _ _ _ # es) = project i (n + 1) es"
| "project i n (Session j ev # es) = (if j = i \<and> i < n then ev # project i n es else project i n es)"

fun run_from :: "'w http_env \<Rightarrow> event list \<Rightarrow> 'w outcome \<Rightarrow> 'w outcome option" where
  "run_from env es (Live s) = run_events env es s"
| "run_from env es (Gone s) = Some (Gone s)"

definition alone :: "'w http_env \<Rightarrow> 'w app_event list \<Rightarrow> 'w sessions \<Rightarrow> 'w sessions \<Rightarrow> bool" where
  "alone env es ss ss' \<longleftrightarrow> length ss' = length (ss @ accepted es) \<and>
    (\<forall>i < length ss'. fst (ss' ! i) = fst ((ss @ accepted es) ! i) \<and>
       run_from env (project i (length ss) es) (snd ((ss @ accepted es) ! i)) = Some (snd (ss' ! i)))"

lemma run_from_Nil: "run_from env [] r = Some r"
  by (cases r) auto

lemma session_event_alone:
  assumes "session_event env j ev ss = Some ss1"
  shows "length ss1 = length ss" "i < length ss \<Longrightarrow> fst (ss1 ! i) = fst (ss ! i)"
    "i < length ss \<Longrightarrow> run_from env (if j = i then ev # es else es) (snd (ss ! i)) = run_from env es (snd (ss1 ! i))"
  using assms by (auto simp: session_event_def nth_list_update split: if_splits prod.splits outcome.splits)

lemma app_loop_alone: "app_loop env es ss = Some (Inr ss') \<Longrightarrow> alone env es ss ss'"
proof (induction env es ss rule: app_loop.induct)
  case (1 env ss)
  then show ?case by (simp add: alone_def run_from_Nil)
next
  case (2 env ssl_ok host w es ss)
  then have "alone env es (ss @ [(client_addr host, Live (Http2_Server.create_http2_session_data w))]) ss'"
    by (auto simp: acceptcb_def split: if_splits)
  then show ?case by (simp add: alone_def)
next
  case (3 env j ev es ss)
  then obtain ss1 where s: "session_event env j ev ss = Some ss1" and a: "alone env es ss1 ss'" by (auto split: option.splits)
  note e = session_event_alone [OF s]
  show ?case unfolding alone_def
  proof (intro conjI allI impI)
    show len: "length ss' = length (ss @ accepted (Session j ev # es))" using a e(1) by (simp add: alone_def)
    fix i assume i: "i < length ss'"
    from a i have b: "fst (ss' ! i) = fst ((ss1 @ accepted es) ! i)"
      "run_from env (project i (length ss1) es) (snd ((ss1 @ accepted es) ! i)) = Some (snd (ss' ! i))" by (simp_all add: alone_def)
    show "fst (ss' ! i) = fst ((ss @ accepted (Session j ev # es)) ! i)"
      using b(1) e(1) e(2) [of i] by (cases "i < length ss") (auto simp: nth_append)
    show "run_from env (project i (length ss) (Session j ev # es)) (snd ((ss @ accepted (Session j ev # es)) ! i)) = Some (snd (ss' ! i))"
      using b(2) e(1) e(3) [of i "project i (length ss) es"] by (cases "i < length ss") (auto simp: nth_append)
  qed
qed

lemma session_event_good:
  assumes "env_laws env" "list_all (\<lambda>x. good_outcome False env {} (snd x)) ss" "\<forall>cb \<in> set (event_callbacks ev). callback_ok cb"
  shows "\<exists>ss1. session_event env i ev ss = Some ss1 \<and> list_all (\<lambda>x. good_outcome False env {} (snd x)) ss1"
proof (cases "\<exists>a s. i < length ss \<and> ss ! i = (a, Live s)")
  case True
  then obtain a s where i: "i < length ss" "ss ! i = (a, Live s)" by blast
  then have "good_outcome False env {} (Live s)" using assms(2) by (metis list_all_length snd_conv)
  then have "good False env (set (ends_of (event_callbacks ev)) \<union> {}) s" by (simp add: good_def)
  from handle_event_good [OF assms(1) this assms(3)] obtain r where "handle_event env ev s = Some r" "good_outcome False env {} r" by (auto simp: acc_ok_def)
  with i assms(2) show ?thesis by (auto simp: session_event_def list_all_length nth_list_update)
next
  case False
  then show ?thesis using assms(2) by (auto simp: session_event_def split: prod.splits outcome.splits)
qed

fun app_event_ok :: "'w http_env \<Rightarrow> 'w app_event \<Rightarrow> bool" where
  "app_event_ok env (Accept _ _ w) = (\<forall>i. get_stream_user_data env w i = None)"
| "app_event_ok env (Session _ ev) = (\<forall>cb \<in> set (event_callbacks ev). callback_ok cb)"

lemma app_loop_good:
  assumes "env_laws env"
  shows "\<forall>e \<in> set es. app_event_ok env e \<Longrightarrow> list_all (\<lambda>x. good_outcome False env {} (snd x)) ss \<Longrightarrow>
    \<exists>r. app_loop env es ss = Some r \<and> (\<forall>ss'. r = Inr ss' \<longrightarrow> list_all (\<lambda>x. good_outcome False env {} (snd x)) ss')"
proof (induction es arbitrary: ss)
  case (Cons e es)
  show ?case
  proof (cases e)
    case (Accept ssl_ok host w)
    have "good False env {} (Http2_Server.create_http2_session_data w)" using Cons.prems(1) Accept by (intro create_session_good) simp
    with Cons.prems Cons.IH [of "ss @ [(client_addr host, Live (Http2_Server.create_http2_session_data w))]"] Accept show ?thesis
      by (auto simp: acceptcb_def)
  next
    case (Session i ev)
    with session_event_good [OF assms Cons.prems(2), of ev i] Cons.prems(1)
    obtain ss1 where "session_event env i ev ss = Some ss1" "list_all (\<lambda>x. good_outcome False env {} (snd x)) ss1" by auto
    with Session Cons.IH [of ss1] Cons.prems(1) show ?thesis by auto
  qed
qed simp

section \<open>Properties\<close>


text \<open>Two connections, whose events interleave; the first one negotiates \<open>h2\<close>, the second one does not and is deleted.\<close>

definition good_start :: start_env where
  "good_start = \<lparr>openssl3 = True, ctx_new = True, set_curves = 1, ec_key = True, use_private_key = \<lambda>_. 1, use_certificate = \<lambda>_. 1,
    resolve_service = \<lambda>_. (0, [False, True])\<rparr>"

definition quiet :: lib_run where
  "quiet = \<lparr>lib_callbacks = [], lib_fatal = False\<rparr>"

definition two_clients :: "(int \<Rightarrow> nat option) app_event list" where
  "two_clients = [Accept True None Map.empty, Accept True (Some (bytes ''::1'')) Map.empty, Session 1 (Ev_event True None quiet),
     Session 0 (Ev_event True (Some (bytes ''h2'')) quiet), Session 1 (Ev_write False False quiet)]"


text \<open>
  Client and server agree on \<open>h2\<close> by either extension: the client selects it from the list that the server advertises, and the server selects it from
  the list of the client; the server confirms a list exactly when it contains \<open>h2\<close>.
\<close>

lemma protocols_h2: "protocols next_proto_list = [bytes ''h2'']" "protocols client_alpn_protos = [bytes ''h2'']"
  by (simp_all add: next_proto_list_def NGHTTP2_PROTO_VERSION_ID_def client_alpn_protos_def bytes_simps)

theorem h2_negotiated:
  assumes "select_laws select"
  shows "select_next_proto_cb select (snd next_proto_cb) = Inr (SSL_TLSEXT_ERR_OK, bytes ''h2'')"
    and "alpn_select_proto_cb select client_alpn_protos = (SSL_TLSEXT_ERR_OK, bytes ''h2'')"
    and "fst (alpn_select_proto_cb select inp) = SSL_TLSEXT_ERR_OK \<longleftrightarrow> bytes ''h2'' \<in> set (protocols inp)"
proof -
  have sel: "select inp = (1, bytes ''h2'')" if "bytes ''h2'' \<in> set (protocols inp)" for inp
    using assms that unfolding select_laws_def by meson
  have out: "fst (select inp) \<in> {0, -1}" if "bytes ''h2'' \<notin> set (protocols inp)" for inp
    using assms that unfolding select_laws_def by meson
  show "select_next_proto_cb select (snd next_proto_cb) = Inr (SSL_TLSEXT_ERR_OK, bytes ''h2'')"
    "alpn_select_proto_cb select client_alpn_protos = (SSL_TLSEXT_ERR_OK, bytes ''h2'')"
    using sel by (simp_all add: select_next_proto_cb_def next_proto_cb_def alpn_select_proto_cb_def protocols_h2)
  show "fst (alpn_select_proto_cb select inp) = SSL_TLSEXT_ERR_OK \<longleftrightarrow> bytes ''h2'' \<in> set (protocols inp)"
    using sel [of inp] out [of inp]
    by (cases "bytes ''h2'' \<in> set (protocols inp)"; cases "select inp") (auto simp: alpn_select_proto_cb_def SSL_TLSEXT_ERR_OK_def SSL_TLSEXT_ERR_NOACK_def)
qed

text \<open>A selection that satisfies the laws.\<close>

definition select_h2 :: "u8 list \<Rightarrow> int \<times> u8 list" where
  "select_h2 inp = (if bytes ''h2'' \<in> set (protocols inp) then (1, bytes ''h2'') else (-1, []))"

lemma select_h2_laws: "select_laws select_h2"
  unfolding select_laws_def select_h2_def by simp

end
